(* ===== verification/Prelude.thy ===== *)
theory Prelude
  imports Main "HOL-Library.Word"
begin

text \<open>
  What every component of the model shares: the machine types of the C sources, the
  faults a C function can end in, the result monad that threads them, reads and writes
  of allocated objects with their bounds, C strings inside such objects, and the part
  of the C library (\<open>ctype.h\<close> in the "C" locale) the sources call.

  \<^item> An allocated object (a \<open>char\<close> array, a \<open>malloc\<close>ed block) is the list of its bytes;
    a pointer into it is an index. Reading or writing outside the list is the fault
    \<open>OutOfBounds\<close>, C's undefined behaviour made visible.
  \<^item> \<open>SWISH_CROAK\<close>, which prints its message and ends the process, is the fault \<open>Croak\<close>;
    \<open>NoReturn\<close> stands for a loop that never ends.
  \<^item> Sizes and indices (C \<open>int\<close>, \<open>size_t\<close>) are \<open>int\<close> or \<open>nat\<close>: objects are taken to be
    smaller than \<open>2 ^ 31\<close> bytes. Code points, bytes and every value the code computes
    with shifts are words of their C width.
\<close>

section \<open>Types\<close>

unbundle bit_operations_syntax

type_synonym u8 = "8 word"
type_synonym u32 = "32 word"

text \<open>The value of a C string: its bytes up to the terminating NUL, which is left out.\<close>
type_synonym bytes = "u8 list"

text \<open>An allocated object: all its bytes, terminators included.\<close>
type_synonym mem = "u8 list"

datatype fault =
    OutOfBounds
  | NullPointer
  | UseAfterFree
  | Croak string
  | ExitFailure
  | Aborted
  | NoReturn

type_synonym 'a res = "fault + 'a"

section \<open>Theorem collections\<close>

named_theorems res_simps \<open>evaluation of the result monad and of object accesses\<close>
named_theorems lib_laws \<open>what the code relies on of the library functions it calls\<close>

section \<open>The result monad\<close>

definition bnd :: "'a res \<Rightarrow> ('a \<Rightarrow> 'b res) \<Rightarrow> 'b res" where
  "bnd r f = (case r of Inl e \<Rightarrow> Inl e | Inr x \<Rightarrow> f x)"

lemma bnd_Inl [simp, res_simps]: "bnd (Inl e) f = Inl e"
  by (simp add: bnd_def)

lemma bnd_Inr [simp, res_simps]: "bnd (Inr x) f = f x"
  by (simp add: bnd_def)

lemma bnd_cong [fundef_cong]:
  assumes "r = r'" and "\<And>x. r' = Inr x \<Longrightarrow> f x = f' x"
  shows "bnd r f = bnd r' f'"
  using assms by (cases r') (auto simp: bnd_def)

lemma bnd_eq_Inr: "bnd r f = Inr y \<longleftrightarrow> (\<exists>x. r = Inr x \<and> f x = Inr y)"
  by (cases r) auto

lemma bnd_eq_Inl: "bnd r f = Inl e \<longleftrightarrow> r = Inl e \<or> (\<exists>x. r = Inr x \<and> f x = Inl e)"
  by (cases r) auto

lemma bnd_assoc: "bnd (bnd r f) g = bnd r (\<lambda>x. bnd (f x) g)"
  by (cases r) auto

lemma bnd_if: "bnd (if b then r else s) f = (if b then bnd r f else bnd s f)"
  by simp

text \<open>The first fault of a list of calls made in order, each from the state the last left.\<close>

fun fold_res :: "('a \<Rightarrow> 's \<Rightarrow> 's res) \<Rightarrow> 'a list \<Rightarrow> 's \<Rightarrow> 's res" where
  "fold_res f [] s = Inr s"
| "fold_res f (x # xs) s = bnd (f x s) (fold_res f xs)"

lemma fold_res_append:
  "fold_res f (xs @ ys) s = bnd (fold_res f xs s) (fold_res f ys)"
proof (induction xs arbitrary: s)
  case (Cons x xs)
  then have "fold_res f (xs @ ys) = (\<lambda>s. bnd (fold_res f xs s) (fold_res f ys))" by auto
  then show ?case by (simp add: bnd_assoc)
qed simp

lemma fold_res_invariant:
  assumes "fold_res f xs s = Inr t" and "P s"
    and "\<And>x s t. x \<in> set xs \<Longrightarrow> f x s = Inr t \<Longrightarrow> P s \<Longrightarrow> P t"
  shows "P t"
  using assms by (induction xs arbitrary: s) (auto simp: bnd_eq_Inr)

section \<open>Allocated objects\<close>

definition rd :: "'a list \<Rightarrow> int \<Rightarrow> 'a res" where
  "rd m i = (if 0 \<le> i \<and> i < int (length m) then Inr (m ! nat i) else Inl OutOfBounds)"

definition wr :: "'a list \<Rightarrow> int \<Rightarrow> 'a \<Rightarrow> 'a list res" where
  "wr m i v = (if 0 \<le> i \<and> i < int (length m) then Inr (m[nat i := v]) else Inl OutOfBounds)"

lemma rd_in [res_simps]: "i < length m \<Longrightarrow> rd m (int i) = Inr (m ! i)"
  by (simp add: rd_def)

lemma rd_out: "int (length m) \<le> i \<Longrightarrow> rd m i = Inl OutOfBounds"
  by (simp add: rd_def)

lemma rd_neg: "i < 0 \<Longrightarrow> rd m i = Inl OutOfBounds"
  by (simp add: rd_def)

lemma rd_append_at [simp]: "i = int (length xs) \<Longrightarrow> rd (xs @ y # ys) i = Inr y"
  by (simp add: rd_def)

lemma rd_append_next: "rd (xs @ x # y # ys) (int (length xs) + 1) = Inr y"
  by (simp add: rd_def nth_append nat_add_distrib)

lemma rd_append_left: "i < int (length xs) \<Longrightarrow> rd (xs @ ys) i = rd xs i"
  by (auto simp: rd_def nth_append nat_less_iff)

lemma rd_append_right:
  "int (length xs) \<le> i \<Longrightarrow> rd (xs @ ys) i = rd ys (i - int (length xs))"
  by (auto simp: rd_def nth_append nat_diff_distrib' nat_less_iff)

lemma rd_Inr_iff: "rd m i = Inr v \<longleftrightarrow> 0 \<le> i \<and> i < int (length m) \<and> m ! nat i = v"
  by (auto simp: rd_def)

lemma rd_Inr_nth: "rd m (int i) = Inr v \<Longrightarrow> i < length m \<and> m ! i = v"
  by (simp add: rd_Inr_iff)

lemma wr_in [res_simps]: "i < length m \<Longrightarrow> wr m (int i) v = Inr (m[i := v])"
  by (simp add: wr_def)

lemma wr_out: "int (length m) \<le> i \<Longrightarrow> wr m i v = Inl OutOfBounds"
  by (simp add: wr_def)

lemma length_wr: "wr m i v = Inr m' \<Longrightarrow> length m' = length m"
  by (auto simp: wr_def split: if_splits)

lemma wr_append_at: "i = int (length xs) \<Longrightarrow> wr (xs @ y # ys) i v = Inr (xs @ v # ys)"
  by (simp add: wr_def)

text \<open>\<open>realloc\<close> of an array to \<open>k\<close> elements; \<open>u\<close> marks an element never written.\<close>

definition realloc_fill :: "'a \<Rightarrow> nat \<Rightarrow> 'a list \<Rightarrow> 'a list" where
  "realloc_fill u k w = take k w @ replicate (k - length w) u"

lemma length_realloc [simp]: "length (realloc_fill u k w) = k"
  by (simp add: realloc_fill_def)

lemma take_realloc: "n \<le> length w \<Longrightarrow> n \<le> k \<Longrightarrow> take n (realloc_fill u k w) = take n w"
  by (simp add: realloc_fill_def min_def)

lemma wr_next:
  assumes "take n w = xs" and "length xs = n" and "n < length w"
  shows "\<exists>w'. wr w (int n) x = Inr w' \<and> take (Suc n) w' = xs @ [x] \<and> length w' = length w"
  using assms by (auto simp: wr_def take_Suc_conv_app_nth)

section \<open>C strings in objects\<close>

text \<open>
  \<open>cstr m p\<close>: the string at index \<open>p\<close> of the object \<open>m\<close>, its bytes up to the first NUL
  at or after \<open>p\<close>; a fault when the object ends first. \<open>nul_free\<close> says a list of bytes
  is the value of a C string, and \<open>cobj s\<close> is the smallest object that holds it.
\<close>

definition nul_free :: "bytes \<Rightarrow> bool" where
  "nul_free s \<longleftrightarrow> 0 \<notin> set s"

definition cobj :: "bytes \<Rightarrow> mem" where
  "cobj s = s @ [0]"

definition cstr :: "mem \<Rightarrow> int \<Rightarrow> bytes res" where
  "cstr m p =
     (if 0 \<le> p \<and> 0 \<in> set (drop (nat p) m)
      then Inr (takeWhile (\<lambda>c. c \<noteq> 0) (drop (nat p) m))
      else Inl OutOfBounds)"

lemma nul_free_Nil [simp]: "nul_free []"
  by (simp add: nul_free_def)

lemma nul_free_Cons [simp]: "nul_free (c # s) \<longleftrightarrow> c \<noteq> 0 \<and> nul_free s"
  by (auto simp: nul_free_def)

lemma nul_free_append [simp]: "nul_free (s @ t) \<longleftrightarrow> nul_free s \<and> nul_free t"
  by (auto simp: nul_free_def)

lemma nul_free_takeWhile [simp]: "nul_free (takeWhile (\<lambda>c. c \<noteq> 0) s)"
  by (auto simp: nul_free_def dest: set_takeWhileD)

lemma nul_free_sub: "nul_free s \<Longrightarrow> set t \<subseteq> set s \<Longrightarrow> nul_free t"
  by (auto simp: nul_free_def)

lemma takeWhile_nul: "nul_free s \<Longrightarrow> takeWhile (\<lambda>c. c \<noteq> 0) (s @ 0 # r) = s"
  by (induction s) auto

lemma takeWhile_nul_free: "nul_free s \<Longrightarrow> takeWhile (\<lambda>c. c \<noteq> 0) s = s"
  by (induction s) auto

lemma cstr_cobj [simp]: "nul_free s \<Longrightarrow> cstr (cobj s) 0 = Inr s"
  by (simp add: cstr_def cobj_def takeWhile_nul)

lemma cstr_at:
  assumes "nul_free s"
  shows "cstr (pre @ s @ 0 # r) (int (length pre)) = Inr s"
  using assms by (simp add: cstr_def takeWhile_nul)

lemma cstr_nul_free: "cstr m p = Inr s \<Longrightarrow> nul_free s"
  by (auto simp: cstr_def split: if_splits)

section \<open>The C library: \<open>ctype.h\<close>\<close>

text \<open>
  In the "C" locale, and in every UTF-8 locale, a byte above 127 is in none of these
  classes; \<open>swish_verify_utf8_locale\<close> makes the locale a UTF-8 one.
\<close>

definition isspace :: "u8 \<Rightarrow> bool" where
  "isspace c \<longleftrightarrow> c = 32 \<or> (9 \<le> c \<and> c \<le> 13)"

definition iscntrl :: "u8 \<Rightarrow> bool" where
  "iscntrl c \<longleftrightarrow> c < 32 \<or> c = 127"

definition ispunct :: "u8 \<Rightarrow> bool" where
  "ispunct c \<longleftrightarrow> (33 \<le> c \<and> c \<le> 47) \<or> (58 \<le> c \<and> c \<le> 64) \<or> (91 \<le> c \<and> c \<le> 96) \<or>
     (123 \<le> c \<and> c \<le> 126)"

definition tolower :: "u8 \<Rightarrow> u8" where
  "tolower c = (if 65 \<le> c \<and> c \<le> 90 then c + 32 else c)"

text \<open>The bytes of a literal of the source.\<close>

definition lit :: "string \<Rightarrow> bytes" where
  "lit s = map of_char s"

lemma lit_Nil [simp]: "lit [] = []"
  by (simp add: lit_def)

lemma lit_Cons [simp]: "lit (c # s) = of_char c # lit s"
  by (simp add: lit_def)

lemma isspace_0 [simp]: "\<not> isspace 0"
  by (simp add: isspace_def)

lemma tolower_0_iff [simp]: "tolower c = 0 \<longleftrightarrow> c = 0"
proof
  assume *: "tolower c = 0"
  show "c = 0"
  proof (cases "65 \<le> c \<and> c \<le> 90")
    case True
    then have "97 \<le> unat (c + 32)"
      by (simp add: word_le_nat_alt unat_word_ariths)
    with True * show ?thesis by (simp add: tolower_def)
  next
    case False
    with * show ?thesis by (auto simp: tolower_def)
  qed
qed (simp add: tolower_def)

lemma tolower_0 [simp]: "tolower 0 = 0"
  by simp

lemma unat_tolower: "unat (tolower c) = (if 65 \<le> unat c \<and> unat c \<le> 90 then unat c + 32 else unat c)"
  by (auto simp: tolower_def word_le_nat_alt unat_word_ariths)

lemma tolower_idem [simp]: "tolower (tolower c) = tolower c"
  by (rule word_unat_eq_iff [THEN iffD2]) (simp add: unat_tolower)

lemma tolower_ascii: "c < 128 \<Longrightarrow> tolower c < 128"
  by (simp add: word_less_nat_alt unat_tolower)

section \<open>Lists\<close>

lemma nth_tl_Cons: "i < length xs \<Longrightarrow> drop i xs = xs ! i # drop (Suc i) xs"
  by (simp add: Cons_nth_drop_Suc)

lemma dropWhile_hd: "dropWhile P xs = y # ys \<Longrightarrow> \<not> P y"
  using hd_dropWhile [of P xs] by auto

end
