(* ===== verification/Utf8.thy ===== *)
theory Utf8
  imports Prelude
begin

text \<open>
  \<open>src/libswish3/utf8.c\<close>, the UTF-8 routines the string functions are built on: the
  encoder and the decoder, stepping by characters, counting, escape sequences, searching,
  validation and reversal. Strings are objects (\<open>mem\<close>) read through \<open>rd\<close>, so that every
  read past a terminator is a fault; a \<open>char *\<close> argument is the object from that pointer on.
  Plain \<open>char\<close> is signed, as on the platforms the library is built for.
\<close>

section \<open>Tables\<close>

definition isutf :: "u8 \<Rightarrow> bool" where
  "isutf c \<longleftrightarrow> c AND 0xC0 \<noteq> 0x80"

definition offsetsFromUTF8 :: "u32 list" where
  "offsetsFromUTF8 = [0x00000000, 0x00003080, 0x000E2080, 0x03C82080, 0xFA082080, 0x82082080]"

definition trailingBytesForUTF8 :: "int list" where
  "trailingBytesForUTF8 =
     replicate 192 0 @ replicate 32 1 @ replicate 16 2 @ replicate 8 3 @ replicate 4 4 @
     replicate 4 5"

definition trailing :: "u8 \<Rightarrow> int res" where
  "trailing c = rd trailingBytesForUTF8 (uint c)"

definition u8_seqlen :: "mem \<Rightarrow> int res" where
  "u8_seqlen s = bnd (rd s 0) (\<lambda>c. bnd (trailing c) (\<lambda>n. Inr (n + 1)))"

section \<open>Encoding\<close>

definition u8_charlen :: "u32 \<Rightarrow> nat" where
  "u8_charlen ch =
     (if ch < 0x80 then 1
      else if ch < 0x800 then 2
      else if ch < 0x10000 then 3
      else if ch < 0x110000 then 4
      else 0)"

function u8_codingsize_loop :: "u32 list \<Rightarrow> int \<Rightarrow> int \<Rightarrow> nat \<Rightarrow> nat res" where
  "u8_codingsize_loop wcstr n i c =
     (if i < n then bnd (rd wcstr i) (\<lambda>ch. u8_codingsize_loop wcstr n (i + 1) (c + u8_charlen ch))
      else Inr c)"
  by pat_completeness auto
termination
  by (relation "measure (\<lambda>(w, n, i, c). nat (n - i))") auto

definition u8_codingsize :: "u32 list \<Rightarrow> int \<Rightarrow> nat res" where
  "u8_codingsize wcstr n = u8_codingsize_loop wcstr n 0 0"

text \<open>The bytes stored to \<open>dest\<close>; their number is the value returned.\<close>

definition u8_wc_toutf8 :: "u32 \<Rightarrow> bytes" where
  "u8_wc_toutf8 ch =
     (if ch < 0x80 then [ucast ch]
      else if ch < 0x800 then
        [ucast (drop_bit 6 ch OR 0xC0), ucast ((ch AND 0x3F) OR 0x80)]
      else if ch < 0x10000 then
        [ucast (drop_bit 12 ch OR 0xE0), ucast ((drop_bit 6 ch AND 0x3F) OR 0x80),
         ucast ((ch AND 0x3F) OR 0x80)]
      else if ch < 0x110000 then
        [ucast (drop_bit 18 ch OR 0xF0), ucast ((drop_bit 12 ch AND 0x3F) OR 0x80),
         ucast ((drop_bit 6 ch AND 0x3F) OR 0x80), ucast ((ch AND 0x3F) OR 0x80)]
      else [])"

text \<open>
  \<open>dest\<close> is an object of \<open>sz\<close> bytes; the result is what has been stored at its start (the
  terminator included, when there is room for it) and the number of characters converted.
\<close>

function u8_toutf8_loop :: "int \<Rightarrow> u32 list \<Rightarrow> int \<Rightarrow> int \<Rightarrow> bytes \<Rightarrow> (bytes \<times> int) res" where
  "u8_toutf8_loop sz src srcsz i out =
     bnd (if srcsz < 0 then bnd (rd src i) (\<lambda>c. Inr (c \<noteq> 0)) else Inr (i < srcsz)) (\<lambda>go.
       if go then
         bnd (rd src i) (\<lambda>ch.
           let room = sz - int (length out) in
           if ch < 0x80 then
             (if room \<le> 0 then Inr (out, i)
              else u8_toutf8_loop sz src srcsz (i + 1) (out @ [ucast ch]))
           else if ch < 0x800 then
             (if room - 1 \<le> 0 then Inr (out, i)
              else u8_toutf8_loop sz src srcsz (i + 1)
                     (out @ [ucast (drop_bit 6 ch OR 0xC0), ucast ((ch AND 0x3F) OR 0x80)]))
           else if ch < 0x10000 then
             (if room - 2 \<le> 0 then Inr (out, i)
              else u8_toutf8_loop sz src srcsz (i + 1)
                     (out @ [ucast (drop_bit 12 ch OR 0xE0),
                             ucast ((drop_bit 6 ch AND 0x3F) OR 0x80),
                             ucast ((ch AND 0x3F) OR 0x80)]))
           else if ch < 0x110000 then
             (if room - 3 \<le> 0 then Inr (out, i)
              else u8_toutf8_loop sz src srcsz (i + 1)
                     (out @ [ucast (drop_bit 18 ch OR 0xF0),
                             ucast ((drop_bit 12 ch AND 0x3F) OR 0x80),
                             ucast ((drop_bit 6 ch AND 0x3F) OR 0x80),
                             ucast ((ch AND 0x3F) OR 0x80)]))
           else u8_toutf8_loop sz src srcsz (i + 1) out)
       else Inr (if int (length out) < sz then out @ [0] else out, i))"
  by pat_completeness auto
termination
  by (relation "measure (\<lambda>(sz, src, srcsz, i, out). nat (int (length src) - i))")
    (auto simp: rd_Inr_iff)

definition u8_toutf8 :: "int \<Rightarrow> u32 list \<Rightarrow> int \<Rightarrow> (bytes \<times> int) res" where
  "u8_toutf8 sz src srcsz = u8_toutf8_loop sz src srcsz 0 []"

section \<open>Decoding\<close>

text \<open>
  The \<open>switch\<close> whose cases fall through: \<open>k\<close> more bytes after this one. A lead byte of a
  5- or 6-byte sequence has no case: nothing is read and the pointer does not move.
\<close>

fun toucs_fall :: "mem \<Rightarrow> nat \<Rightarrow> u32 \<Rightarrow> int \<Rightarrow> (u32 \<times> int) res" where
  "toucs_fall src 0 ch p = bnd (rd src p) (\<lambda>b. Inr (ch + ucast b, p + 1))"
| "toucs_fall src (Suc k) ch p =
     bnd (rd src p) (\<lambda>b. toucs_fall src k (push_bit 6 (ch + ucast b)) (p + 1))"

definition toucs_switch :: "mem \<Rightarrow> int \<Rightarrow> int \<Rightarrow> (u32 \<times> int) res" where
  "toucs_switch src nb p = (if nb \<le> 3 then toucs_fall src (nat nb) 0 p else Inr (0, p))"

function u8_toucs_loop :: "int \<Rightarrow> mem \<Rightarrow> int \<Rightarrow> int \<Rightarrow> u32 list \<Rightarrow> u32 list res" where
  "u8_toucs_loop sz src srcsz p dest =
     (if int (length dest) < sz - 1 then
        bnd (rd src p) (\<lambda>b.
        bnd (trailing b) (\<lambda>nb.
          if (if srcsz = -1 then b = 0 else srcsz \<le> p + nb) then Inr dest
          else
            bnd (toucs_switch src nb p) (\<lambda>(ch, p').
            bnd (rd offsetsFromUTF8 nb) (\<lambda>off.
              u8_toucs_loop sz src srcsz p' (dest @ [ch - off])))))
      else Inr dest)"
  by pat_completeness auto
termination
  by (relation "measure (\<lambda>(sz, src, srcsz, p, dest). nat (sz - 1 - int (length dest)))") auto

text \<open>\<open>dest\<close> is an object of \<open>sz\<close> wide characters: with none, storing the terminator faults.\<close>

definition u8_toucs :: "int \<Rightarrow> mem \<Rightarrow> int \<Rightarrow> (u32 list \<times> int) res" where
  "u8_toucs sz src srcsz =
     bnd (u8_toucs_loop sz src srcsz 0 []) (\<lambda>dest.
       if int (length dest) < sz then Inr (dest @ [0], int (length dest)) else Inl OutOfBounds)"

function u8_nextchar_loop :: "mem \<Rightarrow> int \<Rightarrow> u32 \<Rightarrow> int \<Rightarrow> (u32 \<times> int) res" where
  "u8_nextchar_loop s i ch sz =
     bnd (rd s i) (\<lambda>b.
       let ch' = push_bit 6 ch + ucast b in
       bnd (rd s (i + 1)) (\<lambda>n.
         if n \<noteq> 0 \<and> \<not> isutf n then u8_nextchar_loop s (i + 1) ch' (sz + 1)
         else bnd (rd offsetsFromUTF8 sz) (\<lambda>off. Inr (ch' - off, i + 1))))"
  by pat_completeness auto
termination
  by (relation "measure (\<lambda>(s, i, ch, sz). nat (int (length s) - i))") (auto simp: rd_Inr_iff)

declare u8_nextchar_loop.simps [simp del] u8_toucs_loop.simps [simp del]
  u8_toutf8_loop.simps [simp del] u8_codingsize_loop.simps [simp del]

definition u8_nextchar :: "mem \<Rightarrow> int \<Rightarrow> (u32 \<times> int) res" where
  "u8_nextchar s i = u8_nextchar_loop s i 0 0"

lemma u8_nextchar_loop_advances:
  "u8_nextchar_loop s i ch sz = Inr (c, j) \<Longrightarrow> 0 \<le> i \<and> i < j \<and> j < int (length s)"
proof (induction s i ch sz rule: u8_nextchar_loop.induct)
  case (1 s i ch sz)
  from "1.prems" obtain b n where b: "rd s i = Inr b" and n: "rd s (i + 1) = Inr n"
    by (auto simp: u8_nextchar_loop.simps [of s i] bnd_eq_Inr Let_def)
  show ?case
  proof (cases "n \<noteq> 0 \<and> \<not> isutf n")
    case True
    with "1.IH" [OF b refl n] "1.prems" b n show ?thesis
      by (fastforce simp: u8_nextchar_loop.simps [of s i] rd_Inr_iff)
  next
    case False
    with "1.prems" b n show ?thesis
      by (auto simp: u8_nextchar_loop.simps [of s i] bnd_eq_Inr rd_Inr_iff)
  qed
qed

lemma u8_nextchar_advances:
  "u8_nextchar s i = Inr (c, j) \<Longrightarrow> 0 \<le> i \<and> i < j \<and> j < int (length s)"
  unfolding u8_nextchar_def by (rule u8_nextchar_loop_advances)

section \<open>Stepping and counting\<close>

definition u8_inc :: "mem \<Rightarrow> int \<Rightarrow> int res" where
  "u8_inc s i =
     bnd (rd s (i + 1)) (\<lambda>a. if isutf a then Inr (i + 1) else
     bnd (rd s (i + 2)) (\<lambda>b. if isutf b then Inr (i + 2) else
     bnd (rd s (i + 3)) (\<lambda>c. if isutf c then Inr (i + 3) else Inr (i + 4))))"

definition u8_dec :: "mem \<Rightarrow> int \<Rightarrow> int res" where
  "u8_dec s i =
     bnd (rd s (i - 1)) (\<lambda>a. if isutf a then Inr (i - 1) else
     bnd (rd s (i - 2)) (\<lambda>b. if isutf b then Inr (i - 2) else
     bnd (rd s (i - 3)) (\<lambda>c. if isutf c then Inr (i - 3) else Inr (i - 4))))"

lemma u8_inc_advances: "u8_inc s i = Inr j \<Longrightarrow> i < j"
  by (auto simp: u8_inc_def bnd_eq_Inr split: if_splits)

lemma u8_dec_retreats: "u8_dec s i = Inr j \<Longrightarrow> j < i"
  by (auto simp: u8_dec_def bnd_eq_Inr split: if_splits)

text \<open>
  The bodies of the next two loops hold the expression of \<open>u8_inc\<close>, on their own offset.
\<close>

function u8_offset_loop :: "mem \<Rightarrow> int \<Rightarrow> int \<Rightarrow> int res" where
  "u8_offset_loop str charnum offs =
     (if charnum > 0 then
        bnd (rd str offs) (\<lambda>c.
          if c \<noteq> 0 then bnd (u8_inc str offs) (u8_offset_loop str (charnum - 1))
          else Inr offs)
      else Inr offs)"
  by pat_completeness auto
termination
  by (relation "measure (\<lambda>(str, charnum, offs). nat charnum)") auto

definition u8_offset :: "mem \<Rightarrow> int \<Rightarrow> int res" where
  "u8_offset str charnum = u8_offset_loop str charnum 0"

function u8_charnum_loop :: "mem \<Rightarrow> int \<Rightarrow> int \<Rightarrow> int \<Rightarrow> int res" where
  "u8_charnum_loop s offset offs charnum =
     (if offs < offset then
        bnd (rd s offs) (\<lambda>c.
          if c \<noteq> 0 then bnd (u8_inc s offs) (\<lambda>offs'. u8_charnum_loop s offset offs' (charnum + 1))
          else Inr charnum)
      else Inr charnum)"
  by pat_completeness auto
termination
  by (relation "measure (\<lambda>(s, offset, offs, charnum). nat (offset - offs))")
    (auto dest: u8_inc_advances)

definition u8_charnum :: "mem \<Rightarrow> int \<Rightarrow> int res" where
  "u8_charnum s offset = u8_charnum_loop s offset 0 0"

function u8_strlen_loop :: "mem \<Rightarrow> int \<Rightarrow> int \<Rightarrow> int res" where
  "u8_strlen_loop s i count =
     bnd (u8_nextchar s i) (\<lambda>(ch, i').
       if ch \<noteq> 0 then u8_strlen_loop s i' (count + 1) else Inr count)"
  by pat_completeness auto
termination
  by (relation "measure (\<lambda>(s, i, count). nat (int (length s) - i))")
    (auto dest: u8_nextchar_advances)

definition u8_strlen :: "mem \<Rightarrow> int res" where
  "u8_strlen s = u8_strlen_loop s 0 0"

declare u8_offset_loop.simps [simp del] u8_charnum_loop.simps [simp del]
  u8_strlen_loop.simps [simp del]

end
