(* ===== verification/Utf8_Codec.thy ===== *)
theory Utf8_Codec
  imports Utf8
begin

text \<open>
  What the encoder and the decoder of \<open>Utf8\<close> compute, over code points read as natural
  numbers: the bytes of an encoded character, the character read back by \<open>u8_nextchar\<close>, and
  the stepping, counting and conversion of whole strings \<open>encs chs\<close>.
\<close>

section \<open>Words as numbers\<close>

lemma or_push_bit_nat: "m < 2 ^ k \<Longrightarrow> m OR push_bit k c = m + push_bit k c" for m c :: nat
proof -
  assume "m < 2 ^ k"
  then have m: "take_bit k m = m" by (simp add: take_bit_nat_eq_self)
  have "take_bit k m AND push_bit k c = 0"
    by (rule bit_eqI) (auto simp: bit_simps)
  with m show ?thesis by (simp add: disjunctive_add_eq_or)
qed

lemma or_const_nat:
  "m < 32 \<Longrightarrow> m OR 192 = m + 192" "m < 16 \<Longrightarrow> m OR 224 = m + 224" "m < 8 \<Longrightarrow> m OR 240 = m + 240"
  "m < 64 \<Longrightarrow> m OR 128 = m + 128" for m :: nat
  using or_push_bit_nat [of m 5 6] or_push_bit_nat [of m 4 14] or_push_bit_nat [of m 3 30]
    or_push_bit_nat [of m 6 2]
  by (simp_all add: push_bit_eq_mult)

lemma and_63_nat: "n AND 63 = n mod 64" for n :: nat
  using take_bit_eq_mask [of 6 n] by (simp add: take_bit_eq_mod mask_eq_exp_minus_1)

definition byte :: "nat \<Rightarrow> u8" where "byte n = of_nat n"

lemma unat_byte: "n < 256 \<Longrightarrow> unat (byte n) = n" by (simp add: byte_def unat_of_nat take_bit_nat_eq_self)

lemma ucast_eq_byte: "ucast (x :: u32) = byte (unat x)"
  by (simp add: byte_def)

lemma lead_byte:
  "unat ch < 0x800 \<Longrightarrow> ucast (drop_bit 6 ch OR 0xC0) = byte (unat ch div 64 + 192)"
  "unat ch < 0x10000 \<Longrightarrow> ucast (drop_bit 12 ch OR 0xE0) = byte (unat ch div 4096 + 224)"
  "unat ch < 0x110000 \<Longrightarrow> ucast (drop_bit 18 ch OR 0xF0) = byte (unat ch div 262144 + 240)" for ch :: u32
  by (simp_all add: ucast_eq_byte unsigned_or_eq unat_drop_bit_eq drop_bit_eq_div unat_div or_const_nat)

lemma cont_byte:
  "ucast ((ch AND 0x3F) OR 0x80) = byte (unat ch mod 64 + 128)" 
  "ucast ((drop_bit 6 ch AND 0x3F) OR 0x80) = byte (unat ch div 64 mod 64 + 128)"
  "ucast ((drop_bit 12 ch AND 0x3F) OR 0x80) = byte (unat ch div 4096 mod 64 + 128)" for ch :: u32
  by (simp_all add: ucast_eq_byte unsigned_or_eq unsigned_and_eq unat_drop_bit_eq drop_bit_eq_div unat_div and_63_nat or_const_nat)



lemma unat_u8: "unat (c :: u8) < 256"
  using unsigned_less [of c] by simp

lemma uint_u8: "uint (c :: u8) < 256"
  using unsigned_less [of c] by simp

lemma and_192_nat: "n < 256 \<Longrightarrow> n AND 192 = n div 64 * 64" for n :: nat
proof -
  assume "n < 256"
  then have "take_bit 8 n = n" by (simp add: take_bit_nat_eq_self)
  moreover have "take_bit 8 n AND push_bit 6 (mask 2) = push_bit 6 (drop_bit 6 (take_bit 8 n))"
    by (rule bit_eqI) (auto simp: bit_simps)
  ultimately show ?thesis by (simp add: push_bit_eq_mult drop_bit_eq_div mask_eq_exp_minus_1)
qed


lemma div_64_eq_2: "n div 64 * 64 = 128 \<longleftrightarrow> 128 \<le> n \<and> n < 192" for n :: nat
proof -
  define q r where "q = n div 64" and "r = n mod 64"
  have "n = 64 * q + r" and "r < 64" unfolding q_def r_def by simp_all
  then show ?thesis unfolding q_def [symmetric] by auto
qed

lemma isutf_unat: "isutf c \<longleftrightarrow> \<not> (128 \<le> unat c \<and> unat c < 192)"
proof -
  have "unat (c AND 0xC0) = unat c div 64 * 64"
    using unat_u8 [of c] by (simp add: unsigned_and_eq and_192_nat)
  then have "isutf c \<longleftrightarrow> unat c div 64 * 64 \<noteq> 128"
    by (simp add: isutf_def word_unat_eq_iff)
  then show ?thesis by (simp add: div_64_eq_2)
qed

definition trailing_nat :: "nat \<Rightarrow> int" where
  "trailing_nat n = (if n < 192 then 0 else if n < 224 then 1
  else if n < 240 then 2 else if n < 248 then 3 else if n < 252 then 4 else 5)"

lemma trailingBytes_nth: "n < 256 \<Longrightarrow> trailingBytesForUTF8 ! n = trailing_nat n"
proof -
  assume n: "n < 256"
  have r: "replicate 4 (5::int) ! k = 5" if "k < 4" for k using that by (rule nth_replicate)
  show ?thesis unfolding trailingBytesForUTF8_def trailing_nat_def using n
    by (auto simp: nth_append r)
qed

lemma trailing_unat: "trailing c = Inr (trailing_nat (unat c))"
  using unat_u8 [of c] uint_u8 [of c]
  by (simp add: trailing_def rd_def trailingBytes_nth [symmetric] trailingBytesForUTF8_def)


lemma rd_Cons: "rd (x # xs) i = (if i = 0 then Inr x else rd xs (i - 1))"
proof (cases "0 < i")
  case True
  then have "nat i = Suc (nat (i - 1))" by simp
  with True show ?thesis by (auto simp: rd_def)
qed (auto simp: rd_def)

lemma rd_pre: "0 \<le> k \<Longrightarrow> rd (pre @ xs) (int (length pre) + k) = rd xs k"
  by (simp add: rd_append_right)

definition lead_ok :: "u8 list \<Rightarrow> bool" where
  "lead_ok r \<longleftrightarrow> (case r of [] \<Rightarrow> False | c # _ \<Rightarrow> c = 0 \<or> isutf c)"

lemma u8_wc_toutf8_byte:
  "u8_wc_toutf8 ch =
     (let n = unat ch in
      if n < 0x80 then [byte n]
      else if n < 0x800 then [byte (n div 64 + 192), byte (n mod 64 + 128)]
      else if n < 0x10000 then
        [byte (n div 4096 + 224), byte (n div 64 mod 64 + 128), byte (n mod 64 + 128)]
      else if n < 0x110000 then
        [byte (n div 262144 + 240), byte (n div 4096 mod 64 + 128),
         byte (n div 64 mod 64 + 128), byte (n mod 64 + 128)]
      else [])"
  unfolding u8_wc_toutf8_def Let_def
  by (simp add: word_less_nat_alt lead_byte ucast_eq_byte [of ch])
    (simp add: cont_byte unat_drop_bit_eq drop_bit_eq_div unat_div)

lemma ucast_byte: "n < 256 \<Longrightarrow> (ucast (byte n) :: u32) = of_nat n"
  by (rule word_unat_eq_iff [THEN iffD2]) (simp add: unat_byte unat_of_nat unsigned_ucast_eq take_bit_nat_eq_self)

lemma isutf_byte: "n < 256 \<Longrightarrow> isutf (byte n) \<longleftrightarrow> \<not> (128 \<le> n \<and> n < 192)"
  by (simp add: isutf_unat unat_byte)

lemma byte_0_iff: "n < 256 \<Longrightarrow> byte n = 0 \<longleftrightarrow> n = 0"
  by (simp add: word_unat_eq_iff unat_byte)

lemma u8_nextchar_loop_shift:
  "0 \<le> i \<Longrightarrow> u8_nextchar_loop (pre @ s) (int (length pre) + i) ch sz =
     bnd (u8_nextchar_loop s i ch sz) (\<lambda>(c, j). Inr (c, int (length pre) + j))"
proof (induction s i ch sz rule: u8_nextchar_loop.induct)
  case (1 s i ch sz)
  have r: "rd (pre @ s) (int (length pre) + i) = rd s i"
    "rd (pre @ s) (int (length pre) + (i + 1)) = rd s (i + 1)"
    using "1.prems" rd_pre [of i pre s] rd_pre [of "i + 1" pre s] by (simp_all add: add.assoc)
  show ?case
  proof (cases "\<exists>b n. rd s i = Inr b \<and> rd s (i + 1) = Inr n")
    case True
    then obtain b n where bn: "rd s i = Inr b" "rd s (i + 1) = Inr n" by blast
    have *: "u8_nextchar_loop (pre @ s) (int (length pre) + (i + 1)) (push_bit 6 ch + ucast b) (sz + 1) =
      bnd (u8_nextchar_loop s (i + 1) (push_bit 6 ch + ucast b) (sz + 1)) (\<lambda>(c, j). Inr (c, int (length pre) + j))"
      if "n \<noteq> 0 \<and> \<not> isutf n"
      using "1.IH" [OF bn(1) refl bn(2) that] "1.prems" by (simp add: add.assoc)
    show ?thesis
      unfolding u8_nextchar_loop.simps [of "pre @ s" "int (length pre) + i"] u8_nextchar_loop.simps [of s i]
      by (simp add: r bn * Let_def bnd_assoc add.assoc)
  next
    case False
    then show ?thesis
      unfolding u8_nextchar_loop.simps [of "pre @ s" "int (length pre) + i"] u8_nextchar_loop.simps [of s i] r
      by (cases "rd s i"; cases "rd s (i + 1)") (auto simp: Let_def add.assoc r)
  qed
qed

lemma offsets_rd:
  "rd offsetsFromUTF8 0 = Inr (of_nat 0)" "rd offsetsFromUTF8 1 = Inr (of_nat 0x3080)"
  "rd offsetsFromUTF8 2 = Inr (of_nat 0xE2080)" "rd offsetsFromUTF8 3 = Inr (of_nat 0x3C82080)"
  by (simp_all add: offsetsFromUTF8_def rd_Cons)


text \<open>Decoding with the accumulator read as a natural number.\<close>

lemma nextchar_acc: "k < 256 \<Longrightarrow> push_bit 6 (of_nat m) + ucast (byte k) = (of_nat (64 * m + k) :: u32)"
  by (simp add: ucast_byte push_bit_eq_mult)

lemma nextchar_more:
  assumes "rd s i = Inr (byte k)" and "rd s (i + 1) = Inr (byte d)" and "k < 256"
    and "128 \<le> d" and "d < 192"
  shows "u8_nextchar_loop s i (of_nat m) sz = u8_nextchar_loop s (i + 1) (of_nat (64 * m + k)) (sz + 1)"
  using assms by (subst u8_nextchar_loop.simps)
    (simp add: isutf_byte byte_0_iff nextchar_acc del: of_nat_add of_nat_mult)

lemma nextchar_last:
  assumes "rd s i = Inr (byte k)" and "rd s (i + 1) = Inr c" and "k < 256" and "c = 0 \<or> isutf c"
    and "rd offsetsFromUTF8 sz = Inr (of_nat off)" and "off \<le> 64 * m + k"
  shows "u8_nextchar_loop s i (of_nat m) sz = Inr (of_nat (64 * m + k - off), i + 1)"
  using assms by (subst u8_nextchar_loop.simps)
    (auto simp add: nextchar_acc of_nat_diff simp del: of_nat_add of_nat_mult)

lemma n4: "n = 4096 * (n div 4096) + 64 * (n div 64 mod 64) + n mod 64" for n :: nat
proof -
  have "n = 64 * (n div 64) + n mod 64" by simp
  also have "n div 64 = 64 * (n div 64 div 64) + n div 64 mod 64" by simp
  finally show ?thesis by (simp add: div_mult2_eq [symmetric] algebra_simps)
qed

lemma n5: "n = 262144 * (n div 262144) + 4096 * (n div 4096 mod 64) + 64 * (n div 64 mod 64) + n mod 64" for n :: nat
proof -
  have "n div 4096 = 64 * (n div 4096 div 64) + n div 4096 mod 64" by simp
  with n4 [of n] show ?thesis by (simp add: div_mult2_eq [symmetric] algebra_simps)
qed


lemma lead_okE:
  assumes "lead_ok r" obtains c t where "r = c # t" and "c = 0 \<or> isutf c"
  using assms by (auto simp: lead_ok_def split: list.splits)

lemma nextchar_1:
  assumes "k < 128" and "lead_ok r"
  shows "u8_nextchar_loop (byte k # r) 0 (of_nat 0) 0 = Inr (of_nat k, 1)"
proof -
  from assms(2) obtain c t where "r = c # t" "c = 0 \<or> isutf c" by (rule lead_okE)
  with assms(1) show ?thesis
    by (subst nextchar_last [where k = k and c = c and off = 0]) (simp_all add: rd_Cons offsets_rd)
qed

lemma nextchar_2:
  assumes "k < 256" and "128 \<le> d" "d < 192" and "0x3080 \<le> 64 * k + d" and "lead_ok r"
  shows "u8_nextchar_loop (byte k # byte d # r) 0 (of_nat 0) 0 = Inr (of_nat (64 * k + d - 0x3080), 2)"
proof -
  from assms(5) obtain c t where "r = c # t" "c = 0 \<or> isutf c" by (rule lead_okE)
  with assms(1-4) show ?thesis
    by (subst nextchar_more [where k = k and d = d], simp_all add: rd_Cons del: of_nat_0)
      (subst nextchar_last [where k = d and c = c and off = "0x3080"],
       simp_all add: rd_Cons offsets_rd)
qed

lemma nextchar_3:
  assumes "k < 256" and "128 \<le> d" "d < 192" and "128 \<le> e" "e < 192"
    and "0xE2080 \<le> 64 * (64 * k + d) + e" and "lead_ok r"
  shows "u8_nextchar_loop (byte k # byte d # byte e # r) 0 (of_nat 0) 0 =
    Inr (of_nat (64 * (64 * k + d) + e - 0xE2080), 3)"
proof -
  from assms(7) obtain c t where "r = c # t" "c = 0 \<or> isutf c" by (rule lead_okE)
  with assms(1-6) show ?thesis
    by (subst nextchar_more [where k = k and d = d], simp_all add: rd_Cons del: of_nat_0 of_nat_mult of_nat_add)
      (subst nextchar_more [where k = d and d = e], simp_all add: rd_Cons del: of_nat_mult of_nat_add,
       subst nextchar_last [where k = e and c = c and off = "0xE2080"],
       simp_all add: rd_Cons offsets_rd)
qed

lemma nextchar_4:
  assumes "k < 256" and "128 \<le> d" "d < 192" and "128 \<le> e" "e < 192" and "128 \<le> f" "f < 192"
    and "0x3C82080 \<le> 64 * (64 * (64 * k + d) + e) + f" and "lead_ok r"
  shows "u8_nextchar_loop (byte k # byte d # byte e # byte f # r) 0 (of_nat 0) 0 =
    Inr (of_nat (64 * (64 * (64 * k + d) + e) + f - 0x3C82080), 4)"
proof -
  from assms(9) obtain c t where "r = c # t" "c = 0 \<or> isutf c" by (rule lead_okE)
  with assms(1-8) show ?thesis
    by (subst nextchar_more [where k = k and d = d], simp_all add: rd_Cons del: of_nat_0 of_nat_mult of_nat_add)
      (subst nextchar_more [where k = d and d = e], simp_all add: rd_Cons del: of_nat_mult of_nat_add,
       subst nextchar_more [where k = e and d = f], simp_all add: rd_Cons del: of_nat_mult of_nat_add,
       subst nextchar_last [where k = f and c = c and off = "0x3C82080"],
       simp_all add: rd_Cons offsets_rd)
qed

lemma u8_nextchar_enc0:
  assumes "ch < 0x110000" and "lead_ok r"
  shows "u8_nextchar_loop (u8_wc_toutf8 ch @ r) 0 (of_nat 0) 0 = Inr (ch, int (length (u8_wc_toutf8 ch)))"
proof -
  define n where "n = unat ch"
  have n: "n < 0x110000" using assms(1) by (simp add: n_def word_less_nat_alt)
  have ch: "ch = of_nat n" unfolding n_def by simp
  note enc = u8_wc_toutf8_byte [of ch, folded n_def, unfolded Let_def]
  consider "n < 0x80" | "0x80 \<le> n" "n < 0x800" | "0x800 \<le> n" "n < 0x10000" | "0x10000 \<le> n"
    by linarith
  then show ?thesis
  proof cases
    case 1
    with nextchar_1 [OF 1 assms(2)] show ?thesis by (simp add: enc ch [symmetric])
  next
    case 2
    then have b: "n div 64 + 192 < 256" by simp
    have eq: "64 * (n div 64 + 192) + (n mod 64 + 128) = n + 0x3080" by simp
    show ?thesis
      using 2 nextchar_2 [OF b _ _ _ assms(2), of "n mod 64 + 128", unfolded eq] by (simp add: enc ch [symmetric])
  next
    case 3
    then have b: "n div 4096 + 224 < 256" by simp
    have eq: "64 * (64 * (n div 4096 + 224) + (n div 64 mod 64 + 128)) + (n mod 64 + 128) = n + 0xE2080"
      using n4 [of n] by simp
    show ?thesis
      using 3 nextchar_3 [OF b _ _ _ _ _ assms(2), of "n div 64 mod 64 + 128" "n mod 64 + 128", unfolded eq]
      by (simp add: enc ch [symmetric])
  next
    case 4
    with n have b: "n div 262144 + 240 < 256" by simp
    have eq: "64 * (64 * (64 * (n div 262144 + 240) + (n div 4096 mod 64 + 128)) + (n div 64 mod 64 + 128)) + (n mod 64 + 128) = n + 0x3C82080"
      using n5 [of n] by simp
    show ?thesis
      using 4 n nextchar_4 [OF b _ _ _ _ _ _ _ assms(2), of "n div 4096 mod 64 + 128" "n div 64 mod 64 + 128" "n mod 64 + 128", unfolded eq]
      by (simp add: enc ch [symmetric])
  qed
qed

lemma u8_nextchar_enc:
  assumes "ch < 0x110000" and "lead_ok r"
  shows "u8_nextchar (pre @ u8_wc_toutf8 ch @ r) (int (length pre)) =
    Inr (ch, int (length pre) + int (length (u8_wc_toutf8 ch)))"
  using u8_nextchar_loop_shift [of 0 pre "u8_wc_toutf8 ch @ r" 0 0] u8_nextchar_enc0 [OF assms]
  by (simp add: u8_nextchar_def)

section \<open>The shape of an encoded character\<close>

text \<open>A lead byte, then at most three continuation bytes; the table knows how many.\<close>

definition utf8_seq :: "bytes \<Rightarrow> bool" where
  "utf8_seq bs \<longleftrightarrow> (\<exists>b cs. bs = b # cs \<and> isutf b \<and> (\<forall>c \<in> set cs. \<not> isutf c) \<and>
     length cs \<le> 3 \<and> trailing b = Inr (int (length cs)))"

lemma u8_wc_toutf8_seq:
  assumes "ch < 0x110000"
  shows "utf8_seq (u8_wc_toutf8 ch)"
proof -
  define n where "n = unat ch"
  have n: "n < 0x110000" using assms by (simp add: n_def word_less_nat_alt)
  note enc = u8_wc_toutf8_byte [of ch, folded n_def, unfolded Let_def]
  consider "n < 0x80" | "0x80 \<le> n" "n < 0x800" | "0x800 \<le> n" "n < 0x10000" | "0x10000 \<le> n"
    by linarith
  then show ?thesis
  proof cases
    case 1
    then show ?thesis
      by (simp add: enc utf8_seq_def isutf_byte trailing_unat unat_byte trailing_nat_def)
  next
    case 2
    then have "n div 64 < 32" by simp
    with 2 show ?thesis
      by (simp add: enc utf8_seq_def isutf_byte trailing_unat unat_byte trailing_nat_def)
  next
    case 3
    then have "n div 4096 < 16" by simp
    with 3 show ?thesis
      by (simp add: enc utf8_seq_def isutf_byte trailing_unat unat_byte trailing_nat_def)
  next
    case 4
    with n have "n div 262144 < 8" by simp
    with 4 n show ?thesis
      by (simp add: enc utf8_seq_def isutf_byte trailing_unat unat_byte trailing_nat_def)
  qed
qed

lemma length_u8_wc_toutf8: "length (u8_wc_toutf8 ch) = u8_charlen ch"
  by (simp add: u8_wc_toutf8_def u8_charlen_def)

lemma u8_charlen_pos: "ch < 0x110000 \<Longrightarrow> 0 < u8_charlen ch"
  by (simp add: u8_charlen_def)

lemma nul_free_u8_wc_toutf8:
  assumes "ch < 0x110000" and "ch \<noteq> 0"
  shows "nul_free (u8_wc_toutf8 ch)"
proof -
  have "unat ch < 0x110000" and "unat ch \<noteq> 0"
    using assms by (simp_all add: word_less_nat_alt unat_eq_zero)
  then show ?thesis
    by (auto simp: u8_wc_toutf8_byte Let_def byte_0_iff)
qed

lemma isutf_0: "isutf 0"
  by (simp add: isutf_def)

end
