(* ===== verification/Utf8_Walk.thy ===== *)
theory Utf8_Walk
  imports Utf8_Codec
begin

text \<open>
  Whole strings of encoded characters: walking forwards and backwards over them, counting,
  and converting to and from wide characters.
\<close>

section \<open>Encoded strings\<close>

definition encs :: "u32 list \<Rightarrow> bytes" where
  "encs chs = concat (map u8_wc_toutf8 chs)"

definition scalars :: "u32 list \<Rightarrow> bool" where
  "scalars chs \<longleftrightarrow> (\<forall>ch \<in> set chs. ch < 0x110000 \<and> ch \<noteq> 0)"

lemma encs_Nil [simp]: "encs [] = []"
  by (simp add: encs_def)

lemma encs_Cons [simp]: "encs (ch # chs) = u8_wc_toutf8 ch @ encs chs"
  by (simp add: encs_def)

lemma encs_append [simp]: "encs (xs @ ys) = encs xs @ encs ys"
  by (simp add: encs_def)

lemma scalars_simps [simp]:
  "scalars []"
  "scalars (ch # chs) \<longleftrightarrow> ch < 0x110000 \<and> ch \<noteq> 0 \<and> scalars chs"
  "scalars (xs @ ys) \<longleftrightarrow> scalars xs \<and> scalars ys"
  by (auto simp: scalars_def)

lemma nul_free_encs: "scalars chs \<Longrightarrow> nul_free (encs chs)"
  by (induction chs) (auto simp: nul_free_u8_wc_toutf8)

lemma lead_ok_Cons [simp]: "lead_ok (c # r) \<longleftrightarrow> isutf c"
  by (auto simp: lead_ok_def isutf_0)

lemma lead_ok_seq: "utf8_seq bs \<Longrightarrow> lead_ok (bs @ r)"
  by (auto simp: utf8_seq_def)

lemma lead_ok_encs: "scalars chs \<Longrightarrow> lead_ok r \<Longrightarrow> lead_ok (encs chs @ r)"
  by (cases chs) (auto intro: lead_ok_seq u8_wc_toutf8_seq)

lemma encs_nonempty: "scalars chs \<Longrightarrow> chs \<noteq> [] \<Longrightarrow> 0 < length (encs chs)"
  by (cases chs) (auto simp: length_u8_wc_toutf8 u8_charlen_pos)

lemma filter_isutf_encs: "scalars chs \<Longrightarrow> length (filter isutf (encs chs)) = length chs"
proof (induction chs)
  case (Cons ch chs)
  then have "utf8_seq (u8_wc_toutf8 ch)" by (auto intro: u8_wc_toutf8_seq)
  then have "filter isutf (u8_wc_toutf8 ch) = [hd (u8_wc_toutf8 ch)]"
    by (auto simp: utf8_seq_def filter_empty_conv)
  with Cons show ?case by simp
qed simp

lemma cont_nonzero: "\<not> isutf c \<Longrightarrow> c \<noteq> 0"
  using isutf_0 by auto

section \<open>Stepping over one character\<close>

lemma utf8_seq_cases:
  assumes "utf8_seq bs"
  obtains (1) b where "bs = [b]" "isutf b"
  | (2) b c where "bs = [b, c]" "isutf b" "\<not> isutf c"
  | (3) b c d where "bs = [b, c, d]" "isutf b" "\<not> isutf c" "\<not> isutf d"
  | (4) b c d e where "bs = [b, c, d, e]" "isutf b" "\<not> isutf c" "\<not> isutf d" "\<not> isutf e"
proof -
  from assms obtain b cs where bs: "bs = b # cs" "isutf b" "\<forall>c \<in> set cs. \<not> isutf c" "length cs \<le> 3"
    by (auto simp: utf8_seq_def)
  from bs(4) consider "cs = []" | c where "cs = [c]" | c d where "cs = [c, d]"
    | c d e where "cs = [c, d, e]"
    by (cases cs rule: remdups_adj.cases) (auto simp: le_Suc_eq length_Suc_conv)
  then show thesis by cases (use bs that in auto)
qed

lemma u8_inc_seq:
  assumes "utf8_seq bs" and "lead_ok r"
  shows "u8_inc (pre @ bs @ r) (int (length pre)) = Inr (int (length pre) + int (length bs))"
proof -
  from assms(2) obtain x t where "r = x # t" "isutf x"
    by (auto simp: lead_ok_def isutf_0 split: list.splits)
  with assms(1) show ?thesis
    by (cases rule: utf8_seq_cases) (auto simp: u8_inc_def rd_pre rd_Cons)
qed

lemma u8_dec_seq:
  assumes "utf8_seq bs"
  shows "u8_dec (pre @ bs @ r) (int (length pre) + int (length bs)) = Inr (int (length pre))"
proof -
  have r: "rd (pre @ x) (int (length pre) + k) = rd x k" if "0 \<le> k" for x k
    using that by (rule rd_pre)
  show ?thesis
    unfolding u8_dec_def add_diff_eq [symmetric]
    using assms by (cases rule: utf8_seq_cases) (simp_all add: r rd_Cons)
qed

section \<open>Counting characters and bytes\<close>

lemma u8_offset_loop_encs:
  assumes "scalars chs"
  shows "u8_offset_loop (pre @ encs chs @ 0 # r) (int k) (int (length pre)) =
    Inr (int (length pre) + int (length (encs (take k chs))))"
  using assms
proof (induction chs arbitrary: pre k)
  case Nil
  then show ?case by (simp add: u8_offset_loop.simps)
next
  case (Cons ch chs)
  show ?case
  proof (cases k)
    case 0
    then show ?thesis by (simp add: u8_offset_loop.simps)
  next
    case (Suc j)
    from Cons.prems have seq: "utf8_seq (u8_wc_toutf8 ch)" and nf: "nul_free (u8_wc_toutf8 ch)"
      by (auto intro: u8_wc_toutf8_seq nul_free_u8_wc_toutf8)
    then obtain b cs where b: "u8_wc_toutf8 ch = b # cs" "b \<noteq> 0"
      by (auto simp: utf8_seq_def)
    have inc: "u8_inc (pre @ u8_wc_toutf8 ch @ encs chs @ 0 # r) (int (length pre)) =
        Inr (int (length (pre @ u8_wc_toutf8 ch)))"
      using u8_inc_seq [OF seq, of "encs chs @ 0 # r" pre] Cons.prems
      by (simp add: lead_ok_encs isutf_0)
    show ?thesis
      using Cons.IH [of "pre @ u8_wc_toutf8 ch" j] Cons.prems inc
      by (subst u8_offset_loop.simps) (simp add: Suc b)
  qed
qed

lemma u8_offset_encs:
  "scalars chs \<Longrightarrow> u8_offset (encs chs @ 0 # r) (int k) = Inr (int (length (encs (take k chs))))"
  using u8_offset_loop_encs [of chs "[]" r k] by (simp add: u8_offset_def)

lemma u8_charnum_loop_encs:
  assumes "scalars chs" and "k \<le> length chs"
  shows "u8_charnum_loop (pre @ encs chs @ 0 # r)
      (int (length pre) + int (length (encs (take k chs)))) (int (length pre)) n = Inr (n + int k)"
  using assms
proof (induction chs arbitrary: pre k n)
  case Nil
  then show ?case by (simp add: u8_charnum_loop.simps)
next
  case (Cons ch chs)
  show ?case
  proof (cases k)
    case 0
    then show ?thesis by (simp add: u8_charnum_loop.simps)
  next
    case (Suc j)
    from Cons.prems have seq: "utf8_seq (u8_wc_toutf8 ch)" and nf: "nul_free (u8_wc_toutf8 ch)"
      by (auto intro: u8_wc_toutf8_seq nul_free_u8_wc_toutf8)
    then obtain b cs where b: "u8_wc_toutf8 ch = b # cs" "b \<noteq> 0"
      by (auto simp: utf8_seq_def)
    have inc: "u8_inc (pre @ u8_wc_toutf8 ch @ encs chs @ 0 # r) (int (length pre)) =
        Inr (int (length (pre @ u8_wc_toutf8 ch)))"
      using u8_inc_seq [OF seq, of "encs chs @ 0 # r" pre] Cons.prems
      by (simp add: lead_ok_encs isutf_0)
    show ?thesis
      using Cons.IH [of j "pre @ u8_wc_toutf8 ch" "n + 1"] Cons.prems inc
      by (subst u8_charnum_loop.simps) (simp add: Suc b algebra_simps)
  qed
qed

lemma u8_charnum_encs:
  "scalars chs \<Longrightarrow> k \<le> length chs \<Longrightarrow>
   u8_charnum (encs chs @ 0 # r) (int (length (encs (take k chs)))) = Inr (int k)"
  using u8_charnum_loop_encs [of chs k "[]" r 0] by (simp add: u8_charnum_def)

text \<open>\<open>u8_strlen\<close> reads the byte after the terminator to learn that the NUL stands alone.\<close>

lemma u8_nextchar_nul: "isutf c \<Longrightarrow> u8_nextchar (pre @ 0 # c # r) (int (length pre)) =
    Inr (0, int (length pre) + 1)"
  using u8_nextchar_enc [of 0 "c # r" pre] by (simp add: u8_wc_toutf8_def)

lemma u8_strlen_loop_encs:
  assumes "scalars chs" and "isutf c"
  shows "u8_strlen_loop (pre @ encs chs @ 0 # c # r) (int (length pre)) n =
    Inr (n + int (length chs))"
  using assms
proof (induction chs arbitrary: pre n)
  case Nil
  then show ?case by (simp add: u8_strlen_loop.simps u8_nextchar_nul)
next
  case (Cons ch chs)
  have "u8_nextchar (pre @ u8_wc_toutf8 ch @ encs chs @ 0 # c # r) (int (length pre)) =
      Inr (ch, int (length (pre @ u8_wc_toutf8 ch)))"
    using u8_nextchar_enc [of ch "encs chs @ 0 # c # r" pre] Cons.prems
    by (simp add: lead_ok_encs isutf_0)
  with Cons.IH [of "pre @ u8_wc_toutf8 ch" "n + 1"] Cons.prems show ?case
    by (subst u8_strlen_loop.simps) simp
qed

lemma u8_strlen_loop_exact:
  assumes "scalars chs"
  shows "u8_strlen_loop (pre @ encs chs @ [0]) (int (length pre)) n = Inl OutOfBounds"
  using assms
proof (induction chs arbitrary: pre n)
  case Nil
  have "u8_nextchar (pre @ [0]) (int (length pre)) = Inl OutOfBounds"
    by (simp add: u8_nextchar_def u8_nextchar_loop.simps Let_def rd_out)
  then show ?case by (simp add: u8_strlen_loop.simps)
next
  case (Cons ch chs)
  have "u8_nextchar (pre @ u8_wc_toutf8 ch @ encs chs @ [0]) (int (length pre)) =
      Inr (ch, int (length (pre @ u8_wc_toutf8 ch)))"
    using u8_nextchar_enc [of ch "encs chs @ [0]" pre] Cons.prems
    by (simp add: lead_ok_encs isutf_0)
  with Cons.IH [of "pre @ u8_wc_toutf8 ch" "n + 1"] Cons.prems show ?case
    by (subst u8_strlen_loop.simps) simp
qed

end
