(* ===== verification/Utf8_Text.thy ===== *)
theory Utf8_Text
  imports Utf8
begin

text \<open>
  The second half of \<open>src/libswish3/utf8.c\<close>: escape sequences and their inverse, searching
  for a character, the test for a UTF-8 locale name, validation and reversal.
\<close>

section \<open>Reading escape sequences\<close>

definition octal_digit :: "u8 \<Rightarrow> bool" where
  "octal_digit c \<longleftrightarrow> 0x30 \<le> c \<and> c \<le> 0x37"

definition hex_digit :: "u8 \<Rightarrow> bool" where
  "hex_digit c \<longleftrightarrow>
     (0x30 \<le> c \<and> c \<le> 0x39) \<or> (0x41 \<le> c \<and> c \<le> 0x46) \<or> (0x61 \<le> c \<and> c \<le> 0x66)"

text \<open>\<open>strtol\<close> of the C library, on a string that is nothing but digits of the base.\<close>

definition digit_val :: "u8 \<Rightarrow> nat" where
  "digit_val c =
     (if c \<le> 0x39 then unat c - 0x30 else if c \<le> 0x46 then unat c - 0x37 else unat c - 0x57)"

definition strtol_digits :: "nat \<Rightarrow> bytes \<Rightarrow> nat" where
  "strtol_digits base ds = foldl (\<lambda>v d. v * base + digit_val d) 0 ds"

text \<open>\<open>while (p(str[i]) && dno < max) digs[dno++] = str[i++];\<close>\<close>

function read_digits :: "(u8 \<Rightarrow> bool) \<Rightarrow> nat \<Rightarrow> mem \<Rightarrow> int \<Rightarrow> bytes \<Rightarrow> (bytes \<times> int) res" where
  "read_digits p mx str i digs =
     bnd (rd str i) (\<lambda>c.
       if p c \<and> length digs < mx then read_digits p mx str (i + 1) (digs @ [c])
       else Inr (digs, i))"
  by pat_completeness auto
termination
  by (relation "measure (\<lambda>(p, mx, str, i, digs). mx - length digs)") auto

declare read_digits.simps [simp del]

lemma read_digits_mono: "read_digits p mx str i digs = Inr (ds, j) \<Longrightarrow> i \<le> j"
proof (induction p mx str i digs rule: read_digits.induct)
  case (1 p mx str i digs)
  then obtain c where c: "rd str i = Inr c"
    by (auto simp: read_digits.simps [of p mx str i] bnd_eq_Inr)
  show ?case
  proof (cases "p c \<and> length digs < mx")
    case True
    with "1.IH" [OF c True] "1.prems" c show ?thesis
      by (simp add: read_digits.simps [of p mx str i digs])
  next
    case False
    with "1.prems" c show ?thesis by (auto simp: read_digits.simps [of p mx str i digs])
  qed
qed

definition hex_escape :: "nat \<Rightarrow> mem \<Rightarrow> int \<Rightarrow> u32 \<Rightarrow> (int \<times> u32) res" where
  "hex_escape mx str p ch =
     bnd (read_digits hex_digit mx str (p + 1) []) (\<lambda>(digs, i).
       Inr (i - p, if digs \<noteq> [] then of_nat (strtol_digits 16 digs) else ch))"

text \<open>
  The argument is the position after the backslash; the result is the number of input
  characters processed and the character. A \<open>char\<close> is widened with its sign.
\<close>

definition u8_read_escape_sequence :: "mem \<Rightarrow> int \<Rightarrow> (int \<times> u32) res" where
  "u8_read_escape_sequence str p =
     bnd (rd str p) (\<lambda>c.
       let ch = scast c in
       if c = 0x6E then Inr (1, 10)
       else if c = 0x74 then Inr (1, 9)
       else if c = 0x72 then Inr (1, 13)
       else if c = 0x62 then Inr (1, 8)
       else if c = 0x66 then Inr (1, 12)
       else if c = 0x76 then Inr (1, 11)
       else if c = 0x61 then Inr (1, 7)
       else if octal_digit c then
         bnd (read_digits octal_digit 3 str (p + 1) [c]) (\<lambda>(digs, i).
           Inr (i - p, of_nat (strtol_digits 8 digs)))
       else if c = 0x78 then hex_escape 2 str p ch
       else if c = 0x75 then hex_escape 4 str p ch
       else if c = 0x55 then hex_escape 8 str p ch
       else Inr (1, ch))"

lemma hex_escape_advances: "hex_escape mx str p ch = Inr (n, v) \<Longrightarrow> 0 < n"
  by (auto simp: hex_escape_def bnd_eq_Inr dest: read_digits_mono)

lemma u8_read_escape_sequence_advances:
  "u8_read_escape_sequence str p = Inr (n, ch) \<Longrightarrow> 0 < n"
  by (auto simp: u8_read_escape_sequence_def bnd_eq_Inr Let_def
      dest: read_digits_mono hex_escape_advances split: if_splits)

section \<open>\<open>u8_unescape\<close>\<close>

text \<open>
  One character of the source: the character and the position after it. \<open>buf\<close> is an object
  of \<open>sz\<close> bytes; the result is what has been stored at its start, the terminator included
  when there is room, and the count \<open>c\<close>.
\<close>

definition unescape_chr :: "mem \<Rightarrow> int \<Rightarrow> u8 \<Rightarrow> (u32 \<times> int) res" where
  "unescape_chr src p b =
     (if b = 0x5C then
        bnd (u8_read_escape_sequence src (p + 1)) (\<lambda>(amt, ch). Inr (ch, p + 1 + amt))
      else Inr (scast b, p + 1))"

lemma unescape_chr_advances: "unescape_chr src p b = Inr (ch, q) \<Longrightarrow> p < q"
  by (auto simp: unescape_chr_def bnd_eq_Inr dest: u8_read_escape_sequence_advances
      split: if_splits)

function u8_unescape_loop :: "int \<Rightarrow> mem \<Rightarrow> int \<Rightarrow> bytes \<Rightarrow> bytes res" where
  "u8_unescape_loop sz src p out =
     bnd (rd src p) (\<lambda>b.
       if b \<noteq> 0 \<and> int (length out) < sz then
         bnd (unescape_chr src p b) (\<lambda>(ch, p').
           let temp = u8_wc_toutf8 ch in
           if sz - int (length out) < int (length temp) then Inr out
           else u8_unescape_loop sz src p' (out @ temp))
       else Inr out)"
  by pat_completeness auto
termination
  by (relation "measure (\<lambda>(sz, src, p, out). nat (int (length src) - p))")
    (auto simp: rd_Inr_iff dest: unescape_chr_advances)

declare u8_unescape_loop.simps [simp del]

definition u8_unescape :: "int \<Rightarrow> mem \<Rightarrow> (bytes \<times> int) res" where
  "u8_unescape sz src =
     bnd (u8_unescape_loop sz src 0 []) (\<lambda>out.
       Inr (if int (length out) < sz then out @ [0] else out, int (length out)))"

section \<open>\<open>u8_escape\<close>\<close>

definition hexdigU :: "nat \<Rightarrow> u8" where
  "hexdigU n = (if n < 10 then of_nat (0x30 + n) else of_nat (0x37 + n))"

text \<open>\<open>%X\<close> and \<open>%.wX\<close> of \<open>printf\<close>: no leading zeros, then padded to the precision.\<close>

fun hexU :: "nat \<Rightarrow> bytes" where
  "hexU n = (if n < 16 then [hexdigU n] else hexU (n div 16) @ [hexdigU (n mod 16)])"

declare hexU.simps [simp del]

definition hexU_prec :: "nat \<Rightarrow> nat \<Rightarrow> bytes" where
  "hexU_prec w n = replicate (w - length (hexU n)) 0x30 @ hexU n"

text \<open>The text \<open>snprintf\<close> produces for the character, before it is cut to the room left.\<close>

definition u8_escape_wchar :: "u32 \<Rightarrow> bytes" where
  "u8_escape_wchar ch =
     (if ch = 10 then [0x5C, 0x6E]
      else if ch = 9 then [0x5C, 0x74]
      else if ch = 13 then [0x5C, 0x72]
      else if ch = 8 then [0x5C, 0x62]
      else if ch = 12 then [0x5C, 0x66]
      else if ch = 11 then [0x5C, 0x76]
      else if ch = 7 then [0x5C, 0x61]
      else if ch = 0x5C then [0x5C, 0x5C]
      else if ch < 32 \<or> ch = 0x7F then [0x5C, 0x78] @ hexU (unat (ucast ch :: u8))
      else if ch > 0xFFFF then [0x5C, 0x55] @ hexU_prec 8 (unat ch)
      else if 0x80 \<le> ch \<and> ch \<le> 0xFFFF then [0x5C, 0x75] @ hexU_prec 4 (unat (ucast ch :: 16 word))
      else [ucast ch])"

text \<open>
  \<open>snprintf (buf, room, text)\<close> with \<open>room \<ge> 1\<close>: all of the text when it is shorter than the
  room, else as much as fits before a NUL. \<open>out\<close> is what stands before \<open>buf\<close>; the loop
  carries whether the text was cut, since then \<open>c\<close> is past the end and no more is stored.
\<close>

function u8_escape_loop ::
  "int \<Rightarrow> mem \<Rightarrow> bool \<Rightarrow> int \<Rightarrow> bytes \<Rightarrow> (bytes \<times> int) res" where
  "u8_escape_loop sz src quotes i out =
     bnd (rd src i) (\<lambda>b.
       if b \<noteq> 0 \<and> int (length out) < sz then
         bnd (if quotes \<and> b = 0x22 then Inr ([0x5C, 0x22], i + 1)
              else bnd (u8_nextchar src i) (\<lambda>(ch, i'). Inr (u8_escape_wchar ch, i')))
           (\<lambda>(text, i').
             let room = sz - int (length out) in
             if int (length text) < room then u8_escape_loop sz src quotes i' (out @ text)
             else Inr (out @ take (nat (room - 1)) text @ [0],
                       int (length out) + int (length text)))
       else Inr (if int (length out) < sz then out @ [0] else out, int (length out)))"
  by pat_completeness auto
termination
  by (relation "measure (\<lambda>(sz, src, quotes, i, out). nat (int (length src) - i))")
    (auto simp: rd_Inr_iff bnd_eq_Inr dest: u8_nextchar_advances split: if_splits)

declare u8_escape_loop.simps [simp del]

definition u8_escape :: "int \<Rightarrow> mem \<Rightarrow> bool \<Rightarrow> (bytes \<times> int) res" where
  "u8_escape sz src quotes = u8_escape_loop sz src quotes 0 []"

section \<open>Searching\<close>

text \<open>The pointer found (an index, \<open>None\<close> for NULL) and the character number.\<close>

function u8_strchr_loop :: "mem \<Rightarrow> u32 \<Rightarrow> int \<Rightarrow> int \<Rightarrow> (int option \<times> int) res" where
  "u8_strchr_loop s ch i charn =
     bnd (rd s i) (\<lambda>b.
       if b \<noteq> 0 then
         bnd (u8_nextchar s i) (\<lambda>(c, i').
           if c = ch then Inr (Some i, charn) else u8_strchr_loop s ch i' (charn + 1))
       else Inr (None, charn))"
  by pat_completeness auto
termination
  by (relation "measure (\<lambda>(s, ch, i, charn). nat (int (length s) - i))")
    (auto dest: u8_nextchar_advances)

definition u8_strchr :: "mem \<Rightarrow> u32 \<Rightarrow> (int option \<times> int) res" where
  "u8_strchr s ch = u8_strchr_loop s ch 0 0"

function memchr_char :: "mem \<Rightarrow> int \<Rightarrow> int \<Rightarrow> u32 \<Rightarrow> int \<Rightarrow> (u32 \<times> int) res" where
  "memchr_char s sz i c csz =
     bnd (rd s i) (\<lambda>b.
       let c' = push_bit 6 c + ucast b in
       bnd (if i + 1 < sz then bnd (rd s (i + 1)) (\<lambda>n. Inr (\<not> isutf n)) else Inr False)
         (\<lambda>more.
           if more then memchr_char s sz (i + 1) c' (csz + 1)
           else bnd (rd offsetsFromUTF8 csz) (\<lambda>off. Inr (c' - off, i + 1))))"
  by pat_completeness auto
termination
  by (relation "measure (\<lambda>(s, sz, i, c, csz). nat (int (length s) - i))") (auto simp: rd_Inr_iff)

declare u8_strchr_loop.simps [simp del] memchr_char.simps [simp del]

lemma memchr_char_advances: "memchr_char s sz i c csz = Inr (d, j) \<Longrightarrow> i < j"
proof (induction s sz i c csz rule: memchr_char.induct)
  case (1 s sz i c csz)
  from "1.prems" obtain b more where b: "rd s i = Inr b"
    and more: "(if i + 1 < sz then bnd (rd s (i + 1)) (\<lambda>n. Inr (\<not> isutf n)) else Inr False)
      = Inr more"
    by (auto simp: memchr_char.simps [of s sz i] bnd_eq_Inr Let_def)
  show ?case
  proof (cases more)
    case True
    with "1.IH" [OF b refl more True] "1.prems" b more show ?thesis
      by (auto simp: memchr_char.simps [of s sz i])
  next
    case False
    with "1.prems" b more show ?thesis
      by (auto simp: memchr_char.simps [of s sz i] bnd_eq_Inr)
  qed
qed

function u8_memchr_loop :: "mem \<Rightarrow> u32 \<Rightarrow> int \<Rightarrow> int \<Rightarrow> int \<Rightarrow> (int option \<times> int) res" where
  "u8_memchr_loop s ch sz i charn =
     (if i < sz then
        bnd (memchr_char s sz i 0 0) (\<lambda>(c, i').
          if c = ch then Inr (Some i, charn) else u8_memchr_loop s ch sz i' (charn + 1))
      else Inr (None, charn))"
  by pat_completeness auto
termination
  by (relation "measure (\<lambda>(s, ch, sz, i, charn). nat (sz - i))")
    (auto dest: memchr_char_advances)

declare u8_memchr_loop.simps [simp del]

definition u8_memchr :: "mem \<Rightarrow> u32 \<Rightarrow> int \<Rightarrow> (int option \<times> int) res" where
  "u8_memchr s ch sz = u8_memchr_loop s ch sz 0 0"

section \<open>Locale names\<close>

definition locale_stop :: "u8 \<Rightarrow> bool" where
  "locale_stop c \<longleftrightarrow> c = 0x40 \<or> c = 0x2B \<or> c = 0x2C"

fun u8_is_locale_utf8 :: "bytes \<Rightarrow> bool" where
  "u8_is_locale_utf8 [] = False"
| "u8_is_locale_utf8 (c # cp) =
     (if locale_stop c then False
      else if c = 0x2E then
        (let encoding = takeWhile (\<lambda>d. \<not> locale_stop d) cp
         in encoding = lit ''UTF-8'' \<or> encoding = lit ''utf8'')
      else u8_is_locale_utf8 cp)"

section \<open>Validation\<close>

text \<open>The bytes after the second: \<open>while (--ab > 0)\<close>. \<open>None\<close> is \<open>return 0\<close>.\<close>

function isvalid_rest :: "mem \<Rightarrow> int \<Rightarrow> int \<Rightarrow> int option res" where
  "isvalid_rest str p ab =
     (if ab - 1 > 0 then
        bnd (rd str (p + 1)) (\<lambda>d.
          if d AND 0xC0 \<noteq> 0x80 then Inr None else isvalid_rest str (p + 1) (ab - 1))
      else Inr (Some p))"
  by pat_completeness auto
termination
  by (relation "measure (\<lambda>(str, p, ab). nat ab)") auto

declare isvalid_rest.simps [simp del]

lemma isvalid_rest_mono: "isvalid_rest str p ab = Inr (Some q) \<Longrightarrow> p \<le> q"
proof (induction str p ab rule: isvalid_rest.induct)
  case (1 str p ab)
  then show ?case
    by (subst (asm) isvalid_rest.simps [of str p ab])
      (fastforce simp: bnd_eq_Inr split: if_splits)
qed

definition overlong :: "int \<Rightarrow> u8 \<Rightarrow> u8 \<Rightarrow> bool" where
  "overlong ab c d \<longleftrightarrow>
     (ab = 2 \<and> c = 0xE0 \<and> d AND 0x20 = 0) \<or>
     (ab = 3 \<and> c = 0xF0 \<and> d AND 0x30 = 0) \<or>
     (ab = 4 \<and> c = 0xF8 \<and> d AND 0x38 = 0) \<or>
     (ab = 5 \<and> (c = 0xFE \<or> c = 0xFF \<or> (c = 0xFC \<and> d AND 0x3C = 0)))"

function isvalid_loop :: "mem \<Rightarrow> int \<Rightarrow> int \<Rightarrow> int \<Rightarrow> bool res" where
  "isvalid_loop str pend p len =
     (if p < pend then
        bnd (rd str p) (\<lambda>c.
          if c < 128 then isvalid_loop str pend (p + 1) len
          else if c AND 0xC0 \<noteq> 0xC0 then Inr False
          else
            bnd (trailing c) (\<lambda>ab.
              if len < ab then Inr False
              else
                bnd (rd str (p + 1)) (\<lambda>d.
                  if d AND 0xC0 \<noteq> 0x80 then Inr False
                  else if ab = 1 then
                    (if c AND 0x3E = 0 then Inr False
                     else isvalid_loop str pend (p + 2) (len - ab))
                  else if overlong ab c d then Inr False
                  else
                    bnd (isvalid_rest str (p + 1) ab) (\<lambda>r.
                      case r of
                        None \<Rightarrow> Inr False
                      | Some q \<Rightarrow> isvalid_loop str pend (q + 1) (len - ab)))))
      else Inr True)"
  by pat_completeness auto
termination
  by (relation "measure (\<lambda>(str, pend, p, len). nat (pend - p))") (auto dest: isvalid_rest_mono)

declare isvalid_loop.simps [simp del]

definition u8_isvalid :: "mem \<Rightarrow> int \<Rightarrow> bool res" where
  "u8_isvalid str length' = isvalid_loop str length' 0 length'"

section \<open>Reversal\<close>

text \<open>
  \<open>n\<close> bytes from \<open>src[si]\<close> on stored at \<open>dest[di]\<close> on; the code moves two and four of them
  at a time through 16- and 32-bit pointers.
\<close>

fun copy_bytes :: "nat \<Rightarrow> mem \<Rightarrow> int \<Rightarrow> mem \<Rightarrow> int \<Rightarrow> mem res" where
  "copy_bytes 0 src si dest di = Inr dest"
| "copy_bytes (Suc n) src si dest di =
     bnd (rd src si) (\<lambda>c. bnd (wr dest di c) (\<lambda>dest'. copy_bytes n src (si + 1) dest' (di + 1)))"

text \<open>The object \<open>dest\<close> after the call and the value returned.\<close>

function u8_reverse_loop :: "mem \<Rightarrow> int \<Rightarrow> int \<Rightarrow> mem \<Rightarrow> int \<Rightarrow> (mem \<times> int) res" where
  "u8_reverse_loop src len si dest di =
     (if si < len then
        bnd (rd src si) (\<lambda>c.
          if NOT c AND 0x80 \<noteq> 0 then
            bnd (wr dest (di - 1) c) (\<lambda>dest'. u8_reverse_loop src len (si + 1) dest' (di - 1))
          else
            (let hi = drop_bit 4 c in
             if hi = 0xC \<or> hi = 0xD then
               bnd (copy_bytes 2 src si dest (di - 2)) (\<lambda>dest'.
                 u8_reverse_loop src len (si + 2) dest' (di - 2))
             else if hi = 0xE then
               bnd (copy_bytes 3 src si dest (di - 3)) (\<lambda>dest'.
                 u8_reverse_loop src len (si + 3) dest' (di - 3))
             else if hi = 0xF then
               bnd (copy_bytes 4 src si dest (di - 4)) (\<lambda>dest'.
                 u8_reverse_loop src len (si + 4) dest' (di - 4))
             else Inr (dest, 1)))
      else Inr (dest, 0))"
  by pat_completeness auto
termination
  by (relation "measure (\<lambda>(src, len, si, dest, di). nat (len - si))") auto

declare u8_reverse_loop.simps [simp del]

definition u8_reverse :: "mem \<Rightarrow> mem \<Rightarrow> int \<Rightarrow> (mem \<times> int) res" where
  "u8_reverse dest src len =
     bnd (wr dest len 0) (\<lambda>dest'. u8_reverse_loop src len 0 dest' len)"

section \<open>Printing\<close>

text \<open>
  Formatted output: \<open>s\<close> is what the format makes of its arguments. The first block has 512
  bytes; when the text does not fit, a block for what is missing is allocated, and the text is
  written into it whole.
\<close>

definition vsnprintf :: "nat \<Rightarrow> nat \<Rightarrow> bytes \<Rightarrow> bytes res" where
  "vsnprintf block sz s =
     (if block < min sz (length s + 1) then Inl OutOfBounds else Inr (take (sz - 1) s))"

definition u8_vprintf :: "bytes \<Rightarrow> (u32 list \<times> int) res" where
  "u8_vprintf s =
     bnd (if length s < 512 then vsnprintf 512 512 s
          else vsnprintf (length s - 512 + 1) (length s + 1) s) (\<lambda>buf.
       u8_toucs (int (length s) + 1) (cobj buf) (int (length s)))"

definition u8_printf :: "bytes \<Rightarrow> int res" where
  "u8_printf s = bnd (u8_vprintf s) (\<lambda>(wcs, cnt). Inr cnt)"

lemma u8_printf_overflows: "512 \<le> length s \<Longrightarrow> u8_printf s = Inl OutOfBounds"
proof -
  assume "512 \<le> length s"
  then have "length s - 512 < length s" "\<not> length s < 512" by auto
  then show ?thesis by (simp add: u8_printf_def u8_vprintf_def vsnprintf_def)
qed

end
