(* ===== verification/Utf8_Convert.thy ===== *)
theory Utf8_Convert
  imports Utf8_Walk Utf8_Text
begin

text \<open>
  The conversions between UTF-8 and wide characters and their round trip, validation and
  reversal of encoded strings.
\<close>

section \<open>To UTF-8\<close>

lemma u8_codingsize_loop_eq:
  "i \<le> length w \<Longrightarrow> u8_codingsize_loop w (int (length w)) (int i) c =
     Inr (c + length (encs (drop i w)))"
proof (induction "length w - i" arbitrary: i c)
  case 0
  then show ?case by (simp add: u8_codingsize_loop.simps)
next
  case (Suc k)
  then have i: "i < length w" by simp
  then have "drop i w = w ! i # drop (Suc i) w" by (rule nth_tl_Cons)
  moreover have "u8_codingsize_loop w (int (length w)) (int (Suc i)) (c + u8_charlen (w ! i)) =
      Inr (c + u8_charlen (w ! i) + length (encs (drop (Suc i) w)))"
    using Suc.hyps(1) [of "Suc i"] Suc.hyps(2) i by simp
  ultimately show ?case
    using i by (simp add: u8_codingsize_loop.simps [of w "int (length w)" "int i"] rd_in
        length_u8_wc_toutf8 add.commute)
qed

lemma u8_codingsize_eq: "u8_codingsize w (int (length w)) = Inr (length (encs w))"
  using u8_codingsize_loop_eq [of 0 w 0] by (simp add: u8_codingsize_def)

text \<open>One turn of the loop, for a counted source.\<close>

lemma u8_toutf8_loop_step:
  assumes "i < length src"
  shows "u8_toutf8_loop sz src (int (length src)) (int i) out =
    (if 0 < u8_charlen (src ! i) \<and> sz < int (length out) + int (u8_charlen (src ! i))
     then Inr (out, int i)
     else u8_toutf8_loop sz src (int (length src)) (int (Suc i)) (out @ u8_wc_toutf8 (src ! i)))"
proof -
  define ch where "ch = src ! i"
  have room: "sz - n - k \<le> 0 \<longleftrightarrow> sz < n + (k + 1)" for n k :: int
    by linarith
  have "rd src (int i) = Inr ch"
    using assms by (simp add: rd_in ch_def)
  then show ?thesis
    unfolding u8_toutf8_loop.simps [of sz src "int (length src)" "int i" out] ch_def [symmetric]
    using assms room [of "int (length out)"] room [of "int (length out)" 0]
    by (cases "ch < 0x80"; cases "ch < 0x800"; cases "ch < 0x10000"; cases "ch < 0x110000")
      (simp_all add: u8_charlen_def u8_wc_toutf8_def Let_def add.commute)
qed

lemma u8_toutf8_loop_end:
  "u8_toutf8_loop sz src (int (length src)) (int (length src)) out =
    Inr (if int (length out) < sz then out @ [0] else out, int (length src))"
  by (subst u8_toutf8_loop.simps) simp

text \<open>How many characters, from index \<open>i\<close> on, fit in \<open>sz\<close> bytes after \<open>n\<close> of them are taken.\<close>

fun fit :: "int \<Rightarrow> nat \<Rightarrow> u32 list \<Rightarrow> nat" where
  "fit sz n [] = 0"
| "fit sz n (ch # chs) =
     (if 0 < u8_charlen ch \<and> sz < int n + int (u8_charlen ch) then 0
      else Suc (fit sz (n + u8_charlen ch) chs))"

lemma fit_le: "fit sz n chs \<le> length chs"
  by (induction chs arbitrary: n) auto

lemma fit_all: "int n + int (length (encs chs)) \<le> sz \<Longrightarrow> fit sz n chs = length chs"
  by (induction chs arbitrary: n) (auto simp: length_u8_wc_toutf8)

lemma fit_room: "int n \<le> sz \<Longrightarrow> int n + int (length (encs (take (fit sz n chs) chs))) \<le> sz"
proof (induction chs arbitrary: n)
  case (Cons ch chs)
  then show ?case
    using Cons.IH [of "n + u8_charlen ch"] by (auto simp: length_u8_wc_toutf8)
qed simp

lemma fit_maximal:
  "fit sz n chs < length chs \<Longrightarrow>
   sz < int n + int (length (encs (take (Suc (fit sz n chs)) chs)))"
proof (induction chs arbitrary: n)
  case (Cons ch chs)
  then show ?case
    using Cons.IH [of "n + u8_charlen ch"] by (auto simp: length_u8_wc_toutf8 split: if_splits)
qed simp

lemma u8_toutf8_loop_eq:
  "i \<le> length src \<Longrightarrow>
   u8_toutf8_loop sz src (int (length src)) (int i) out =
     (let k = fit sz (length out) (drop i src); res = out @ encs (take k (drop i src)) in
      Inr (if i + k = length src \<and> int (length res) < sz then res @ [0] else res, int (i + k)))"
proof (induction "length src - i" arbitrary: i out)
  case 0
  then have "i = length src" by simp
  then show ?case using u8_toutf8_loop_end [of sz src out] by simp
next
  case (Suc k)
  then have i: "i < length src" by simp
  then have d: "drop i src = src ! i # drop (Suc i) src" by (rule nth_tl_Cons)
  let ?full = "0 < u8_charlen (src ! i) \<and> sz < int (length out) + int (u8_charlen (src ! i))"
  show ?case
  proof (cases ?full)
    case True
    with i show ?thesis by (simp add: u8_toutf8_loop_step [OF i] d)
  next
    case False
    then have f: "fit sz (length out) (drop i src) =
        Suc (fit sz (length (out @ u8_wc_toutf8 (src ! i))) (drop (Suc i) src))"
      by (simp add: d length_u8_wc_toutf8)
    have "u8_toutf8_loop sz src (int (length src)) (int i) out =
        u8_toutf8_loop sz src (int (length src)) (int (Suc i)) (out @ u8_wc_toutf8 (src ! i))"
      using u8_toutf8_loop_step [OF i, of sz out] unfolding if_not_P [OF False] .
    also have "\<dots> = (let k = fit sz (length (out @ u8_wc_toutf8 (src ! i))) (drop (Suc i) src);
          res = (out @ u8_wc_toutf8 (src ! i)) @ encs (take k (drop (Suc i) src)) in
        Inr (if Suc i + k = length src \<and> int (length res) < sz then res @ [0] else res,
          int (Suc i + k)))"
      using Suc.hyps i by (intro Suc.hyps(1)) simp_all
    finally show ?thesis
      unfolding f Let_def by (auto simp add: d simp del: of_nat_Suc)
  qed
qed

lemma u8_toutf8_eq:
  "u8_toutf8 sz src (int (length src)) =
     (let k = fit sz 0 src; res = encs (take k src) in
      Inr (if k = length src \<and> int (length res) < sz then res @ [0] else res, int k))"
  using u8_toutf8_loop_eq [of 0 src sz "[]"] by (simp add: u8_toutf8_def)

section \<open>From UTF-8\<close>

text \<open>The falling-through \<open>switch\<close> adds up the same number as \<open>u8_nextchar\<close>.\<close>

lemma toucs_fall_nextchar:
  assumes "\<forall>c \<in> set cs. \<not> isutf c" and "lead_ok r"
  shows "u8_nextchar_loop (pre @ (b # cs) @ r) (int (length pre)) ch sz =
    bnd (toucs_fall (pre @ (b # cs) @ r) (length cs) (push_bit 6 ch) (int (length pre)))
      (\<lambda>(v, p). bnd (rd offsetsFromUTF8 (sz + int (length cs))) (\<lambda>off. Inr (v - off, p)))"
  using assms(1)
proof (induction cs arbitrary: pre b ch sz)
  case Nil
  from assms(2) obtain c t where "r = c # t" "isutf c"
    by (auto simp: lead_ok_def isutf_0 split: list.splits)
  then show ?case
    using rd_pre [of 1 pre "b # c # t"]
    by (subst u8_nextchar_loop.simps) (auto simp: Let_def rd_Cons)
next
  case (Cons c cs)
  let ?s = "pre @ (b # c # cs) @ r"
  have "u8_nextchar_loop ?s (int (length pre)) ch sz =
      u8_nextchar_loop ?s (int (length (pre @ [b]))) (push_bit 6 ch + ucast b) (sz + 1)"
    using Cons.prems rd_pre [of 1 pre "b # c # cs @ r"]
    by (subst u8_nextchar_loop.simps) (auto simp: Let_def rd_Cons cont_nonzero add.commute)
  also have "\<dots> = bnd (toucs_fall ?s (length cs) (push_bit 6 (push_bit 6 ch + ucast b))
        (int (length (pre @ [b]))))
      (\<lambda>(v, p). bnd (rd offsetsFromUTF8 (sz + 1 + int (length cs))) (\<lambda>off. Inr (v - off, p)))"
    using Cons.IH [of "pre @ [b]" c "push_bit 6 ch + ucast b" "sz + 1"] Cons.prems by simp
  finally show ?case by (simp add: bnd_assoc ac_simps)
qed

lemma toucs_step:
  assumes "ch < 0x110000" and "lead_ok r"
  shows "\<exists>b nb v off. rd (pre @ u8_wc_toutf8 ch @ r) (int (length pre)) = Inr b \<and>
    (ch \<noteq> 0 \<longrightarrow> b \<noteq> 0) \<and> trailing b = Inr nb \<and>
    nb + 1 = int (length (u8_wc_toutf8 ch)) \<and>
    toucs_switch (pre @ u8_wc_toutf8 ch @ r) nb (int (length pre)) =
      Inr (v, int (length pre) + int (length (u8_wc_toutf8 ch))) \<and>
    rd offsetsFromUTF8 nb = Inr off \<and> v - off = ch"
proof -
  have seq: "utf8_seq (u8_wc_toutf8 ch)" using assms(1) by (rule u8_wc_toutf8_seq)
  then obtain b cs where bs: "u8_wc_toutf8 ch = b # cs" and cs: "\<forall>c \<in> set cs. \<not> isutf c"
    and len: "length cs \<le> 3" and tr: "trailing b = Inr (int (length cs))"
    by (auto simp: utf8_seq_def)
  have b0: "b \<noteq> 0" if "ch \<noteq> 0"
    using nul_free_u8_wc_toutf8 [OF assms(1) that] bs by simp
  have "u8_nextchar_loop (pre @ (b # cs) @ r) (int (length pre)) 0 0 =
      Inr (ch, int (length pre) + int (length (b # cs)))"
    using u8_nextchar_enc [OF assms, of pre] by (simp add: u8_nextchar_def bs)
  with toucs_fall_nextchar [OF cs assms(2), of pre b 0 0]
  obtain v p off where "toucs_fall (pre @ (b # cs) @ r) (length cs) 0 (int (length pre)) = Inr (v, p)"
    and "rd offsetsFromUTF8 (int (length cs)) = Inr off" and "v - off = ch"
    and "p = int (length pre) + int (length (b # cs))"
    by (auto simp: bnd_eq_Inr)
  with bs tr len b0 show ?thesis
    by (intro exI [of _ b] exI [of _ "int (length cs)"] exI [of _ v] exI [of _ off])
      (simp add: toucs_switch_def)
qed

lemma u8_toucs_loop_encs:
  assumes "scalars chs" and "int (length dest) + int (length chs) < sz"
  shows "u8_toucs_loop sz (pre @ encs chs @ 0 # r) (-1) (int (length pre)) dest = Inr (dest @ chs)"
  using assms
proof (induction chs arbitrary: pre dest)
  case Nil
  then show ?case by (subst u8_toucs_loop.simps) (simp add: trailing_unat)
next
  case (Cons ch chs)
  have lo: "lead_ok (encs chs @ 0 # r)" using Cons.prems by (simp add: lead_ok_encs isutf_0)
  obtain b nb v off where step: "rd (pre @ u8_wc_toutf8 ch @ encs chs @ 0 # r) (int (length pre)) = Inr b"
    "b \<noteq> 0" "trailing b = Inr nb"
    "toucs_switch (pre @ u8_wc_toutf8 ch @ encs chs @ 0 # r) nb (int (length pre)) =
      Inr (v, int (length pre) + int (length (u8_wc_toutf8 ch)))"
    "rd offsetsFromUTF8 nb = Inr off" "v - off = ch"
    using toucs_step [OF _ lo, of ch pre] Cons.prems(1) by auto
  have "u8_toucs_loop sz (pre @ encs (ch # chs) @ 0 # r) (-1) (int (length pre)) dest =
      u8_toucs_loop sz ((pre @ u8_wc_toutf8 ch) @ encs chs @ 0 # r) (-1)
        (int (length (pre @ u8_wc_toutf8 ch))) (dest @ [ch])"
    using Cons.prems by (subst u8_toucs_loop.simps) (simp add: step)
  also have "\<dots> = Inr ((dest @ [ch]) @ chs)"
    using Cons.prems by (intro Cons.IH) auto
  finally show ?case by simp
qed

lemma u8_toucs_encs:
  "scalars chs \<Longrightarrow> int (length chs) < sz \<Longrightarrow>
   u8_toucs sz (encs chs @ 0 # r) (-1) = Inr (chs @ [0], int (length chs))"
  using u8_toucs_loop_encs [of chs "[]" sz "[]" r] by (simp add: u8_toucs_def)

end
