(* ===== verification/Utf8_Valid.thy ===== *)
theory Utf8_Valid
  imports Utf8_Convert
begin

text \<open>
  The validator accepts every string of encoded characters, the reversal of an encoded
  string is the encoding of the reversed characters, and what the validator says of a string
  cut inside a character is decided by the byte after it.
\<close>

section \<open>Bit tests on bytes\<close>

lemma byte_less: "n < 256 \<Longrightarrow> byte n < 128 \<longleftrightarrow> n < 128"
  by (simp add: word_less_nat_alt unat_byte)

lemma and_C0_eq_C0: "n < 256 \<Longrightarrow> byte n AND 0xC0 = 0xC0 \<longleftrightarrow> 192 \<le> n"
proof -
  assume n: "n < 256"
  define q r where "q = n div 64" and "r = n mod 64"
  have qr: "n = 64 * q + r" "r < 64" unfolding q_def r_def by simp_all
  have "unat (byte n AND 0xC0) = q * 64"
    using n by (simp add: unsigned_and_eq unat_byte and_192_nat q_def)
  then have "byte n AND 0xC0 = 0xC0 \<longleftrightarrow> q * 64 = 192"
    by (simp add: word_unat_eq_iff)
  also have "\<dots> \<longleftrightarrow> 192 \<le> n" using n qr by auto
  finally show ?thesis .
qed

lemma and_C0_eq_80: "c AND 0xC0 = 0x80 \<longleftrightarrow> \<not> isutf c"
  by (simp add: isutf_def)

lemma all_less_list: "(\<forall>n < k. P n) \<longleftrightarrow> list_all P [0..<k]"
  by (auto simp: list_all_iff)

lemma overlong_2: "2 \<le> q \<Longrightarrow> q < 32 \<Longrightarrow> byte (q + 192) AND 0x3E \<noteq> 0"
proof -
  have "list_all (\<lambda>q. 2 \<le> q \<longrightarrow> byte (q + 192) AND 0x3E \<noteq> 0) [0..<32]" by code_simp
  then show "2 \<le> q \<Longrightarrow> q < 32 \<Longrightarrow> ?thesis" by (simp add: all_less_list [symmetric])
qed

lemma overlong_3: "32 \<le> m \<Longrightarrow> m < 64 \<Longrightarrow> byte (m + 128) AND 0x20 \<noteq> 0"
proof -
  have "list_all (\<lambda>m. 32 \<le> m \<longrightarrow> byte (m + 128) AND 0x20 \<noteq> 0) [0..<64]" by code_simp
  then show "32 \<le> m \<Longrightarrow> m < 64 \<Longrightarrow> ?thesis" by (simp add: all_less_list [symmetric])
qed

lemma overlong_4: "16 \<le> m \<Longrightarrow> m < 64 \<Longrightarrow> byte (m + 128) AND 0x30 \<noteq> 0"
proof -
  have "list_all (\<lambda>m. 16 \<le> m \<longrightarrow> byte (m + 128) AND 0x30 \<noteq> 0) [0..<64]" by code_simp
  then show "16 \<le> m \<Longrightarrow> m < 64 \<Longrightarrow> ?thesis" by (simp add: all_less_list [symmetric])
qed

lemma byte_eq_iff: "m < 256 \<Longrightarrow> n < 256 \<Longrightarrow> byte m = byte n \<longleftrightarrow> m = n"
  by (simp add: word_unat_eq_iff unat_byte)

lemma byte_lits: "(0xE0 :: u8) = byte 0xE0" "(0xF0 :: u8) = byte 0xF0"
  by (simp_all add: byte_def)

section \<open>Validation\<close>

lemma isvalid_char:
  assumes "ch < 0x110000" and "int (length pre) < pend"
    and "int (length (u8_wc_toutf8 ch)) \<le> len + 1"
  shows "isvalid_loop (pre @ u8_wc_toutf8 ch @ r) pend (int (length pre)) len =
    isvalid_loop (pre @ u8_wc_toutf8 ch @ r) pend
      (int (length pre) + int (length (u8_wc_toutf8 ch)))
      (len - (int (length (u8_wc_toutf8 ch)) - 1))"
proof -
  define n where "n = unat ch"
  have n: "n < 0x110000" using assms(1) by (simp add: n_def word_less_nat_alt)
  note enc = u8_wc_toutf8_byte [of ch, folded n_def, unfolded Let_def]
  have rd0: "rd (pre @ x) (int (length pre)) = rd x 0" for x
    using rd_pre [of 0 pre x] by simp
  have rd1: "rd (pre @ x) (int (length pre) + k) = rd x k" if "0 \<le> k" for k x
    using that by (rule rd_pre)
  note rds = rd0 rd1 rd_Cons add.assoc
  note bytes = byte_less and_C0_eq_C0 and_C0_eq_80 isutf_byte trailing_unat unat_byte
    trailing_nat_def
  consider "n < 0x80" | "0x80 \<le> n" "n < 0x800" | "0x800 \<le> n" "n < 0x10000" | "0x10000 \<le> n"
    by linarith
  then show ?thesis
  proof cases
    case 1
    then have e: "u8_wc_toutf8 ch = [byte n]" by (simp add: enc)
    show ?thesis unfolding e
      by (subst isvalid_loop.simps) (use 1 assms in \<open>simp add: rds bytes e\<close>)
  next
    case 2
    then have e: "u8_wc_toutf8 ch = [byte (n div 64 + 192), byte (n mod 64 + 128)]"
      and b: "n div 64 < 32" "2 \<le> n div 64" by (simp_all add: enc)
    show ?thesis unfolding e
      by (subst isvalid_loop.simps) (use b assms in \<open>simp add: rds bytes e overlong_2\<close>)
  next
    case 3
    then have e: "u8_wc_toutf8 ch =
        [byte (n div 4096 + 224), byte (n div 64 mod 64 + 128), byte (n mod 64 + 128)]"
      and b: "n div 4096 < 16" by (simp_all add: enc)
    have "32 \<le> n div 64 mod 64" if "n div 4096 = 0" using 3 that by simp
    then have o: "\<not> overlong 2 (byte (n div 4096 + 224)) (byte (n div 64 mod 64 + 128))"
      using b overlong_3 [of "n div 64 mod 64"]
      by (auto simp: overlong_def byte_lits byte_eq_iff)
    show ?thesis unfolding e
      by (subst isvalid_loop.simps, use b o assms in \<open>simp add: rds bytes e\<close>)
        (simp add: isvalid_rest.simps rds bytes)
  next
    case 4
    then have e: "u8_wc_toutf8 ch = [byte (n div 262144 + 240), byte (n div 4096 mod 64 + 128),
        byte (n div 64 mod 64 + 128), byte (n mod 64 + 128)]"
      and b: "n div 262144 < 8" using n by (simp_all add: enc)
    have "16 \<le> n div 4096 mod 64" if "n div 262144 = 0" using 4 that by simp
    then have o: "\<not> overlong 3 (byte (n div 262144 + 240)) (byte (n div 4096 mod 64 + 128))"
      using b overlong_4 [of "n div 4096 mod 64"]
      by (auto simp: overlong_def byte_lits byte_eq_iff)
    show ?thesis unfolding e
      by (subst isvalid_loop.simps, use b o assms in \<open>simp add: rds bytes e\<close>)
        (simp add: isvalid_rest.simps rds bytes)
  qed
qed

lemma isvalid_loop_encs:
  assumes "\<forall>ch \<in> set chs. ch < 0x110000" and "int (length (encs chs)) \<le> len"
  shows "isvalid_loop (pre @ encs chs @ r) (int (length (pre @ encs chs))) (int (length pre)) len =
    Inr True"
  using assms
proof (induction chs arbitrary: pre len)
  case Nil
  then show ?case by (simp add: isvalid_loop.simps)
next
  case (Cons ch chs)
  let ?e = "u8_wc_toutf8 ch"
  have pos: "0 < length ?e" using Cons.prems by (simp add: length_u8_wc_toutf8 u8_charlen_pos)
  have "isvalid_loop (pre @ ?e @ encs chs @ r) (int (length (pre @ encs (ch # chs))))
      (int (length pre)) len =
    isvalid_loop ((pre @ ?e) @ encs chs @ r) (int (length ((pre @ ?e) @ encs chs)))
      (int (length (pre @ ?e))) (len - (int (length ?e) - 1))"
    using isvalid_char [of ch pre "int (length (pre @ encs (ch # chs)))" len "encs chs @ r"]
      Cons.prems pos by (simp add: less_eq_Suc_le)
  also have "\<dots> = Inr True"
    using Cons.prems pos by (intro Cons.IH) auto
  finally show ?case by simp
qed

lemma u8_isvalid_encs:
  "\<forall>ch \<in> set chs. ch < 0x110000 \<Longrightarrow> u8_isvalid (encs chs @ r) (int (length (encs chs))) = Inr True"
  using isvalid_loop_encs [of chs "int (length (encs chs))" "[]" r] by (simp add: u8_isvalid_def)

section \<open>Reversal\<close>

lemma and_128_nat: "n < 256 \<Longrightarrow> n AND 128 = n div 128 * 128" for n :: nat
proof -
  assume n: "n < 256"
  have "n AND 128 = (n AND 192) AND 128" by (simp add: and.assoc)
  also have "\<dots> = n div 64 * 64 AND 128" using n by (simp add: and_192_nat)
  also have "\<dots> = n div 64 div 2 * 128"
  proof -
    from n consider "n div 64 = 0" | "n div 64 = 1" | "n div 64 = 2" | "n div 64 = 3" by fastforce
    then show ?thesis by cases simp_all
  qed
  finally show ?thesis by (simp add: div_mult2_eq [symmetric])
qed

lemma not_and_80: "NOT c AND 0x80 \<noteq> 0 \<longleftrightarrow> unat (c :: u8) < 128"
proof -
  have "NOT c = 255 - c" by (simp add: not_eq_complement)
  moreover have "unat (255 - c) = 255 - unat c"
    using unat_u8 [of c] by (subst unat_sub) (simp_all add: word_le_nat_alt)
  ultimately have "unat (NOT c AND 0x80) = (255 - unat c) div 128 * 128"
    by (simp add: unsigned_and_eq and_128_nat)
  then have "NOT c AND 0x80 \<noteq> 0 \<longleftrightarrow> 128 \<le> 255 - unat c"
    by (auto simp: word_unat_eq_iff)
  then show ?thesis using unat_u8 [of c] by auto
qed

lemma lead_nibble:
  assumes "ch < 0x110000" and "u8_wc_toutf8 ch = b # cs"
  shows "(unat b < 128 \<longleftrightarrow> length cs = 0)"
    and "(length cs = 1 \<longleftrightarrow> unat b div 16 = 12 \<or> unat b div 16 = 13)"
    and "(length cs = 2 \<longleftrightarrow> unat b div 16 = 14)"
    and "(length cs = 3 \<longleftrightarrow> unat b div 16 = 15)"
proof -
  define n where "n = unat ch"
  have n: "n < 0x110000" using assms(1) by (simp add: n_def word_less_nat_alt)
  note enc = u8_wc_toutf8_byte [of ch, folded n_def, unfolded Let_def assms(2)]
  have "n div 64 < 32" if "n < 0x800" using that by simp
  moreover have "n div 4096 < 16" if "n < 0x10000" using that by simp
  moreover have "n div 262144 < 8" using n by simp
  ultimately have "(length cs = 0 \<and> unat b < 128) \<or> (length cs = 1 \<and> 192 \<le> unat b \<and> unat b < 224) \<or>
      (length cs = 2 \<and> 224 \<le> unat b \<and> unat b < 240) \<or> (length cs = 3 \<and> 240 \<le> unat b \<and> unat b < 256)"
    using enc n by (auto simp: unat_byte split: if_splits)
  then show "(unat b < 128 \<longleftrightarrow> length cs = 0)"
    and "(length cs = 1 \<longleftrightarrow> unat b div 16 = 12 \<or> unat b div 16 = 13)"
    and "(length cs = 2 \<longleftrightarrow> unat b div 16 = 14)"
    and "(length cs = 3 \<longleftrightarrow> unat b div 16 = 15)"
    by auto
qed

lemma copy_bytes_eq:
  "length junk = length bs \<Longrightarrow>
   copy_bytes (length bs) (s @ bs @ r) (int (length s)) (d @ junk @ t) (int (length d)) =
     Inr (d @ bs @ t)"
proof (induction bs arbitrary: s d junk)
  case (Cons b bs)
  then obtain j js where junk: "junk = j # js" "length js = length bs"
    by (cases junk) auto
  have "copy_bytes (length bs) ((s @ [b]) @ bs @ r) (int (length (s @ [b])))
      ((d @ [b]) @ js @ t) (int (length (d @ [b]))) = Inr ((d @ [b]) @ bs @ t)"
    using junk(2) by (rule Cons.IH)
  then show ?case by (simp add: junk(1) wr_append_at add.commute)
qed simp

lemma u8_reverse_char:
  assumes "ch < 0x110000" and "length junk = length (u8_wc_toutf8 ch)"
    and "length pre + length (u8_wc_toutf8 ch) \<le> n"
  shows "u8_reverse_loop (pre @ u8_wc_toutf8 ch @ r) (int n) (int (length pre))
      (d @ junk @ t) (int (length d) + int (length junk)) =
    u8_reverse_loop (pre @ u8_wc_toutf8 ch @ r) (int n)
      (int (length pre) + int (length (u8_wc_toutf8 ch))) (d @ u8_wc_toutf8 ch @ t) (int (length d))"
proof -
  have seq: "utf8_seq (u8_wc_toutf8 ch)" using assms(1) by (rule u8_wc_toutf8_seq)
  then obtain b cs where e: "u8_wc_toutf8 ch = b # cs" "length cs \<le> 3"
    by (auto simp: utf8_seq_def)
  note nib = lead_nibble [OF assms(1) e(1)]
  have copy: "copy_bytes k (pre @ (b # cs) @ r) (int (length pre)) (d @ junk @ t) (int (length d)) =
      Inr (d @ (b # cs) @ t)" if "k = length (b # cs)" for k
    using copy_bytes_eq [of junk "b # cs" pre r d t] assms(2) e that by simp
  have hi: "drop_bit 4 b = 0xC \<longleftrightarrow> unat b div 16 = 12" "drop_bit 4 b = 0xD \<longleftrightarrow> unat b div 16 = 13"
    "drop_bit 4 b = 0xE \<longleftrightarrow> unat b div 16 = 14" "drop_bit 4 b = 0xF \<longleftrightarrow> unat b div 16 = 15"
    by (simp_all add: word_unat_eq_iff unat_drop_bit_eq drop_bit_eq_div unat_div)
  have rd0: "rd (pre @ b # cs @ r) (int (length pre)) = Inr b" by simp
  have ne: "cs = [] \<longleftrightarrow> length cs = 0" by simp
  have lt: "int (length pre) < int n" using assms(3) e by simp
  from e(2) consider "length cs = 0" | "length cs = 1" | "length cs = 2" | "length cs = 3" by linarith
  then show ?thesis
  proof cases
    case 1
    then obtain j where j: "junk = [j]" using assms(2) e by (cases junk) auto
    from 1 show ?thesis
      unfolding e j using nib lt wr_append_at [of "int (length d)" d j t b]
      by (subst u8_reverse_loop.simps) (simp add: not_and_80 rd0)
  next
    case 2
    then show ?thesis
      unfolding e using nib lt copy [of 2] assms(2) e
      by (subst u8_reverse_loop.simps) (simp add: not_and_80 rd0 hi Let_def ne del: length_0_conv)
  next
    case 3
    then show ?thesis
      unfolding e using nib lt copy [of 3] assms(2) e
      by (subst u8_reverse_loop.simps) (simp add: not_and_80 rd0 hi Let_def ne del: length_0_conv)
  next
    case 4
    then show ?thesis
      unfolding e using nib lt copy [of 4] assms(2) e
      by (subst u8_reverse_loop.simps) (simp add: not_and_80 rd0 hi Let_def ne del: length_0_conv)
  qed
qed

lemma u8_reverse_loop_encs:
  assumes "\<forall>ch \<in> set chs. ch < 0x110000" and "length junk = length (encs chs)"
  shows "u8_reverse_loop (pre @ encs chs @ r) (int (length (pre @ encs chs))) (int (length pre))
      (junk @ t) (int (length junk)) = Inr (encs (rev chs) @ t, 0)"
  using assms
proof (induction chs arbitrary: pre junk t)
  case Nil
  then show ?case by (simp add: u8_reverse_loop.simps)
next
  case (Cons ch chs)
  let ?e = "u8_wc_toutf8 ch"
  define d j where "d = take (length (encs chs)) junk" and "j = drop (length (encs chs)) junk"
  have dj: "junk = d @ j" "length d = length (encs chs)" "length j = length ?e"
    using Cons.prems by (simp_all add: d_def j_def)
  have "u8_reverse_loop (pre @ encs (ch # chs) @ r) (int (length (pre @ encs (ch # chs))))
      (int (length pre)) (junk @ t) (int (length junk)) =
    u8_reverse_loop ((pre @ ?e) @ encs chs @ r) (int (length ((pre @ ?e) @ encs chs)))
      (int (length (pre @ ?e))) (d @ (?e @ t)) (int (length d))"
    using u8_reverse_char [of ch j pre "length (pre @ encs (ch # chs))" "encs chs @ r" d t]
      Cons.prems dj by simp
  also have "\<dots> = Inr (encs (rev chs) @ (?e @ t), 0)"
    using Cons.prems dj by (intro Cons.IH) auto
  finally show ?case by simp
qed

lemma u8_reverse_encs:
  assumes "\<forall>ch \<in> set chs. ch < 0x110000" and "length dest = length (encs chs) + 1"
  shows "u8_reverse dest (encs chs @ r) (int (length (encs chs))) = Inr (encs (rev chs) @ [0], 0)"
proof -
  obtain junk x where dest: "dest = junk @ [x]" and j: "length junk = length (encs chs)"
    using assms(2) by (cases dest rule: rev_cases) auto
  then have "wr dest (int (length (encs chs))) 0 = Inr (junk @ [0])"
    by (simp add: wr_append_at)
  with u8_reverse_loop_encs [of chs junk "[]" r "[0]"] assms(1) j show ?thesis
    by (simp add: u8_reverse_def)
qed

section \<open>Cut strings\<close>

text \<open>
  A character cut short after \<open>j\<close> of its bytes: what the validator answers is decided by the
  byte after them, whether or not it is part of the string.
\<close>

lemma isvalid_cut_char:
  assumes "ch < 0x110000" and "0 < j" and "j < length (u8_wc_toutf8 ch)" and "int (length pre) < pend"
    and "int (length (u8_wc_toutf8 ch)) \<le> len + 1"
    and "rd s 0 = Inl OutOfBounds \<and> v = Inl OutOfBounds \<or>
      (\<exists>c. rd s 0 = Inr c \<and> c AND 0xC0 \<noteq> 0x80) \<and> v = Inr False"
  shows "isvalid_loop (pre @ take j (u8_wc_toutf8 ch) @ s) pend (int (length pre)) len = v"
proof -
  define n where "n = unat ch"
  have n: "n < 0x110000" using assms(1) by (simp add: n_def word_less_nat_alt)
  note enc = u8_wc_toutf8_byte [of ch, folded n_def, unfolded Let_def]
  have rd0: "rd (pre @ x) (int (length pre)) = rd x 0" for x
    using rd_pre [of 0 pre x] by simp
  have rd1: "rd (pre @ x) (int (length pre) + k) = rd x k" if "0 \<le> k" for k x
    using that by (rule rd_pre)
  note rds = rd0 rd1 rd_Cons add.assoc
  note bytes = byte_less and_C0_eq_C0 and_C0_eq_80 isutf_byte trailing_unat unat_byte
    trailing_nat_def
  consider "n < 0x80" | "0x80 \<le> n" "n < 0x800" | "0x800 \<le> n" "n < 0x10000" | "0x10000 \<le> n"
    by linarith
  then show ?thesis
  proof cases
    case 1
    then show ?thesis using assms(2,3) by (simp add: enc)
  next
    case 2
    then have e: "u8_wc_toutf8 ch = [byte (n div 64 + 192), byte (n mod 64 + 128)]"
      and b: "n div 64 < 32" "2 \<le> n div 64" by (simp_all add: enc)
    have j: "j = 1" using assms(2,3) e by simp
    show ?thesis unfolding e j
      by (subst isvalid_loop.simps) (use b assms(4-6) in \<open>auto simp: rds bytes e\<close>)
  next
    case 3
    then have e: "u8_wc_toutf8 ch =
        [byte (n div 4096 + 224), byte (n div 64 mod 64 + 128), byte (n mod 64 + 128)]"
      and b: "n div 4096 < 16" by (simp_all add: enc)
    have "32 \<le> n div 64 mod 64" if "n div 4096 = 0" using 3 that by simp
    then have o: "\<not> overlong 2 (byte (n div 4096 + 224)) (byte (n div 64 mod 64 + 128))"
      using b overlong_3 [of "n div 64 mod 64"]
      by (auto simp: overlong_def byte_lits byte_eq_iff)
    from assms(2,3) e consider "j = 1" | "j = 2" by fastforce
    then show ?thesis
      by (cases; unfold e; subst isvalid_loop.simps; use b o assms(4-6) in \<open>auto simp: rds bytes e isvalid_rest.simps\<close>)
  next
    case 4
    then have e: "u8_wc_toutf8 ch = [byte (n div 262144 + 240), byte (n div 4096 mod 64 + 128),
        byte (n div 64 mod 64 + 128), byte (n mod 64 + 128)]"
      and b: "n div 262144 < 8" using n by (simp_all add: enc)
    have "16 \<le> n div 4096 mod 64" if "n div 262144 = 0" using 4 that by simp
    then have o: "\<not> overlong 3 (byte (n div 262144 + 240)) (byte (n div 4096 mod 64 + 128))"
      using b overlong_4 [of "n div 4096 mod 64"]
      by (auto simp: overlong_def byte_lits byte_eq_iff)
    from assms(2,3) e consider "j = 1" | "j = 2" | "j = 3" by fastforce
    then show ?thesis
      by (cases; unfold e; subst isvalid_loop.simps; use b o assms(4-6) in \<open>auto simp: rds bytes e isvalid_rest.simps\<close>)
  qed
qed

lemma isvalid_too_long:
  assumes "ch < 0x110000" and "0 < j" and "int (length pre) < pend" and "len + 1 < int (length (u8_wc_toutf8 ch))"
    and "0 \<le> len"
  shows "isvalid_loop (pre @ take j (u8_wc_toutf8 ch) @ s) pend (int (length pre)) len = Inr False"
proof -
  obtain b cs where b: "u8_wc_toutf8 ch = b # cs" and tr: "trailing b = Inr (int (length cs))"
    using u8_wc_toutf8_seq [OF assms(1)] by (auto simp: utf8_seq_def)
  have "\<not> b < 128" using lead_nibble(1) [OF assms(1) b] assms(4,5) b by (auto simp: word_less_nat_alt)
  moreover obtain i where "j = Suc i" using assms(2) by (cases j) auto
  moreover have "rd (pre @ b # x) (int (length pre)) = Inr b" for x by simp
  ultimately show ?thesis
    unfolding b using assms(3,4) tr b by (subst isvalid_loop.simps) auto
qed

lemma isvalid_loop_over:
  assumes "\<forall>ch \<in> set chs. ch < 0x110000" and "int (length (encs chs)) \<le> len"
    and "int (length (pre @ encs chs)) \<le> pend"
  shows "isvalid_loop (pre @ encs chs @ r) pend (int (length pre)) len =
    isvalid_loop (pre @ encs chs @ r) pend (int (length (pre @ encs chs)))
      (len - (int (length (encs chs)) - int (length chs)))"
  using assms
proof (induction chs arbitrary: pre len)
  case (Cons ch chs)
  let ?e = "u8_wc_toutf8 ch"
  have pos: "1 \<le> length ?e" using Cons.prems by (simp add: length_u8_wc_toutf8 u8_charlen_pos Suc_leI)
  have "isvalid_loop (pre @ ?e @ encs chs @ r) pend (int (length pre)) len =
    isvalid_loop ((pre @ ?e) @ encs chs @ r) pend (int (length (pre @ ?e))) (len - (int (length ?e) - 1))"
    using isvalid_char [of ch pre pend len "encs chs @ r"] Cons.prems pos by simp
  also have "\<dots> = isvalid_loop ((pre @ ?e) @ encs chs @ r) pend (int (length ((pre @ ?e) @ encs chs)))
      (len - (int (length ?e) - 1) - (int (length (encs chs)) - int (length chs)))"
    using Cons.prems pos by (intro Cons.IH) auto
  finally show ?case by (simp add: algebra_simps)
qed simp

end
