(* ===== verification/Utf8_Escape.thy ===== *)
theory Utf8_Escape
  imports Utf8_Valid
begin

text \<open>
  Escaping an encoded string and reading the escapes back. The round trip holds exactly when
  no control character written with a single hexadecimal digit stands before a hexadecimal
  digit (\<open>unambiguous\<close>): \<open>u8_escape_wchar\<close> writes such a character with one digit, and
  \<open>u8_read_escape_sequence\<close> reads up to two. What any other text reads back as is \<open>read_back\<close>.
\<close>

section \<open>Hexadecimal digits\<close>

lemma unat_hexdigU: "n < 16 \<Longrightarrow> unat (hexdigU n) = (if n < 10 then 48 + n else 55 + n)"
  by (auto simp: hexdigU_def unat_of_nat take_bit_nat_eq_self simp del: of_nat_add)

lemma digit_val_hexdigU: "n < 16 \<Longrightarrow> digit_val (hexdigU n) = n"
  by (auto simp: digit_val_def word_le_nat_alt unat_hexdigU)

lemma hex_digit_hexdigU: "n < 16 \<Longrightarrow> hex_digit (hexdigU n)"
  by (auto simp: hex_digit_def word_le_nat_alt unat_hexdigU)

lemma hexU_digits: "\<forall>d \<in> set (hexU n). hex_digit d"
proof (induction n rule: hexU.induct)
  case (1 n)
  then show ?case
    by (subst hexU.simps) (auto simp: hex_digit_hexdigU)
qed

lemma strtol_digits_append:
  "strtol_digits b (xs @ [d]) = strtol_digits b xs * b + digit_val d"
  by (simp add: strtol_digits_def)

lemma strtol_hexU: "strtol_digits 16 (hexU n) = n"
proof (induction n rule: hexU.induct)
  case (1 n)
  then show ?case
    by (subst hexU.simps)
      (auto simp: strtol_digits_append digit_val_hexdigU strtol_digits_def [of 16 "[x]" for x])
qed

lemma strtol_replicate_0: "strtol_digits 16 (replicate k 0x30 @ ds) = strtol_digits 16 ds"
proof (induction k)
  case (Suc k)
  then show ?case by (simp add: strtol_digits_def digit_val_def)
qed simp

lemma length_hexU: "0 < w \<Longrightarrow> n < 16 ^ w \<Longrightarrow> length (hexU n) \<le> w"
proof (induction n arbitrary: w rule: hexU.induct)
  case (1 n)
  show ?case
  proof (cases "n < 16")
    case True
    with "1.prems" show ?thesis by (subst hexU.simps) simp
  next
    case False
    with "1.prems" obtain v where v: "w = Suc v" "0 < v"
      by (cases w; cases "w - 1") auto
    with "1.prems" have "n div 16 < 16 ^ v" by (simp add: less_mult_imp_div_less mult.commute)
    with "1.IH" [OF False, of v] v False show ?thesis by (subst hexU.simps) simp
  qed
qed

lemma hexU_nonempty: "hexU n \<noteq> []"
  by (subst hexU.simps) simp

lemma hexU_prec_facts:
  "\<forall>d \<in> set (hexU_prec w n). hex_digit d"
  "strtol_digits 16 (hexU_prec w n) = n"
  "0 < w \<Longrightarrow> n < 16 ^ w \<Longrightarrow> length (hexU_prec w n) = w"
  using hexU_digits [of n] length_hexU [of w n]
  by (auto simp: hexU_prec_def strtol_replicate_0 strtol_hexU hex_digit_def)

lemma read_digits_eq:
  assumes "\<forall>d \<in> set ds. p d" and "length acc + length ds \<le> mx"
    and "length acc + length ds < mx \<Longrightarrow> \<not> p c"
  shows "read_digits p mx (pre @ ds @ c # r) (int (length pre)) acc =
    Inr (acc @ ds, int (length pre) + int (length ds))"
  using assms
proof (induction ds arbitrary: pre acc)
  case Nil
  then show ?case by (subst read_digits.simps) auto
next
  case (Cons d ds)
  have "read_digits p mx ((pre @ [d]) @ ds @ c # r) (int (length (pre @ [d]))) (acc @ [d]) =
      Inr ((acc @ [d]) @ ds, int (length (pre @ [d])) + int (length ds))"
    using Cons.prems by (intro Cons.IH) auto
  with Cons.prems show ?case by (subst read_digits.simps) (simp add: add.commute)
qed

section \<open>Reading one escape back\<close>

text \<open>Between the backslash and the letter, \<open>p\<close> is the position of the letter.\<close>

lemma hex_escape_eq:
  assumes "\<forall>d \<in> set ds. hex_digit d" and "ds \<noteq> []" and "length ds \<le> mx"
    and "length ds < mx \<Longrightarrow> \<not> hex_digit c"
  shows "hex_escape mx (pre @ x # ds @ c # r) (int (length pre)) ch =
    Inr (1 + int (length ds), of_nat (strtol_digits 16 ds))"
  using read_digits_eq [of ds hex_digit "[]" mx c "pre @ [x]" r] assms
  by (simp add: hex_escape_def add.commute)

definition short_escape :: "u32 \<Rightarrow> bool" where
  "short_escape ch \<longleftrightarrow> ch < 16 \<and> \<not> (7 \<le> ch \<and> ch \<le> 13)"

fun unambiguous :: "u32 list \<Rightarrow> bool" where
  "unambiguous (c # d # chs) =
     (\<not> (short_escape c \<and> d < 0x80 \<and> hex_digit (ucast d)) \<and> unambiguous (d # chs))"
| "unambiguous _ = True"

lemma scast_ucast_ascii: "ch < 0x80 \<Longrightarrow> scast (ucast ch :: u8) = (ch :: u32)"
proof -
  assume "ch < 0x80"
  then have lt: "unat ch < 128" by (simp add: word_less_nat_alt)
  then have "unat (ucast ch :: u8) = unat ch"
    by (simp add: unsigned_ucast_eq take_bit_nat_eq_self)
  then have u: "uint (ucast ch :: u8) = uint ch"
    unfolding uint_nat by (rule arg_cong)
  have "uint ch < 128" using lt unfolding uint_nat by linarith
  then have "signed_take_bit 7 (uint ch) = uint ch"
    by (intro signed_take_bit_int_eq_self) (simp_all add: order_trans [OF _ uint_ge_0])
  then have "sint (ucast ch :: u8) = uint ch"
    by (simp add: sint_uint u)
  then show "scast (ucast ch :: u8) = ch"
    by (simp only: scast_eq word_of_int_uint)
qed

lemma unat_ucast_ascii: "ch < 0x80 \<Longrightarrow> unat (ucast (ch :: u32) :: u8) = unat ch"
  by (simp add: unsigned_ucast_eq take_bit_nat_eq_self word_less_nat_alt)

lemma ucast_ascii_eq: "ch < 0x80 \<Longrightarrow> n < 0x80 \<Longrightarrow> (ucast (ch :: u32) :: u8) = ucast n \<longleftrightarrow> ch = n"
  by (simp add: word_unat_eq_iff unat_ucast_ascii)

lemma u8_escape_wchar_control:
  assumes "ch < 32 \<or> ch = 0x7F" and "\<not> (7 \<le> ch \<and> ch \<le> 13)"
  shows "u8_escape_wchar ch = 0x5C # 0x78 # hexU (unat ch)"
proof -
  have "unat ch < 128" using assms(1) by (auto simp: word_less_nat_alt)
  then have "unat (ucast ch :: u8) = unat ch"
    by (simp add: unsigned_ucast_eq take_bit_nat_eq_self)
  moreover have "ch \<noteq> 0x5C" using assms(1) by auto
  ultimately show ?thesis using assms by (auto simp: u8_escape_wchar_def)
qed

lemma u8_escape_wchar_u:
  assumes "0x80 \<le> ch" and "ch < 0x10000"
  shows "u8_escape_wchar ch = 0x5C # 0x75 # hexU_prec 4 (unat ch)"
proof -
  have n: "128 \<le> unat ch" "unat ch < 65536"
    using assms by (simp_all add: word_le_nat_alt word_less_nat_alt)
  then have "unat (ucast ch :: 16 word) = unat ch"
    by (simp add: unsigned_ucast_eq take_bit_nat_eq_self)
  with n show ?thesis
    by (auto simp: u8_escape_wchar_def word_le_nat_alt word_less_nat_alt)
qed

lemma u8_escape_wchar_U:
  "0x10000 \<le> ch \<Longrightarrow> u8_escape_wchar ch = 0x5C # 0x55 # hexU_prec 8 (unat ch)"
  by (auto simp: u8_escape_wchar_def word_le_nat_alt word_less_nat_alt)

lemma u8_escape_wchar_plain:
  "32 \<le> ch \<Longrightarrow> ch < 0x7F \<Longrightarrow> ch \<noteq> 0x5C \<Longrightarrow> u8_escape_wchar ch = [ucast ch]"
  by (auto simp: u8_escape_wchar_def word_le_nat_alt word_less_nat_alt)

text \<open>The escape written for a character is read back as that character.\<close>

lemma unescape_hex:
  assumes "x = 0x78 \<and> mx = 2 \<or> x = 0x75 \<and> mx = 4 \<or> x = 0x55 \<and> mx = 8"
    and "\<forall>d \<in> set ds. hex_digit d" and "ds \<noteq> []" and "length ds \<le> mx"
    and "length ds < mx \<Longrightarrow> \<not> hex_digit c" and "strtol_digits 16 ds = unat ch"
  shows "unescape_chr (pre @ (0x5C # x # ds) @ c # r) (int (length pre)) 0x5C =
    Inr (ch, int (length pre) + int (length (0x5C # x # ds)))"
proof -
  have "rd (pre @ 0x5C # x # ds @ c # r) (int (length pre) + 1) = Inr x"
    by (simp add: rd_pre rd_Cons)
  moreover have "hex_escape mx (pre @ 0x5C # x # ds @ c # r) (int (length pre) + 1) k =
      Inr (1 + int (length ds), ch)" for k
    using hex_escape_eq [OF assms(2-5), of "pre @ [0x5C]" x r k] assms(6) by (simp add: add.commute)
  ultimately show ?thesis
    using assms(1) by (auto simp: unescape_chr_def u8_read_escape_sequence_def octal_digit_def)
qed

lemma unescape_named:
  assumes "(x, ch) \<in> {(0x6E, 10), (0x74, 9), (0x72, 13), (0x62, 8), (0x66, 12), (0x76, 11), (0x61, 7),
    (0x5C, 0x5C)}"
  shows "unescape_chr (pre @ [0x5C, x] @ r) (int (length pre)) 0x5C = Inr (ch, int (length pre) + 2)"
proof -
  have "rd (pre @ 0x5C # x # r) (int (length pre) + 1) = Inr x"
    by (simp add: rd_pre rd_Cons)
  with assms show ?thesis
    by (auto simp: unescape_chr_def u8_read_escape_sequence_def octal_digit_def)
qed

text \<open>The five forms an escape takes.\<close>

lemma escape_cases:
  obtains (named) "ch \<in> {7, 8, 9, 10, 11, 12, 13, 0x5C}"
    | (control) "ch < 32 \<or> ch = 0x7F" "\<not> (7 \<le> ch \<and> ch \<le> 13)"
    | (plain) "32 \<le> ch" "ch < 0x7F" "ch \<noteq> 0x5C"
    | (u) "0x80 \<le> ch" "ch < 0x10000"
    | (U) "0x10000 \<le> (ch :: u32)"
proof -
  have "ch \<in> {7, 8, 9, 10, 11, 12, 13}" if "7 \<le> ch \<and> ch \<le> 13"
  proof -
    from that have "unat ch \<in> {7, 8, 9, 10, 11, 12, 13}"
      by (auto simp: word_le_nat_alt)
    then show ?thesis by (auto simp: word_unat_eq_iff)
  qed
  moreover have "ch = 0x7F \<or> ch < 0x7F \<or> 0x80 \<le> ch"
    by (auto simp: word_le_nat_alt word_less_nat_alt word_unat_eq_iff)
  ultimately show thesis using that by fastforce
qed

lemma unescape_chr_escape:
  assumes "ch < 0x110000" and "ch \<noteq> 0" and "short_escape ch \<Longrightarrow> \<not> hex_digit c"
  obtains b cs where "u8_escape_wchar ch = b # cs" and "b \<noteq> 0"
    and "unescape_chr (pre @ u8_escape_wchar ch @ c # r) (int (length pre)) b =
      Inr (ch, int (length pre) + int (length (u8_escape_wchar ch)))"
proof (cases ch rule: escape_cases)
  case named
  then show thesis
    using that unescape_named [of _ ch pre "c # r"] by (auto simp: u8_escape_wchar_def)
next
  case control
  have e: "u8_escape_wchar ch = 0x5C # 0x78 # hexU (unat ch)"
    using control by (rule u8_escape_wchar_control)
  have "unat ch < 128" using control(1) by (auto simp: word_less_nat_alt)
  then have l: "length (hexU (unat ch)) \<le> 2" by (intro length_hexU) auto
  have "short_escape ch" if "length (hexU (unat ch)) < 2"
  proof -
    have "unat ch < 16"
    proof (rule ccontr)
      assume "\<not> unat ch < 16"
      with that have "hexU (unat ch div 16) = []" by (subst (asm) hexU.simps) simp
      then show False by (simp add: hexU_nonempty)
    qed
    with control(2) show ?thesis by (auto simp: short_escape_def word_less_nat_alt)
  qed
  with l assms(3) have "unescape_chr (pre @ (0x5C # 0x78 # hexU (unat ch)) @ c # r) (int (length pre)) 0x5C =
      Inr (ch, int (length pre) + int (length (0x5C # 0x78 # hexU (unat ch))))"
    by (intro unescape_hex [where mx = 2]) (auto simp: hexU_digits hexU_nonempty strtol_hexU)
  with that e show thesis by auto
next
  case plain
  then have lt: "ch < 0x80" and n: "unat ch \<noteq> 0"
    by (auto simp: word_le_nat_alt word_less_nat_alt)
  have "(ucast ch :: u8) \<noteq> 0"
    using n by (simp add: word_unat_eq_iff unat_ucast_ascii [OF lt])
  moreover have "(ucast ch :: u8) \<noteq> 0x5C"
    using plain ucast_ascii_eq [OF lt, of "0x5C"] by simp
  ultimately show thesis
    using that plain by (simp add: u8_escape_wchar_plain unescape_chr_def scast_ucast_ascii [OF lt])
next
  case u
  have "unat ch < 16 ^ 4" using u(2) by (simp add: word_less_nat_alt)
  then have "length (hexU_prec 4 (unat ch)) = 4" by (simp add: hexU_prec_facts)
  then have "unescape_chr (pre @ (0x5C # 0x75 # hexU_prec 4 (unat ch)) @ c # r) (int (length pre)) 0x5C =
      Inr (ch, int (length pre) + int (length (0x5C # 0x75 # hexU_prec 4 (unat ch))))"
    by (intro unescape_hex [where mx = 4]) (auto simp: hexU_prec_facts)
  with that u8_escape_wchar_u [OF u] show thesis by auto
next
  case U
  have "unat ch < 16 ^ 8" using assms(1) by (simp add: word_less_nat_alt)
  then have "length (hexU_prec 8 (unat ch)) = 8" by (simp add: hexU_prec_facts)
  then have "unescape_chr (pre @ (0x5C # 0x55 # hexU_prec 8 (unat ch)) @ c # r) (int (length pre)) 0x5C =
      Inr (ch, int (length pre) + int (length (0x5C # 0x55 # hexU_prec 8 (unat ch))))"
    by (intro unescape_hex [where mx = 8]) (auto simp: hexU_prec_facts)
  with that u8_escape_wchar_U [OF U] show thesis by auto
qed

section \<open>Whole strings\<close>

definition escs :: "u32 list \<Rightarrow> bytes" where
  "escs chs = concat (map u8_escape_wchar chs)"

lemma escs_simps [simp]:
  "escs [] = []" "escs (ch # chs) = u8_escape_wchar ch @ escs chs"
  by (simp_all add: escs_def)

lemma u8_escape_loop_encs:
  assumes "scalars chs" and "int (length out) + int (length (escs chs)) < sz"
  shows "u8_escape_loop sz (pre @ encs chs @ 0 # r) False (int (length pre)) out =
    Inr (out @ escs chs @ [0], int (length out) + int (length (escs chs)))"
  using assms
proof (induction chs arbitrary: pre out)
  case Nil
  then show ?case by (subst u8_escape_loop.simps) simp
next
  case (Cons ch chs)
  have nf: "nul_free (u8_wc_toutf8 ch)" and seq: "utf8_seq (u8_wc_toutf8 ch)"
    using Cons.prems by (auto intro: nul_free_u8_wc_toutf8 u8_wc_toutf8_seq)
  then obtain b cs where b: "u8_wc_toutf8 ch = b # cs" "b \<noteq> 0" by (auto simp: utf8_seq_def)
  have next_chr: "u8_nextchar (pre @ u8_wc_toutf8 ch @ encs chs @ 0 # r) (int (length pre)) =
      Inr (ch, int (length (pre @ u8_wc_toutf8 ch)))"
    using u8_nextchar_enc [of ch "encs chs @ 0 # r" pre] Cons.prems
    by (simp add: lead_ok_encs isutf_0)
  have "u8_escape_loop sz (pre @ encs (ch # chs) @ 0 # r) False (int (length pre)) out =
      u8_escape_loop sz ((pre @ u8_wc_toutf8 ch) @ encs chs @ 0 # r) False
        (int (length (pre @ u8_wc_toutf8 ch))) (out @ u8_escape_wchar ch)"
    using Cons.prems next_chr b by (subst u8_escape_loop.simps) (simp add: Let_def)
  also have "\<dots> = Inr ((out @ u8_escape_wchar ch) @ escs chs @ [0],
      int (length (out @ u8_escape_wchar ch)) + int (length (escs chs)))"
    using Cons.prems by (intro Cons.IH) auto
  finally show ?case by simp
qed

lemma u8_escape_encs:
  "scalars chs \<Longrightarrow> int (length (escs chs)) < sz \<Longrightarrow>
   u8_escape sz (encs chs @ 0 # r) False = Inr (escs chs @ [0], int (length (escs chs)))"
  using u8_escape_loop_encs [of chs "[]" sz "[]" r] by (simp add: u8_escape_def)

lemma hex_digit_not: "\<not> hex_digit 0" "\<not> hex_digit 0x5C"
  by (simp_all add: hex_digit_def)

text \<open>The byte that follows the escape of the first character does not extend it.\<close>

lemma escape_follow:
  fixes r :: bytes
  assumes "unambiguous (ch # take 1 chs)" and "scalars chs" and "short_escape ch"
  obtains c t where "escs chs @ 0 # r = c # t" and "\<not> hex_digit c"
proof (cases chs)
  case Nil
  with that show thesis by (simp add: hex_digit_not)
next
  case (Cons d ds)
  show thesis
  proof (cases d rule: escape_cases)
    case plain
    then have "d < 0x80" by (auto simp: word_less_nat_alt)
    with plain assms Cons that show thesis by (auto simp: u8_escape_wchar_plain)
  next
    case named
    with Cons that show thesis by (auto simp: u8_escape_wchar_def hex_digit_not)
  next
    case control
    from u8_escape_wchar_control [OF control] Cons that show thesis by (auto simp: hex_digit_not)
  next
    case u
    from u8_escape_wchar_u [OF u] Cons that show thesis by (auto simp: hex_digit_not)
  next
    case U
    from u8_escape_wchar_U [OF U] Cons that show thesis by (auto simp: hex_digit_not)
  qed
qed

lemma u8_unescape_loop_chr:
  assumes "ch < 0x110000" and "ch \<noteq> 0" and "scalars chs" and "unambiguous (ch # take 1 chs)"
    and "int (length out) + int (length (u8_wc_toutf8 ch)) \<le> sz"
  shows "u8_unescape_loop sz (pre @ u8_escape_wchar ch @ escs chs @ 0 # r) (int (length pre)) out =
    u8_unescape_loop sz (pre @ u8_escape_wchar ch @ escs chs @ 0 # r)
      (int (length (pre @ u8_escape_wchar ch))) (out @ u8_wc_toutf8 ch)"
proof -
  have "\<exists>c t. escs chs @ 0 # r = c # t \<and> (short_escape ch \<longrightarrow> \<not> hex_digit c)"
  proof (cases "short_escape ch")
    case True
    with assms obtain c t where "escs chs @ 0 # r = c # t" "\<not> hex_digit c"
      using escape_follow [of ch chs r] by auto
    then show ?thesis by blast
  next
    case False
    then show ?thesis by (cases "escs chs @ 0 # r") auto
  qed
  then obtain c t where c: "escs chs @ 0 # r = c # t" "short_escape ch \<Longrightarrow> \<not> hex_digit c"
    by blast
  obtain b cs where b: "u8_escape_wchar ch = b # cs" "b \<noteq> 0"
    and un: "unescape_chr (pre @ u8_escape_wchar ch @ c # t) (int (length pre)) b =
      Inr (ch, int (length pre) + int (length (u8_escape_wchar ch)))"
    using unescape_chr_escape [of ch c pre t] assms c(2) by auto
  have "0 < length (u8_wc_toutf8 ch)" using assms(1) by (simp add: length_u8_wc_toutf8 u8_charlen_pos)
  then have sz: "int (length out) < sz" "int (length (u8_wc_toutf8 ch)) \<le> sz - int (length out)"
    using assms(5) by (simp_all del: length_greater_0_conv)
  have "rd (pre @ u8_escape_wchar ch @ c # t) (int (length pre)) = Inr b" by (simp add: b)
  then show ?thesis
    unfolding c(1) using sz b(2) by (subst u8_unescape_loop.simps) (auto simp: un Let_def)
qed

text \<open>
  What the escapes read back as: a character written with a single digit, before a hexadecimal
  digit, becomes one character with that digit.
\<close>

fun read_back :: "u32 list \<Rightarrow> u32 list" where
  "read_back (c # d # chs) =
     (if short_escape c \<and> d < 0x80 \<and> hex_digit (ucast d)
      then of_nat (16 * unat c + digit_val (ucast d)) # read_back chs
      else c # read_back (d # chs))"
| "read_back [] = []"
| "read_back [c] = [c]"

lemma length_read_back: "length (read_back chs) \<le> length chs"
  by (induction chs rule: read_back.induct) auto

lemma unambiguous_length: "length (read_back chs) = length chs \<longleftrightarrow> unambiguous chs"
proof (induction chs rule: read_back.induct)
  case (1 c d chs)
  then show ?case using length_read_back [of chs] by auto
qed simp_all

lemma read_back_unambiguous: "unambiguous chs \<Longrightarrow> read_back chs = chs"
  by (induction chs rule: unambiguous.induct) auto

lemma hex_digit_escape:
  assumes "d < 0x80" and "hex_digit (ucast d)"
  shows "u8_escape_wchar d = [ucast d]" and "digit_val (ucast d) < 16"
proof -
  have "unat (ucast d :: u8) = unat d" using assms(1) by (rule unat_ucast_ascii)
  then have "32 \<le> d" "d < 0x7F" "d \<noteq> 0x5C" "digit_val (ucast d) < 16"
    using assms by (auto simp: hex_digit_def digit_val_def word_le_nat_alt word_less_nat_alt)
  then show "u8_escape_wchar d = [ucast d]" and "digit_val (ucast d) < 16"
    by (simp_all add: u8_escape_wchar_plain)
qed

lemma short_escape_digit:
  assumes "short_escape ch"
  shows "u8_escape_wchar ch = [0x5C, 0x78, hexdigU (unat ch)]" and "unat ch < 16"
proof -
  show n: "unat ch < 16" using assms by (simp add: short_escape_def word_less_nat_alt)
  then have "ch < 32" by (simp add: word_less_nat_alt)
  then show "u8_escape_wchar ch = [0x5C, 0x78, hexdigU (unat ch)]"
    using u8_escape_wchar_control [of ch] assms n by (simp add: short_escape_def hexU.simps)
qed

lemma merged_chr:
  fixes ch d :: u32
  assumes "short_escape ch" and "d < 0x80" and "hex_digit (ucast d)"
  shows "unat (of_nat (16 * unat ch + digit_val (ucast d)) :: u32) = 16 * unat ch + digit_val (ucast d)"
    and "16 * unat ch + digit_val (ucast d) < 256"
  using short_escape_digit(2) [OF assms(1)] hex_digit_escape(2) [OF assms(2,3)]
  by (simp_all only: unat_of_nat) (simp_all add: take_bit_nat_eq_self)

lemma length_merged:
  fixes ch d :: u32
  assumes "short_escape ch" and "d < 0x80" and "hex_digit (ucast d)"
  shows "length (u8_wc_toutf8 (of_nat (16 * unat ch + digit_val (ucast d)))) \<le> 2"
proof -
  have "of_nat (16 * unat ch + digit_val (ucast d)) < (0x100 :: u32)"
    using merged_chr [OF assms] by (simp add: word_less_nat_alt)
  then show ?thesis by (auto simp: length_u8_wc_toutf8 u8_charlen_def word_less_nat_alt)
qed

lemma u8_unescape_loop_merge:
  assumes "short_escape ch" and "d < 0x80" and "hex_digit (ucast d)"
    and "int (length out) + 2 \<le> sz"
  defines "x \<equiv> of_nat (16 * unat ch + digit_val (ucast d)) :: u32"
  shows "u8_unescape_loop sz (pre @ (u8_escape_wchar ch @ u8_escape_wchar d) @ c # r) (int (length pre)) out =
      u8_unescape_loop sz (pre @ (u8_escape_wchar ch @ u8_escape_wchar d) @ c # r)
        (int (length (pre @ u8_escape_wchar ch @ u8_escape_wchar d))) (out @ u8_wc_toutf8 x)"
proof -
  note ch = short_escape_digit [OF assms(1)] and d = hex_digit_escape [OF assms(2,3)]
  have x: "unat x = 16 * unat ch + digit_val (ucast d)"
    unfolding x_def by (rule merged_chr(1) [OF assms(1-3)])
  have len: "length (u8_wc_toutf8 x) \<le> 2" unfolding x_def by (rule length_merged [OF assms(1-3)])
  have "strtol_digits 16 [hexdigU (unat ch), ucast d] = unat x"
    using ch(2) by (simp add: strtol_digits_def digit_val_hexdigU x)
  then have un: "unescape_chr (pre @ (0x5C # 0x78 # [hexdigU (unat ch), ucast d]) @ c # r) (int (length pre)) 0x5C =
      Inr (x, int (length pre) + int (length (0x5C # 0x78 # [hexdigU (unat ch), ucast d])))"
    using ch(2) assms(3) by (intro unescape_hex [where mx = 2]) (auto simp: hex_digit_hexdigU)
  then show "u8_unescape_loop sz (pre @ (u8_escape_wchar ch @ u8_escape_wchar d) @ c # r) (int (length pre)) out =
      u8_unescape_loop sz (pre @ (u8_escape_wchar ch @ u8_escape_wchar d) @ c # r)
        (int (length (pre @ u8_escape_wchar ch @ u8_escape_wchar d))) (out @ u8_wc_toutf8 x)"
    using assms(4) len by (subst u8_unescape_loop.simps) (simp add: ch(1) d(1) Let_def add.commute [of "4 :: int"])
qed

lemma u8_unescape_loop_escs:
  assumes "scalars chs" and "int (length out) + int (length (encs chs)) \<le> sz"
  shows "u8_unescape_loop sz (pre @ escs chs @ 0 # r) (int (length pre)) out = Inr (out @ encs (read_back chs))"
  using assms
proof (induction chs arbitrary: pre out rule: read_back.induct)
  case (1 ch d chs)
  note prems = "1.prems"
  let ?e = "u8_escape_wchar ch"
  have pos: "1 \<le> length (u8_wc_toutf8 ch)" "1 \<le> length (u8_wc_toutf8 d)"
    using prems by (simp_all add: length_u8_wc_toutf8 u8_charlen_pos Suc_leI)
  show ?case
  proof (cases "short_escape ch \<and> d < 0x80 \<and> hex_digit (ucast d)")
    case True
    define x :: u32 where "x = of_nat (16 * unat ch + digit_val (ucast d))"
    obtain c t where c: "escs chs @ 0 # r = c # t" by (cases "escs chs @ 0 # r") auto
    have room: "int (length out) + 2 \<le> sz" using pos prems(2) unfolding encs_Cons length_append by linarith
    note step = u8_unescape_loop_merge [of ch d out sz pre c t, folded x_def c]
    have "u8_unescape_loop sz (pre @ (?e @ u8_escape_wchar d) @ escs chs @ 0 # r) (int (length pre)) out =
        u8_unescape_loop sz ((pre @ ?e @ u8_escape_wchar d) @ escs chs @ 0 # r)
          (int (length (pre @ ?e @ u8_escape_wchar d))) (out @ u8_wc_toutf8 x)"
      using step True room by simp
    also have "\<dots> = Inr ((out @ u8_wc_toutf8 x) @ encs (read_back chs))"
      using prems length_merged [of ch d, folded x_def] True room pos by (intro "1.IH"(1)) auto
    finally show ?thesis using True by (simp add: x_def)
  next
    case False
    have "u8_unescape_loop sz (pre @ ?e @ escs (d # chs) @ 0 # r) (int (length pre)) out =
        u8_unescape_loop sz (pre @ ?e @ escs (d # chs) @ 0 # r)
          (int (length (pre @ ?e))) (out @ u8_wc_toutf8 ch)"
      using prems False by (intro u8_unescape_loop_chr) auto
    also have "\<dots> = u8_unescape_loop sz ((pre @ ?e) @ escs (d # chs) @ 0 # r)
          (int (length (pre @ ?e))) (out @ u8_wc_toutf8 ch)"
      by simp
    finally have "u8_unescape_loop sz (pre @ ?e @ escs (d # chs) @ 0 # r) (int (length pre)) out =
        u8_unescape_loop sz ((pre @ ?e) @ escs (d # chs) @ 0 # r)
          (int (length (pre @ ?e))) (out @ u8_wc_toutf8 ch)" .
    moreover have "\<dots> = Inr ((out @ u8_wc_toutf8 ch) @ encs (read_back (d # chs)))"
      using prems False by (intro "1.IH"(2)) auto
    moreover have "read_back (ch # d # chs) = ch # read_back (d # chs)" using False by auto
    ultimately show ?thesis by (simp del: read_back.simps)
  qed
next
  case (2 pre out)
  then show ?case by (subst u8_unescape_loop.simps) simp
next
  case (3 ch pre out)
  then have "u8_unescape_loop sz (pre @ u8_escape_wchar ch @ escs [] @ 0 # r) (int (length pre)) out =
      u8_unescape_loop sz (pre @ u8_escape_wchar ch @ escs [] @ 0 # r)
        (int (length (pre @ u8_escape_wchar ch))) (out @ u8_wc_toutf8 ch)"
    by (intro u8_unescape_loop_chr) auto
  also have "\<dots> = Inr (out @ u8_wc_toutf8 ch)"
    using rd_append_at [of "int (length (pre @ u8_escape_wchar ch))" "pre @ u8_escape_wchar ch" 0 r]
    by (subst u8_unescape_loop.simps) simp
  finally show ?case by simp
qed

lemma length_encs_read_back: "scalars chs \<Longrightarrow> length (encs (read_back chs)) \<le> length (encs chs)"
proof (induction chs rule: read_back.induct)
  case (1 c d chs)
  have "1 \<le> length (u8_wc_toutf8 c)" "1 \<le> length (u8_wc_toutf8 d)"
    using "1.prems" by (simp_all add: length_u8_wc_toutf8 u8_charlen_pos Suc_leI)
  then show ?case
    using 1 length_merged [of c d] by (cases "short_escape c \<and> d < 0x80 \<and> hex_digit (ucast d)") auto
qed simp_all

lemma scalars_read_back: "scalars chs \<Longrightarrow> scalars (read_back chs)"
proof (induction chs rule: read_back.induct)
  case (1 c d chs)
  show ?case
  proof (cases "short_escape c \<and> d < 0x80 \<and> hex_digit (ucast d)")
    case True
    let ?n = "16 * unat c + digit_val (ucast d)"
    have "unat c \<noteq> 0" using "1.prems" by (simp add: word_unat_eq_iff)
    then have "(of_nat ?n :: u32) < 0x110000" "(of_nat ?n :: u32) \<noteq> 0"
      using merged_chr [of c d] True by (simp_all only: word_less_nat_alt word_unat_eq_iff) auto
    then show ?thesis using True 1 by simp
  next
    case False
    then have "read_back (c # d # chs) = c # read_back (d # chs)" by auto
    then show ?thesis using False 1 by (simp del: read_back.simps)
  qed
qed simp_all

text \<open>The text that comes back is the text that was escaped only when none was merged.\<close>

lemma encs_read_back:
  assumes "scalars chs"
  shows "encs (read_back chs) = encs chs \<longleftrightarrow> unambiguous chs"
proof
  assume "encs (read_back chs) = encs chs"
  then have "length (read_back chs) = length chs"
    using filter_isutf_encs [OF assms] filter_isutf_encs [OF scalars_read_back [OF assms]] by simp
  then show "unambiguous chs" unfolding unambiguous_length [symmetric] .
qed (simp add: read_back_unambiguous)

lemma u8_unescape_read_back:
  assumes "scalars chs" and "int (length (encs chs)) < sz"
  shows "u8_unescape sz (escs chs @ 0 # r) =
    Inr (encs (read_back chs) @ [0], int (length (encs (read_back chs))))"
  using u8_unescape_loop_escs [of chs "[]" sz "[]" r] length_encs_read_back [of chs] assms
  by (simp add: u8_unescape_def)

lemma u8_unescape_escs:
  "scalars chs \<Longrightarrow> unambiguous chs \<Longrightarrow> int (length (encs chs)) < sz \<Longrightarrow>
   u8_unescape sz (escs chs @ 0 # r) = Inr (encs chs @ [0], int (length (encs chs)))"
  using u8_unescape_read_back [of chs sz r] read_back_unambiguous [of chs] by simp

lemma u8_escape_wchar_length:
  assumes "ch < 0x110000"
  shows "length (u8_escape_wchar ch) \<le> 10 \<and> u8_charlen ch \<le> length (u8_escape_wchar ch)"
proof (cases ch rule: escape_cases)
  case named
  then show ?thesis by (auto simp: u8_escape_wchar_def u8_charlen_def)
next
  case control
  then have n: "unat ch < 128" by (auto simp: word_less_nat_alt)
  then have "length (hexU (unat ch)) \<le> 2" by (intro length_hexU) auto
  with control n show ?thesis
    by (simp add: u8_escape_wchar_control u8_charlen_def word_less_nat_alt)
next
  case plain
  then have "ch < 0x80" by (simp add: word_less_nat_alt)
  with plain show ?thesis by (simp add: u8_escape_wchar_plain u8_charlen_def)
next
  case u
  have "unat ch < 16 ^ 4" using u(2) by (simp add: word_less_nat_alt)
  then have "length (hexU_prec 4 (unat ch)) = 4" by (simp add: hexU_prec_facts)
  with u show ?thesis by (simp add: u8_escape_wchar_u u8_charlen_def)
next
  case U
  have "unat ch < 16 ^ 8" using assms by (simp add: word_less_nat_alt)
  then have "length (hexU_prec 8 (unat ch)) = 8" by (simp add: hexU_prec_facts)
  with U show ?thesis by (simp add: u8_escape_wchar_U u8_charlen_def)
qed

lemma length_escs: "scalars chs \<Longrightarrow> length (escs chs) \<le> 10 * length chs"
  by (induction chs) (use u8_escape_wchar_length in fastforce)+

lemma length_encs_escs: "scalars chs \<Longrightarrow> length (encs chs) \<le> length (escs chs)"
proof (induction chs)
  case (Cons ch chs)
  then show ?case using u8_escape_wchar_length [of ch] by (simp add: length_u8_wc_toutf8)
qed simp

end
