(* ===== verification/Utf8_Correct.thy ===== *)
theory Utf8_Correct
  imports Utf8_Convert Utf8_Valid Utf8_Escape
begin

text \<open>
  What the UTF-8 routines guarantee of text: for a list of Unicode characters \<open>chs\<close>
  (\<open>scalars chs\<close>: none is NUL or above the last code point) and its encoding \<open>encs chs\<close>,
  encoding, decoding, stepping, counting, escaping, validating and reversing agree. The
  statements that a routine reads past the object it is given are theorems too.
\<close>

lemma scalars_take: "scalars chs \<Longrightarrow> scalars (take k chs)"
  by (auto simp: scalars_def dest: in_set_takeD)

lemma scalars_drop: "scalars chs \<Longrightarrow> scalars (drop k chs)"
  by (auto simp: scalars_def dest: in_set_dropD)

lemma scalars_weak: "scalars chs \<Longrightarrow> \<forall>ch \<in> set chs. ch < 0x110000"
  by (simp add: scalars_def)

lemma encs_take_Suc:
  "k < length chs \<Longrightarrow> encs (take (Suc k) chs) = encs (take k chs) @ u8_wc_toutf8 (chs ! k)"
  by (simp add: take_Suc_conv_app_nth)

lemma encs_split:
  "k < length chs \<Longrightarrow>
   encs chs = encs (take k chs) @ u8_wc_toutf8 (chs ! k) @ encs (drop (Suc k) chs)"
  by (metis id_take_nth_drop encs_Cons encs_append)

section \<open>Encoding and decoding\<close>

text \<open>
  Reading a character back. In any string, at the place where \<open>u8_wc_toutf8\<close> stored a
  character, \<open>u8_nextchar\<close> returns that character and moves the index to the first byte
  after it, provided a NUL or a lead byte follows.
\<close>

lemma nextchar_of_encoding:
  assumes "ch < 0x110000" and "lead_ok r"
  shows "u8_nextchar (pre @ u8_wc_toutf8 ch @ r) (int (length pre)) =
    Inr (ch, int (length pre) + int (length (u8_wc_toutf8 ch)))"
  using assms by (rule u8_nextchar_enc)

lemma nextchar_of_encoding_witness:
  "u8_nextchar ([0x41] @ u8_wc_toutf8 0x20AC @ [0]) 1 = Inr (0x20AC, 4)"
  using nextchar_of_encoding [of "0x20AC" "[0]" "[0x41]"]
  by (simp add: lead_ok_def u8_wc_toutf8_def)

text \<open>
  C26: a bounded encoder. \<open>u8_toutf8\<close>, given \<open>sz\<close> bytes of room and a counted source, stores
  the encoding of the longest prefix of the source that fits (one more character would not),
  never more than \<open>sz\<close> bytes, adds the terminator exactly when the whole source and the NUL
  fit, and returns the number of characters it converted.
\<close>

theorem toutf8_longest_prefix:
  assumes "0 \<le> sz"
  shows "\<exists>k out. u8_toutf8 sz src (int (length src)) = Inr (out, int k) \<and>
    k \<le> length src \<and> int (length out) \<le> sz \<and>
    out = (if k = length src \<and> int (length (encs src)) < sz then encs src @ [0]
           else encs (take k src)) \<and>
    (k < length src \<longrightarrow> sz < int (length (encs (take (Suc k) src))))"
proof -
  let ?k = "fit sz 0 src"
  have "int (length (encs (take ?k src))) \<le> sz"
    using fit_room [of 0 sz src] assms by simp
  then show ?thesis
    using fit_le [of sz 0 src] fit_maximal [of sz 0 src] by (auto simp: u8_toutf8_eq Let_def)
qed

lemma toutf8_longest_prefix_witness:
  "\<exists>k out. u8_toutf8 4 [0x20AC, 0xE9] 2 = Inr (out, int k) \<and> int (length out) \<le> 4"
  using toutf8_longest_prefix [of 4 "[0x20AC, 0xE9]"] by auto

text \<open>
  C24: the two conversions are inverse. Text encoded by \<open>u8_toutf8\<close> into a buffer that has
  room for it, read by \<open>u8_toucs\<close> as a NUL-terminated string into a buffer that has room for
  its characters and a terminator, comes back character by character.
\<close>

theorem toucs_toutf8_round_trip:
  assumes "scalars chs" and "int (length (encs chs)) < sz" and "int (length chs) < wsz"
  shows "bnd (u8_toutf8 sz chs (int (length chs))) (\<lambda>(s, n). u8_toucs wsz s (-1)) =
    Inr (chs @ [0], int (length chs))"
proof -
  have "fit sz 0 chs = length chs" using assms(2) by (intro fit_all) simp
  then have "u8_toutf8 sz chs (int (length chs)) = Inr (encs chs @ [0], int (length chs))"
    using assms(2) by (simp add: u8_toutf8_eq)
  with u8_toucs_encs [OF assms(1,3), of "[]"] show ?thesis by simp
qed

lemma toucs_toutf8_round_trip_witness:
  "bnd (u8_toutf8 16 [0x41, 0x20AC, 0x1F600] 3) (\<lambda>(s, n). u8_toucs 4 s (-1)) =
    Inr ([0x41, 0x20AC, 0x1F600, 0], 3)"
  using toucs_toutf8_round_trip [of "[0x41, 0x20AC, 0x1F600]" 16 4]
  by (simp add: u8_wc_toutf8_def)

section \<open>Stepping and counting\<close>

text \<open>
  Stepping. In an encoded text, from the byte where character \<open>k\<close> starts, \<open>u8_inc\<close> goes to
  the byte where character \<open>k + 1\<close> starts (the terminator after the last one), and \<open>u8_dec\<close>
  comes back.
\<close>

lemma inc_dec_inverse:
  assumes "scalars chs" and "k < length chs"
  shows "u8_inc (encs chs @ 0 # r) (int (length (encs (take k chs)))) =
      Inr (int (length (encs (take (Suc k) chs)))) \<and>
    u8_dec (encs chs @ 0 # r) (int (length (encs (take (Suc k) chs)))) =
      Inr (int (length (encs (take k chs))))"
proof -
  have ch: "chs ! k < 0x110000" using assms by (auto simp: scalars_def)
  have ok: "lead_ok (encs (drop (Suc k) chs) @ 0 # r)"
    using assms(1) by (intro lead_ok_encs scalars_drop) (simp_all add: lead_ok_def)
  have s: "encs chs @ 0 # r =
      encs (take k chs) @ u8_wc_toutf8 (chs ! k) @ encs (drop (Suc k) chs) @ 0 # r"
    using encs_split [OF assms(2)] by simp
  show ?thesis
    using u8_inc_seq [OF u8_wc_toutf8_seq [OF ch] ok, of "encs (take k chs)"]
      u8_dec_seq [OF u8_wc_toutf8_seq [OF ch], of "encs (take k chs)"]
    by (simp add: s encs_take_Suc [OF assms(2)])
qed

lemma inc_dec_inverse_witness:
  "u8_inc (encs [0x41, 0x20AC] @ 0 # []) 1 = Inr 4 \<and> u8_dec (encs [0x41, 0x20AC] @ 0 # []) 4 = Inr 1"
  using inc_dec_inverse [of "[0x41, 0x20AC]" 1 "[]"] by (simp add: u8_wc_toutf8_def)

text \<open>
  C27: character numbers and byte offsets. \<open>u8_offset\<close> takes a character number to the byte
  where that character starts (to the terminator for a number past the end), and
  \<open>u8_charnum\<close> takes that offset back to the number.
\<close>

theorem offset_charnum_inverse:
  assumes "scalars chs"
  shows "bnd (u8_offset (encs chs @ 0 # r) (int k)) (u8_charnum (encs chs @ 0 # r)) =
    Inr (int (min k (length chs)))"
proof -
  have "take (min k (length chs)) chs = take k chs" by (simp add: min_def)
  then show ?thesis
    using u8_offset_encs [OF assms, of r k] u8_charnum_encs [OF assms, of "min k (length chs)" r]
    by simp
qed

lemma offset_charnum_inverse_witness:
  "bnd (u8_offset (encs [0xE9, 0x20AC, 0x41] @ 0 # []) 2) (u8_charnum (encs [0xE9, 0x20AC, 0x41] @ 0 # [])) = Inr 2"
  using offset_charnum_inverse [of "[0xE9, 0x20AC, 0x41]" "[]" 2] by (simp add: scalars_def)

text \<open>
  C28: \<open>u8_strlen\<close> counts characters only when a readable byte follows the terminator: with
  one (a lead byte) it is the number of characters; on a string whose object ends at its
  terminator, the usual case, the read after the NUL leaves the object, for every text.
\<close>

theorem strlen_needs_a_byte_after_the_nul:
  assumes "scalars chs" and "isutf c"
  shows "u8_strlen (encs chs @ 0 # c # r) = Inr (int (length chs)) \<and>
    u8_strlen (encs chs @ [0]) = Inl OutOfBounds"
  using u8_strlen_loop_encs [OF assms, of "[]" r 0] u8_strlen_loop_exact [OF assms(1), of "[]" 0]
  by (simp add: u8_strlen_def)

lemma strlen_needs_a_byte_after_the_nul_witness:
  "u8_strlen (encs [0x41, 0x20AC] @ 0 # 0x42 # []) = Inr 2 \<and>
   u8_strlen (encs [0x41, 0x20AC] @ [0]) = Inl OutOfBounds"
  using strlen_needs_a_byte_after_the_nul [of "[0x41, 0x20AC]" "0x42" "[]"]
  by (simp add: scalars_def isutf_def)

section \<open>Searching\<close>

lemma u8_strchr_loop_encs:
  assumes "scalars chs"
  shows "u8_strchr_loop (pre @ encs chs @ 0 # r) ch (int (length pre)) n =
    (let k = length (takeWhile (\<lambda>c. c \<noteq> ch) chs) in
     Inr (if k < length chs then Some (int (length pre) + int (length (encs (take k chs)))) else None,
          n + int k))"
  using assms
proof (induction chs arbitrary: pre n)
  case Nil
  then show ?case by (subst u8_strchr_loop.simps) simp
next
  case (Cons x chs)
  then have nf: "nul_free (u8_wc_toutf8 x)" and seq: "utf8_seq (u8_wc_toutf8 x)"
    by (auto intro: nul_free_u8_wc_toutf8 u8_wc_toutf8_seq)
  then obtain b cs where b: "u8_wc_toutf8 x = b # cs" "b \<noteq> 0" by (auto simp: utf8_seq_def)
  have next_chr: "u8_nextchar (pre @ u8_wc_toutf8 x @ encs chs @ 0 # r) (int (length pre)) =
      Inr (x, int (length pre) + int (length (u8_wc_toutf8 x)))"
    using Cons.prems by (intro u8_nextchar_enc lead_ok_encs) (simp_all add: lead_ok_def)
  show ?case
  proof (cases "x = ch")
    case True
    with b next_chr show ?thesis by (subst u8_strchr_loop.simps) simp
  next
    case False
    have "u8_strchr_loop (pre @ encs (x # chs) @ 0 # r) ch (int (length pre)) n =
        u8_strchr_loop ((pre @ u8_wc_toutf8 x) @ encs chs @ 0 # r) ch
          (int (length (pre @ u8_wc_toutf8 x))) (n + 1)"
      using False b next_chr by (subst u8_strchr_loop.simps) (simp add: ac_simps)
    also note Cons.IH [of "pre @ u8_wc_toutf8 x" "n + 1"]
    finally show ?thesis using Cons.prems False by (simp add: Let_def)
  qed
qed

text \<open>
  C29: searching. \<open>u8_strchr\<close> points at the first byte of the first occurrence of a character
  and reports its character number; when the character does not occur it returns NULL and
  the number of characters of the text.
\<close>

theorem strchr_first_occurrence:
  assumes "scalars chs"
  shows "u8_strchr (encs chs @ 0 # r) ch =
    (let k = length (takeWhile (\<lambda>c. c \<noteq> ch) chs) in
     Inr (if k < length chs then Some (int (length (encs (take k chs)))) else None, int k))"
  using u8_strchr_loop_encs [OF assms, of "[]" r ch 0] by (simp add: u8_strchr_def Let_def)

lemma strchr_first_occurrence_witness:
  "u8_strchr (encs [0xE9, 0x20AC, 0x41] @ 0 # []) 0x41 = Inr (Some 5, 2)"
  using strchr_first_occurrence [of "[0xE9, 0x20AC, 0x41]" "[]" "0x41"]
  by (simp add: scalars_def u8_wc_toutf8_def)

section \<open>Validation and reversal\<close>

text \<open>
  \<open>u8_isvalid\<close> accepts every encoded text, whatever follows it in memory, and does not
  read past it.
\<close>

lemma isvalid_accepts_encodings:
  assumes "scalars chs"
  shows "u8_isvalid (encs chs @ r) (int (length (encs chs))) = Inr True"
  using scalars_weak [OF assms] by (rule u8_isvalid_encs)

lemma isvalid_accepts_encodings_witness:
  "u8_isvalid (encs [0x41, 0xE9, 0x20AC, 0x1F600] @ []) (int (length (encs [0x41, 0xE9, 0x20AC, 0x1F600]))) = Inr True"
  by (rule isvalid_accepts_encodings) (simp add: scalars_def)

text \<open>
  C38: \<open>u8_isvalid\<close> on a text cut inside its last character. It tests the length of a sequence
  against the length of the whole string, less the trailing bytes seen, and not against what is
  left of the string. The cut is rejected by that test only when the characters before it are
  too few; otherwise the byte after the string decides: without one the call reads past the
  object, with the missing bytes of the character in memory after the string the cut string is
  valid, and with a NUL there it is not.
\<close>

theorem isvalid_reads_past_a_cut_string:
  assumes "scalars (chs @ [ch])" and "0 < j" and "j < length (u8_wc_toutf8 ch)"
  shows "let e = u8_wc_toutf8 ch; cut = encs chs @ take j e; n = int (length cut) in
    if length chs + j + 1 < length e then u8_isvalid (cut @ r) n = Inr False
    else u8_isvalid cut n = Inl OutOfBounds \<and>
      u8_isvalid (cut @ drop j e @ r) n = Inr True \<and>
      u8_isvalid (cut @ 0 # r) n = Inr False"
proof -
  let ?e = "u8_wc_toutf8 ch"
  let ?n = "int (length (encs chs @ take j ?e))"
  have ch: "ch < 0x110000" and chs: "\<forall>c \<in> set chs. c < 0x110000"
    using assms(1) by (auto simp: scalars_def)
  have n: "?n = int (length (encs chs)) + int j" using assms(3) by simp
  have over: "u8_isvalid (encs chs @ take j ?e @ s) ?n =
      isvalid_loop (encs chs @ take j ?e @ s) ?n (int (length (encs chs))) (int (length chs) + int j)" for s
    using isvalid_loop_over [OF chs, of ?n "[]" ?n "take j ?e @ s"] n by (simp add: u8_isvalid_def add.commute [of "int j"])
  have cut: "u8_isvalid (encs chs @ take j ?e @ s) ?n = v"
    if "length ?e \<le> length chs + j + 1" and "rd s 0 = Inl OutOfBounds \<and> v = Inl OutOfBounds \<or>
      (\<exists>c. rd s 0 = Inr c \<and> c AND 0xC0 \<noteq> 0x80) \<and> v = Inr False" for s v
    unfolding over using that n assms(2,3) by (intro isvalid_cut_char ch) auto
  have short: "u8_isvalid (encs chs @ take j ?e @ r) ?n = Inr False" if "length chs + j + 1 < length ?e"
    unfolding over using that n assms(2) by (intro isvalid_too_long ch) auto
  have glue: "take j ?e @ drop j ?e @ r = ?e @ r" by (simp flip: append_assoc)
  have whole: "u8_isvalid (encs chs @ take j ?e @ drop j ?e @ r) ?n = Inr True"
    if "length ?e \<le> length chs + j + 1"
    using over [of "drop j ?e @ r"] isvalid_char [OF ch, of "encs chs" ?n "int (length chs) + int j" r] that n assms(2,3)
    unfolding glue by (simp add: isvalid_loop.simps [of _ _ "_ + _"])
  show ?thesis
    using short cut [of "[]"] cut [of "0 # r" "Inr False"] whole by (simp add: Let_def rd_Cons rd_out)
qed

lemma isvalid_reads_past_a_cut_string_witness:
  "u8_isvalid [0x61, 0x62, 0xE2, 0x82] 4 = Inl OutOfBounds \<and>
    u8_isvalid [0x61, 0x62, 0xE2, 0x82, 0xAC, 0] 4 = Inr True"
  using isvalid_reads_past_a_cut_string [of "[0x61, 0x62]" "0x20AC" 2 "[0]"]
  by (simp add: scalars_def u8_wc_toutf8_def)

text \<open>
  C39: \<open>u8_reverse\<close>, into an object one byte longer than the text, stores the encoding of the
  characters in reverse order and a terminator, and returns 0.
\<close>

theorem reverse_is_reverse_of_characters:
  assumes "scalars chs" and "length dest = length (encs chs) + 1"
  shows "u8_reverse dest (encs chs @ r) (int (length (encs chs))) = Inr (encs (rev chs) @ [0], 0)"
  using scalars_weak [OF assms(1)] assms(2) by (rule u8_reverse_encs)

lemma reverse_is_reverse_of_characters_witness:
  "u8_reverse [0, 0, 0, 0, 0] (encs [0x41, 0x20AC] @ [0]) 4 = Inr (encs [0x20AC, 0x41] @ [0], 0)"
  using reverse_is_reverse_of_characters [of "[0x41, 0x20AC]" "[0, 0, 0, 0, 0]" "[0]"]
  by (simp add: scalars_def u8_wc_toutf8_def)

section \<open>Escape sequences\<close>



text \<open>
  C40: the restriction is needed, and exact. For every text the escaped form reads back as
  \<open>read_back\<close> says: a control character below 16 without a named escape is written with a
  single hexadecimal digit, and a digit after it is read as part of the escape, the two
  becoming one character. The text survives \<open>u8_escape\<close> and \<open>u8_unescape\<close> if and only if
  it has no such pair; \<open>U+0001 F\<close> comes back as \<open>U+001F\<close>.
\<close>

theorem escape_is_ambiguous_before_hex_digit:
  assumes "scalars chs" and "10 * int (length chs) < sz"
  shows "let back = bnd (u8_escape sz (encs chs @ 0 # r) False) (\<lambda>(e, n). u8_unescape sz e) in
    back = Inr (encs (read_back chs) @ [0], int (length (encs (read_back chs)))) \<and>
    (back = Inr (encs chs @ [0], int (length (encs chs))) \<longleftrightarrow> unambiguous chs)"
proof -
  have e: "int (length (escs chs)) < sz" using length_escs [OF assms(1)] assms(2) by linarith
  moreover have "int (length (encs chs)) < sz"
    using length_encs_escs [OF assms(1)] e by linarith
  ultimately have "bnd (u8_escape sz (encs chs @ 0 # r) False) (\<lambda>(e, n). u8_unescape sz e) =
      Inr (encs (read_back chs) @ [0], int (length (encs (read_back chs))))"
    using u8_escape_encs [OF assms(1) e, of r] u8_unescape_read_back [OF assms(1), of sz "[]"]
    by simp
  then show ?thesis using encs_read_back [OF assms(1)] by (auto simp: Let_def)
qed

lemma escape_is_ambiguous_before_hex_digit_witness:
  "bnd (u8_escape 64 (encs [0x41, 1, 0x46, 0xE9, 15, 0x61] @ 0 # []) False) (\<lambda>(e, n). u8_unescape 64 e) =
      Inr (encs [0x41, 0x1F, 0xE9, 0xFA] @ [0], int (length (encs [0x41, 0x1F, 0xE9, 0xFA])))"
proof -
  have rb: "read_back [0x41, 1, 0x46, 0xE9, 15, 0x61] = [0x41, 0x1F, 0xE9, 0xFA]"
    by (simp add: short_escape_def hex_digit_def digit_val_def word_le_nat_alt)
  have "scalars [0x41, 1, 0x46, 0xE9, 15, 0x61]" by (simp add: scalars_def)
  then show ?thesis
    using escape_is_ambiguous_before_hex_digit [of "[0x41, 1, 0x46, 0xE9, 15, 0x61]" 64 "[]"]
    unfolding rb Let_def by simp
qed

end
