(* ===== verification/Libxml.thy ===== *)
theory Libxml
  imports Utf8_Convert Utf8_Valid "HOL-Library.AList"
begin

text \<open>
  The code libswish3 is linked with, as parameters of the model. Nothing of it is under
  \<open>src/\<close>, so that nothing of it is defined here: a component that calls libxml2 takes a
  record of its functions as an argument, and a lemma that needs what such a function does
  assumes one of the named hypotheses of this theory.

  \<^item> \<open>xml_str\<close>: libxml2's string functions, on the values of C strings (\<open>None\<close> for NULL);
    \<open>xml_str_ok\<close> states their documentation.
  \<^item> \<open>xml_buf\<close>: the growing buffer \<open>xmlBuffer\<close>; \<open>xml_buf_ok\<close>.
  \<^item> \<open>xml_hash\<close>: the table \<open>xmlHashTable\<close>, with the list of entries in the order
    \<open>xmlHashScan\<close> visits them; \<open>xml_hash_ok\<close>.
  \<^item> \<open>wide\<close>: the classification of wide characters and the conversion between multibyte and
    wide strings, which depend on the locale of the process; \<open>utf8_locale\<close> states them for a
    UTF-8 locale, the one \<open>swish_verify_utf8_locale\<close> sets.

  Each hypothesis is shown to hold of concrete functions (\<open>ref_str\<close>, \<open>ref_buf\<close>, \<open>ref_hash\<close>,
  \<open>ref_wide\<close>), on which the witnesses of the development evaluate.
\<close>

section \<open>Strings\<close>

record xml_str =
  xmlStrlen :: "bytes option \<Rightarrow> int"
  xmlStrEqual :: "bytes option \<Rightarrow> bytes option \<Rightarrow> bool"
  xmlStrncasecmp :: "bytes option \<Rightarrow> bytes option \<Rightarrow> int \<Rightarrow> int"
  xmlStrcasecmp :: "bytes option \<Rightarrow> bytes option \<Rightarrow> int"
  xmlStrchr :: "bytes \<Rightarrow> u8 \<Rightarrow> nat option"
  xmlStrstr :: "bytes \<Rightarrow> bytes \<Rightarrow> nat option"
  xmlStrcasestr :: "bytes \<Rightarrow> bytes \<Rightarrow> nat option"
  xmlStrsub :: "bytes \<Rightarrow> int \<Rightarrow> int \<Rightarrow> bytes option"
  xmlStrndup :: "bytes \<Rightarrow> int \<Rightarrow> bytes"
  xmlStrncat :: "bytes \<Rightarrow> bytes option \<Rightarrow> int \<Rightarrow> bytes"
  xmlUTF8Size :: "bytes \<Rightarrow> int"
  xmlUTF8Strlen :: "bytes \<Rightarrow> int"
  xmlCheckUTF8 :: "bytes \<Rightarrow> bool"

text \<open>Positions are offsets from the start of the string searched; a NUL is a character of one byte.\<close>

fun find_sub :: "(u8 \<Rightarrow> u8) \<Rightarrow> bytes \<Rightarrow> bytes \<Rightarrow> nat option" where
  "find_sub f [] val = (if val = [] then Some 0 else None)"
| "find_sub f (c # s) val =
     (if map f val = map f (take (length val) (c # s)) then Some 0
      else map_option Suc (find_sub f s val))"

definition xml_str_ok :: "xml_str \<Rightarrow> bool" where
  "xml_str_ok X \<longleftrightarrow>
     xmlStrlen X None = 0 \<and>
     (\<forall>s. nul_free s \<longrightarrow> xmlStrlen X (Some s) = int (length s)) \<and>
     (\<forall>a b. xmlStrEqual X a b \<longleftrightarrow> a = b) \<and>
     (\<forall>a b. nul_free a \<longrightarrow> nul_free b \<longrightarrow>
        (xmlStrcasecmp X (Some a) (Some b) = 0 \<longleftrightarrow> map tolower a = map tolower b)) \<and>
     (\<forall>a b n. nul_free a \<longrightarrow> nul_free b \<longrightarrow>
        (xmlStrncasecmp X (Some a) (Some b) n = 0 \<longleftrightarrow>
          map tolower (take (nat n) a) = map tolower (take (nat n) b))) \<and>
     (\<forall>s c. c \<noteq> 0 \<longrightarrow> xmlStrchr X s c =
        (if c \<in> set s then Some (length (takeWhile (\<lambda>d. d \<noteq> c) s)) else None)) \<and>
     (\<forall>s v. xmlStrstr X s v = find_sub (\<lambda>c. c) s v) \<and>
     (\<forall>s v. xmlStrcasestr X s v = find_sub tolower s v) \<and>
     (\<forall>s i n. xmlStrsub X s i n =
        (if 0 \<le> i \<and> 0 \<le> n \<and> i \<le> int (length s) then Some (take (nat n) (drop (nat i) s)) else None)) \<and>
     (\<forall>s n. 0 \<le> n \<longrightarrow> xmlStrndup X s n = take (nat n) s) \<and>
     (\<forall>s t n. 0 \<le> n \<longrightarrow> xmlStrncat X s (Some t) n = s @ take (nat n) t) \<and>
     (\<forall>ch r. ch < 0x110000 \<longrightarrow> ch \<noteq> 0 \<longrightarrow>
        xmlUTF8Size X (u8_wc_toutf8 ch @ r) = int (u8_charlen ch)) \<and>
     xmlUTF8Size X [] = 1 \<and>
     (\<forall>chs. scalars chs \<longrightarrow> xmlUTF8Strlen X (encs chs) = int (length chs)) \<and>
     (\<forall>chs. scalars chs \<longrightarrow> xmlCheckUTF8 X (encs chs))"

lemma xml_str_laws [lib_laws]:
  assumes "xml_str_ok X"
  shows "xmlStrlen X None = 0"
    and "nul_free s \<Longrightarrow> xmlStrlen X (Some s) = int (length s)"
    and "xmlStrEqual X a b \<longleftrightarrow> a = b"
    and "0 \<le> n \<Longrightarrow> xmlStrndup X s n = take (nat n) s"
    and "0 \<le> n \<Longrightarrow> xmlStrncat X s (Some t) n = s @ take (nat n) t"
    and "ch < 0x110000 \<Longrightarrow> ch \<noteq> 0 \<Longrightarrow> xmlUTF8Size X (u8_wc_toutf8 ch @ r) = int (u8_charlen ch)"
    and "xmlUTF8Size X [] = 1"
    and "scalars chs \<Longrightarrow> xmlUTF8Strlen X (encs chs) = int (length chs)"
  using assms by (simp_all add: xml_str_ok_def)

lemma xml_str_search:
  assumes "xml_str_ok X"
  shows "c \<noteq> 0 \<Longrightarrow> xmlStrchr X s c =
      (if c \<in> set s then Some (length (takeWhile (\<lambda>d. d \<noteq> c) s)) else None)"
    and "xmlStrstr X s v = find_sub (\<lambda>c. c) s v"
    and "xmlStrcasestr X s v = find_sub tolower s v"
    and "xmlStrsub X s i n =
      (if 0 \<le> i \<and> 0 \<le> n \<and> i \<le> int (length s) then Some (take (nat n) (drop (nat i) s)) else None)"
    and "nul_free a \<Longrightarrow> nul_free b \<Longrightarrow>
      xmlStrcasecmp X (Some a) (Some b) = 0 \<longleftrightarrow> map tolower a = map tolower b"
    and "nul_free a \<Longrightarrow> nul_free b \<Longrightarrow> xmlStrncasecmp X (Some a) (Some b) n = 0 \<longleftrightarrow>
      map tolower (take (nat n) a) = map tolower (take (nat n) b)"
  using assms by (simp_all add: xml_str_ok_def)

section \<open>Buffers\<close>

text \<open>
  \<open>bufBytes\<close> is what has been stored; \<open>xmlBufferContent\<close> points at those bytes and a NUL.
  The adding functions return the error code too, 0 for success.
\<close>

record 'b xml_buf =
  xmlBufferCreateSize :: 'b
  xmlBufferAdd :: "'b \<Rightarrow> bytes \<Rightarrow> 'b \<times> int"
  xmlBufferCat :: "'b \<Rightarrow> bytes \<Rightarrow> 'b \<times> int"
  xmlBufferEmpty :: "'b \<Rightarrow> 'b"
  xmlBufferLength :: "'b \<Rightarrow> int"
  bufBytes :: "'b \<Rightarrow> bytes"

definition xmlBufferContent :: "'b xml_buf \<Rightarrow> 'b \<Rightarrow> mem" where
  "xmlBufferContent B b = bufBytes B b @ [0]"

definition xml_buf_ok :: "'b xml_buf \<Rightarrow> bool" where
  "xml_buf_ok B \<longleftrightarrow>
     bufBytes B (xmlBufferCreateSize B) = [] \<and>
     (\<forall>b s. bufBytes B (fst (xmlBufferAdd B b s)) = bufBytes B b @ s \<and>
        snd (xmlBufferAdd B b s) = 0) \<and>
     (\<forall>b s. bufBytes B (fst (xmlBufferCat B b s)) = bufBytes B b @ s \<and>
        snd (xmlBufferCat B b s) = 0) \<and>
     (\<forall>b. bufBytes B (xmlBufferEmpty B b) = []) \<and>
     (\<forall>b. xmlBufferLength B b = int (length (bufBytes B b)))"

lemma xml_buf_laws [lib_laws]:
  assumes "xml_buf_ok B"
  shows "bufBytes B (xmlBufferCreateSize B) = []"
    and "bufBytes B (fst (xmlBufferAdd B b s)) = bufBytes B b @ s"
    and "snd (xmlBufferAdd B b s) = 0"
    and "bufBytes B (fst (xmlBufferCat B b s)) = bufBytes B b @ s"
    and "snd (xmlBufferCat B b s) = 0"
    and "bufBytes B (xmlBufferEmpty B b) = []"
    and "xmlBufferLength B b = int (length (bufBytes B b))"
  using assms by (simp_all add: xml_buf_ok_def)

section \<open>Hash tables\<close>

text \<open>
  \<open>xmlHashAddEntry\<close> fails (-1) on a key that is present, \<open>xmlHashUpdateEntry\<close> replaces,
  \<open>xmlHashRemoveEntry\<close> fails on a key that is absent. A NULL result of a lookup is \<open>None\<close>.
\<close>

record ('h, 'v) xml_hash =
  xmlHashCreate :: "int \<Rightarrow> 'h option"
  xmlHashAddEntry :: "'h \<Rightarrow> bytes \<Rightarrow> 'v \<Rightarrow> 'h \<times> int"
  xmlHashUpdateEntry :: "'h \<Rightarrow> bytes \<Rightarrow> 'v \<Rightarrow> 'h \<times> int"
  xmlHashRemoveEntry :: "'h \<Rightarrow> bytes \<Rightarrow> 'h \<times> int"
  xmlHashLookup :: "'h \<Rightarrow> bytes \<Rightarrow> 'v option"
  xmlHashEntries :: "'h \<Rightarrow> (bytes \<times> 'v) list"

definition xml_hash_ok :: "('h, 'v) xml_hash \<Rightarrow> bool" where
  "xml_hash_ok H \<longleftrightarrow>
     (\<forall>n. \<exists>h. xmlHashCreate H n = Some h \<and> xmlHashLookup H h = Map.empty) \<and>
     (\<forall>h k v. snd (xmlHashAddEntry H h k v) = (if xmlHashLookup H h k = None then 0 else -1) \<and>
        xmlHashLookup H (fst (xmlHashAddEntry H h k v)) =
          (if xmlHashLookup H h k = None then (xmlHashLookup H h)(k \<mapsto> v) else xmlHashLookup H h)) \<and>
     (\<forall>h k v. snd (xmlHashUpdateEntry H h k v) = 0 \<and>
        xmlHashLookup H (fst (xmlHashUpdateEntry H h k v)) = (xmlHashLookup H h)(k \<mapsto> v)) \<and>
     (\<forall>h k. snd (xmlHashRemoveEntry H h k) = (if xmlHashLookup H h k = None then -1 else 0) \<and>
        xmlHashLookup H (fst (xmlHashRemoveEntry H h k)) = (xmlHashLookup H h)(k := None)) \<and>
     (\<forall>h. distinct (map fst (xmlHashEntries H h)) \<and> map_of (xmlHashEntries H h) = xmlHashLookup H h)"

lemma xml_hash_laws [lib_laws]:
  assumes "xml_hash_ok H"
  shows "snd (xmlHashAddEntry H h k v) = (if xmlHashLookup H h k = None then 0 else -1)"
    and "xmlHashLookup H (fst (xmlHashAddEntry H h k v)) =
      (if xmlHashLookup H h k = None then (xmlHashLookup H h)(k \<mapsto> v) else xmlHashLookup H h)"
    and "snd (xmlHashUpdateEntry H h k v) = 0"
    and "xmlHashLookup H (fst (xmlHashUpdateEntry H h k v)) = (xmlHashLookup H h)(k \<mapsto> v)"
    and "snd (xmlHashRemoveEntry H h k) = (if xmlHashLookup H h k = None then -1 else 0)"
    and "xmlHashLookup H (fst (xmlHashRemoveEntry H h k)) = (xmlHashLookup H h)(k := None)"
    and "distinct (map fst (xmlHashEntries H h))"
    and "map_of (xmlHashEntries H h) = xmlHashLookup H h"
  using assms unfolding xml_hash_ok_def by blast+

lemma xml_hash_create:
  assumes "xml_hash_ok H"
  obtains h where "xmlHashCreate H n = Some h" and "xmlHashLookup H h = Map.empty"
  using assms unfolding xml_hash_ok_def by blast

section \<open>Wide characters\<close>

text \<open>\<open>None\<close> is the result -1 of a conversion that meets an invalid sequence.\<close>

record wide =
  iswspace :: "u32 \<Rightarrow> bool"
  iswcntrl :: "u32 \<Rightarrow> bool"
  iswpunct :: "u32 \<Rightarrow> bool"
  towlower :: "u32 \<Rightarrow> u32"
  mbstowcs :: "bytes \<Rightarrow> u32 list option"
  wcstombs :: "u32 list \<Rightarrow> bytes option"

definition encodable_chr :: "u32 \<Rightarrow> bool" where
  "encodable_chr ch \<longleftrightarrow> ch < 0x110000 \<and> ch \<noteq> 0 \<and> \<not> (0xD800 \<le> ch \<and> ch \<le> 0xDFFF)"

definition encodable :: "u32 list \<Rightarrow> bool" where
  "encodable chs \<longleftrightarrow> list_all encodable_chr chs"

lemma encodable_simps [simp]:
  "encodable []"
  "encodable (c # chs) \<longleftrightarrow> encodable_chr c \<and> encodable chs"
  by (simp_all add: encodable_def)

lemma encodable_scalars: "encodable chs \<Longrightarrow> scalars chs"
  by (induction chs) (auto simp: encodable_chr_def)

definition utf8_locale :: "wide \<Rightarrow> bool" where
  "utf8_locale W \<longleftrightarrow>
     (\<forall>c. c < 128 \<longrightarrow> (iswspace W c \<longleftrightarrow> isspace (ucast c)) \<and> (iswcntrl W c \<longleftrightarrow> iscntrl (ucast c)) \<and>
        (iswpunct W c \<longleftrightarrow> ispunct (ucast c)) \<and> towlower W c = ucast (tolower (ucast c))) \<and>
     (\<forall>c. encodable_chr c \<longrightarrow> encodable_chr (towlower W c)) \<and>
     (\<forall>chs. encodable chs \<longrightarrow> mbstowcs W (encs chs) = Some chs) \<and>
     (\<forall>chs. encodable chs \<longrightarrow> wcstombs W chs = Some (encs chs))"

lemma utf8_locale_laws [lib_laws]:
  assumes "utf8_locale W"
  shows "c < 128 \<Longrightarrow> iswspace W c \<longleftrightarrow> isspace (ucast c)"
    and "c < 128 \<Longrightarrow> iswcntrl W c \<longleftrightarrow> iscntrl (ucast c)"
    and "c < 128 \<Longrightarrow> iswpunct W c \<longleftrightarrow> ispunct (ucast c)"
    and "c < 128 \<Longrightarrow> towlower W c = ucast (tolower (ucast c))"
    and "encodable_chr c \<Longrightarrow> encodable_chr (towlower W c)"
    and "encodable chs \<Longrightarrow> mbstowcs W (encs chs) = Some chs"
    and "encodable chs \<Longrightarrow> wcstombs W chs = Some (encs chs)"
  using assms unfolding utf8_locale_def by blast+

section \<open>Concrete functions that satisfy the hypotheses\<close>

definition ref_str :: xml_str where
  "ref_str = \<lparr>
     xmlStrlen = (\<lambda>s. case s of None \<Rightarrow> 0 | Some t \<Rightarrow> int (length t)),
     xmlStrEqual = (=),
     xmlStrncasecmp = (\<lambda>a b n.
       if map tolower (take (nat n) (case a of None \<Rightarrow> [] | Some t \<Rightarrow> t)) =
          map tolower (take (nat n) (case b of None \<Rightarrow> [] | Some t \<Rightarrow> t)) then 0 else 1),
     xmlStrcasecmp = (\<lambda>a b.
       if map tolower (case a of None \<Rightarrow> [] | Some t \<Rightarrow> t) =
          map tolower (case b of None \<Rightarrow> [] | Some t \<Rightarrow> t) then 0 else 1),
     xmlStrchr = (\<lambda>s c. if c \<in> set s then Some (length (takeWhile (\<lambda>d. d \<noteq> c) s)) else None),
     xmlStrstr = find_sub (\<lambda>c. c),
     xmlStrcasestr = find_sub tolower,
     xmlStrsub = (\<lambda>s i n. if 0 \<le> i \<and> 0 \<le> n \<and> i \<le> int (length s)
       then Some (take (nat n) (drop (nat i) s)) else None),
     xmlStrndup = (\<lambda>s n. take (nat n) s),
     xmlStrncat = (\<lambda>s t n. s @ take (nat n) (case t of None \<Rightarrow> [] | Some t \<Rightarrow> t)),
     xmlUTF8Size = (\<lambda>s. if s = [] then 1 else case u8_seqlen s of Inl _ \<Rightarrow> -1 | Inr n \<Rightarrow> n),
     xmlUTF8Strlen = (\<lambda>s. int (length (filter isutf s))),
     xmlCheckUTF8 = (\<lambda>s. u8_isvalid s (int (length s)) = Inr True)\<rparr>"

definition ref_buf :: "bytes xml_buf" where
  "ref_buf = \<lparr>
     xmlBufferCreateSize = [],
     xmlBufferAdd = (\<lambda>b s. (b @ s, 0)),
     xmlBufferCat = (\<lambda>b s. (b @ s, 0)),
     xmlBufferEmpty = (\<lambda>_. []),
     xmlBufferLength = (\<lambda>b. int (length b)),
     bufBytes = (\<lambda>b. b)\<rparr>"

definition ref_hash :: "((bytes \<times> 'v) list, 'v) xml_hash" where
  "ref_hash = \<lparr>
     xmlHashCreate = (\<lambda>_. Some []),
     xmlHashAddEntry = (\<lambda>h k v. if map_of h k = None then (h @ [(k, v)], 0) else (h, -1)),
     xmlHashUpdateEntry = (\<lambda>h k v. (AList.update k v h, 0)),
     xmlHashRemoveEntry = (\<lambda>h k. (AList.delete k h, if map_of h k = None then -1 else 0)),
     xmlHashLookup = map_of,
     xmlHashEntries = AList.clearjunk\<rparr>"

definition ref_wide :: wide where
  "ref_wide = \<lparr>
     iswspace = (\<lambda>c. c < 128 \<and> isspace (ucast c)),
     iswcntrl = (\<lambda>c. c < 128 \<and> iscntrl (ucast c)),
     iswpunct = (\<lambda>c. c < 128 \<and> ispunct (ucast c)),
     towlower = (\<lambda>c. if c < 128 then ucast (tolower (ucast c)) else c),
     mbstowcs = (\<lambda>s. case u8_toucs (int (length s) + 1) (s @ [0]) (-1) of
       Inl _ \<Rightarrow> None | Inr (w, n) \<Rightarrow> Some (butlast w)),
     wcstombs = (\<lambda>w. Some (encs w))\<rparr>"

lemma u8_seqlen_enc:
  assumes "ch < 0x110000"
  shows "u8_seqlen (u8_wc_toutf8 ch @ r) = Inr (int (u8_charlen ch))"
  using u8_wc_toutf8_seq [OF assms]
  by (auto simp: utf8_seq_def u8_seqlen_def rd_Cons simp flip: length_u8_wc_toutf8)

lemma length_le_encs: "scalars chs \<Longrightarrow> length chs \<le> length (encs chs)"
  using filter_isutf_encs [of chs] length_filter_le [of isutf "encs chs"] by simp

lemma u8_wc_toutf8_nonempty: "ch < 0x110000 \<Longrightarrow> u8_wc_toutf8 ch \<noteq> []"
  using length_u8_wc_toutf8 [of ch] u8_charlen_pos [of ch] by fastforce

lemma ref_str_ok [simp]: "xml_str_ok ref_str"
  using u8_isvalid_encs [of _ "[]"]
  by (auto simp: xml_str_ok_def ref_str_def u8_seqlen_enc filter_isutf_encs scalars_def
      u8_wc_toutf8_nonempty)

lemma ref_buf_ok [simp]: "xml_buf_ok ref_buf"
  by (simp add: xml_buf_ok_def ref_buf_def)

lemma map_of_append_new: "map_of h k = None \<Longrightarrow> map_of (h @ [(k, v)]) = (map_of h)(k \<mapsto> v)"
  by (rule ext) (auto simp: map_add_def split: option.splits)

lemma ref_hash_ok [simp]: "xml_hash_ok ref_hash"
  by (auto simp: xml_hash_ok_def ref_hash_def map_of_append_new update_conv' delete_conv'
      distinct_clearjunk map_of_clearjunk simp del: map_of_append)

lemma ref_wide_ok [simp]: "utf8_locale ref_wide"
proof -
  have low: "unat (ucast c :: u8) = unat c" if "c < 128" for c :: u32
    using that by (simp add: unsigned_ucast_eq take_bit_nat_eq_self word_less_nat_alt)
  have "encodable_chr (ucast (tolower (ucast c)))" if "c < 128" "encodable_chr c" for c
    using that by (auto simp: encodable_chr_def word_less_nat_alt word_le_nat_alt unat_tolower low
        unsigned_ucast_eq take_bit_nat_eq_self word_unat_eq_iff)
  moreover have "u8_toucs (int (length (encs chs)) + 1) (encs chs @ [0]) (-1) = Inr (chs @ [0], int (length chs))"
    if "encodable chs" for chs
    using encodable_scalars [OF that] length_le_encs [of chs] by (intro u8_toucs_encs) auto
  ultimately show ?thesis by (simp add: utf8_locale_def ref_wide_def)
qed

end
