(* ===== verification/Strings.thy ===== *)
theory Strings
  imports Libxml Utf8_Correct "HOL-Library.Signed_Division"
begin

text \<open>
  The string functions of \<open>src/libswish3/string.c\<close>: numbers, dates and flags to and from
  text, code points, the process locale, escaping, case folding, white space, conversion to
  and from wide strings, and C escapes.

  A function that only scans a string up to its terminator takes the value of the string
  (\<open>bytes\<close>, \<open>bytes option\<close> where NULL is tested); one that indexes bytes of its own accord or
  writes into the string takes the object (\<open>mem\<close>) and reads and writes through \<open>rd\<close> and \<open>wr\<close>.
\<close>

section \<open>Numbers, flags and dates\<close>

text \<open>\<open>strtol (s, NULL, 10)\<close> before saturation: leading space, a sign, digits, the rest ignored.\<close>

definition is_digit :: "u8 \<Rightarrow> bool" where
  "is_digit c \<longleftrightarrow> 0x30 \<le> c \<and> c \<le> 0x39"

definition strtol10 :: "bytes \<Rightarrow> int" where
  "strtol10 s =
     (let t = dropWhile isspace s;
          neg = (t \<noteq> [] \<and> hd t = 0x2D);
          u = (if t \<noteq> [] \<and> (hd t = 0x2D \<or> hd t = 0x2B) then tl t else t);
          n = int (strtol_digits 10 (takeWhile is_digit u))
      in if neg then - n else n)"

text \<open>
  A value outside \<open>long\<close> sets \<open>errno\<close> to \<open>ERANGE\<close> and the process exits; any other is
  converted to \<open>int\<close>, keeping its low 32 bits.
\<close>

definition swish_string_to_int :: "bytes \<Rightarrow> int res" where
  "swish_string_to_int buf =
     (let i = strtol10 buf in
      if i < - (2 ^ 63) \<or> 2 ^ 63 \<le> i then Inl ExitFailure
      else Inr (signed_take_bit 31 i))"

definition swish_string_to_boolean :: "mem option \<Rightarrow> bool res" where
  "swish_string_to_boolean buf =
     (case buf of
        None \<Rightarrow> Inr False
      | Some b \<Rightarrow>
          bnd (rd b 0) (\<lambda>c.
            if c = 0x59 \<or> c = 0x79 \<or> c = 0x31 then Inr True
            else if c = 0x6F then bnd (rd b 1) (\<lambda>d. Inr (d = 0x6E))
            else if c = 0x4F then bnd (rd b 1) (\<lambda>d. Inr (d = 0x4E))
            else Inr False))"

text \<open>\<open>%d\<close>, \<open>%ld\<close> and \<open>%0wd\<close> of \<open>printf\<close>.\<close>

fun dec :: "nat \<Rightarrow> bytes" where
  "dec n = (if n < 10 then [byte (0x30 + n)] else dec (n div 10) @ [byte (0x30 + n mod 10)])"

declare dec.simps [simp del]

definition dec_int :: "int \<Rightarrow> bytes" where
  "dec_int i = (if i < 0 then 0x2D # dec (nat (- i)) else dec (nat i))"

definition dec_pad :: "nat \<Rightarrow> nat \<Rightarrow> bytes" where
  "dec_pad w n = replicate (w - length (dec n)) 0x30 @ dec n"

definition BUFSIZE :: nat where "BUFSIZE = 100"

text \<open>\<open>snprintf\<close> into a block of \<open>BUFSIZE\<close> bytes.\<close>

definition convert_to_string :: "int \<Rightarrow> bytes" where
  "convert_to_string val = take (BUFSIZE - 1) (dec_int val)"

definition swish_int_to_string :: "int \<Rightarrow> bytes" where
  "swish_int_to_string val = convert_to_string val"

definition swish_long_to_string :: "int \<Rightarrow> bytes" where
  "swish_long_to_string val = convert_to_string val"

definition DATE_BUFSIZE :: nat where "DATE_BUFSIZE = 8"

definition clamp :: "int \<Rightarrow> int \<Rightarrow> int \<Rightarrow> int" where
  "clamp lo hi x = (if x < lo then lo else if hi < x then hi else x)"

text \<open>
  \<open>SNPRINTF\<close> is defined nowhere in the sources: \<open>sprintf\<close> writes the text and its NUL into
  \<open>buf\<close>, and the call aborts when it finds the ninth byte changed.
\<close>

definition swish_date_to_string :: "int \<Rightarrow> int \<Rightarrow> int \<Rightarrow> bytes res" where
  "swish_date_to_string y m d =
     (let y = clamp 0 9999 y; m = clamp 1 12 m; d = clamp 1 31 d;
          text = dec_pad 4 (nat y) @ dec_pad 2 (nat m) @ dec_pad 2 (nat d) in
      if DATE_BUFSIZE < length text then Inl OutOfBounds
      else
        (let buf = text @ [0] @ drop (length text + 1) (replicate DATE_BUFSIZE 0 @ [0]) in
         bnd (rd buf (int DATE_BUFSIZE)) (\<lambda>c.
           if c \<noteq> 0 then Inl Aborted else cstr buf 0)))"

section \<open>Characters\<close>

definition swish_utf8_chr_len :: "xml_str \<Rightarrow> bytes \<Rightarrow> int res" where
  "swish_utf8_chr_len X utf8 =
     (let n = xmlUTF8Size X utf8 in if n = -1 then Inl (Croak ''Bad UTF8 string'') else Inr n)"

definition swish_utf8_num_chrs :: "xml_str \<Rightarrow> bytes \<Rightarrow> int res" where
  "swish_utf8_num_chrs X utf8 =
     (let n = xmlUTF8Strlen X utf8 in if n = -1 then Inl (Croak ''Bad UTF8 string'') else Inr n)"

definition swish_utf8_codepoint :: "xml_str \<Rightarrow> mem \<Rightarrow> u32 res" where
  "swish_utf8_codepoint X utf8 =
     bnd (cstr utf8 0) (\<lambda>s.
     bnd (swish_utf8_chr_len X s) (\<lambda>len.
     bnd (rd utf8 0) (\<lambda>a.
       if len = 1 then Inr (ucast a)
       else
         bnd (rd utf8 1) (\<lambda>b.
           if len = 2 then Inr (of_int ((uint a - 192) * 64 + uint b - 128))
           else
             bnd (rd utf8 2) (\<lambda>c.
               if len = 3 then
                 Inr (of_int ((uint a - 224) * 4096 + (uint b - 128) * 64 + uint c - 128))
               else
                 bnd (rd utf8 3) (\<lambda>d.
                   Inr (of_int ((uint a - 240) * 262144 + (uint b - 128) * 4096 +
                     (uint c - 128) * 64 + uint d - 128)))))))) "

definition swish_utf8_next_chr :: "mem \<Rightarrow> int \<Rightarrow> int res" where
  "swish_utf8_next_chr s i = u8_inc s i"

definition swish_utf8_prev_chr :: "mem \<Rightarrow> int \<Rightarrow> int res" where
  "swish_utf8_prev_chr s i = u8_dec s i"

definition swish_is_ascii :: "xml_str \<Rightarrow> bytes option \<Rightarrow> bool" where
  "swish_is_ascii X str =
     (let len = xmlStrlen X str in
      case str of
        None \<Rightarrow> False
      | Some s \<Rightarrow> len \<noteq> 0 \<and> list_all (\<lambda>c. c < 0x80) (take (nat len) s))"

definition swish_bytes_in_wchar :: "int \<Rightarrow> int" where
  "swish_bytes_in_wchar ch =
     (let len = 0;
          len = (if ch < 0x80 then 1 else len);
          len = (if ch < 0x800 then 2 else len);
          len = (if ch < 0x10000 then 3 else len);
          len = (if ch < 0x110000 then 4 else len)
      in len)"

section \<open>The locale of the process\<close>

definition SWISH_LOCALE :: bytes where "SWISH_LOCALE = lit ''en_US.UTF-8''"
definition SWISH_DEFAULT_ENCODING :: bytes where "SWISH_DEFAULT_ENCODING = lit ''UTF-8''"

text \<open>
  What \<open>setlocale\<close> and \<open>getenv\<close> answer: the categories as \<open>setlocale (LC_ALL, "")\<close> sets them
  from the environment, the environment itself, and the names \<open>setlocale\<close> accepts.
\<close>

record process =
  lc_all :: "bytes option"
  lc_ctype :: "bytes option"
  lc_numeric :: bytes
  env :: "bytes \<Rightarrow> bytes option"
  accepts :: "bytes \<Rightarrow> bool"

definition no_name :: "bytes option \<Rightarrow> bool" where
  "no_name s \<longleftrightarrow> s = None \<or> s = Some []"

definition swish_get_locale :: "process \<Rightarrow> process \<times> bytes" where
  "swish_get_locale p =
     (let locale = lc_all p;
          locale = (if no_name locale then lc_ctype p else locale);
          locale = (if no_name locale then env p (lit ''LANG'') else locale);
          locale = (if no_name locale then Some SWISH_LOCALE else locale)
      in (p\<lparr>lc_numeric := lit ''C''\<rparr>, the locale))"

definition swish_setenv :: "bytes \<Rightarrow> bytes \<Rightarrow> bool \<Rightarrow> process \<Rightarrow> process" where
  "swish_setenv name value override p =
     (if override \<or> env p name = None then p\<lparr>env := (env p)(name \<mapsto> value)\<rparr> else p)"

definition swish_verify_utf8_locale :: "xml_str \<Rightarrow> process \<Rightarrow> process" where
  "swish_verify_utf8_locale X p =
     (let (p, loc) = swish_get_locale p;
          enc = (case xmlStrchr X loc 0x2E of
                   Some n \<Rightarrow> drop (n + 1) loc
                 | None \<Rightarrow> SWISH_DEFAULT_ENCODING);
          p = swish_setenv (lit ''SWISH_ENCODING'') enc False p in
      if u8_is_locale_utf8 loc then p
      else if accepts p SWISH_LOCALE then p\<lparr>lc_ctype := Some SWISH_LOCALE\<rparr> else p)"

section \<open>Escaping\<close>

text \<open>The result is the object allocated, of which only what has been stored is known.\<close>

definition swish_str_escape_utf8 :: "xml_str \<Rightarrow> mem \<Rightarrow> mem res" where
  "swish_str_escape_utf8 X u8str =
     bnd (cstr u8str 0) (\<lambda>s.
     bnd (swish_utf8_num_chrs X s) (\<lambda>u8chrs.
     bnd (u8_escape (10 * u8chrs + 1) u8str False) (\<lambda>(escaped, n). Inr escaped)))"

definition swish_str_unescape_utf8 :: "xml_str \<Rightarrow> mem \<Rightarrow> mem res" where
  "swish_str_unescape_utf8 X ascii =
     bnd (cstr ascii 0) (\<lambda>s.
     bnd (u8_unescape (xmlStrlen X (Some s) + 1) ascii) (\<lambda>(unescaped, n). Inr unescaped))"

section \<open>Case\<close>

text \<open>A wide string is its characters before the terminator.\<close>

definition swish_wstr_tolower :: "wide \<Rightarrow> u32 list \<Rightarrow> u32 list" where
  "swish_wstr_tolower W s = map (towlower W) s"

text \<open>The second conversion cannot fail, nor give another length, once the first has measured it.\<close>

definition swish_locale_to_wchar :: "wide \<Rightarrow> bytes \<Rightarrow> u32 list res" where
  "swish_locale_to_wchar W str =
     (case mbstowcs W str of
        None \<Rightarrow> Inl (Croak ''error converting mbs to wide str'')
      | Some w \<Rightarrow> Inr w)"

definition swish_wchar_to_locale :: "wide \<Rightarrow> u32 list \<Rightarrow> bytes res" where
  "swish_wchar_to_locale W str =
     (case wcstombs W str of
        None \<Rightarrow> Inl (Croak ''error converting wide chars to mbs'')
      | Some s \<Rightarrow> Inr s)"

definition swish_utf8_str_tolower :: "wide \<Rightarrow> bytes \<Rightarrow> bytes res" where
  "swish_utf8_str_tolower W s =
     bnd (swish_locale_to_wchar W s) (\<lambda>wstr. swish_wchar_to_locale W (swish_wstr_tolower W wstr))"

definition swish_ascii_str_tolower :: "bytes \<Rightarrow> bytes" where
  "swish_ascii_str_tolower s = map tolower s"

definition swish_str_tolower :: "xml_str \<Rightarrow> wide \<Rightarrow> bytes \<Rightarrow> bytes res" where
  "swish_str_tolower X W s =
     (if swish_is_ascii X (Some s) then Inr (swish_ascii_str_tolower s)
      else swish_utf8_str_tolower W s)"

section \<open>White space\<close>

function swish_str_skip_ws :: "mem \<Rightarrow> int \<Rightarrow> int res" where
  "swish_str_skip_ws m s =
     bnd (rd m s) (\<lambda>c. if c \<noteq> 0 \<and> isspace c then swish_str_skip_ws m (s + 1) else Inr s)"
  by pat_completeness auto
termination
  by (relation "measure (\<lambda>(m, s). nat (int (length m) - s))") (auto simp: rd_Inr_iff)

function trim_ws_loop :: "mem \<Rightarrow> int \<Rightarrow> int \<Rightarrow> mem res" where
  "trim_ws_loop m s i =
     (if 0 < i then
        bnd (rd m (s + i - 1)) (\<lambda>c.
          if isspace c then bnd (wr m (s + i - 1) 0) (\<lambda>m'. trim_ws_loop m' s (i - 1)) else Inr m)
      else Inr m)"
  by pat_completeness auto
termination
  by (relation "measure (\<lambda>(m, s, i). nat i)") auto

definition swish_str_trim_ws :: "xml_str \<Rightarrow> mem \<Rightarrow> int \<Rightarrow> mem res" where
  "swish_str_trim_ws X m s =
     bnd (cstr m s) (\<lambda>str. trim_ws_loop m s (xmlStrlen X (Some str)))"

function all_ws_loop :: "mem \<Rightarrow> int \<Rightarrow> int \<Rightarrow> bool res" where
  "all_ws_loop s len i =
     (if i < len then
        bnd (rd s i) (\<lambda>c. if \<not> isspace c then Inr False else all_ws_loop s len (i + 1))
      else Inr True)"
  by pat_completeness auto
termination
  by (relation "measure (\<lambda>(s, len, i). nat (len - i))") auto

definition swish_str_all_ws_len :: "mem \<Rightarrow> int \<Rightarrow> bool res" where
  "swish_str_all_ws_len s len = all_ws_loop s len 0"

definition swish_str_all_ws :: "xml_str \<Rightarrow> mem \<Rightarrow> bool res" where
  "swish_str_all_ws X s = bnd (cstr s 0) (\<lambda>str. swish_str_all_ws_len s (xmlStrlen X (Some str)))"

function ctrl_to_ws_loop :: "mem \<Rightarrow> int \<Rightarrow> int \<Rightarrow> mem res" where
  "ctrl_to_ws_loop s i k =
     (if k < i then
        bnd (rd s k) (\<lambda>c.
          if c < 32 then bnd (wr s k 32) (\<lambda>s'. ctrl_to_ws_loop s' i (k + 1))
          else ctrl_to_ws_loop s i (k + 1))
      else Inr s)"
  by pat_completeness auto
termination
  by (relation "measure (\<lambda>(s, i, k). nat (i - k))") auto

definition swish_str_ctrl_to_ws :: "xml_str \<Rightarrow> mem \<Rightarrow> mem res" where
  "swish_str_ctrl_to_ws X s =
     bnd (cstr s 0) (\<lambda>str.
       if \<not> swish_is_ascii X (Some str) then Inr s
       else ctrl_to_ws_loop s (xmlStrlen X (Some str)) 0)"

declare swish_str_skip_ws.simps [simp del] trim_ws_loop.simps [simp del]
  all_ws_loop.simps [simp del] ctrl_to_ws_loop.simps [simp del]

section \<open>C escapes\<close>

text \<open>
  \<open>strtoul (s, &end, base)\<close> for base 8 and 16: space, a sign, \<open>0x\<close>, digits; the value,
  saturated, and the number of bytes up to \<open>end\<close>.
\<close>

definition strtoul :: "nat \<Rightarrow> bytes \<Rightarrow> 64 word \<times> nat" where
  "strtoul base s =
     (let ws = length (takeWhile isspace s); t = drop ws s;
          sg = (if t \<noteq> [] \<and> (hd t = 0x2D \<or> hd t = 0x2B) then 1 else 0);
          u = drop sg t;
          px = (if base = 16 \<and> 2 < length u \<and> u ! 0 = 0x30 \<and> (u ! 1 = 0x78 \<or> u ! 1 = 0x58) \<and>
                   hex_digit (u ! 2) then 2 else 0);
          ds = takeWhile (if base = 16 then hex_digit else octal_digit) (drop px u);
          n = strtol_digits base ds
      in if ds = [] then (0, 0)
         else (if 2 ^ 64 \<le> n then -1 else if sg = 1 \<and> hd t = 0x2D then - of_nat n else of_nat n,
               ws + sg + px + length ds))"

text \<open>The character and the position stored to \<open>*se\<close>, for the escape at index \<open>s\<close>.\<close>

definition swish_get_C_escaped_char :: "mem \<Rightarrow> int \<Rightarrow> (u8 \<times> int) res" where
  "swish_get_C_escaped_char m s =
     bnd (rd m s) (\<lambda>c.
       if c \<noteq> 0x5C then Inr (c, s + 1)
       else
         bnd (rd m (s + 1)) (\<lambda>d.
           if d = 0x61 then Inr (7, s + 2)
           else if d = 0x62 then Inr (8, s + 2)
           else if d = 0x66 then Inr (12, s + 2)
           else if d = 0x6E then Inr (10, s + 2)
           else if d = 0x72 then Inr (13, s + 2)
           else if d = 0x74 then Inr (9, s + 2)
           else if d = 0x76 then Inr (11, s + 2)
           else if d = 0x78 then
             bnd (cstr m (s + 2)) (\<lambda>t. Inr (ucast (fst (strtoul 16 t)), s + 2 + int (snd (strtoul 16 t))))
           else if d = 0x30 then
             bnd (cstr m (s + 1)) (\<lambda>t. Inr (ucast (fst (strtoul 8 t)), s + 1 + int (snd (strtoul 8 t))))
           else if d = 0 then Inr (0x5C, s + 1)
           else Inr (d, s + 2)))"

section \<open>Other conversions\<close>

text \<open>\<open>%f\<close> of a number, of whatever type, is a parameter.\<close>

definition swish_double_to_string :: "('d \<Rightarrow> bytes) \<Rightarrow> 'd \<Rightarrow> bytes" where
  "swish_double_to_string fmt val = take (BUFSIZE - 1) (fmt val)"

text \<open>\<open>wchar_t\<close> is a signed 32-bit integer.\<close>

definition swish_wchar_t_comp :: "u32 \<Rightarrow> u32 \<Rightarrow> u32" where
  "swish_wchar_t_comp s1 s2 = s1 - s2"

text \<open>\<open>qsort\<close> with it, on values whose differences fit an \<open>int\<close>.\<close>

definition qsort_wchar :: "u32 list \<Rightarrow> u32 list" where
  "qsort_wchar s = sort_key sint s"

function dedup_loop :: "nat \<Rightarrow> int \<Rightarrow> int \<Rightarrow> u32 list \<Rightarrow> (int \<times> int \<times> u32 list) res" where
  "dedup_loop len i j s =
     (if i < int len - 1 then
        bnd (rd s i) (\<lambda>a. bnd (rd s (j - 1)) (\<lambda>b.
          if a \<noteq> b then bnd (wr s j a) (\<lambda>s. dedup_loop len (i + 1) (j + 1) s)
          else dedup_loop len (i + 1) j s))
      else Inr (i, j, s))"
  by pat_completeness auto
termination by (relation "measure (\<lambda>(len, i, j, s). nat (int len - i))") auto

declare dedup_loop.simps [simp del]

text \<open>
  The outer loop runs over the variable of the loop inside it: after its first round it looks
  at the character after \<open>i\<close>, which is the terminator when there are two or more. Were it
  another one, the loop would start over for ever.
\<close>

definition swish_sort_wchar :: "u32 list \<Rightarrow> (u32 \<times> u32 list) res" where
  "swish_sort_wchar s =
     (let len = length (takeWhile (\<lambda>c. c \<noteq> 0) s);
          s = qsort_wchar (take len s) @ drop len s in
      bnd (rd s 0) (\<lambda>c.
      bnd (if c = 0 then Inr (0, s)
           else
             bnd (dedup_loop len 1 1 s) (\<lambda>(i, j, s).
             bnd (rd s (i + 1)) (\<lambda>c. if c = 0 then Inr (j, s) else Inl Aborted))) (\<lambda>(j, s).
      bnd (rd s j) (\<lambda>c. Inr (c, s)))))"

lemma sort_wchar_of_one_reads_past: "c \<noteq> 0 \<Longrightarrow> swish_sort_wchar [c, 0] = Inl OutOfBounds"
  by (simp add: swish_sort_wchar_def Let_def qsort_wchar_def rd_def dedup_loop.simps)

end
