(* ===== verification/Strings_Correct.thy ===== *)
theory Strings_Correct
  imports Strings
begin

text \<open>
  What the string functions guarantee: ints and dates survive the trip through text, the
  buffers of the escaping functions are large enough, the fast path of case folding agrees
  with the general one, white space is trimmed as specified, and the process ends up in a
  UTF-8 locale.
\<close>

section \<open>Numbers\<close>

lemma is_digit_byte: "n < 10 \<Longrightarrow> is_digit (byte (0x30 + n))"
  by (simp add: is_digit_def word_le_nat_alt unat_byte)

lemma digit_val_byte: "n < 10 \<Longrightarrow> digit_val (byte (0x30 + n)) = n"
  by (simp add: digit_val_def word_le_nat_alt unat_byte)

lemma dec_nonempty: "dec n \<noteq> []"
  by (subst dec.simps) simp

lemma dec_digits: "c \<in> set (dec n) \<Longrightarrow> is_digit c"
proof (induction n arbitrary: c rule: dec.induct)
  case (1 n)
  then show ?case by (subst (asm) dec.simps) (auto split: if_splits intro: is_digit_byte)
qed

lemma strtol_dec: "strtol_digits 10 (dec n) = n"
proof (induction n rule: dec.induct)
  case (1 n)
  then show ?case
    by (subst dec.simps)
      (auto simp: strtol_digits_append digit_val_byte strtol_digits_def [of 10 "[x]" for x])
qed

lemma length_dec: "0 < w \<Longrightarrow> n < 10 ^ w \<Longrightarrow> length (dec n) \<le> w"
proof (induction n arbitrary: w rule: dec.induct)
  case (1 n)
  show ?case
  proof (cases "n < 10")
    case True
    with "1.prems" show ?thesis by (subst dec.simps) simp
  next
    case False
    with "1.prems" obtain v where v: "w = Suc v" "0 < v"
      by (cases w; cases "w - 1") auto
    with "1.prems" have "n div 10 < 10 ^ v" by (simp add: less_mult_imp_div_less mult.commute)
    with "1.IH" [OF False, of v] v False show ?thesis by (subst dec.simps) simp
  qed
qed

lemma is_digit_not: "is_digit c \<Longrightarrow> c \<noteq> 0 \<and> \<not> isspace c \<and> c \<noteq> 0x2D \<and> c \<noteq> 0x2B"
  by (auto simp: is_digit_def isspace_def word_le_nat_alt)

lemma takeWhile_dec: "takeWhile is_digit (dec n) = dec n"
  by (simp add: takeWhile_eq_all_conv dec_digits)

lemma hd_dec: "\<not> isspace (hd (dec n))" "hd (dec n) \<noteq> 0x2D" "hd (dec n) \<noteq> 0x2B"
  using is_digit_not [OF dec_digits [OF hd_in_set [OF dec_nonempty]]] by auto

lemma dropWhile_isspace_hd: "s \<noteq> [] \<Longrightarrow> \<not> isspace (hd s) \<Longrightarrow> dropWhile isspace s = s"
  by (cases s) auto

lemma strtol10_dec_int: "strtol10 (dec_int i) = i"
proof (cases "i < 0")
  case True
  then show ?thesis
    by (simp add: strtol10_def dec_int_def isspace_def takeWhile_dec strtol_dec Let_def)
next
  case False
  then show ?thesis
    using hd_dec [of "nat i"]
    by (simp add: strtol10_def dec_int_def takeWhile_dec strtol_dec Let_def dropWhile_isspace_hd dec_nonempty)
qed

lemma length_dec_int:
  assumes "- (2 ^ 63) \<le> i" and "i < 2 ^ 63"
  shows "length (dec_int i) \<le> 20"
proof -
  have "nat (- i) < 10 ^ 19" "nat i < 10 ^ 19" using assms by auto
  then show ?thesis
    using length_dec [of 19 "nat i"] length_dec [of 19 "nat (- i)"] by (auto simp: dec_int_def)
qed

text \<open>The values of a C \<open>int\<close> as text.\<close>

definition int_ok :: "int \<Rightarrow> bool" where
  "int_ok i \<longleftrightarrow> - (2 ^ 31) \<le> i \<and> i < 2 ^ 31"

lemma int_text:
  assumes "int_ok i"
  shows "swish_int_to_string i = dec_int i" and "swish_string_to_int (dec_int i) = Inr i"
proof -
  have "length (dec_int i) \<le> 20" using length_dec_int [of i] assms by (auto simp: int_ok_def)
  then show "swish_int_to_string i = dec_int i"
    by (simp add: swish_int_to_string_def convert_to_string_def BUFSIZE_def)
  have "signed_take_bit 31 i = i" using assms by (simp add: int_ok_def signed_take_bit_int_eq_self)
  then show "swish_string_to_int (dec_int i) = Inr i"
    using assms by (simp add: swish_string_to_int_def strtol10_dec_int int_ok_def)
qed

lemma dec_int_inj: "dec_int i = dec_int j \<longleftrightarrow> i = j"
  by (metis strtol10_dec_int)

text \<open>
  C36: ints survive the trip through text, longs are cut. Both conversions write the whole
  decimal, which the hundred bytes allocated for it always hold. For every value of a C \<open>int\<close>,
  \<open>swish_string_to_int (swish_int_to_string v)\<close> is \<open>v\<close>. \<open>swish_string_to_int\<close> returns an \<open>int\<close>:
  for every value of a 64-bit \<open>long\<close>, \<open>swish_string_to_int (swish_long_to_string v)\<close> is its low
  32 bits as an \<open>int\<close>, so that \<open>v\<close> comes back if and only if it is the value of an \<open>int\<close>.
\<close>

theorem string_to_int_round_trip:
  assumes "- (2 ^ 63) \<le> v" and "v < 2 ^ 63"
  shows "swish_string_to_int (swish_long_to_string v) = Inr (signed_take_bit 31 v) \<and>
    (swish_string_to_int (swish_long_to_string v) = Inr v \<longleftrightarrow> int_ok v) \<and>
    (- (2 ^ 31) \<le> v \<and> v < 2 ^ 31 \<longrightarrow> swish_string_to_int (swish_int_to_string v) = Inr v) \<and>
    swish_long_to_string v = dec_int v"
proof -
  have "convert_to_string v = dec_int v"
    using length_dec_int [OF assms] by (simp add: convert_to_string_def BUFSIZE_def)
  moreover have "signed_take_bit 31 v = v \<longleftrightarrow> - (2 ^ 31) \<le> v \<and> v < 2 ^ 31"
    by (simp add: signed_take_bit_int_eq_self_iff)
  ultimately show ?thesis
    using assms by (simp add: swish_string_to_int_def swish_long_to_string_def
        swish_int_to_string_def strtol10_dec_int Let_def int_ok_def)
qed

lemma string_to_int_round_trip_witness:
  "swish_string_to_int (swish_int_to_string (-2147483648)) = Inr (-2147483648) \<and>
   swish_string_to_int (swish_long_to_string 4294967297) = Inr 1"
  using string_to_int_round_trip [of "-2147483648"]
    conjunct1 [OF string_to_int_round_trip [of 4294967297]]
  by (simp add: signed_take_bit_eq_take_bit_minus)

section \<open>Dates\<close>

lemma dec_pad_facts:
  assumes "0 < w" and "n < 10 ^ w"
  shows "length (dec_pad w n) = w" and "nul_free (dec_pad w n)"
    and "\<forall>c \<in> set (dec_pad w n). is_digit c" and "strtol_digits 10 (dec_pad w n) = n"
proof -
  show "length (dec_pad w n) = w" using length_dec [OF assms] by (simp add: dec_pad_def)
  show d: "\<forall>c \<in> set (dec_pad w n). is_digit c"
    using dec_digits by (auto simp: dec_pad_def) (simp_all add: is_digit_def)
  then show "nul_free (dec_pad w n)" using is_digit_not by (auto simp: nul_free_def)
  have "strtol_digits 10 (replicate k 0x30 @ ds) = strtol_digits 10 ds" for k ds
    by (induction k) (simp_all add: strtol_digits_def digit_val_def)
  then show "strtol_digits 10 (dec_pad w n) = n" by (simp add: dec_pad_def strtol_dec)
qed

lemma clamp_range: "lo \<le> hi \<Longrightarrow> lo \<le> clamp lo hi x \<and> clamp lo hi x \<le> hi"
  by (simp add: clamp_def)

lemma strtol_digits_append_list:
  "strtol_digits b (xs @ ys) = strtol_digits b xs * b ^ length ys + strtol_digits b ys"
proof (induction ys rule: rev_induct)
  case (snoc y ys)
  then show ?case
    by (simp add: strtol_digits_append algebra_simps flip: append_assoc)
qed (simp add: strtol_digits_def)

text \<open>
  A date is eight digits, whatever the arguments. \<open>swish_date_to_string\<close> never aborts
  and never writes past its nine bytes; year, month and day are clamped to 0..9999, 1..12 and
  1..31, and read as a number the text is \<open>y * 10000 + m * 100 + d\<close>, so that it sorts by date.
\<close>

lemma date_to_string_eight_digits:
  "\<exists>s. swish_date_to_string y m d = Inr s \<and> length s = 8 \<and> list_all is_digit s \<and>
     int (strtol_digits 10 s) = clamp 0 9999 y * 10000 + clamp 1 12 m * 100 + clamp 1 31 d"
proof -
  define Y M D where "Y = nat (clamp 0 9999 y)" and "M = nat (clamp 1 12 m)" and "D = nat (clamp 1 31 d)"
  note range = clamp_range [of 0 9999 y] clamp_range [of 1 12 m] clamp_range [of 1 31 d]
  have Y: "Y < 10 ^ 4" and M: "M < 10 ^ 2" and D: "D < 10 ^ 2"
    using range by (auto simp: Y_def M_def D_def)
  note facts = dec_pad_facts [OF _ Y, simplified] dec_pad_facts [OF _ M, simplified]
    dec_pad_facts [OF _ D, simplified]
  let ?s = "dec_pad 4 Y @ dec_pad 2 M @ dec_pad 2 D"
  have "rd ((?s @ [0]) @ []) 8 = Inr 0"
    using facts by (simp add: rd_def nth_append)
  moreover have "cstr (?s @ [0]) 0 = Inr ?s"
    using cstr_cobj [of ?s] facts by (simp add: cobj_def)
  ultimately have "swish_date_to_string y m d = Inr ?s"
    using facts by (simp add: swish_date_to_string_def Let_def DATE_BUFSIZE_def flip: Y_def M_def D_def)
  moreover have "int (strtol_digits 10 ?s) = clamp 0 9999 y * 10000 + clamp 1 12 m * 100 + clamp 1 31 d"
    using facts range by (simp add: strtol_digits_append_list Y_def M_def D_def)
  ultimately show ?thesis using facts by (auto simp: list_all_iff)
qed

section \<open>Characters\<close>

lemma uint_byte: "n < 256 \<Longrightarrow> uint (byte n) = int n"
  using unat_byte [of n] by (simp add: uint_nat)

lemma ucast_byte_u32: "n < 256 \<Longrightarrow> (ucast (byte n) :: u32) = of_nat n"
  by (simp add: word_unat_eq_iff unsigned_ucast_eq unat_byte unsigned_of_nat take_bit_nat_eq_self)

lemma split_64_3: "n = n div 4096 * 4096 + n div 64 mod 64 * 64 + n mod 64" for n :: nat
  using div_mult_mod_eq [of n 64] div_mult_mod_eq [of "n div 64" 64] div_mult2_eq [of n 64 64, simplified]
  by linarith

lemma split_64_4:
  "n = n div 262144 * 262144 + n div 4096 mod 64 * 4096 + n div 64 mod 64 * 64 + n mod 64" for n :: nat
  using split_64_3 [of n] div_mult_mod_eq [of "n div 4096" 64] div_mult2_eq [of n 4096 64, simplified]
  by linarith

lemma cstr_enc:
  "ch < 0x110000 \<Longrightarrow> ch \<noteq> 0 \<Longrightarrow> cstr (u8_wc_toutf8 ch @ 0 # r) 0 = Inr (u8_wc_toutf8 ch)"
  using cstr_at [OF nul_free_u8_wc_toutf8, of ch "[]" r] by simp

text \<open>
  \<open>swish_utf8_codepoint\<close> gives the code point of the character an encoding starts with,
  when \<open>xmlUTF8Size\<close> gives the length of that encoding: it inverts \<open>u8_wc_toutf8\<close>.
\<close>

lemma codepoint_of_encoding:
  assumes "xml_str_ok X" and "ch < 0x110000" and "ch \<noteq> 0"
  shows "swish_utf8_codepoint X (u8_wc_toutf8 ch @ 0 # r) = Inr ch"
proof -
  define n where "n = unat ch"
  have n: "n < 0x110000" using assms(2) by (simp add: n_def word_less_nat_alt)
  have ch: "ch = of_nat n" by (simp add: n_def)
  have len: "xmlUTF8Size X (u8_wc_toutf8 ch) = int (u8_charlen ch)"
    using xml_str_laws(6) [OF assms(1,2,3), of "[]"] by simp
  then have chr_len: "swish_utf8_chr_len X (u8_wc_toutf8 ch) = Inr (int (u8_charlen ch))"
    by (simp add: swish_utf8_chr_len_def)
  have clen: "u8_charlen ch = (if n < 0x80 then 1 else if n < 0x800 then 2 else if n < 0x10000 then 3 else 4)"
    using n by (simp add: u8_charlen_def n_def word_less_nat_alt)
  have of_int_n: "(of_int (int n) :: u32) = ch" by (simp add: ch)
  have "n < 0x80 \<or> 0x80 \<le> n \<and> n < 0x800 \<or> 0x800 \<le> n \<and> n < 0x10000 \<or> 0x10000 \<le> n"
    by linarith
  then show ?thesis
  proof (elim disjE)
    assume "n < 0x80"
    then show ?thesis
      by (simp add: swish_utf8_codepoint_def cstr_enc assms swish_utf8_chr_len_def len clen)
        (use of_int_n in \<open>simp add: u8_wc_toutf8_byte rd_def ucast_byte_u32 flip: n_def\<close>)
  next
    assume r: "0x80 \<le> n \<and> n < 0x800"
    define a b where "a = n div 64" and "b = n mod 64"
    have "n = a * 64 + b" by (simp add: a_def b_def)
    then have v: "ch = of_nat a * 64 + of_nat b" by (simp add: ch)
    have "a + 192 < 256" "b + 128 < 256" using r by (auto simp: a_def b_def)
    then have "(ucast (byte (a + 192)) * 64 + ucast (byte (b + 128)) - 12416 :: u32) = ch"
      unfolding v by (simp add: ucast_byte_u32 algebra_simps)
    then show ?thesis
      using r unfolding a_def b_def
      by (simp only: swish_utf8_codepoint_def cstr_enc [OF assms(2,3)] bnd_Inr chr_len clen)
        (simp add: u8_wc_toutf8_byte rd_def flip: n_def)
  next
    assume r: "0x800 \<le> n \<and> n < 0x10000"
    define a b c where "a = n div 4096" and "b = n div 64 mod 64" and "c = n mod 64"
    have "n = a * 4096 + b * 64 + c" unfolding a_def b_def c_def by (rule split_64_3)
    then have v: "ch = of_nat a * 4096 + of_nat b * 64 + of_nat c" by (simp add: ch)
    have "a + 224 < 256" "b + 128 < 256" "c + 128 < 256"
      using r by (auto simp: a_def b_def c_def)
    then have "((ucast (byte (a + 224)) - 224) * 4096 + (ucast (byte (b + 128)) - 128) * 64 +
        ucast (byte (c + 128)) - 128 :: u32) = ch"
      unfolding v by (simp add: ucast_byte_u32 algebra_simps)
    then show ?thesis
      using r unfolding a_def b_def c_def
      by (simp only: swish_utf8_codepoint_def cstr_enc [OF assms(2,3)] bnd_Inr chr_len clen)
        (simp add: u8_wc_toutf8_byte rd_def flip: n_def)
  next
    assume r: "0x10000 \<le> n"
    define a b c d where "a = n div 262144" and "b = n div 4096 mod 64" and "c = n div 64 mod 64"
      and "d = n mod 64"
    have "n = a * 262144 + b * 4096 + c * 64 + d"
      unfolding a_def b_def c_def d_def by (rule split_64_4)
    then have v: "ch = of_nat a * 262144 + of_nat b * 4096 + of_nat c * 64 + of_nat d"
      by (simp add: ch)
    have "a + 240 < 256" "b + 128 < 256" "c + 128 < 256" "d + 128 < 256"
      using n by (auto simp: a_def b_def c_def d_def)
    then have "((ucast (byte (a + 240)) - 240) * 262144 + (ucast (byte (b + 128)) - 128) * 4096 +
        (ucast (byte (c + 128)) - 128) * 64 + ucast (byte (d + 128)) - 128 :: u32) = ch"
      unfolding v by (simp add: ucast_byte_u32 algebra_simps)
    then show ?thesis
      using r n unfolding a_def b_def c_def d_def
      by (simp only: swish_utf8_codepoint_def cstr_enc [OF assms(2,3)] bnd_Inr chr_len clen)
        (simp add: u8_wc_toutf8_byte rd_def flip: n_def)
  qed
qed

lemma codepoint_of_encoding_witness:
  "swish_utf8_codepoint ref_str (u8_wc_toutf8 0x20AC @ 0 # []) = Inr 0x20AC"
  using codepoint_of_encoding [of ref_str "0x20AC" "[]"] by simp

text \<open>
  \<open>swish_bytes_in_wchar\<close> is meant to give the number of bytes of the encoding of a
  character. The four tests have no \<open>else\<close>, so that the last one that holds decides: for
  every code point the result is 4, which is the encoded length only above \<open>U+FFFF\<close>.
\<close>

lemma bytes_in_wchar_always_4:
  assumes "ch < 0x110000"
  shows "swish_bytes_in_wchar (uint ch) = 4 \<and>
    (swish_bytes_in_wchar (uint ch) = int (u8_charlen ch) \<longleftrightarrow> 0x10000 \<le> ch)"
proof -
  have "uint ch < 0x110000" using assms by (simp add: word_less_def)
  then show ?thesis
    using assms by (auto simp: swish_bytes_in_wchar_def u8_charlen_def word_less_nat_alt word_le_nat_alt)
qed

lemma bytes_in_wchar_always_4_witness:
  "swish_bytes_in_wchar 0x41 = 4 \<and> u8_charlen 0x41 = 1"
  using bytes_in_wchar_always_4 [of "0x41"] by (simp add: u8_charlen_def)

section \<open>Escaping\<close>

lemma hex_digit_nonzero: "hex_digit d \<Longrightarrow> d \<noteq> 0"
  by (auto simp: hex_digit_def)

lemma nul_free_hex: "\<forall>d \<in> set ds. hex_digit d \<Longrightarrow> nul_free ds"
  using hex_digit_nonzero by (auto simp: nul_free_def)

lemma nul_free_escape_wchar: "nul_free (u8_escape_wchar ch)"
proof (cases ch rule: escape_cases)
  case named
  then show ?thesis by (auto simp: u8_escape_wchar_def)
next
  case control
  then show ?thesis using nul_free_hex hexU_digits by (auto simp: u8_escape_wchar_control)
next
  case plain
  then have lt: "ch < 0x80" by (simp add: word_less_nat_alt)
  have "(ucast ch :: u8) \<noteq> 0"
    using plain unat_ucast_ascii [OF lt] by (auto simp: word_le_nat_alt word_unat_eq_iff)
  with plain show ?thesis by (simp add: u8_escape_wchar_plain)
next
  case u
  then show ?thesis using nul_free_hex [OF hexU_prec_facts(1)] by (simp add: u8_escape_wchar_u)
next
  case U
  then show ?thesis using nul_free_hex [OF hexU_prec_facts(1)] by (simp add: u8_escape_wchar_U)
qed

lemma nul_free_escs: "nul_free (escs chs)"
  by (induction chs) (simp_all add: nul_free_escape_wchar)

lemma cstr_encs: "scalars chs \<Longrightarrow> cstr (encs chs @ 0 # r) 0 = Inr (encs chs)"
  using cstr_at [of "encs chs" "[]" r] by (simp add: nul_free_encs)

text \<open>
  The escaping functions of the library allocate enough: ten bytes a character and one
  for \<open>swish_str_escape_utf8\<close>, the length of the escaped text and one for
  \<open>swish_str_unescape_utf8\<close>. Nothing is cut off, and the second undoes the first on all text
  in which no one-digit control escape stands before a hexadecimal digit.
\<close>

lemma str_unescape_escape:
  assumes "xml_str_ok X" and "scalars chs" and "unambiguous chs"
  shows "swish_str_escape_utf8 X (encs chs @ 0 # r) = Inr (escs chs @ [0]) \<and>
    bnd (swish_str_escape_utf8 X (encs chs @ 0 # r)) (swish_str_unescape_utf8 X) = Inr (encs chs @ [0])"
proof -
  have n: "swish_utf8_num_chrs X (encs chs) = Inr (int (length chs))"
    using assms(1,2) by (simp add: swish_utf8_num_chrs_def lib_laws)
  have e: "u8_escape (10 * int (length chs) + 1) (encs chs @ 0 # r) False =
      Inr (escs chs @ [0], int (length (escs chs)))"
    using length_escs [OF assms(2)] by (intro u8_escape_encs assms(2)) linarith
  have u: "u8_unescape (int (length (escs chs)) + 1) (escs chs @ [0]) =
      Inr (encs chs @ [0], int (length (encs chs)))"
    using length_encs_escs [OF assms(2)] by (intro u8_unescape_escs assms(2,3)) linarith
  have c: "cstr (escs chs @ [0]) 0 = Inr (escs chs)"
    using cstr_cobj [OF nul_free_escs] by (simp add: cobj_def)
  have "xmlStrlen X (Some (escs chs)) = int (length (escs chs))"
    using assms(1) nul_free_escs by (simp add: lib_laws)
  with n e u c show ?thesis
    by (simp add: swish_str_escape_utf8_def swish_str_unescape_utf8_def cstr_encs assms(2))
qed

lemma str_unescape_escape_witness:
  "bnd (swish_str_escape_utf8 ref_str (encs [0x41, 10, 0xE9] @ 0 # [])) (swish_str_unescape_utf8 ref_str) =
    Inr (encs [0x41, 10, 0xE9] @ [0])"
  using conjunct2 [OF str_unescape_escape [of ref_str "[0x41, 10, 0xE9]" "[]"]]
  by (simp add: short_escape_def)

section \<open>Case\<close>

lemma unat_ucast_up [simp]: "unat (ucast (c :: u8) :: u32) = unat c"
  using unat_u8 [of c] by (simp add: unsigned_ucast_eq take_bit_nat_eq_self)

lemma ucast_ucast_up [simp]: "ucast (ucast (c :: u8) :: u32) = c"
  by (simp add: word_unat_eq_iff unsigned_ucast_eq take_bit_word_eq_self)

lemma ucast_up_less: "c < 0x80 \<Longrightarrow> (ucast (c :: u8) :: u32) < 0x80"
  by (simp add: word_less_nat_alt)

lemma encs_ascii: "\<forall>c \<in> set s. c < 0x80 \<Longrightarrow> encs (map ucast s) = s"
proof (induction s)
  case (Cons c s)
  then have "(ucast c :: u32) < 0x80" by (simp add: ucast_up_less)
  with Cons show ?case by (simp add: u8_wc_toutf8_def)
qed simp

lemma encodable_ascii:
  "\<forall>c \<in> set s. c < 0x80 \<Longrightarrow> nul_free s \<Longrightarrow> encodable (map ucast (s :: bytes))"
proof (induction s)
  case (Cons c s)
  have "(ucast c :: u32) \<noteq> 0" using Cons.prems by (simp add: word_unat_eq_iff)
  with Cons ucast_up_less [of c] show ?case
    by (auto simp: encodable_chr_def word_less_nat_alt word_le_nat_alt)
qed simp

text \<open>
  C37: the fast path of case folding is sound. On ASCII text, in a UTF-8 locale, converting to
  wide characters, folding and converting back gives what folding the bytes gives, so that
  \<open>swish_str_tolower\<close>, which chooses between the two by \<open>swish_is_ascii\<close>, agrees with either.
\<close>

theorem tolower_paths_agree:
  assumes "xml_str_ok X" and "utf8_locale W" and "nul_free s" and "\<forall>c \<in> set s. c < 0x80"
  shows "swish_utf8_str_tolower W s = Inr (swish_ascii_str_tolower s) \<and>
    swish_str_tolower X W s = Inr (swish_ascii_str_tolower s)"
proof -
  let ?t = "map tolower s"
  have w: "mbstowcs W s = Some (map ucast s)"
    using utf8_locale_laws(6) [OF assms(2) encodable_ascii [OF assms(4,3)]] encs_ascii [OF assms(4)] by simp
  have "towlower W (ucast c) = ucast (tolower c)" if "c < 0x80" for c :: u8
    using ucast_up_less [OF that] assms(2)
    by (simp add: lib_laws)
  then have "swish_wstr_tolower W (map ucast s) = map ucast ?t"
    using assms(4) by (simp add: swish_wstr_tolower_def)
  moreover have t: "\<forall>c \<in> set ?t. c < 0x80" "nul_free ?t"
    using assms(3,4) by (auto simp: nul_free_def tolower_ascii)
  ultimately have "swish_utf8_str_tolower W s = Inr ?t"
    using w utf8_locale_laws(7) [OF assms(2) encodable_ascii [OF t]] encs_ascii [OF t(1)]
    by (simp add: swish_utf8_str_tolower_def swish_locale_to_wchar_def
        swish_wchar_to_locale_def)
  then show ?thesis by (simp add: swish_str_tolower_def swish_ascii_str_tolower_def)
qed

lemma tolower_paths_agree_witness:
  "swish_utf8_str_tolower ref_wide [0x41, 0x62, 0x5A] = Inr (swish_ascii_str_tolower [0x41, 0x62, 0x5A])"
  using tolower_paths_agree [of ref_str ref_wide "[0x41, 0x62, 0x5A]"] by simp

section \<open>White space\<close>

definition rstrip :: "bytes \<Rightarrow> bytes" where
  "rstrip s = rev (dropWhile isspace (rev s))"

definition strip :: "bytes \<Rightarrow> bytes" where
  "strip s = rstrip (dropWhile isspace s)"

lemma rstrip_snoc: "rstrip (s @ [c]) = (if isspace c then rstrip s else s @ [c])"
  by (simp add: rstrip_def)

lemma rstrip_length: "length (rstrip s) \<le> length s"
  using length_dropWhile_le [of isspace "rev s"] by (simp add: rstrip_def)

lemma nul_free_rstrip: "nul_free s \<Longrightarrow> nul_free (rstrip s)"
  by (auto simp: rstrip_def nul_free_def dest: set_dropWhileD)

lemma nul_free_dropWhile: "nul_free s \<Longrightarrow> nul_free (dropWhile P s)"
  by (auto simp: nul_free_def dest: set_dropWhileD)

lemma skip_ws_eq:
  "nul_free s \<Longrightarrow> swish_str_skip_ws (pre @ s @ 0 # r) (int (length pre)) =
     Inr (int (length pre) + int (length (takeWhile isspace s)))"
proof (induction s arbitrary: pre)
  case Nil
  then show ?case by (subst swish_str_skip_ws.simps) simp
next
  case (Cons c s)
  then show ?case
    using Cons.IH [of "pre @ [c]"] by (subst swish_str_skip_ws.simps) (simp add: ac_simps)
qed

lemma trim_ws_loop_eq:
  "trim_ws_loop (pre @ s @ r) (int (length pre)) (int (length s)) =
     Inr (pre @ rstrip s @ replicate (length s - length (rstrip s)) 0 @ r)"
proof (induction s arbitrary: r rule: rev_induct)
  case Nil
  then show ?case by (subst trim_ws_loop.simps) (simp add: rstrip_def)
next
  case (snoc c s)
  have rd: "rd (pre @ (s @ [c]) @ r) (int (length pre) + int (length (s @ [c])) - 1) = Inr c"
    using rd_append_at [of _ "pre @ s" c r] by simp
  have wr: "wr (pre @ (s @ [c]) @ r) (int (length pre) + int (length (s @ [c])) - 1) 0 =
      Inr (pre @ s @ 0 # r)"
    using wr_append_at [of _ "pre @ s" c r 0] by simp
  show ?case
  proof (cases "isspace c")
    case True
    have "replicate (length s - length (rstrip s)) 0 @ (0 :: u8) # r =
        replicate (length (s @ [c]) - length (rstrip s)) 0 @ r"
      using rstrip_length [of s] by (simp add: Suc_diff_le replicate_app_Cons_same)
    with True rd wr snoc.IH [of "0 # r"] show ?thesis
      by (subst trim_ws_loop.simps) (simp add: rstrip_snoc)
  next
    case False
    with rd show ?thesis by (subst trim_ws_loop.simps) (simp add: rstrip_snoc)
  qed
qed

lemma swish_str_trim_ws_eq:
  assumes "xml_str_ok X" and "nul_free s"
  shows "swish_str_trim_ws X (pre @ s @ 0 # r) (int (length pre)) =
    Inr (pre @ rstrip s @ replicate (length s - length (rstrip s)) 0 @ 0 # r)"
  using assms trim_ws_loop_eq [of pre s "0 # r"]
  by (simp add: swish_str_trim_ws_def cstr_at lib_laws)

lemma cstr_rstrip:
  "nul_free s \<Longrightarrow> cstr (pre @ rstrip s @ replicate n 0 @ 0 # r) (int (length pre)) = Inr (rstrip s)"
  using cstr_at [OF nul_free_rstrip, of s pre "replicate n 0 @ r"]
  by (simp flip: replicate_app_Cons_same)

lemma skip_and_trim:
  assumes "xml_str_ok X" and "nul_free s"
  shows "\<exists>p m. swish_str_skip_ws (s @ 0 # r) 0 = Inr (int p) \<and>
    swish_str_trim_ws X (s @ 0 # r) (int p) = Inr m \<and> cstr m (int p) = Inr (strip s) \<and>
    take p m = takeWhile isspace s \<and> drop (length s) m = 0 # r"
proof -
  let ?w = "takeWhile isspace s" and ?t = "dropWhile isspace s"
  let ?m = "?w @ rstrip ?t @ replicate (length ?t - length (rstrip ?t)) 0 @ 0 # r"
  have t: "nul_free ?t" using assms(2) by (rule nul_free_dropWhile)
  have split: "s @ 0 # r = ?w @ ?t @ 0 # r" by (simp flip: append_assoc)
  have "swish_str_skip_ws (s @ 0 # r) 0 = Inr (int (length ?w))"
    using skip_ws_eq [OF assms(2), of "[]" r] by simp
  moreover have "swish_str_trim_ws X (s @ 0 # r) (int (length ?w)) = Inr ?m"
    using swish_str_trim_ws_eq [OF assms(1) t, of ?w r] by (simp add: split)
  moreover have "cstr ?m (int (length ?w)) = Inr (strip s)"
    using cstr_rstrip [OF t, of ?w _ r] by (simp add: strip_def)
  moreover have "drop (length s) ?m = 0 # r"
  proof -
    have "length s = length ?w + length ?t" by (metis length_append takeWhile_dropWhile_id)
    then show ?thesis using rstrip_length [of ?t] by simp
  qed
  ultimately show ?thesis by (intro exI [of _ "length ?w"] exI [of _ ?m]) simp
qed

text \<open>
  C35: trimming. Skipping white space and then trimming in place, as the named buffers do,
  leaves at the position returned exactly the string without its leading and trailing white
  space, and changes nothing before that position nor after the old terminator.
\<close>

theorem skip_and_trim_strip:
  assumes "xml_str_ok X" and "nul_free s"
  shows "\<exists>p m. swish_str_skip_ws (s @ 0 # r) 0 = Inr (int p) \<and>
    swish_str_trim_ws X (s @ 0 # r) (int p) = Inr m \<and> cstr m (int p) = Inr (strip s) \<and>
    take p m = takeWhile isspace s \<and> drop (length s) m = 0 # r"
  using assms by (rule skip_and_trim)

lemma skip_and_trim_strip_witness:
  "\<exists>p m. swish_str_skip_ws ([32, 0x61, 32, 0x62, 9] @ 0 # []) 0 = Inr (int p) \<and>
    swish_str_trim_ws ref_str ([32, 0x61, 32, 0x62, 9] @ 0 # []) (int p) = Inr m \<and>
    cstr m (int p) = Inr (strip [32, 0x61, 32, 0x62, 9])"
  using skip_and_trim_strip [of ref_str "[32, 0x61, 32, 0x62, 9]" "[]"] by auto

lemma all_ws_loop_eq:
  "i \<le> length s \<Longrightarrow> all_ws_loop (s @ r) (int (length s)) (int i) = Inr (list_all isspace (drop i s))"
proof (induction "length s - i" arbitrary: i)
  case 0
  then show ?case by (subst all_ws_loop.simps) simp
next
  case (Suc n)
  then have i: "i < length s" and n: "n = length s - Suc i" by simp_all
  have "rd (s @ r) (int i) = Inr (s ! i)" using i by (simp add: rd_def nth_append)
  moreover have "all_ws_loop (s @ r) (int (length s)) (int i + 1) = Inr (list_all isspace (drop (Suc i) s))"
    using Suc.hyps(1) [OF n] i by (simp add: ac_simps)
  ultimately show ?case using i by (subst all_ws_loop.simps) (simp add: nth_tl_Cons [OF i])
qed

lemma swish_str_all_ws_eq:
  "xml_str_ok X \<Longrightarrow> nul_free s \<Longrightarrow> swish_str_all_ws X (s @ 0 # r) = Inr (list_all isspace s)"
  using all_ws_loop_eq [of 0 s "0 # r"] cstr_at [of s "[]" r]
  by (simp add: swish_str_all_ws_def swish_str_all_ws_len_def lib_laws)

section \<open>Locale\<close>

lemma utf8_names: "u8_is_locale_utf8 SWISH_LOCALE"
  by (simp add: SWISH_LOCALE_def locale_stop_def)

text \<open>
  \<open>swish_verify_utf8_locale\<close> leaves the process with a UTF-8 locale: either the locale it
  found is a UTF-8 one by its name, or \<open>LC_CTYPE\<close> is now \<open>en_US.UTF-8\<close>, which is; numbers are
  formatted as in C, and \<open>SWISH_ENCODING\<close> is set, to what it was if it had a value.
\<close>

lemma verify_locale_is_utf8:
  fixes X p
  assumes "accepts p SWISH_LOCALE"
  defines "q \<equiv> swish_verify_utf8_locale X p"
  shows "(u8_is_locale_utf8 (snd (swish_get_locale p)) \<and> lc_ctype q = lc_ctype p \<or>
      lc_ctype q = Some SWISH_LOCALE \<and> u8_is_locale_utf8 SWISH_LOCALE) \<and>
    lc_numeric q = lit ''C'' \<and> env q (lit ''SWISH_ENCODING'') \<noteq> None \<and>
    (\<forall>v. env p (lit ''SWISH_ENCODING'') = Some v \<longrightarrow> env q (lit ''SWISH_ENCODING'') = Some v)"
  using assms(1) utf8_names
  by (auto simp: q_def swish_verify_utf8_locale_def swish_get_locale_def swish_setenv_def Let_def
      simp del: lit_Cons split: option.splits)

lemma verify_locale_is_utf8_witness:
  "lc_ctype (swish_verify_utf8_locale ref_str
    \<lparr>lc_all = Some (lit ''C''), lc_ctype = None, lc_numeric = [], env = (\<lambda>_. None), accepts = (\<lambda>_. True)\<rparr>) =
    Some SWISH_LOCALE"
  using verify_locale_is_utf8 [of "\<lparr>lc_all = Some (lit ''C''), lc_ctype = None, lc_numeric = [],
      env = (\<lambda>_. None), accepts = (\<lambda>_. True)\<rparr>" ref_str]
  by (simp add: swish_get_locale_def no_name_def locale_stop_def)

end
