(* ===== verification/StringLists.thy ===== *)
theory StringLists
  imports Strings_Correct
begin

text \<open>
  The string lists of \<open>src/libswish3/string.c\<close>: a growing array of words with its count and
  its capacity as the code believes it, and the reader of a configuration line into one.
  The array is an object, so that a write past what was really allocated is a fault.
\<close>

section \<open>The list\<close>

datatype slot = Uninit | Null | Word bytes

record swish_StringList =
  sl_n :: nat
  sl_max :: nat
  sl_word :: "slot list"

definition SWISH_MAX_WORD_LEN :: nat where "SWISH_MAX_WORD_LEN = 256"

text \<open>\<open>realloc\<close> of an array of pointers to \<open>k\<close> slots.\<close>

abbreviation realloc_slots :: "nat \<Rightarrow> slot list \<Rightarrow> slot list" where
  "realloc_slots \<equiv> realloc_fill Uninit"

definition swish_stringlist_init :: swish_StringList where
  "swish_stringlist_init = \<lparr>sl_n = 0, sl_max = 2, sl_word = replicate 2 Uninit\<rparr>"

definition swish_stringlist_add_string ::
  "swish_StringList \<Rightarrow> bytes \<Rightarrow> (swish_StringList \<times> nat) res" where
  "swish_stringlist_add_string sl str =
     (let sl = (if sl_n sl = sl_max sl
                then sl\<lparr>sl_max := sl_max sl * 2, sl_word := realloc_slots (sl_max sl * 2) (sl_word sl)\<rparr>
                else sl) in
      bnd (wr (sl_word sl) (int (sl_n sl)) (Word str)) (\<lambda>w.
        Inr (sl\<lparr>sl_word := w, sl_n := sl_n sl + 1\<rparr>, sl_n sl + 1)))"

definition slot_word :: "slot \<Rightarrow> bytes res" where
  "slot_word s = (case s of Word w \<Rightarrow> Inr w | Null \<Rightarrow> Inl NullPointer | Uninit \<Rightarrow> Inl OutOfBounds)"

text \<open>The words released, last first.\<close>

fun stringlist_free_loop :: "slot list \<Rightarrow> nat \<Rightarrow> bytes list res" where
  "stringlist_free_loop w 0 = Inr []"
| "stringlist_free_loop w (Suc n) =
     bnd (bnd (rd w (int n)) slot_word) (\<lambda>s. bnd (stringlist_free_loop w n) (\<lambda>ss. Inr (s # ss)))"

definition swish_stringlist_free :: "swish_StringList \<Rightarrow> bytes list res" where
  "swish_stringlist_free sl = stringlist_free_loop (sl_word sl) (sl_n sl)"

text \<open>
  \<open>k * sizeof (xmlChar *) + 1\<close> bytes hold \<open>k\<close> pointers: the extra one was meant to be a slot.
  The capacity recorded in \<open>max\<close> is left as it was.
\<close>

function merge_loop :: "swish_StringList \<Rightarrow> nat \<Rightarrow> swish_StringList \<Rightarrow> swish_StringList res" where
  "merge_loop sl1 i sl2 =
     (if i < sl_n sl1 then
        bnd (bnd (rd (sl_word sl1) (int i)) slot_word) (\<lambda>s.
        bnd (wr (sl_word sl2) (int (sl_n sl2)) (Word s)) (\<lambda>w.
          merge_loop sl1 (i + 1) (sl2\<lparr>sl_word := w, sl_n := sl_n sl2 + 1\<rparr>)))
      else Inr sl2)"
  by pat_completeness auto
termination
  by (relation "measure (\<lambda>(sl1, i, sl2). sl_n sl1 - i)") auto

declare merge_loop.simps [simp del]

definition swish_stringlist_merge ::
  "swish_StringList \<Rightarrow> swish_StringList \<Rightarrow> swish_StringList res" where
  "swish_stringlist_merge sl1 sl2 =
     (let sl2 = sl2\<lparr>sl_word := realloc_slots (sl_n sl1 + sl_n sl2) (sl_word sl2)\<rparr> in
      bnd (merge_loop sl1 0 sl2) (\<lambda>sl2. bnd (swish_stringlist_free sl1) (\<lambda>_. Inr sl2)))"

fun copy_loop :: "swish_StringList \<Rightarrow> nat list \<Rightarrow> slot list \<Rightarrow> slot list res" where
  "copy_loop sl [] w = Inr w"
| "copy_loop sl (i # is) w =
     bnd (bnd (rd (sl_word sl) (int i)) slot_word) (\<lambda>s.
     bnd (wr w (int i) (Word s)) (copy_loop sl is))"

definition swish_stringlist_copy :: "swish_StringList \<Rightarrow> swish_StringList res" where
  "swish_stringlist_copy sl =
     (let s2 = swish_stringlist_init in
      bnd (copy_loop sl [0..<sl_n sl] (realloc_slots (sl_n sl) (sl_word s2))) (\<lambda>w.
        Inr (s2\<lparr>sl_word := w, sl_n := sl_n sl\<rparr>)))"

section \<open>Reading words\<close>

text \<open>
  \<open>*cur_char++ = c\<close> on the local array of \<open>SWISH_MAX_WORD_LEN + 1\<close> bytes; \<open>buf\<close> is what
  stands before \<open>cur_char\<close>. The code warns when the word is too long and goes on.
\<close>

definition put_char :: "bytes \<Rightarrow> u8 \<Rightarrow> bytes res" where
  "put_char buf c =
     (if length buf < SWISH_MAX_WORD_LEN + 1 then Inr (buf @ [c]) else Inl OutOfBounds)"

text \<open>The loop that finds the end of the word: what was read, the position, the flag.\<close>

function getword_loop :: "mem \<Rightarrow> int \<Rightarrow> u8 \<Rightarrow> bool \<Rightarrow> bytes \<Rightarrow> (bytes \<times> int \<times> bool) res" where
  "getword_loop m s quotechar backslash buf =
     bnd (rd m s) (\<lambda>uc.
       if uc = 0 then Inr (buf, s, backslash)
       else if uc = 0x5C \<and> \<not> backslash \<and> quotechar \<noteq> 0 then
         getword_loop m (s + 1) quotechar True buf
       else if uc = 0x0A \<or> uc = 0x0D then Inr (buf, s + 1, backslash)
       else if \<not> backslash \<and> (uc = quotechar \<or> quotechar = 0 \<and> isspace uc) then
         Inr (buf, s + 1, backslash)
       else bnd (put_char buf uc) (getword_loop m (s + 1) quotechar False))"
  by pat_completeness auto
termination
  by (relation "measure (\<lambda>(m, s, q, b, buf). nat (int (length m) - s))") (auto simp: rd_Inr_iff)

declare getword_loop.simps [simp del]

definition getword :: "mem \<Rightarrow> int \<Rightarrow> (bytes \<times> int) res" where
  "getword m in_buf =
     bnd (swish_str_skip_ws m in_buf) (\<lambda>s.
     bnd (rd m s) (\<lambda>c.
       if c = 0 then Inr ([], s)
       else
         (let quoted = (c = 0x22 \<or> c = 0x27) in
          bnd (getword_loop m (if quoted then s + 1 else s) (if quoted then c else 0) False [])
            (\<lambda>(buf, s', backslash).
              bnd (if backslash then put_char buf 0x5C else Inr buf) (\<lambda>buf.
              bnd (put_char buf 0) (\<lambda>_. Inr (buf, s')))))))"

lemma skip_ws_mono: "swish_str_skip_ws m s = Inr s' \<Longrightarrow> s \<le> s'"
proof (induction m s rule: swish_str_skip_ws.induct)
  case (1 m s)
  then show ?case
    by (subst (asm) swish_str_skip_ws.simps [of m s])
      (fastforce simp: bnd_eq_Inr split: if_splits)
qed

lemma getword_loop_mono:
  "getword_loop m s q b buf = Inr (w, s', b') \<Longrightarrow> s \<le> s' \<and> (s < s' \<or> w = buf \<and> b' = b)"
proof (induction m s q b buf rule: getword_loop.induct)
  case (1 m s q b buf)
  show ?case
  proof (cases "rd m s")
    case (Inr c)
    consider (stop) "c = 0 \<or> c = 0x0A \<or> c = 0x0D" | (esc) "c = 0x5C" "\<not> b" "q \<noteq> 0"
      | (final) "\<not> b" "c = q \<or> q = 0 \<and> isspace c" "\<not> (c = 0x5C \<and> \<not> b \<and> q \<noteq> 0)"
        "\<not> (c = 0 \<or> c = 0x0A \<or> c = 0x0D)"
      | (put) "\<not> (c = 0 \<or> c = 0x0A \<or> c = 0x0D)" "\<not> (c = 0x5C \<and> \<not> b \<and> q \<noteq> 0)"
        "\<not> (\<not> b \<and> (c = q \<or> q = 0 \<and> isspace c))"
      by blast
    then show ?thesis
    proof cases
      case put
      with Inr "1.prems" obtain buf' where
        "put_char buf c = Inr buf'" "getword_loop m (s + 1) q False buf' = Inr (w, s', b')"
        by (subst (asm) (2) getword_loop.simps) (auto simp: bnd_eq_Inr)
      with "1.IH"(2) [OF Inr] put show ?thesis by force
    qed (use "1.IH"(1) [OF Inr] "1.prems" Inr in
        \<open>subst (asm) (2) getword_loop.simps; force split: if_splits\<close>)+
  qed (use "1.prems" in \<open>subst (asm) getword_loop.simps; simp\<close>)
qed

lemma getword_advances: "getword m s = Inr (w, s') \<Longrightarrow> w \<noteq> [] \<Longrightarrow> s < s'"
  by (auto simp: getword_def bnd_eq_Inr Let_def put_char_def split: if_splits
      dest!: skip_ws_mono getword_loop_mono)

section \<open>Reading a line\<close>

text \<open>
  The loop ends at a word that is empty, be it the end of the line or an empty quoted word.
\<close>

function build_loop :: "mem \<Rightarrow> int \<Rightarrow> swish_StringList \<Rightarrow> swish_StringList res" where
  "build_loop m line sl =
     bnd (getword m line) (\<lambda>(p, line').
       if p = [] then Inr sl
       else bnd (swish_stringlist_add_string sl p) (\<lambda>(sl', _). build_loop m line' sl'))"
  by pat_completeness auto
termination
proof (relation "measure (\<lambda>(m, line, sl). nat (int (length m) - line))")
  fix m line sl x p line' y sl' z
  assume "getword m line = Inr x" "(p, line') = x" "\<not> p = []"
  then have g: "getword m line = Inr (p, line')" "p \<noteq> []" by auto
  then have "line < int (length m)"
    by (auto simp: getword_def bnd_eq_Inr rd_Inr_iff dest!: skip_ws_mono)
  with getword_advances [OF g] show "((m, line', sl'), (m, line, sl)) \<in> measure (\<lambda>(m, line, sl). nat (int (length m) - line))"
    by simp
qed simp

declare build_loop.simps [simp del]

text \<open>The newline is overwritten in the caller's string, which is returned too.\<close>

definition cut_line :: "mem \<Rightarrow> bytes \<Rightarrow> mem res" where
  "cut_line m s =
     (if 0x0A \<in> set s then wr m (int (length (takeWhile (\<lambda>c. c \<noteq> 0x0A) s))) 0 else Inr m)"

definition terminate :: "swish_StringList \<Rightarrow> swish_StringList res" where
  "terminate sl =
     (let sl = (if sl_n sl = sl_max sl
                then sl\<lparr>sl_max := sl_max sl + 1, sl_word := realloc_slots (sl_max sl + 1) (sl_word sl)\<rparr>
                else sl) in
      bnd (wr (sl_word sl) (int (sl_n sl)) Null) (\<lambda>w. Inr (sl\<lparr>sl_word := w\<rparr>)))"

definition swish_stringlist_build :: "mem option \<Rightarrow> (swish_StringList \<times> mem) option res" where
  "swish_stringlist_build line =
     (case line of
        None \<Rightarrow> Inr None
      | Some m \<Rightarrow>
          bnd (cstr m 0) (\<lambda>s.
          bnd (cut_line m s) (\<lambda>m.
          bnd (build_loop m 0 swish_stringlist_init) (\<lambda>sl.
          bnd (terminate sl) (\<lambda>sl. Inr (Some (sl, m)))))))"

end
