(* ===== verification/StringLists_Correct.thy ===== *)
theory StringLists_Correct
  imports StringLists
begin

text \<open>
  Growing arrays as an interface, the string list as an instance of it, and what the reader
  of configuration lines guarantees. The two routines that rebuild a list, copying and
  merging, break the interface: the array they leave has no room for the next element.
\<close>

section \<open>Growing arrays\<close>

text \<open>
  What the callers of \<open>swish_stringlist_add_string\<close> and of the token list rely on: from an
  empty array every addition succeeds and puts the element after those already there.
  \<open>lib\<close> is the condition under which the library keeps its promises, \<open>ok\<close> says which
  elements the caller may add.
\<close>

locale growing_array =
  fixes lib :: bool
    and init :: "'l res"
    and add :: "'a \<Rightarrow> 'l \<Rightarrow> 'l res"
    and ok :: "'a \<Rightarrow> bool"
    and rep :: "'l \<Rightarrow> 'a list \<Rightarrow> bool"
  assumes init_rep: "lib \<Longrightarrow> \<exists>l. init = Inr l \<and> rep l []"
    and add_rep: "lib \<Longrightarrow> rep l xs \<Longrightarrow> ok x \<Longrightarrow> \<exists>l'. add x l = Inr l' \<and> rep l' (xs @ [x])"
begin

lemma add_all: "lib \<Longrightarrow> rep l xs \<Longrightarrow> list_all ok ys \<Longrightarrow> \<exists>l'. fold_res add ys l = Inr l' \<and> rep l' (xs @ ys)"
proof (induction ys arbitrary: l xs)
  case (Cons y ys)
  then obtain l' where "add y l = Inr l'" "rep l' (xs @ [y])" using add_rep by fastforce
  with Cons.IH [of l' "xs @ [y]"] Cons.prems show ?case by simp
qed simp

lemma build: "lib \<Longrightarrow> list_all ok ys \<Longrightarrow> \<exists>l. bnd init (fold_res add ys) = Inr l \<and> rep l ys"
  using init_rep add_all [of _ "[]" ys] by fastforce

end

definition sl_rep :: "swish_StringList \<Rightarrow> bytes list \<Rightarrow> bool" where
  "sl_rep sl ws \<longleftrightarrow> sl_n sl = length ws \<and> length (sl_word sl) = sl_max sl \<and> 0 < sl_max sl \<and>
     length ws \<le> sl_max sl \<and> take (length ws) (sl_word sl) = map Word ws"

definition sl_add :: "bytes \<Rightarrow> swish_StringList \<Rightarrow> swish_StringList res" where
  "sl_add s sl = bnd (swish_stringlist_add_string sl s) (\<lambda>(sl', n). Inr sl')"

lemma add_string_rep:
  assumes "sl_rep sl ws"
  shows "\<exists>sl'. swish_stringlist_add_string sl s = Inr (sl', length ws + 1) \<and> sl_rep sl' (ws @ [s])"
proof -
  define sl1 where "sl1 = (if sl_n sl = sl_max sl
    then sl\<lparr>sl_max := sl_max sl * 2, sl_word := realloc_slots (sl_max sl * 2) (sl_word sl)\<rparr> else sl)"
  have 1: "sl_n sl1 = length ws" "length (sl_word sl1) = sl_max sl1" "length ws < sl_max sl1"
    "take (length ws) (sl_word sl1) = map Word ws"
    using assms by (auto simp: sl1_def sl_rep_def take_realloc)
  with wr_next [OF 1(4), of "Word s"] obtain w where
    "wr (sl_word sl1) (int (length ws)) (Word s) = Inr w" "take (Suc (length ws)) w = map Word ws @ [Word s]"
    "length w = length (sl_word sl1)" by auto
  with 1 show ?thesis
    by (auto simp: swish_stringlist_add_string_def sl_rep_def Let_def simp flip: sl1_def)
qed

interpretation string_list: growing_array True "Inr swish_stringlist_init" sl_add "\<lambda>_. True" sl_rep
proof
  show "\<exists>l. Inr swish_stringlist_init = (Inr l :: swish_StringList res) \<and> sl_rep l []"
    by (simp add: sl_rep_def swish_stringlist_init_def)
  show "\<exists>l'. sl_add x l = Inr l' \<and> sl_rep l' (xs @ [x])" if "sl_rep l xs" for l xs x
    using add_string_rep [OF that, of x] by (auto simp: sl_add_def)
qed

lemma sl_rep_init: "sl_rep swish_stringlist_init []"
  using string_list.init_rep by simp

lemma rd_word: "sl_rep sl ws \<Longrightarrow> i < length ws \<Longrightarrow> rd (sl_word sl) (int i) = Inr (Word (ws ! i))"
  using nth_take [of i "length ws" "sl_word sl"] by (auto simp: sl_rep_def rd_def)

lemma slot_word_Word [simp]: "slot_word (Word s) = Inr s"
  by (simp add: slot_word_def)

lemma free_loop_rep: "sl_rep sl ws \<Longrightarrow> n \<le> length ws \<Longrightarrow>
    stringlist_free_loop (sl_word sl) n = Inr (rev (take n ws))"
  by (induction n) (auto simp: rd_word take_Suc_conv_app_nth)

lemma free_rep: "sl_rep sl ws \<Longrightarrow> swish_stringlist_free sl = Inr (rev ws)"
  using free_loop_rep [of sl ws "length ws"] by (simp add: swish_stringlist_free_def sl_rep_def)

section \<open>Copying and merging\<close>

lemma copy_loop_rep:
  assumes "sl_rep sl ws" and "length w = length ws" and "i \<le> length ws" and "take i w = map Word (take i ws)"
  shows "copy_loop sl [i..<length ws] w = Inr (map Word ws)"
  using assms(2-4)
proof (induction "length ws - i" arbitrary: i w)
  case 0
  then show ?case by simp
next
  case (Suc k)
  then have i: "i < length ws" and k: "k = length ws - Suc i" by simp_all
  obtain w' where w': "wr w (int i) (Word (ws ! i)) = Inr w'"
    "take (Suc i) w' = map Word (take i ws) @ [Word (ws ! i)]" "length w' = length w"
    using wr_next [OF Suc.prems(3), of "Word (ws ! i)"] i Suc.prems(1) by auto
  then have "copy_loop sl [Suc i..<length ws] w' = Inr (map Word ws)"
    using Suc.prems(1) i by (intro Suc.hyps(1) [OF k]) (auto simp: take_Suc_conv_app_nth)
  with w' i show ?case by (simp add: upt_rec [of i] rd_word [OF assms(1)])
qed

text \<open>
  C33: a copy holds the words of the original and no room: the block is cut to the words (the
  byte added to its size is not a slot) while \<open>max\<close> still says 2, so that adding a word to the
  copy of a list of one or of more than two words writes past the block.
\<close>

theorem copy_then_add_overflows:
  assumes "sl_rep sl ws"
  shows "\<exists>s2. swish_stringlist_copy sl = Inr s2 \<and> sl_n s2 = length ws \<and> sl_word s2 = map Word ws \<and>
    (length ws \<noteq> 2 \<longrightarrow> swish_stringlist_add_string s2 s = Inl OutOfBounds) \<and>
    (length ws = 2 \<longrightarrow> sl_rep s2 ws)"
proof -
  have "copy_loop sl [0..<length ws] (realloc_slots (length ws) (sl_word swish_stringlist_init)) =
      Inr (map Word ws)"
    using assms by (intro copy_loop_rep) simp_all
  moreover have "sl_n sl = length ws" using assms by (simp add: sl_rep_def)
  ultimately show ?thesis
    by (simp add: swish_stringlist_copy_def swish_stringlist_add_string_def sl_rep_def
        swish_stringlist_init_def Let_def wr_def)
qed

lemma copy_then_add_overflows_witness:
  "\<exists>s2. swish_stringlist_copy \<lparr>sl_n = 1, sl_max = 2, sl_word = [Word [0x61], Null]\<rparr> = Inr s2 \<and>
    swish_stringlist_add_string s2 [0x62] = Inl OutOfBounds"
  using copy_then_add_overflows [of "\<lparr>sl_n = 1, sl_max = 2, sl_word = [Word [0x61], Null]\<rparr>" "[[0x61]]" "[0x62]"]
  by (auto simp: sl_rep_def)

lemma merge_loop_rep:
  assumes "sl_rep sl1 ws1" and "i \<le> length ws1" and "sl_n sl2 = length ws2 + i"
    and "length (sl_word sl2) = length ws1 + length ws2"
    and "take (length ws2 + i) (sl_word sl2) = map Word (ws2 @ take i ws1)"
  shows "\<exists>sl'. merge_loop sl1 i sl2 = Inr sl' \<and> sl_n sl' = length ws1 + length ws2 \<and>
    sl_max sl' = sl_max sl2 \<and> sl_word sl' = map Word (ws2 @ ws1)"
  using assms(2-5)
proof (induction "length ws1 - i" arbitrary: i sl2)
  case 0
  then show ?case using assms(1) by (subst merge_loop.simps) (simp add: sl_rep_def)
next
  case (Suc k)
  then have i: "i < length ws1" and k: "k = length ws1 - Suc i" by simp_all
  obtain w' where w': "wr (sl_word sl2) (int (length ws2 + i)) (Word (ws1 ! i)) = Inr w'"
    "take (Suc (length ws2 + i)) w' = map Word (ws2 @ take i ws1) @ [Word (ws1 ! i)]"
    "length w' = length (sl_word sl2)"
    using wr_next [OF Suc.prems(4), of "Word (ws1 ! i)"] i Suc.prems(3) by auto
  have "\<exists>sl'. merge_loop sl1 (Suc i) (sl2\<lparr>sl_word := w', sl_n := sl_n sl2 + 1\<rparr>) = Inr sl' \<and>
      sl_n sl' = length ws1 + length ws2 \<and> sl_max sl' = sl_max (sl2\<lparr>sl_word := w', sl_n := sl_n sl2 + 1\<rparr>) \<and>
      sl_word sl' = map Word (ws2 @ ws1)"
    using Suc.prems i w' by (intro Suc.hyps(1) [OF k]) (auto simp: take_Suc_conv_app_nth)
  moreover have "sl_n sl1 = length ws1" using assms(1) by (simp add: sl_rep_def)
  ultimately show ?case
    using w' i Suc.prems(2) by (subst merge_loop.simps) (simp add: rd_word [OF assms(1)])
qed

lemma merge_rep:
  assumes "sl_rep sl1 ws1" and "sl_rep sl2 ws2"
  shows "\<exists>sl'. swish_stringlist_merge sl1 sl2 = Inr sl' \<and> sl_n sl' = length ws1 + length ws2 \<and>
    sl_max sl' = sl_max sl2 \<and> sl_word sl' = map Word (ws2 @ ws1)"
proof -
  let ?sl = "sl2\<lparr>sl_word := realloc_slots (sl_n sl1 + sl_n sl2) (sl_word sl2)\<rparr>"
  have "take (length ws2) (realloc_slots (length ws1 + length ws2) (sl_word sl2)) = map Word ws2"
    using assms(2) by (simp add: take_realloc sl_rep_def)
  then obtain sl' where sl': "merge_loop sl1 0 ?sl = Inr sl'" "sl_n sl' = length ws1 + length ws2"
      "sl_max sl' = sl_max ?sl" "sl_word sl' = map Word (ws2 @ ws1)"
    using merge_loop_rep [OF assms(1), of 0 ?sl ws2] assms by (auto simp: sl_rep_def)
  then have "swish_stringlist_merge sl1 sl2 = Inr sl'"
    by (simp add: swish_stringlist_merge_def free_rep [OF assms(1)])
  with sl' show ?thesis by simp
qed

text \<open>
  C34: merging appends the words of the first list to the second and releases the first, but
  leaves the second without room while \<open>max\<close> keeps its old value: unless that value happens to
  be the new count, the next word added is written past the block.
\<close>

theorem merge_then_add_overflows:
  assumes "sl_rep sl1 ws1" and "sl_rep sl2 ws2"
  shows "\<exists>sl'. swish_stringlist_merge sl1 sl2 = Inr sl' \<and> sl_n sl' = length ws1 + length ws2 \<and>
    sl_word sl' = map Word (ws2 @ ws1) \<and>
    (length ws1 + length ws2 \<noteq> sl_max sl2 \<longrightarrow> swish_stringlist_add_string sl' s = Inl OutOfBounds)"
  using merge_rep [OF assms] by (auto simp: swish_stringlist_add_string_def wr_def)

lemma merge_then_add_overflows_witness:
  "\<exists>sl'. swish_stringlist_merge \<lparr>sl_n = 1, sl_max = 2, sl_word = [Word [0x61], Null]\<rparr>
      \<lparr>sl_n = 2, sl_max = 2, sl_word = [Word [0x62], Word [0x63]]\<rparr> = Inr sl' \<and>
    sl_word sl' = [Word [0x62], Word [0x63], Word [0x61]] \<and>
    swish_stringlist_add_string sl' [0x64] = Inl OutOfBounds"
  using merge_then_add_overflows [of "\<lparr>sl_n = 1, sl_max = 2, sl_word = [Word [0x61], Null]\<rparr>" "[[0x61]]"
      "\<lparr>sl_n = 2, sl_max = 2, sl_word = [Word [0x62], Word [0x63]]\<rparr>" "[[0x62], [0x63]]" "[0x64]"]
  by (auto simp: sl_rep_def)

section \<open>Reading words\<close>

text \<open>A word as it is written between double quotes, with a backslash before a quote or a backslash.\<close>

definition qchar :: "u8 \<Rightarrow> bytes" where
  "qchar c = (if c = 0x22 \<or> c = 0x5C then [0x5C, c] else [c])"

definition quote :: "bytes \<Rightarrow> bytes" where
  "quote w = 0x22 # concat (map qchar w) @ [0x22]"

definition word_ok :: "bytes \<Rightarrow> bool" where
  "word_ok w \<longleftrightarrow> w \<noteq> [] \<and> length w \<le> SWISH_MAX_WORD_LEN \<and> 0 \<notin> set w \<and> 0x0A \<notin> set w \<and> 0x0D \<notin> set w"

definition plain :: "bytes \<Rightarrow> bool" where
  "plain w \<longleftrightarrow> (\<forall>c \<in> set w. c \<noteq> 0 \<and> \<not> isspace c)"

lemma put_char_room: "length buf \<le> SWISH_MAX_WORD_LEN \<Longrightarrow> put_char buf c = Inr (buf @ [c])"
  by (simp add: put_char_def)

lemma getword_loop_quoted:
  assumes "0 \<notin> set w" and "0x0A \<notin> set w" and "0x0D \<notin> set w"
    and "length buf + length w \<le> SWISH_MAX_WORD_LEN"
  shows "getword_loop (pre @ concat (map qchar w) @ 0x22 # r) (int (length pre)) 0x22 False buf =
    Inr (buf @ w, int (length pre) + int (length (concat (map qchar w))) + 1, False)"
  using assms
proof (induction w arbitrary: pre buf)
  case Nil
  then show ?case by (subst getword_loop.simps) simp
next
  case (Cons c w)
  let ?t = "concat (map qchar w) @ 0x22 # r"
  have put: "put_char buf c = Inr (buf @ [c])" using Cons.prems by (intro put_char_room) simp
  have IH: "getword_loop ((pre @ qchar c) @ ?t) (int (length (pre @ qchar c))) 0x22 False (buf @ [c]) =
      Inr ((buf @ [c]) @ w, int (length (pre @ qchar c)) + int (length (concat (map qchar w))) + 1, False)"
    using Cons.prems by (intro Cons.IH) auto
  show ?case
  proof (cases "c = 0x22 \<or> c = 0x5C")
    case True
    have rd: "rd (pre @ 0x5C # c # ?t) (int (length pre) + 1) = Inr c"
      by (rule rd_append_next)
    have "getword_loop (pre @ 0x5C # c # ?t) (int (length pre)) 0x22 False buf =
        getword_loop (pre @ 0x5C # c # ?t) (int (length pre) + 1) 0x22 True buf"
      by (subst getword_loop.simps) simp
    moreover have "\<dots> = getword_loop (pre @ 0x5C # c # ?t) (int (length pre) + 1 + 1) 0x22 False (buf @ [c])"
      using True put by (subst getword_loop.simps) (auto simp: rd)
    moreover have "qchar c = [0x5C, c]" using True by (simp add: qchar_def)
    ultimately show ?thesis using IH by (simp add: ac_simps)
  next
    case False
    then have "getword_loop (pre @ c # ?t) (int (length pre)) 0x22 False buf =
        getword_loop (pre @ c # ?t) (int (length pre) + 1) 0x22 False (buf @ [c])"
      using put Cons.prems by (subst getword_loop.simps) simp
    moreover have "qchar c = [c]" using False by (simp add: qchar_def)
    ultimately show ?thesis using IH by (simp add: ac_simps)
  qed
qed

lemma getword_quoted:
  assumes "word_ok w"
  shows "getword (pre @ 0x20 # quote w @ r) (int (length pre)) =
    Inr (w, int (length (pre @ 0x20 # quote w)))"
proof -
  have rd: "rd (pre @ 0x20 # 0x22 # t) (int (length pre) + 1) = Inr 0x22" for t :: bytes
    by (rule rd_append_next)
  have "swish_str_skip_ws (pre @ 0x20 # 0x22 # t) (int (length pre)) = Inr (int (length pre) + 1)" for t
    by (subst swish_str_skip_ws.simps, simp, intro conjI impI)
      (subst swish_str_skip_ws.simps, simp_all add: rd isspace_def)
  moreover have "getword_loop (pre @ 0x20 # quote w @ r) (2 + int (length pre)) 0x22 False [] =
      Inr (w, int (length pre) + 2 + int (length (concat (map qchar w))) + 1, False)"
    using getword_loop_quoted [of w "[]" "pre @ [0x20, 0x22]" r] assms
    by (simp add: word_ok_def quote_def ac_simps)
  moreover have "put_char w 0 = Inr (w @ [0])"
    using assms by (intro put_char_room) (simp add: word_ok_def)
  ultimately show ?thesis by (simp add: getword_def quote_def rd Let_def)
qed

lemma skip_ws_end:
  "swish_str_skip_ws (pre @ [0]) (int (length pre)) = Inr (int (length pre))"
  by (subst swish_str_skip_ws.simps) simp

lemma build_loop_quoted:
  assumes "list_all word_ok ws" and "sl_rep sl us"
  shows "\<exists>sl'. build_loop (pre @ concat (map (\<lambda>w. 0x20 # quote w) ws) @ [0]) (int (length pre)) sl = Inr sl' \<and>
    sl_rep sl' (us @ ws)"
  using assms
proof (induction ws arbitrary: pre sl us)
  case Nil
  then show ?case
    by (subst build_loop.simps) (simp add: getword_def skip_ws_end)
next
  case (Cons w ws)
  obtain sl1 where sl1: "swish_stringlist_add_string sl w = Inr (sl1, length us + 1)" "sl_rep sl1 (us @ [w])"
    using add_string_rep [OF Cons.prems(2)] by blast
  let ?pre = "pre @ 0x20 # quote w"
  obtain sl' where "build_loop (?pre @ concat (map (\<lambda>w. 0x20 # quote w) ws) @ [0]) (int (length ?pre)) sl1 = Inr sl'"
    "sl_rep sl' ((us @ [w]) @ ws)"
    using Cons.IH [OF _ sl1(2), of ?pre] Cons.prems(1) by auto
  moreover have "w \<noteq> []" using Cons.prems(1) by (simp add: word_ok_def)
  ultimately show ?case
    using getword_quoted [of w pre] Cons.prems(1) sl1(1)
    by (subst build_loop.simps) (simp add: ac_simps)
qed

lemma terminate_rep:
  assumes "sl_rep sl ws"
  shows "\<exists>sl'. terminate sl = Inr sl' \<and> sl_rep sl' ws \<and> rd (sl_word sl') (int (length ws)) = Inr Null"
proof -
  define sl1 where "sl1 = (if sl_n sl = sl_max sl
    then sl\<lparr>sl_max := sl_max sl + 1, sl_word := realloc_slots (sl_max sl + 1) (sl_word sl)\<rparr> else sl)"
  have 1: "sl_n sl1 = length ws" "length (sl_word sl1) = sl_max sl1" "length ws < sl_max sl1"
    "take (length ws) (sl_word sl1) = map Word ws"
    using assms by (auto simp: sl1_def sl_rep_def take_realloc)
  then have "terminate sl = Inr (sl1\<lparr>sl_word := (sl_word sl1)[length ws := Null]\<rparr>)"
    by (simp add: terminate_def wr_def flip: sl1_def)
  with 1 show ?thesis by (simp add: sl_rep_def rd_def)
qed

lemma quote_no_stops:
  "word_ok w \<Longrightarrow> 0x0A \<notin> set (quote w) \<and> 0 \<notin> set (quote w)"
  by (auto simp: word_ok_def quote_def qchar_def)

text \<open>
  C30: a line of quoted words is read back word for word. Any list of words of at most 256
  bytes, each without NUL and line ends and not empty, written between quotes with quotes and
  backslashes escaped, is what \<open>swish_stringlist_build\<close> makes of the line, with the extra
  NULL after the last word.
\<close>

theorem build_reads_quoted_words:
  assumes "list_all word_ok ws"
  defines "line \<equiv> concat (map (\<lambda>w. 0x20 # quote w) ws) @ [0]"
  shows "\<exists>sl. swish_stringlist_build (Some line) = Inr (Some (sl, line)) \<and> sl_rep sl ws \<and>
    rd (sl_word sl) (int (length ws)) = Inr Null"
proof -
  let ?s = "concat (map (\<lambda>w. 0x20 # quote w) ws)"
  have s: "nul_free ?s" "0x0A \<notin> set ?s"
    using assms(1) by (induction ws) (use quote_no_stops in \<open>auto simp: nul_free_def\<close>)
  have "cstr line 0 = Inr ?s" using cstr_cobj [OF s(1)] by (simp add: line_def cobj_def)
  moreover have "cut_line line ?s = Inr line" using s(2) by (simp add: cut_line_def)
  moreover obtain sl where "build_loop line 0 swish_stringlist_init = Inr sl" "sl_rep sl ws"
    using build_loop_quoted [OF assms(1) sl_rep_init, of "[]"] by (auto simp: line_def)
  moreover obtain sl' where "terminate sl = Inr sl'" "sl_rep sl' ws" "rd (sl_word sl') (int (length ws)) = Inr Null"
    using terminate_rep [OF calculation(4)] by blast
  ultimately show ?thesis by (simp add: swish_stringlist_build_def)
qed

lemma build_reads_quoted_words_witness:
  "\<exists>sl. swish_stringlist_build (Some (concat (map (\<lambda>w. 0x20 # quote w) [[0x61, 0x20, 0x22], [0x5C]]) @ [0])) =
      Inr (Some (sl, concat (map (\<lambda>w. 0x20 # quote w) [[0x61, 0x20, 0x22], [0x5C]]) @ [0])) \<and>
    sl_rep sl [[0x61, 0x20, 0x22], [0x5C]]"
  using build_reads_quoted_words [of "[[0x61, 0x20, 0x22], [0x5C]]"]
  by (auto simp: word_ok_def SWISH_MAX_WORD_LEN_def)

lemma getword_loop_plain:
  assumes "plain w" and "c = 0 \<or> isspace c"
  shows "length buf \<le> SWISH_MAX_WORD_LEN + 1 \<Longrightarrow>
    getword_loop (pre @ w @ c # r) (int (length pre)) 0 False buf =
    (if length buf + length w \<le> SWISH_MAX_WORD_LEN + 1
     then Inr (buf @ w, int (length pre) + int (length w) + (if c = 0 then 0 else 1), False)
     else Inl OutOfBounds)"
  using assms(1)
proof (induction w arbitrary: pre buf)
  case Nil
  with assms(2) show ?case by (subst getword_loop.simps) (auto simp: isspace_def)
next
  case (Cons d w)
  then have d: "d \<noteq> 0" "\<not> isspace d" "plain w" by (simp_all add: plain_def)
  then have ctl: "d \<noteq> 0x0A" "d \<noteq> 0x0D" by (auto simp: isspace_def)
  have *: "getword_loop (pre @ (d # w) @ c # r) (int (length pre)) 0 False buf =
      bnd (put_char buf d) (getword_loop (pre @ d # w @ c # r) (int (length pre) + 1) 0 False)"
    using d ctl by (subst getword_loop.simps) simp
  show ?case
  proof (cases "length buf < SWISH_MAX_WORD_LEN + 1")
    case True
    with * d(3) Cons.IH [of "buf @ [d]" "pre @ [d]"] show ?thesis
      by (simp add: put_char_def ac_simps)
  next
    case False
    with * show ?thesis by (simp add: put_char_def)
  qed
qed

lemma getword_plain:
  assumes "plain w" and "w \<noteq> []" and "hd w \<noteq> 0x22" and "hd w \<noteq> 0x27" and "c = 0 \<or> isspace c"
  shows "getword (pre @ w @ c # r) (int (length pre)) =
    (if length w \<le> SWISH_MAX_WORD_LEN
     then Inr (w, int (length pre) + int (length w) + (if c = 0 then 0 else 1)) else Inl OutOfBounds)"
proof -
  obtain d v where w: "w = d # v" using assms(2) by (cases w) auto
  then have d: "d \<noteq> 0" "\<not> isspace d" "d \<noteq> 0x22" "d \<noteq> 0x27" using assms(1,3,4) by (auto simp: plain_def)
  then have "swish_str_skip_ws (pre @ w @ c # r) (int (length pre)) = Inr (int (length pre))"
    by (subst swish_str_skip_ws.simps) (simp add: w)
  moreover have "rd (pre @ w @ c # r) (int (length pre)) = Inr d" by (simp add: w)
  ultimately show ?thesis
    using getword_loop_plain [OF assms(1,5), of "[]" pre r] d by (simp add: getword_def put_char_def)
qed

text \<open>
  C32: the word buffer on the stack has 257 bytes and the code only warns of longer words. A
  line that starts with a word of more than 256 bytes makes \<open>getword\<close>, and with it
  \<open>swish_stringlist_build\<close>, write past that buffer.
\<close>

theorem build_overflows_on_a_long_word:
  assumes "plain w" and "SWISH_MAX_WORD_LEN < length w" and "hd w \<noteq> 0x22" and "hd w \<noteq> 0x27"
  shows "swish_stringlist_build (Some (w @ [0])) = Inl OutOfBounds"
proof -
  have ne: "w \<noteq> []" using assms(2) by auto
  have nf: "nul_free w" "0x0A \<notin> set w"
    using assms(1) by (auto simp: plain_def nul_free_def isspace_def)
  have "cstr (w @ [0]) 0 = Inr w" using cstr_cobj [OF nf(1)] by (simp add: cobj_def)
  moreover have "build_loop (w @ [0]) 0 swish_stringlist_init = Inl OutOfBounds"
    using getword_plain [OF assms(1) ne assms(3,4), of 0 "[]" "[]"] assms(2)
    by (subst build_loop.simps) simp
  ultimately show ?thesis using nf(2) by (simp add: swish_stringlist_build_def cut_line_def)
qed

lemma build_overflows_on_a_long_word_witness:
  "swish_stringlist_build (Some (replicate 257 0x61 @ [0])) = Inl OutOfBounds"
proof (rule build_overflows_on_a_long_word)
  have "(replicate 257 0x61 :: bytes) = 0x61 # replicate 256 0x61"
    by (simp add: numeral_eq_Suc)
  then have "hd (replicate 257 0x61 :: bytes) = 0x61" by simp
  then show "hd (replicate 257 0x61 :: bytes) \<noteq> 0x22" "hd (replicate 257 0x61 :: bytes) \<noteq> 0x27" by simp_all
qed (auto simp: plain_def isspace_def SWISH_MAX_WORD_LEN_def)

end
