(* ===== verification/Hash.thy ===== *)
theory Hash
  imports Libxml
begin

text \<open>
  \<open>src/libswish3/hash.c\<close>: the wrappers around libxml2's hash table that every other
  component uses, and the interface those components rely on. A table is libxml2's own
  handle; an operation that changes it returns the new one. Values are copied by
  \<open>swish_xstrdup\<close> where the code copies them, which leaves a string what it was.
\<close>

definition swish_hash_add ::
  "('h, 'v) xml_hash \<Rightarrow> 'h \<Rightarrow> bytes \<Rightarrow> 'v \<Rightarrow> ('h \<times> int) res" where
  "swish_hash_add H hash key val =
     (let (hash', ret) = xmlHashAddEntry H hash key val in
      if ret = -1 then Inl (Croak ''xmlHashAddEntry failed'') else Inr (hash', ret))"

definition swish_hash_exists :: "('h, 'v) xml_hash \<Rightarrow> 'h \<Rightarrow> bytes \<Rightarrow> bool" where
  "swish_hash_exists H hash key \<longleftrightarrow> xmlHashLookup H hash key \<noteq> None"

definition swish_hash_exists_or_add ::
  "('h, bytes) xml_hash \<Rightarrow> 'h \<Rightarrow> bytes \<Rightarrow> bytes \<Rightarrow> ('h \<times> int) res" where
  "swish_hash_exists_or_add H hash key val =
     (if \<not> swish_hash_exists H hash key then swish_hash_add H hash key val else Inr (hash, 1))"

definition swish_hash_replace ::
  "('h, 'v) xml_hash \<Rightarrow> 'h \<Rightarrow> bytes \<Rightarrow> 'v \<Rightarrow> ('h \<times> int) res" where
  "swish_hash_replace H hash key val =
     (let (hash', ret) = xmlHashUpdateEntry H hash key val in
      if ret = -1 then Inl (Croak ''xmlHashUpdateEntry failed'') else Inr (hash', ret))"

definition swish_hash_delete :: "('h, 'v) xml_hash \<Rightarrow> 'h \<Rightarrow> bytes \<Rightarrow> ('h \<times> int) res" where
  "swish_hash_delete H hash key =
     (let (hash', ret) = xmlHashRemoveEntry H hash key in
      if ret = -1 then Inl (Croak ''xmlHashRemoveEntry failed'') else Inr (hash', ret))"

definition swish_hash_fetch :: "('h, 'v) xml_hash \<Rightarrow> 'h \<Rightarrow> bytes \<Rightarrow> 'v option" where
  "swish_hash_fetch H hash key = xmlHashLookup H hash key"

definition swish_hash_init :: "('h, 'v) xml_hash \<Rightarrow> int \<Rightarrow> 'h res" where
  "swish_hash_init H size' =
     (case xmlHashCreate H size' of
        None \<Rightarrow> Inl (Croak ''error creating hash'')
      | Some h \<Rightarrow> Inr h)"

definition merge_hashes :: "('h, 'v) xml_hash \<Rightarrow> bytes \<times> 'v \<Rightarrow> 'h \<Rightarrow> 'h res" where
  "merge_hashes H e hash1 =
     (let (key, val) = e in
      if swish_hash_exists H hash1 key
      then bnd (swish_hash_replace H hash1 key val) (\<lambda>(h, _). Inr h)
      else bnd (swish_hash_add H hash1 key val) (\<lambda>(h, _). Inr h))"

definition swish_hash_merge :: "('h, 'v) xml_hash \<Rightarrow> 'h \<Rightarrow> 'h \<Rightarrow> 'h res" where
  "swish_hash_merge H hash1 hash2 = fold_res (merge_hashes H) (xmlHashEntries H hash2) hash1"

text \<open>The values the deallocator is called on.\<close>

definition swish_hash_free :: "('h, 'v) xml_hash \<Rightarrow> 'h \<Rightarrow> 'v list" where
  "swish_hash_free H hash = map snd (xmlHashEntries H hash)"

section \<open>The interface\<close>

text \<open>
  What the clients of the wrappers rely on, in terms of the map \<open>fetch\<close>. \<open>lib\<close> stands for the
  condition under which the library keeps its promises.
\<close>

locale swish_table =
  fixes lib :: bool
    and fetch :: "'h \<Rightarrow> bytes \<Rightarrow> 'v option"
    and add replace :: "'h \<Rightarrow> bytes \<Rightarrow> 'v \<Rightarrow> ('h \<times> int) res"
    and delete :: "'h \<Rightarrow> bytes \<Rightarrow> ('h \<times> int) res"
    and entries :: "'h \<Rightarrow> (bytes \<times> 'v) list"
  assumes add_new: "lib \<Longrightarrow> fetch h k = None \<Longrightarrow>
      \<exists>h'. add h k v = Inr (h', 0) \<and> fetch h' = (fetch h)(k \<mapsto> v)"
    and add_old: "lib \<Longrightarrow> fetch h k \<noteq> None \<Longrightarrow> \<exists>msg. add h k v = Inl (Croak msg)"
    and replace: "lib \<Longrightarrow> \<exists>h'. replace h k v = Inr (h', 0) \<and> fetch h' = (fetch h)(k \<mapsto> v)"
    and delete_old: "lib \<Longrightarrow> fetch h k \<noteq> None \<Longrightarrow>
      \<exists>h'. delete h k = Inr (h', 0) \<and> fetch h' = (fetch h)(k := None)"
    and delete_new: "lib \<Longrightarrow> fetch h k = None \<Longrightarrow> \<exists>msg. delete h k = Inl (Croak msg)"
    and entries: "lib \<Longrightarrow> map_of (entries h) = fetch h"
    and entries_distinct: "lib \<Longrightarrow> distinct (map fst (entries h))"
begin

definition put :: "bytes \<times> 'v \<Rightarrow> 'h \<Rightarrow> 'h res" where
  "put e h =
     (if fetch h (fst e) \<noteq> None
      then bnd (replace h (fst e) (snd e)) (\<lambda>(h, _). Inr h)
      else bnd (add h (fst e) (snd e)) (\<lambda>(h, _). Inr h))"

lemma put: "lib \<Longrightarrow> \<exists>h'. put e h = Inr h' \<and> fetch h' = (fetch h)(fst e \<mapsto> snd e)"
  using add_new [of h "fst e" "snd e"] replace [of h "fst e" "snd e"]
  by (cases "fetch h (fst e)") (fastforce simp: put_def)+

lemma put_all:
  "lib \<Longrightarrow> distinct (map fst es) \<Longrightarrow>
   \<exists>h'. fold_res put es h = Inr h' \<and> fetch h' = fetch h ++ map_of es"
proof (induction es arbitrary: h)
  case (Cons e es)
  obtain h1 where h1: "put e h = Inr h1" "fetch h1 = (fetch h)(fst e \<mapsto> snd e)"
    using put [OF Cons.prems(1), of e h] by blast
  obtain h2 where h2: "fold_res put es h1 = Inr h2" "fetch h2 = fetch h1 ++ map_of es"
    using Cons.IH [OF Cons.prems(1), of h1] Cons.prems(2) by auto
  have "map_of es (fst e) = None"
    using Cons.prems(2) by (simp add: map_of_eq_None_iff)
  then have "fetch h2 = fetch h ++ map_of (e # es)"
    by (auto simp: h2(2) h1(2) fun_eq_iff map_add_def split: option.splits)
  moreover have "fold_res put (e # es) h = Inr h2" using h1(1) h2(1) by simp
  ultimately show ?case by blast
qed simp

lemma add_all_new:
  assumes lib
  shows "distinct (map fst es) \<Longrightarrow> \<forall>e \<in> set es. fetch h (fst e) = None \<Longrightarrow>
    \<exists>h'. fold_res (\<lambda>e h. bnd (add h (fst e) (snd e)) (\<lambda>(h', _). Inr h')) es h = Inr h' \<and>
      fetch h' = fetch h ++ map_of es"
proof (induction es arbitrary: h)
  case (Cons e es)
  obtain h1 where h1: "add h (fst e) (snd e) = Inr (h1, 0)" "fetch h1 = (fetch h)(fst e \<mapsto> snd e)"
    using add_new [OF assms, of h "fst e" "snd e"] Cons.prems(2) by auto
  have "\<forall>x \<in> set es. fetch h1 (fst x) = None"
    using Cons.prems by (auto simp: h1(2)) (metis fst_conv image_eqI)
  then obtain h2 where h2: "fold_res (\<lambda>e h. bnd (add h (fst e) (snd e)) (\<lambda>(h', _). Inr h')) es h1 = Inr h2"
    "fetch h2 = fetch h1 ++ map_of es"
    using Cons.IH [of h1] Cons.prems(1) by auto
  have "map_of es (fst e) = None"
    using Cons.prems(1) by (simp add: map_of_eq_None_iff)
  then have "fetch h2 = fetch h ++ map_of (e # es)"
    by (auto simp: h2(2) h1(2) fun_eq_iff map_add_def split: option.splits)
  moreover have "fold_res (\<lambda>e h. bnd (add h (fst e) (snd e)) (\<lambda>(h', _). Inr h')) (e # es) h = Inr h2"
    using h1(1) h2(1) by simp
  ultimately show ?case by blast
qed simp

lemma merge: "lib \<Longrightarrow> \<exists>h'. fold_res put (entries h2) h1 = Inr h' \<and> fetch h' = fetch h1 ++ fetch h2"
  using put_all [OF _ entries_distinct] entries by simp

end

interpretation table: swish_table "xml_hash_ok H" "swish_hash_fetch H" "swish_hash_add H"
    "swish_hash_replace H" "swish_hash_delete H" "xmlHashEntries H" for H :: "('h, 'v) xml_hash"
proof
  fix h k and v :: 'v
  assume H: "xml_hash_ok H"
  note laws = xml_hash_laws [OF H]
  show "\<exists>h'. swish_hash_add H h k v = Inr (h', 0) \<and> swish_hash_fetch H h' = (swish_hash_fetch H h)(k \<mapsto> v)"
    if "swish_hash_fetch H h k = None"
    using that laws(1,2) [of h k v]
    by (cases "xmlHashAddEntry H h k v") (auto simp: swish_hash_add_def swish_hash_fetch_def fun_eq_iff)
  show "\<exists>msg. swish_hash_add H h k v = Inl (Croak msg)" if "swish_hash_fetch H h k \<noteq> None"
    using that laws(1) [of h k v]
    by (cases "xmlHashAddEntry H h k v") (auto simp: swish_hash_add_def swish_hash_fetch_def)
  show "\<exists>h'. swish_hash_replace H h k v = Inr (h', 0) \<and> swish_hash_fetch H h' = (swish_hash_fetch H h)(k \<mapsto> v)"
    using laws(3,4) [of h k v]
    by (cases "xmlHashUpdateEntry H h k v") (auto simp: swish_hash_replace_def swish_hash_fetch_def fun_eq_iff)
  show "\<exists>h'. swish_hash_delete H h k = Inr (h', 0) \<and> swish_hash_fetch H h' = (swish_hash_fetch H h)(k := None)"
    if "swish_hash_fetch H h k \<noteq> None"
    using that laws(5,6) [of h k]
    by (cases "xmlHashRemoveEntry H h k") (auto simp: swish_hash_delete_def swish_hash_fetch_def fun_eq_iff)
  show "\<exists>msg. swish_hash_delete H h k = Inl (Croak msg)" if "swish_hash_fetch H h k = None"
    using that laws(5) [of h k]
    by (cases "xmlHashRemoveEntry H h k") (auto simp: swish_hash_delete_def swish_hash_fetch_def)
  show "map_of (xmlHashEntries H h) = swish_hash_fetch H h"
    by (simp add: fun_eq_iff swish_hash_fetch_def laws(8))
  show "distinct (map fst (xmlHashEntries H h))" by (rule laws(7))
qed

lemma put_is_merge_hashes: "table.put H = merge_hashes H"
  by (auto simp: fun_eq_iff table.put_def merge_hashes_def swish_hash_exists_def swish_hash_fetch_def)

text \<open>
  C16: merging tables. \<open>swish_hash_merge\<close> never fails, and the first table then answers for
  every key what the second answers where it has the key and what it answered itself
  elsewhere.
\<close>

theorem hash_merge_is_map_add:
  assumes "xml_hash_ok H"
  shows "\<exists>h. swish_hash_merge H h1 h2 = Inr h \<and>
    swish_hash_fetch H h = swish_hash_fetch H h1 ++ swish_hash_fetch H h2"
  using table.merge [OF assms, of h2 h1] by (simp add: swish_hash_merge_def put_is_merge_hashes)

lemma hash_merge_is_map_add_witness:
  "\<exists>h. swish_hash_merge ref_hash [([1], True)] [([1], False), ([2], True)] = Inr h \<and>
    swish_hash_fetch ref_hash h = swish_hash_fetch ref_hash [([1], True)] ++
      swish_hash_fetch ref_hash [([1], False), ([2], True)]"
  by (rule hash_merge_is_map_add) simp

end
