(* ===== verification/MetaProp.thy ===== *)
theory MetaProp
  imports Hash StringLists_Correct
begin

text \<open>
  The records a configuration is made of: \<open>src/libswish3/metaname.c\<close>, \<open>property.c\<close>,
  \<open>analyzer.c\<close> and the structures of \<open>libswish3.h\<close>. Metanames, properties and string lists
  are shared by pointer between several tables, so that they live in a heap and the tables
  hold their addresses; a string field that can be released is a \<open>cell\<close>.
\<close>

datatype 'a cell = NullCell | Cell 'a | Freed

definition free_cell :: "'a cell \<Rightarrow> 'a cell res" where
  "free_cell c = (case c of NullCell \<Rightarrow> Inr NullCell | Cell _ \<Rightarrow> Inr Freed | Freed \<Rightarrow> Inl UseAfterFree)"

section \<open>Metanames, properties, analyzers\<close>

record swish_MetaName =
  mn_ref_cnt :: int
  mn_id :: int
  mn_name :: bytes
  mn_bias :: int
  mn_alias_for :: "bytes cell"

text \<open>The types of properties are numbers, and a header may say any number.\<close>

definition SWISH_PROP_STRING :: int where "SWISH_PROP_STRING = 1"
definition SWISH_PROP_DATE :: int where "SWISH_PROP_DATE = 2"
definition SWISH_PROP_INT :: int where "SWISH_PROP_INT = 3"

record swish_Property =
  pr_ref_cnt :: int
  pr_id :: int
  pr_name :: bytes
  pr_ignore_case :: bool
  pr_type :: int
  pr_verbatim :: bool
  pr_alias_for :: "bytes cell"
  pr_max :: nat
  pr_sort :: bool
  pr_presort :: bool
  pr_sort_length :: nat

record swish_Analyzer =
  an_maxwordlen :: nat
  an_minwordlen :: nat
  an_tokenize :: bool
  an_lc :: bool
  an_ref_cnt :: int

definition swish_metaname_init :: "bytes \<Rightarrow> swish_MetaName" where
  "swish_metaname_init name =
     \<lparr>mn_ref_cnt = 0, mn_id = -1, mn_name = name, mn_bias = 0, mn_alias_for = NullCell\<rparr>"

definition swish_property_init :: "bytes \<Rightarrow> swish_Property" where
  "swish_property_init name =
     \<lparr>pr_ref_cnt = 0, pr_id = -1, pr_name = name, pr_ignore_case = True, pr_type = SWISH_PROP_STRING,
      pr_verbatim = False, pr_alias_for = NullCell, pr_max = 0, pr_sort = True, pr_presort = True,
      pr_sort_length = 0\<rparr>"

section \<open>The heap and the configuration\<close>

text \<open>An address whose object was released holds None.\<close>

record heap =
  h_metas :: "swish_MetaName option list"
  h_props :: "swish_Property option list"
  h_lists :: "swish_StringList option list"

definition obj_at :: "'a option list \<Rightarrow> nat \<Rightarrow> 'a res" where
  "obj_at os a = bnd (rd os (int a)) (\<lambda>c. case c of None \<Rightarrow> Inl UseAfterFree | Some x \<Rightarrow> Inr x)"

lemma obj_at_in [simp]: "a < length os \<Longrightarrow> os ! a = Some x \<Longrightarrow> obj_at os a = Inr x"
  by (simp add: obj_at_def rd_def)

lemma obj_at_freed [simp]: "a < length os \<Longrightarrow> os ! a = None \<Longrightarrow> obj_at os a = Inl UseAfterFree"
  by (simp add: obj_at_def rd_def)

text \<open>
  \<open>swish_metaname_free\<close> and \<open>swish_property_free\<close>: a warning when the count is not 0, then the
  strings and the object go; a string released before is released twice.
\<close>

definition swish_metaname_free :: "swish_MetaName \<Rightarrow> unit res" where
  "swish_metaname_free m = bnd (free_cell (mn_alias_for m)) (\<lambda>_. Inr ())"

definition swish_property_free :: "swish_Property \<Rightarrow> unit res" where
  "swish_property_free p = bnd (free_cell (pr_alias_for p)) (\<lambda>_. Inr ())"

datatype undef_metas = UNDEF_METAS_INDEX | UNDEF_METAS_ERROR | UNDEF_METAS_IGNORE |
  UNDEF_METAS_AUTO | UNDEF_METAS_AUTOALL

datatype undef_attrs = UNDEF_ATTRS_DISABLE | UNDEF_ATTRS_ERROR | UNDEF_ATTRS_IGNORE |
  UNDEF_ATTRS_INDEX | UNDEF_ATTRS_AUTO | UNDEF_ATTRS_AUTOALL

record 'p swish_ConfigFlags =
  fl_tokenize :: bool
  fl_cascade_meta_context :: bool
  fl_ignore_xmlns :: bool
  fl_follow_xinclude :: bool
  fl_undef_metas :: undef_metas
  fl_undef_attrs :: undef_attrs
  fl_max_meta_id :: int
  fl_max_prop_id :: int
  fl_meta_ids :: 'p
  fl_prop_ids :: 'p

text \<open>\<open>'s\<close> are tables of strings, \<open>'p\<close> tables of pointers; \<open>mimes\<close> is NULL at first.\<close>

record ('s, 'p) swish_Config =
  cf_ref_cnt :: int
  cf_misc :: 's
  cf_properties :: 'p
  cf_metanames :: 'p
  cf_tag_aliases :: 's
  cf_parsers :: 's
  cf_mimes :: "'s option"
  cf_index :: 's
  cf_stringlists :: 'p
  cf_flags :: "'p swish_ConfigFlags"

text \<open>The libxml2 functions a configuration uses.\<close>

record ('s, 'p) cf_lib =
  cl_str :: xml_str
  cl_tab :: "('s, bytes) xml_hash"
  cl_ptr :: "('p, nat) xml_hash"

definition cf_lib_ok :: "('s, 'p) cf_lib \<Rightarrow> bool" where
  "cf_lib_ok L \<longleftrightarrow> xml_str_ok (cl_str L) \<and> xml_hash_ok (cl_tab L) \<and> xml_hash_ok (cl_ptr L)"

definition put_in ::
  "('h, 'v) xml_hash \<Rightarrow> 'h \<Rightarrow> bytes \<Rightarrow> 'v \<Rightarrow> 'h res" where
  "put_in H h key val = bnd (swish_hash_add H h key val) (\<lambda>(h', _). Inr h')"

lemma put_in_new:
  assumes "xml_hash_ok H" and "swish_hash_fetch H h k = None"
  shows "\<exists>h'. put_in H h k v = Inr h' \<and> swish_hash_fetch H h' = (swish_hash_fetch H h)(k \<mapsto> v)"
  using table.add_new [OF assms, of v] by (auto simp: put_in_def)

definition SWISH_CLASS_ATTRIBUTES :: bytes where "SWISH_CLASS_ATTRIBUTES = lit ''XMLClassAttributes''"

definition swish_metaname_new ::
  "('s, 'p) cf_lib \<Rightarrow> bytes \<Rightarrow> ('s, 'p) swish_Config \<Rightarrow> heap \<Rightarrow> (('s, 'p) swish_Config \<times> heap) res" where
  "swish_metaname_new L name config hp =
     (let flags = cf_flags config;
          flags = flags\<lparr>fl_max_meta_id := fl_max_meta_id flags + 1\<rparr>;
          m = (swish_metaname_init name)\<lparr>mn_ref_cnt := 1, mn_id := fl_max_meta_id flags\<rparr>;
          a = length (h_metas hp);
          id_str = swish_int_to_string (mn_id m) in
      bnd (put_in (cl_ptr L) (fl_meta_ids flags) id_str a) (\<lambda>ids.
      bnd (put_in (cl_ptr L) (cf_metanames config) name a) (\<lambda>metas.
        Inr (config\<lparr>cf_flags := flags\<lparr>fl_meta_ids := ids\<rparr>, cf_metanames := metas\<rparr>,
             hp\<lparr>h_metas := h_metas hp @ [Some m]\<rparr>))))"

definition swish_property_new ::
  "('s, 'p) cf_lib \<Rightarrow> bytes \<Rightarrow> ('s, 'p) swish_Config \<Rightarrow> heap \<Rightarrow> (('s, 'p) swish_Config \<times> heap) res" where
  "swish_property_new L name config hp =
     (let flags = cf_flags config;
          flags = flags\<lparr>fl_max_prop_id := fl_max_prop_id flags + 1\<rparr>;
          p = (swish_property_init name)\<lparr>pr_ref_cnt := 1, pr_id := fl_max_prop_id flags\<rparr>;
          a = length (h_props hp);
          id_str = swish_int_to_string (pr_id p) in
      bnd (put_in (cl_ptr L) (fl_prop_ids flags) id_str a) (\<lambda>ids.
      bnd (put_in (cl_ptr L) (cf_properties config) name a) (\<lambda>props.
        Inr (config\<lparr>cf_flags := flags\<lparr>fl_prop_ids := ids\<rparr>, cf_properties := props\<rparr>,
             hp\<lparr>h_props := h_props hp @ [Some p]\<rparr>))))"

definition swish_property_get_builtin_id :: "xml_str \<Rightarrow> bytes \<Rightarrow> int" where
  "swish_property_get_builtin_id X propname =
     (let is_name = (\<lambda>s. xmlStrEqual X (Some propname) (Some (lit s))) in
      if is_name ''swishrank'' then -1
      else if is_name ''swishdocpath'' then 1
      else if is_name ''swishlastmodified'' then 5
      else if is_name ''swishdocsize'' then 4
      else if is_name ''swishmime'' then 8
      else if is_name ''swishparser'' then 9
      else if is_name ''swishwordnum'' then 7
      else -2)"

definition swish_property_get_id ::
  "('s, 'p) cf_lib \<Rightarrow> heap \<Rightarrow> bytes \<Rightarrow> 'p \<Rightarrow> int res" where
  "swish_property_get_id L hp propname properties =
     (if swish_property_get_builtin_id (cl_str L) propname \<noteq> -2
      then Inr (swish_property_get_builtin_id (cl_str L) propname)
      else if swish_hash_exists (cl_ptr L) properties propname then
        (case swish_hash_fetch (cl_ptr L) properties propname of
           None \<Rightarrow> Inl NullPointer
         | Some a \<Rightarrow> bnd (obj_at (h_props hp) a) (\<lambda>p. Inr (pr_id p)))
      else Inl (Croak ''No such PropertyName''))"

definition SWISH_MIN_WORD_LEN :: nat where "SWISH_MIN_WORD_LEN = 1"

definition swish_analyzer_init :: "('s, 'p) swish_Config \<Rightarrow> swish_Analyzer" where
  "swish_analyzer_init config =
     \<lparr>an_maxwordlen = SWISH_MAX_WORD_LEN, an_minwordlen = SWISH_MIN_WORD_LEN,
      an_tokenize = fl_tokenize (cf_flags config), an_lc = True, an_ref_cnt = 0\<rparr>"

end
