(* ===== verification/NamedBuffer.thy ===== *)
theory NamedBuffer
  imports Hash Strings_Correct
begin

text \<open>
  \<open>src/libswish3/namedbuffer.c\<close>: text gathered under names, one libxml2 buffer for each
  name of a table. The table holds pointers, here indices into the list \<open>nb_heap\<close> of the
  buffers that have been created, so that what is appended to a buffer is seen through
  every table entry that points to it. \<open>L\<close> bundles the libxml2 functions used.
\<close>

record ('h, 'b) nb_lib =
  nb_str :: xml_str
  nb_buf :: "'b xml_buf"
  nb_tab :: "('h, nat) xml_hash"

record ('h, 'b) swish_NamedBuffer =
  nb_ref_cnt :: int
  nb_hash :: 'h
  nb_heap :: "'b list"

definition SWISH_TOKENPOS_BUMPER :: bytes where "SWISH_TOKENPOS_BUMPER = [3]"

definition add_name_to_hash ::
  "('h, 'b) nb_lib \<Rightarrow> bytes \<Rightarrow> ('h, 'b) swish_NamedBuffer \<Rightarrow> ('h, 'b) swish_NamedBuffer res" where
  "add_name_to_hash L name nb =
     (if swish_hash_exists (nb_tab L) (nb_hash nb) name then Inr nb
      else
        bnd (swish_hash_add (nb_tab L) (nb_hash nb) name (length (nb_heap nb))) (\<lambda>(h, _).
          Inr (nb\<lparr>nb_hash := h, nb_heap := nb_heap nb @ [xmlBufferCreateSize (nb_buf L)]\<rparr>)))"

text \<open>The names are the keys of the configuration table, in the order of its scan.\<close>

definition swish_nb_init :: "('h, 'b) nb_lib \<Rightarrow> bytes list \<Rightarrow> ('h, 'b) swish_NamedBuffer res" where
  "swish_nb_init L confnames =
     (case xmlHashCreate (nb_tab L) 8 of
        None \<Rightarrow> Inl NullPointer
      | Some h \<Rightarrow>
          fold_res (add_name_to_hash L) confnames \<lparr>nb_ref_cnt = 0, nb_hash = h, nb_heap = []\<rparr>)"

definition swish_nb_new ::
  "('h, 'b) nb_lib \<Rightarrow> ('h, 'b) swish_NamedBuffer \<Rightarrow> bytes \<Rightarrow> ('h, 'b) swish_NamedBuffer res" where
  "swish_nb_new L nb key = add_name_to_hash L key nb"

text \<open>The \<open>n\<close> bytes from a pointer on.\<close>

definition slice :: "mem \<Rightarrow> int \<Rightarrow> int \<Rightarrow> bytes res" where
  "slice m p n =
     (if 0 \<le> p \<and> 0 \<le> n \<and> p + n \<le> int (length m) then Inr (take (nat n) (drop (nat p) m))
      else Inl OutOfBounds)"

definition swish_buffer_append :: "'b xml_buf \<Rightarrow> 'b \<Rightarrow> mem \<Rightarrow> int \<Rightarrow> int \<Rightarrow> 'b res" where
  "swish_buffer_append B buf m txt txtlen =
     (if txtlen = 0 then Inr buf
      else
        bnd (slice m txt txtlen) (\<lambda>s.
          let (buf', ret) = xmlBufferAdd B buf s in
          if ret \<noteq> 0 then Inl (Croak ''Problem adding to buffer'') else Inr buf'))"

text \<open>The pointer stored under a name, then what it points to.\<close>

definition nb_add_to ::
  "('h, 'b) nb_lib \<Rightarrow> ('h, 'b) swish_NamedBuffer \<Rightarrow> nat \<Rightarrow> mem \<Rightarrow> int \<Rightarrow> bytes \<Rightarrow> bool \<Rightarrow>
   (('h, 'b) swish_NamedBuffer \<times> mem) res" where
  "nb_add_to L nb a str len joiner cleanwsp =
     (let X = nb_str L; B = nb_buf L in
      bnd (rd (nb_heap nb) (int a)) (\<lambda>buf.
      bnd (if xmlBufferLength B buf \<noteq> 0
           then swish_buffer_append B buf (cobj joiner) 0 (xmlStrlen X (Some joiner)) else Inr buf) (\<lambda>buf.
      bnd (if cleanwsp then
             bnd (swish_str_ctrl_to_ws X str) (\<lambda>str.
             bnd (swish_str_skip_ws str 0) (\<lambda>nowhitesp.
             bnd (swish_str_trim_ws X str nowhitesp) (\<lambda>str.
             bnd (cstr str nowhitesp) (\<lambda>s.
             bnd (swish_buffer_append B buf str nowhitesp (xmlStrlen X (Some s))) (\<lambda>buf.
               Inr (buf, str))))))
           else bnd (swish_buffer_append B buf str 0 len) (\<lambda>buf. Inr (buf, str))) (\<lambda>(buf, str).
        Inr (nb\<lparr>nb_heap := (nb_heap nb)[a := buf]\<rparr>, str)))))"

definition swish_nb_add_str ::
  "('h, 'b) nb_lib \<Rightarrow> ('h, 'b) swish_NamedBuffer \<Rightarrow> bytes \<Rightarrow> mem \<Rightarrow> int \<Rightarrow> bytes \<Rightarrow> bool \<Rightarrow> bool \<Rightarrow>
   (('h, 'b) swish_NamedBuffer \<times> mem) res" where
  "swish_nb_add_str L nb name str len joiner cleanwsp autovivify =
     (let buf = swish_hash_fetch (nb_tab L) (nb_hash nb) name in
      bnd (swish_str_all_ws (nb_str L) str) (\<lambda>ws.
        if ws then Inr (nb, str)
        else
          bnd (if buf = None \<and> autovivify then add_name_to_hash L name nb else Inr nb) (\<lambda>nb.
            case (if buf = None \<and> autovivify then swish_hash_fetch (nb_tab L) (nb_hash nb) name else buf) of
              None \<Rightarrow> Inl (Croak ''not a named buffer'')
            | Some a \<Rightarrow> nb_add_to L nb a str len joiner cleanwsp)))"

text \<open>The content of \<open>buf\<close> is the object written to when the white space is cleaned.\<close>

definition swish_nb_add_buf ::
  "('h, 'b) nb_lib \<Rightarrow> ('h, 'b) swish_NamedBuffer \<Rightarrow> bytes \<Rightarrow> 'b \<Rightarrow> bytes \<Rightarrow> bool \<Rightarrow> bool \<Rightarrow>
   (('h, 'b) swish_NamedBuffer \<times> mem) res" where
  "swish_nb_add_buf L nb name buf joiner cleanwsp autovivify =
     swish_nb_add_str L nb name (xmlBufferContent (nb_buf L) buf) (xmlBufferLength (nb_buf L) buf)
       joiner cleanwsp autovivify"

text \<open>\<open>xmlBufferContent\<close> of a NULL buffer is NULL.\<close>

definition swish_nb_get_value ::
  "('h, 'b) nb_lib \<Rightarrow> ('h, 'b) swish_NamedBuffer \<Rightarrow> bytes \<Rightarrow> bytes option res" where
  "swish_nb_get_value L nb key =
     (case swish_hash_fetch (nb_tab L) (nb_hash nb) key of
        None \<Rightarrow> Inr None
      | Some a \<Rightarrow>
          bnd (rd (nb_heap nb) (int a)) (\<lambda>b.
          bnd (cstr (xmlBufferContent (nb_buf L) b) 0) (\<lambda>s. Inr (Some s))))"

definition cat_buffer ::
  "('h, 'b) nb_lib \<Rightarrow> ('h, 'b) swish_NamedBuffer \<Rightarrow> bytes \<times> nat \<Rightarrow> ('h, 'b) swish_NamedBuffer \<Rightarrow>
   ('h, 'b) swish_NamedBuffer res" where
  "cat_buffer L nb2 e nb1 =
     (let (name, a) = e; B = nb_buf L in
      bnd (swish_nb_get_value L nb2 name) (\<lambda>buf2.
        if xmlStrlen (nb_str L) buf2 = 0 then Inr nb1
        else
          bnd (rd (nb_heap nb1) (int a)) (\<lambda>buffer.
            let buffer = (if xmlBufferLength B buffer \<noteq> 0
                          then fst (xmlBufferCat B buffer SWISH_TOKENPOS_BUMPER) else buffer);
                buffer = fst (xmlBufferCat B buffer (case buf2 of None \<Rightarrow> [] | Some s \<Rightarrow> s))
            in Inr (nb1\<lparr>nb_heap := (nb_heap nb1)[a := buffer]\<rparr>))))"

definition swish_buffer_concat ::
  "('h, 'b) nb_lib \<Rightarrow> ('h, 'b) swish_NamedBuffer \<Rightarrow> ('h, 'b) swish_NamedBuffer \<Rightarrow>
   ('h, 'b) swish_NamedBuffer res" where
  "swish_buffer_concat L nb1 nb2 =
     fold_res (cat_buffer L nb2) (xmlHashEntries (nb_tab L) (nb_hash nb1)) nb1"

end
