(* ===== verification/NamedBuffer_Correct.thy ===== *)
theory NamedBuffer_Correct
  imports NamedBuffer
begin

text \<open>
  Named buffers as a map from names to text. \<open>nb_ok\<close> says that every pointer of the table
  points to a buffer and no two names share one; \<open>nb_val\<close> is the map. Each operation keeps
  the first and does to the second what its name says.
\<close>

definition nb_lib_ok :: "('h, 'b) nb_lib \<Rightarrow> bool" where
  "nb_lib_ok L \<longleftrightarrow> xml_str_ok (nb_str L) \<and> xml_buf_ok (nb_buf L) \<and> xml_hash_ok (nb_tab L)"

definition nb_addr :: "('h, 'b) nb_lib \<Rightarrow> ('h, 'b) swish_NamedBuffer \<Rightarrow> bytes \<Rightarrow> nat option" where
  "nb_addr L nb = swish_hash_fetch (nb_tab L) (nb_hash nb)"

definition nb_ok :: "('h, 'b) nb_lib \<Rightarrow> ('h, 'b) swish_NamedBuffer \<Rightarrow> bool" where
  "nb_ok L nb \<longleftrightarrow>
     (\<forall>k a. nb_addr L nb k = Some a \<longrightarrow> a < length (nb_heap nb)) \<and>
     (\<forall>k k' a. nb_addr L nb k = Some a \<longrightarrow> nb_addr L nb k' = Some a \<longrightarrow> k = k') \<and>
     (\<forall>b \<in> set (nb_heap nb). nul_free (bufBytes (nb_buf L) b))"

definition nb_val :: "('h, 'b) nb_lib \<Rightarrow> ('h, 'b) swish_NamedBuffer \<Rightarrow> bytes \<Rightarrow> bytes option" where
  "nb_val L nb k = map_option (\<lambda>a. bufBytes (nb_buf L) (nb_heap nb ! a)) (nb_addr L nb k)"

lemma exists_addr: "swish_hash_exists (nb_tab L) (nb_hash nb) k \<longleftrightarrow> nb_addr L nb k \<noteq> None"
  by (simp add: swish_hash_exists_def nb_addr_def swish_hash_fetch_def)

lemma add_name_rep:
  assumes "nb_lib_ok L" and "nb_ok L nb"
  shows "\<exists>nb'. add_name_to_hash L name nb = Inr nb' \<and> nb_ok L nb' \<and>
    nb_val L nb' = (if nb_val L nb name = None then (nb_val L nb)(name \<mapsto> []) else nb_val L nb)"
proof (cases "nb_addr L nb name")
  case None
  let ?a = "length (nb_heap nb)"
  have H: "xml_hash_ok (nb_tab L)" and B: "xml_buf_ok (nb_buf L)" using assms(1) by (simp_all add: nb_lib_ok_def)
  obtain h where h: "swish_hash_add (nb_tab L) (nb_hash nb) name ?a = Inr (h, 0)"
    "swish_hash_fetch (nb_tab L) h = (swish_hash_fetch (nb_tab L) (nb_hash nb))(name \<mapsto> ?a)"
    using table.add_new [OF H, of "nb_hash nb" name ?a] None by (auto simp: nb_addr_def)
  let ?nb = "nb\<lparr>nb_hash := h, nb_heap := nb_heap nb @ [xmlBufferCreateSize (nb_buf L)]\<rparr>"
  have addr: "nb_addr L ?nb = (nb_addr L nb)(name \<mapsto> ?a)" by (simp add: nb_addr_def h(2))
  have less: "nb_addr L nb k = Some a \<Longrightarrow> a < ?a" for k a using assms(2) by (auto simp: nb_ok_def)
  have "nb_ok L ?nb"
    using assms(2) less by (auto simp: nb_ok_def addr xml_buf_laws(1) [OF B] split: if_splits) force+
  moreover have "nb_val L ?nb = (nb_val L nb)(name \<mapsto> [])"
    using less by (auto simp: fun_eq_iff nb_val_def addr xml_buf_laws(1) [OF B] nth_append option.map_sel
        map_option_case split: option.splits)
  moreover have "add_name_to_hash L name nb = Inr ?nb"
    using None h(1) by (simp add: add_name_to_hash_def exists_addr)
  ultimately show ?thesis using None by (auto simp: nb_val_def)
next
  case (Some a)
  then show ?thesis using assms(2) by (simp add: add_name_to_hash_def exists_addr nb_val_def)
qed

section \<open>Appending\<close>

lemma buffer_append_eq:
  assumes "xml_buf_ok B" and "p + n \<le> length m"
  shows "\<exists>b'. swish_buffer_append B b m (int p) (int n) = Inr b' \<and>
    bufBytes B b' = bufBytes B b @ take n (drop p m)"
proof (cases "n = 0")
  case False
  have "slice m (int p) (int n) = Inr (take n (drop p m))"
    using assms(2) by (simp add: slice_def)
  with False show ?thesis
    using xml_buf_laws(2,3) [OF assms(1), of b "take n (drop p m)"]
    by (cases "xmlBufferAdd B b (take n (drop p m))") (simp add: swish_buffer_append_def Let_def)
qed (simp add: swish_buffer_append_def)

text \<open>What is left of a string after control characters are made spaces and white space is trimmed.\<close>

definition ctrl_ws :: "bytes \<Rightarrow> bytes" where
  "ctrl_ws s = (if s \<noteq> [] \<and> list_all (\<lambda>c. c < 0x80) s then map (\<lambda>c. if c < 32 then 32 else c) s else s)"

definition clean :: "bytes \<Rightarrow> bytes" where
  "clean s = strip (ctrl_ws s)"

lemma ctrl_to_ws_loop_eq:
  "ctrl_to_ws_loop (pre @ s @ r) (int (length pre) + int (length s)) (int (length pre)) =
     Inr (pre @ map (\<lambda>c. if c < 32 then 32 else c) s @ r)"
proof (induction s arbitrary: pre)
  case Nil
  then show ?case by (subst ctrl_to_ws_loop.simps) simp
next
  case (Cons c s)
  have "wr (pre @ c # s @ r) (int (length pre)) 32 = Inr (pre @ 32 # s @ r)"
    by (simp add: wr_append_at)
  then show ?case
    using Cons.IH [of "pre @ [if c < 32 then 32 else c]"]
    by (cases "c < 32"; subst ctrl_to_ws_loop.simps) (simp_all add: ac_simps)
qed

lemma is_ascii_eq:
  "xml_str_ok X \<Longrightarrow> nul_free s \<Longrightarrow>
   swish_is_ascii X (Some s) \<longleftrightarrow> s \<noteq> [] \<and> list_all (\<lambda>c. c < 0x80) s"
  by (simp add: swish_is_ascii_def lib_laws)

lemma ctrl_to_ws_eq:
  "xml_str_ok X \<Longrightarrow> nul_free s \<Longrightarrow> swish_str_ctrl_to_ws X (s @ 0 # r) = Inr (ctrl_ws s @ 0 # r)"
  using ctrl_to_ws_loop_eq [of "[]" s "0 # r"] cstr_at [of s "[]" r]
  by (simp add: swish_str_ctrl_to_ws_def is_ascii_eq ctrl_ws_def lib_laws)

lemma nul_free_ctrl_ws: "nul_free s \<Longrightarrow> nul_free (ctrl_ws s)"
  by (auto simp: ctrl_ws_def nul_free_def)

lemma nul_free_strip: "nul_free s \<Longrightarrow> nul_free (strip s)"
  by (simp add: strip_def nul_free_rstrip nul_free_dropWhile)

lemma nul_free_clean: "nul_free s \<Longrightarrow> nul_free (clean s)"
  by (simp add: clean_def nul_free_strip nul_free_ctrl_ws)

text \<open>The text appended for the string \<open>s\<close> at the start of an object.\<close>

definition appended :: "bytes \<Rightarrow> bytes \<Rightarrow> bytes \<Rightarrow> bytes" where
  "appended old joiner new = old @ (if old = [] then [] else joiner) @ new"

lemma cstr_slice:
  assumes "cstr m (int p) = Inr s"
  shows "p + length s \<le> length m" and "take (length s) (drop p m) = s"
proof -
  have s: "s = takeWhile (\<lambda>c. c \<noteq> 0) (drop p m)" using assms by (auto simp: cstr_def split: if_splits)
  have "length s \<le> length (drop p m)" unfolding s by (rule length_takeWhile_le)
  moreover have "p < length m" using assms by (cases "p < length m") (simp_all add: cstr_def)
  ultimately show "p + length s \<le> length m" by simp
  show "take (length s) (drop p m) = s" by (simp add: s takeWhile_eq_take [symmetric])
qed

lemma clean_append:
  assumes X: "xml_str_ok X" and B: "xml_buf_ok B" and s: "nul_free s"
  shows "\<exists>b' m'. bnd (swish_str_ctrl_to_ws X (s @ 0 # r)) (\<lambda>str.
      bnd (swish_str_skip_ws str 0) (\<lambda>nowhitesp.
      bnd (swish_str_trim_ws X str nowhitesp) (\<lambda>str.
      bnd (cstr str nowhitesp) (\<lambda>s.
      bnd (swish_buffer_append B b str nowhitesp (xmlStrlen X (Some s))) (\<lambda>buf.
        Inr (buf, str)))))) = Inr (b', m') \<and> bufBytes B b' = bufBytes B b @ clean s"
proof -
  obtain p m where m: "swish_str_skip_ws (ctrl_ws s @ 0 # r) 0 = Inr (int p)"
    "swish_str_trim_ws X (ctrl_ws s @ 0 # r) (int p) = Inr m" "cstr m (int p) = Inr (clean s)"
    using skip_and_trim [OF X nul_free_ctrl_ws [OF s], of r] by (auto simp: clean_def)
  moreover obtain b' where "swish_buffer_append B b m (int p) (int (length (clean s))) = Inr b'"
    "bufBytes B b' = bufBytes B b @ clean s"
    using buffer_append_eq [OF B cstr_slice(1) [OF m(3)], of b] cstr_slice(2) [OF m(3)] by auto
  ultimately show ?thesis
    using X s by (simp add: ctrl_to_ws_eq lib_laws nul_free_clean)
qed

section \<open>Adding a string\<close>

lemma nb_addr_heap [simp]: "nb_addr L (nb\<lparr>nb_heap := h\<rparr>) = nb_addr L nb"
  by (simp add: nb_addr_def)

lemma heap_update_rep:
  assumes "nb_ok L nb" and "nb_addr L nb name = Some a" and "nul_free (bufBytes (nb_buf L) b)"
  defines "nb' \<equiv> nb\<lparr>nb_heap := (nb_heap nb)[a := b]\<rparr>"
  shows "nb_ok L nb'" and "nb_val L nb' = (nb_val L nb)(name \<mapsto> bufBytes (nb_buf L) b)"
    and "nb_addr L nb' = nb_addr L nb"
proof -
  show "nb_addr L nb' = nb_addr L nb" by (simp add: nb'_def)
  have a: "a < length (nb_heap nb)" using assms(1,2) by (auto simp: nb_ok_def)
  show "nb_ok L nb'"
    using assms(1,3) unfolding nb_ok_def
    by (auto simp: nb'_def dest: set_update_subset_insert [THEN subsetD])
  show "nb_val L nb' = (nb_val L nb)(name \<mapsto> bufBytes (nb_buf L) b)"
    using assms(1,2) a unfolding nb_ok_def
    by (auto simp: fun_eq_iff nb_val_def nb'_def nth_list_update map_option_case split: option.splits)
qed

lemma append_joiner:
  assumes "xml_str_ok X" and "xml_buf_ok B" and "nul_free joiner"
  shows "\<exists>b'. (if xmlBufferLength B b \<noteq> 0
      then swish_buffer_append B b (cobj joiner) 0 (xmlStrlen X (Some joiner)) else Inr b) = Inr b' \<and>
    bufBytes B b' = bufBytes B b @ (if bufBytes B b = [] then [] else joiner)"
  using buffer_append_eq [OF assms(2), of 0 "length joiner" "cobj joiner" b] assms
  by (auto simp: lib_laws cobj_def)

lemma nb_add_to_rep:
  assumes "nb_lib_ok L" and "nb_ok L nb" and "nb_addr L nb name = Some a"
    and "nul_free s" and "nul_free joiner"
  shows "\<exists>nb' m. nb_add_to L nb a (s @ 0 # r) (int (length s)) joiner cleanwsp = Inr (nb', m) \<and> nb_ok L nb' \<and>
    nb_val L nb' = (nb_val L nb)(name \<mapsto>
      appended (bufBytes (nb_buf L) (nb_heap nb ! a)) joiner (if cleanwsp then clean s else s))"
proof -
  let ?B = "nb_buf L" and ?X = "nb_str L"
  have lib: "xml_str_ok ?X" "xml_buf_ok ?B" using assms(1) by (simp_all add: nb_lib_ok_def)
  define b where "b = nb_heap nb ! a"
  have a: "rd (nb_heap nb) (int a) = Inr b" and nf: "nul_free (bufBytes ?B b)"
    using assms(2,3) by (auto simp: nb_ok_def rd_def b_def)
  obtain b1 where b1: "(if xmlBufferLength ?B b \<noteq> 0
      then swish_buffer_append ?B b (cobj joiner) 0 (xmlStrlen ?X (Some joiner)) else Inr b) = Inr b1"
    "bufBytes ?B b1 = bufBytes ?B b @ (if bufBytes ?B b = [] then [] else joiner)"
    using append_joiner [OF lib assms(5)] by blast
  have "\<exists>b2 m. nb_add_to L nb a (s @ 0 # r) (int (length s)) joiner cleanwsp =
      Inr (nb\<lparr>nb_heap := (nb_heap nb)[a := b2]\<rparr>, m) \<and>
    bufBytes ?B b2 = appended (bufBytes ?B b) joiner (if cleanwsp then clean s else s)"
  proof (cases cleanwsp)
    case True
    obtain b2 m where "bnd (swish_str_ctrl_to_ws ?X (s @ 0 # r)) (\<lambda>str.
        bnd (swish_str_skip_ws str 0) (\<lambda>nowhitesp.
        bnd (swish_str_trim_ws ?X str nowhitesp) (\<lambda>str.
        bnd (cstr str nowhitesp) (\<lambda>s.
        bnd (swish_buffer_append ?B b1 str nowhitesp (xmlStrlen ?X (Some s))) (\<lambda>buf.
          Inr (buf, str)))))) = Inr (b2, m)" "bufBytes ?B b2 = bufBytes ?B b1 @ clean s"
      using clean_append [OF lib assms(4), of r b1] by blast
    with True show ?thesis
      by (intro exI [of _ b2] exI [of _ m]) (simp add: nb_add_to_def Let_def a b1 appended_def)
  next
    case False
    obtain b2 where "swish_buffer_append ?B b1 (s @ 0 # r) 0 (int (length s)) = Inr b2"
      "bufBytes ?B b2 = bufBytes ?B b1 @ s"
      using buffer_append_eq [OF lib(2), of 0 "length s" "s @ 0 # r" b1] by auto
    with False show ?thesis
      by (intro exI [of _ b2] exI [of _ "s @ 0 # r"]) (simp add: nb_add_to_def Let_def a b1 appended_def)
  qed
  then obtain b2 m where b2: "nb_add_to L nb a (s @ 0 # r) (int (length s)) joiner cleanwsp =
      Inr (nb\<lparr>nb_heap := (nb_heap nb)[a := b2]\<rparr>, m)"
    "bufBytes ?B b2 = appended (bufBytes ?B b) joiner (if cleanwsp then clean s else s)"
    by blast
  have "nul_free (bufBytes ?B b2)"
    using nf assms(4,5) by (simp add: b2(2) appended_def nul_free_clean)
  from heap_update_rep [OF assms(2,3) this] b2 show ?thesis by (auto simp: b_def)
qed

text \<open>
  What \<open>swish_nb_add_str\<close> does to the map: blank text leaves it alone, a name without a
  buffer is created or is an error, and otherwise the text, cleaned when asked for, goes
  after the joiner behind what is there.
\<close>

lemma nb_add_str_rep:
  assumes L: "nb_lib_ok L" and nb: "nb_ok L nb" and s: "nul_free s" and j: "nul_free joiner"
  shows "list_all isspace s \<Longrightarrow>
      swish_nb_add_str L nb name (s @ 0 # r) (int (length s)) joiner cleanwsp autovivify = Inr (nb, s @ 0 # r)"
    and "\<not> list_all isspace s \<Longrightarrow> nb_val L nb name = None \<Longrightarrow> \<not> autovivify \<Longrightarrow>
      swish_nb_add_str L nb name (s @ 0 # r) (int (length s)) joiner cleanwsp autovivify =
        Inl (Croak ''not a named buffer'')"
    and "\<not> list_all isspace s \<Longrightarrow> nb_val L nb name \<noteq> None \<or> autovivify \<Longrightarrow>
      \<exists>nb' m. swish_nb_add_str L nb name (s @ 0 # r) (int (length s)) joiner cleanwsp autovivify = Inr (nb', m) \<and>
        nb_ok L nb' \<and> nb_val L nb' = (nb_val L nb)(name \<mapsto>
          appended (case nb_val L nb name of None \<Rightarrow> [] | Some t \<Rightarrow> t) joiner (if cleanwsp then clean s else s))"
proof -
  have X: "xml_str_ok (nb_str L)" using L by (simp add: nb_lib_ok_def)
  note ws = swish_str_all_ws_eq [OF X s, of r]
  show "swish_nb_add_str L nb name (s @ 0 # r) (int (length s)) joiner cleanwsp autovivify = Inr (nb, s @ 0 # r)"
    if "list_all isspace s" using that by (simp add: swish_nb_add_str_def ws Let_def)
  show "swish_nb_add_str L nb name (s @ 0 # r) (int (length s)) joiner cleanwsp autovivify =
        Inl (Croak ''not a named buffer'')"
    if "\<not> list_all isspace s" "nb_val L nb name = None" "\<not> autovivify"
    using that by (simp add: swish_nb_add_str_def ws Let_def nb_val_def nb_addr_def)
  show "\<exists>nb' m. swish_nb_add_str L nb name (s @ 0 # r) (int (length s)) joiner cleanwsp autovivify = Inr (nb', m) \<and>
        nb_ok L nb' \<and> nb_val L nb' = (nb_val L nb)(name \<mapsto>
          appended (case nb_val L nb name of None \<Rightarrow> [] | Some t \<Rightarrow> t) joiner (if cleanwsp then clean s else s))"
    if "\<not> list_all isspace s" and some: "nb_val L nb name \<noteq> None \<or> autovivify"
  proof (cases "nb_addr L nb name")
    case (Some a)
    then show ?thesis
      using nb_add_to_rep [OF L nb Some s j, of r cleanwsp] that(1)
      by (auto simp: swish_nb_add_str_def ws Let_def nb_val_def nb_addr_def)
  next
    case None
    then have v: "nb_val L nb name = None" by (simp add: nb_val_def)
    then obtain nb1 where nb1: "add_name_to_hash L name nb = Inr nb1" "nb_ok L nb1"
      "nb_val L nb1 = (nb_val L nb)(name \<mapsto> [])"
      using add_name_rep [OF L nb, of name] by auto
    then have "nb_val L nb1 name = Some []" by simp
    then obtain a where a: "nb_addr L nb1 name = Some a" "bufBytes (nb_buf L) (nb_heap nb1 ! a) = []"
      by (auto simp: nb_val_def)
    from nb_add_to_rep [OF L nb1(2) a(1) s j, of r cleanwsp] obtain nb' m where
      "nb_add_to L nb1 a (s @ 0 # r) (int (length s)) joiner cleanwsp = Inr (nb', m)" "nb_ok L nb'"
      "nb_val L nb' = (nb_val L nb)(name \<mapsto> appended [] joiner (if cleanwsp then clean s else s))"
      by (auto simp: a nb1(3))
    then show ?thesis
      using v None a(1) some that(1) nb1(1)
      by (auto simp: swish_nb_add_str_def ws Let_def nb_addr_def)
  qed
qed

section \<open>The interface\<close>

text \<open>Texts joined by a separator, as they stand in a buffer.\<close>

fun joined :: "bytes \<Rightarrow> bytes list \<Rightarrow> bytes" where
  "joined j [] = []"
| "joined j [t] = t"
| "joined j (t # u # ts) = t @ j @ joined j (u # ts)"

lemma joined_snoc: "ts \<noteq> [] \<Longrightarrow> joined j (ts @ [t]) = joined j ts @ j @ t"
  by (induction j ts rule: joined.induct) auto

lemma joined_empty_iff: "[] \<notin> set ts \<Longrightarrow> joined j ts = [] \<longleftrightarrow> ts = []"
  by (induction j ts rule: joined.induct) auto

text \<open>
  What the parser relies on when it collects text: adding a text that is not blank puts it,
  prepared, behind what the name holds, and touches no other name.
\<close>

locale text_store =
  fixes ok :: "'s \<Rightarrow> bool"
    and val :: "'s \<Rightarrow> bytes \<Rightarrow> bytes option"
    and add :: "bytes \<Rightarrow> bytes \<Rightarrow> 's \<Rightarrow> 's res"
    and prep :: "bytes \<Rightarrow> bytes"
    and joiner :: bytes
  assumes add: "ok s \<Longrightarrow> nul_free t \<Longrightarrow> \<not> list_all isspace t \<Longrightarrow>
    \<exists>s'. add n t s = Inr s' \<and> ok s' \<and>
      val s' = (val s)(n \<mapsto> appended (case val s n of None \<Rightarrow> [] | Some u \<Rightarrow> u) joiner (prep t))"
begin

lemma add_to_joined:
  assumes "ok s" and "val s n = Some (joined joiner us)" and "[] \<notin> set us"
    and "\<forall>t \<in> set ts. nul_free t \<and> \<not> list_all isspace t \<and> prep t \<noteq> []"
  shows "\<exists>s'. fold_res (add n) ts s = Inr s' \<and> ok s' \<and>
    val s' = (val s)(n \<mapsto> joined joiner (us @ map prep ts))"
  using assms
proof (induction ts arbitrary: s us)
  case (Cons t ts)
  obtain s1 where s1: "add n t s = Inr s1" "ok s1"
    "val s1 = (val s)(n \<mapsto> appended (joined joiner us) joiner (prep t))"
    using add [OF Cons.prems(1), of t n] Cons.prems(2,4) by auto
  have "appended (joined joiner us) joiner (prep t) = joined joiner (us @ [prep t])"
    using Cons.prems(3) by (cases "us = []") (simp_all add: appended_def joined_empty_iff joined_snoc)
  then have v: "val s1 n = Some (joined joiner (us @ [prep t]))" by (simp add: s1(3))
  have "[] \<notin> set (us @ [prep t])" using Cons.prems(3,4) by auto
  from Cons.IH [OF s1(2) v this] Cons.prems(4) obtain s2 where s2: "fold_res (add n) ts s1 = Inr s2"
    "ok s2" "val s2 = (val s1)(n \<mapsto> joined joiner ((us @ [prep t]) @ map prep ts))"
    by (metis list.set_intros(2))
  then have "val s2 = (val s)(n \<mapsto> joined joiner (us @ map prep (t # ts)))"
    by (simp add: s1(3) fun_upd_upd)
  with s1(1) s2(1,2) show ?case by auto
qed (auto simp: fun_upd_idem)

end

definition nb_put ::
  "('h, 'b) nb_lib \<Rightarrow> bytes \<Rightarrow> bytes \<Rightarrow> bytes \<Rightarrow> ('h, 'b) swish_NamedBuffer \<Rightarrow> ('h, 'b) swish_NamedBuffer res" where
  "nb_put L joiner name t nb =
     bnd (swish_nb_add_str L nb name (cobj t) (int (length t)) joiner True True) (\<lambda>(nb', _). Inr nb')"

interpretation named_buffer:
  text_store "\<lambda>nb. nb_lib_ok L \<and> nb_ok L nb \<and> nul_free joiner" "nb_val L" "nb_put L joiner" clean joiner
  for L :: "('h, 'b) nb_lib" and joiner
proof
  fix nb :: "('h, 'b) swish_NamedBuffer" and t n
  assume "nb_lib_ok L \<and> nb_ok L nb \<and> nul_free joiner" "nul_free t" "\<not> list_all isspace t"
  with nb_add_str_rep(3) [where L = L and nb = nb and s = t and joiner = joiner and name = n and
      r = "[]" and cleanwsp = True and autovivify = True]
  show "\<exists>s'. nb_put L joiner n t nb = Inr s' \<and> (nb_lib_ok L \<and> nb_ok L s' \<and> nul_free joiner) \<and>
      nb_val L s' = (nb_val L nb)(n \<mapsto>
        appended (case nb_val L nb n of None \<Rightarrow> [] | Some u \<Rightarrow> u) joiner (clean t))"
    by (auto simp: nb_put_def cobj_def)
qed

lemma init_rep:
  assumes "nb_lib_ok L"
  shows "\<exists>nb. swish_nb_init L names = Inr nb \<and> nb_ok L nb \<and>
    nb_val L nb = (\<lambda>k. if k \<in> set names then Some [] else None)"
proof -
  have "xml_hash_ok (nb_tab L)" using assms by (simp add: nb_lib_ok_def)
  then obtain h where h: "xmlHashCreate (nb_tab L) 8 = Some h" "xmlHashLookup (nb_tab L) h = Map.empty"
    by (rule xml_hash_create)
  let ?nb = "\<lparr>nb_ref_cnt = 0, nb_hash = h, nb_heap = []\<rparr>"
  have 0: "nb_ok L ?nb" "nb_val L ?nb = Map.empty"
    using h(2) by (auto simp: nb_ok_def nb_val_def nb_addr_def swish_hash_fetch_def fun_eq_iff)
  have "\<exists>nb'. fold_res (add_name_to_hash L) names nb = Inr nb' \<and> nb_ok L nb' \<and>
      nb_val L nb' = (\<lambda>k. if k \<in> set names then Some (case nb_val L nb k of None \<Rightarrow> [] | Some t \<Rightarrow> t) else nb_val L nb k)"
    if "nb_ok L nb" for nb
    using that
  proof (induction names arbitrary: nb)
    case (Cons n names)
    obtain nb1 where nb1: "add_name_to_hash L n nb = Inr nb1" "nb_ok L nb1"
      "nb_val L nb1 = (if nb_val L nb n = None then (nb_val L nb)(n \<mapsto> []) else nb_val L nb)"
      using add_name_rep [OF assms Cons.prems, of n] by blast
    from Cons.IH [OF nb1(2)] nb1 show ?case
      by (fastforce simp: fun_eq_iff split: option.splits)
  qed (auto simp: fun_eq_iff)
  then obtain nb' where "fold_res (add_name_to_hash L) names ?nb = Inr nb'" "nb_ok L nb'"
    "nb_val L nb' = (\<lambda>k. if k \<in> set names then Some (case nb_val L ?nb k of None \<Rightarrow> [] | Some t \<Rightarrow> t)
      else nb_val L ?nb k)" using 0(1) by blast
  then show ?thesis
    unfolding 0(2) by (intro exI [of _ nb']) (auto simp: swish_nb_init_def h(1) fun_eq_iff)
qed

text \<open>
  C14: named buffers collect text. Created for the names of a configuration, they hold nothing;
  after non-blank texts are added under one of those names, in order, with white space
  cleaned, that name holds the cleaned texts with the joiner between them, every other name
  still holds nothing, and no call fails.
\<close>

theorem nb_collects_joined_text:
  assumes "nb_lib_ok L" and "nul_free joiner" and "name \<in> set names"
    and "\<forall>t \<in> set ts. nul_free t \<and> \<not> list_all isspace t \<and> clean t \<noteq> []"
  shows "\<exists>nb. bnd (swish_nb_init L names) (fold_res (nb_put L joiner name) ts) = Inr nb \<and>
    (\<forall>k. nb_val L nb k = (if k \<notin> set names then None
       else if k = name then Some (joined joiner (map clean ts)) else Some []))"
proof -
  obtain nb0 where nb0: "swish_nb_init L names = Inr nb0" "nb_ok L nb0"
    "nb_val L nb0 = (\<lambda>k. if k \<in> set names then Some [] else None)"
    using init_rep [OF assms(1), of names] by blast
  have "nb_val L nb0 name = Some (joined joiner [])" using assms(3) by (simp add: nb0(3))
  from named_buffer.add_to_joined [OF _ this, of ts] assms nb0 show ?thesis by auto
qed

lemma nb_collects_joined_text_witness:
  "\<exists>nb. bnd (swish_nb_init \<lparr>nb_str = ref_str, nb_buf = ref_buf, nb_tab = ref_hash\<rparr> [lit ''a'', lit ''b''])
      (fold_res (nb_put \<lparr>nb_str = ref_str, nb_buf = ref_buf, nb_tab = ref_hash\<rparr> [3] (lit ''a''))
        [[0x20, 0x78, 0x20], [0x79]]) = Inr nb \<and>
    nb_val \<lparr>nb_str = ref_str, nb_buf = ref_buf, nb_tab = ref_hash\<rparr> nb (lit ''a'') = Some [0x78, 3, 0x79]"
  using nb_collects_joined_text [of "\<lparr>nb_str = ref_str, nb_buf = ref_buf, nb_tab = ref_hash\<rparr>" "[3]"
      "lit ''a''" "[lit ''a'', lit ''b'']" "[[0x20, 0x78, 0x20], [0x79]]"]
  by (auto simp: nb_lib_ok_def isspace_def clean_def ctrl_ws_def strip_def rstrip_def)

section \<open>Concatenation\<close>

lemma get_value_rep:
  assumes "nb_ok L nb"
  shows "swish_nb_get_value L nb k = Inr (nb_val L nb k)"
proof (cases "nb_addr L nb k")
  case (Some a)
  then have "a < length (nb_heap nb)" "nul_free (bufBytes (nb_buf L) (nb_heap nb ! a))"
    using assms by (auto simp: nb_ok_def)
  with Some show ?thesis
    using cstr_cobj [of "bufBytes (nb_buf L) (nb_heap nb ! a)"]
    by (simp add: swish_nb_get_value_def nb_val_def nb_addr_def rd_def xmlBufferContent_def cobj_def)
qed (simp add: swish_nb_get_value_def nb_val_def nb_addr_def)

text \<open>What a name holds after the buffers of the same name are concatenated.\<close>

definition catted :: "bytes \<Rightarrow> bytes option \<Rightarrow> bytes" where
  "catted t u = (case u of None \<Rightarrow> t | Some v \<Rightarrow> if v = [] then t else appended t SWISH_TOKENPOS_BUMPER v)"

lemma cat_buffer_rep:
  assumes L: "nb_lib_ok L" and nb1: "nb_ok L nb1" and nb2: "nb_ok L nb2" and a: "nb_addr L nb1 k = Some a"
  shows "\<exists>nb'. cat_buffer L nb2 (k, a) nb1 = Inr nb' \<and> nb_ok L nb' \<and> nb_addr L nb' = nb_addr L nb1 \<and>
    nb_val L nb' = (nb_val L nb1)(k \<mapsto> catted (bufBytes (nb_buf L) (nb_heap nb1 ! a)) (nb_val L nb2 k))"
proof (cases "nb_val L nb2 k = None \<or> nb_val L nb2 k = Some []")
  case True
  then have "xmlStrlen (nb_str L) (nb_val L nb2 k) = 0"
    using L by (auto simp: nb_lib_ok_def lib_laws)
  moreover have "nb_val L nb1 k = Some (bufBytes (nb_buf L) (nb_heap nb1 ! a))" using a by (simp add: nb_val_def)
  ultimately show ?thesis
    using nb1 True by (auto simp: cat_buffer_def get_value_rep [OF nb2] catted_def fun_upd_idem)
next
  case False
  then obtain v where v: "nb_val L nb2 k = Some v" "v \<noteq> []" by auto
  have nfv: "nul_free v" using nb2 v(1) by (auto simp: nb_ok_def nb_val_def)
  have len: "xmlStrlen (nb_str L) (Some v) \<noteq> 0" using L v(2) nfv by (simp add: nb_lib_ok_def lib_laws)
  have B: "xml_buf_ok (nb_buf L)" using L by (simp add: nb_lib_ok_def)
  have al: "a < length (nb_heap nb1)" "nul_free (bufBytes (nb_buf L) (nb_heap nb1 ! a))"
    using nb1 a by (auto simp: nb_ok_def)
  define b where "b = (let b0 = nb_heap nb1 ! a;
    b1 = (if xmlBufferLength (nb_buf L) b0 \<noteq> 0 then fst (xmlBufferCat (nb_buf L) b0 SWISH_TOKENPOS_BUMPER) else b0)
    in fst (xmlBufferCat (nb_buf L) b1 v))"
  have bv: "bufBytes (nb_buf L) b = catted (bufBytes (nb_buf L) (nb_heap nb1 ! a)) (nb_val L nb2 k)"
    using v xml_buf_laws [OF B] by (simp add: b_def Let_def catted_def appended_def)
  have "nul_free (bufBytes (nb_buf L) b)"
    using al(2) nfv v by (simp add: bv catted_def appended_def SWISH_TOKENPOS_BUMPER_def)
  note up = heap_update_rep [OF nb1 a this]
  have "cat_buffer L nb2 (k, a) nb1 = Inr (nb1\<lparr>nb_heap := (nb_heap nb1)[a := b]\<rparr>)"
    using len al(1) by (simp add: cat_buffer_def get_value_rep [OF nb2] v(1) rd_def b_def Let_def)
  with up show ?thesis by (auto simp: bv)
qed

lemma concat_fold:
  assumes L: "nb_lib_ok L" and nb2: "nb_ok L nb2" and "nb_ok L nb1" and "distinct (map fst es)"
    and "\<forall>(k, a) \<in> set es. nb_addr L nb1 k = Some a"
  shows "\<exists>nb'. fold_res (cat_buffer L nb2) es nb1 = Inr nb' \<and> nb_ok L nb' \<and>
    (\<forall>k. nb_val L nb' k = (if k \<in> fst ` set es
      then map_option (\<lambda>t. catted t (nb_val L nb2 k)) (nb_val L nb1 k) else nb_val L nb1 k))"
  using assms(3-5)
proof (induction es arbitrary: nb1)
  case (Cons e es)
  obtain k a where e: "e = (k, a)" by (cases e)
  then have a: "nb_addr L nb1 k = Some a" using Cons.prems(3) by simp
  obtain nb' where nb': "cat_buffer L nb2 e nb1 = Inr nb'" "nb_ok L nb'" "nb_addr L nb' = nb_addr L nb1"
    "nb_val L nb' = (nb_val L nb1)(k \<mapsto> catted (bufBytes (nb_buf L) (nb_heap nb1 ! a)) (nb_val L nb2 k))"
    using cat_buffer_rep [OF L Cons.prems(1) nb2 a] by (auto simp: e)
  have v: "nb_val L nb1 k = Some (bufBytes (nb_buf L) (nb_heap nb1 ! a))" using a by (simp add: nb_val_def)
  have k: "k \<notin> fst ` set es" using Cons.prems(2) by (simp add: e)
  obtain nb'' where nb'': "fold_res (cat_buffer L nb2) es nb' = Inr nb''" "nb_ok L nb''"
    "\<forall>x. nb_val L nb'' x = (if x \<in> fst ` set es
      then map_option (\<lambda>t. catted t (nb_val L nb2 x)) (nb_val L nb' x) else nb_val L nb' x)"
    using Cons.IH [OF nb'(2)] Cons.prems(2,3) nb'(3) by auto
  have "nb_val L nb'' x = (if x \<in> fst ` set (e # es)
      then map_option (\<lambda>t. catted t (nb_val L nb2 x)) (nb_val L nb1 x) else nb_val L nb1 x)" for x
    using nb''(3) k by (auto simp: nb'(4) v e)
  with nb'(1) nb''(1,2) show ?case by auto
qed simp

text \<open>
  C15: concatenating named buffers. For every name the first set has, what the second holds
  under that name follows what the first holds, with the byte that bumps the token position
  between two texts that are not empty; names only the second has are not taken over.
\<close>

theorem nb_concat_by_name:
  assumes "nb_lib_ok L" and "nb_ok L nb1" and "nb_ok L nb2"
  shows "\<exists>nb. swish_buffer_concat L nb1 nb2 = Inr nb \<and> nb_ok L nb \<and>
    (\<forall>k. nb_val L nb k = map_option (\<lambda>t. catted t (nb_val L nb2 k)) (nb_val L nb1 k))"
proof -
  let ?es = "xmlHashEntries (nb_tab L) (nb_hash nb1)"
  have H: "xml_hash_ok (nb_tab L)" using assms(1) by (simp add: nb_lib_ok_def)
  have m: "map_of ?es = nb_addr L nb1" by (simp add: nb_addr_def table.entries [OF H])
  have d: "distinct (map fst ?es)" by (rule table.entries_distinct [OF H])
  then have "\<forall>(k, a) \<in> set ?es. nb_addr L nb1 k = Some a" by (auto simp flip: m)
  from concat_fold [OF assms(1,3,2) d this] obtain nb where
    nb: "swish_buffer_concat L nb1 nb2 = Inr nb" "nb_ok L nb"
    "\<forall>k. nb_val L nb k = (if k \<in> fst ` set ?es
      then map_option (\<lambda>t. catted t (nb_val L nb2 k)) (nb_val L nb1 k) else nb_val L nb1 k)"
    by (auto simp: swish_buffer_concat_def)
  have "nb_val L nb1 k = None" if "k \<notin> fst ` set ?es" for k
    using that m by (metis map_of_eq_None_iff nb_val_def option.map_disc_iff)
  with nb show ?thesis by auto
qed

lemma nb_concat_by_name_witness:
  fixes L defines "L \<equiv> \<lparr>nb_str = ref_str, nb_buf = ref_buf, nb_tab = ref_hash\<rparr>"
  shows "\<exists>nb. swish_buffer_concat L \<lparr>nb_ref_cnt = 0, nb_hash = [([0x61], 0)], nb_heap = [[0x78]]\<rparr>
      \<lparr>nb_ref_cnt = 0, nb_hash = [([0x61], 0)], nb_heap = [[0x79]]\<rparr> = Inr nb \<and> nb_val L nb [0x61] = Some [0x78, 3, 0x79]"
proof -
  let ?nb = "\<lambda>t. \<lparr>nb_ref_cnt = 0, nb_hash = [([0x61 :: u8], 0)], nb_heap = [[t :: u8]]\<rparr>"
  have "nb_lib_ok L" by (simp add: L_def nb_lib_ok_def)
  moreover have addr: "nb_addr L (?nb t) = [[0x61] \<mapsto> 0]" for t
    by (simp add: fun_eq_iff nb_addr_def L_def swish_hash_fetch_def ref_hash_def)
  have "nb_ok L (?nb 0x78)" "nb_ok L (?nb 0x79)"
    by (auto simp: nb_ok_def addr split: if_splits) (simp_all add: L_def ref_buf_def)
  moreover have val: "nb_val L (?nb t) [0x61] = Some [t]" for t
    by (simp add: nb_val_def addr) (simp add: L_def ref_buf_def)
  ultimately obtain nb where "swish_buffer_concat L (?nb 0x78) (?nb 0x79) = Inr nb"
    "nb_val L nb [0x61] = map_option (\<lambda>t. catted t (nb_val L (?nb 0x79) [0x61])) (nb_val L (?nb 0x78) [0x61])"
    using nb_concat_by_name [of L "?nb 0x78" "?nb 0x79"] by blast
  then show ?thesis by (simp add: val catted_def appended_def SWISH_TOKENPOS_BUMPER_def)
qed

end
