(* ===== verification/SortString.thy ===== *)
theory SortString
  imports MetaProp NamedBuffer_Correct
begin

text \<open>
  The order of results (\<open>swish_stringlist_parse_sort_string\<close> of \<open>src/libswish3/string.c\<close>): a
  line of properties, each with an optional direction, is brought into a form in which every
  property has its direction.
\<close>

text \<open>\<open>cfg\<close> may be NULL: then no property is looked up.\<close>

definition check_property ::
  "('s, 'p) cf_lib \<Rightarrow> (('s, 'p) swish_Config \<times> heap) option \<Rightarrow> bytes \<Rightarrow> unit res" where
  "check_property L cfg name =
     (case cfg of
        None \<Rightarrow> Inr ()
      | Some (config, hp) \<Rightarrow> bnd (swish_property_get_id L hp name (cf_properties config)) (\<lambda>_. Inr ()))"

text \<open>The word after a property, which for the last one is the NULL that ends the list.\<close>

definition dir_slot :: "slot \<Rightarrow> bytes option res" where
  "dir_slot s = (case s of Word d \<Rightarrow> Inr (Some d) | Null \<Rightarrow> Inr None | Uninit \<Rightarrow> Inl OutOfBounds)"

definition cat_str :: "xml_str \<Rightarrow> bytes \<Rightarrow> bytes \<Rightarrow> bytes" where
  "cat_str X s t = xmlStrncat X s (Some t) (xmlStrlen X (Some t))"

function sort_loop ::
  "('s, 'p) cf_lib \<Rightarrow> (('s, 'p) swish_Config \<times> heap) option \<Rightarrow> swish_StringList \<Rightarrow> nat \<Rightarrow> bytes \<Rightarrow> bytes res" where
  "sort_loop L cfg sl i normalized =
     (if i < sl_n sl then
        bnd (bnd (rd (sl_word sl) (int i)) slot_word) (\<lambda>prop'.
        bnd (check_property L cfg prop') (\<lambda>_.
        bnd (bnd (rd (sl_word sl) (int i + 1)) dir_slot) (\<lambda>dir.
          let X = cl_str L;
              normalized = xmlStrncat X normalized (Some (lit '' '')) 1;
              normalized = cat_str X normalized prop';
              normalized = xmlStrncat X normalized (Some (lit '' '')) 1 in
          if xmlStrEqual X dir (Some (lit ''asc'')) \<or> xmlStrEqual X dir (Some (lit ''desc''))
          then (case dir of
                  None \<Rightarrow> Inl NullPointer
                | Some d \<Rightarrow> sort_loop L cfg sl (i + 2) (cat_str X normalized d))
          else sort_loop L cfg sl (i + 1) (xmlStrncat X normalized (Some (lit ''asc'')) 3))))
      else Inr normalized)"
  by pat_completeness auto
termination
  by (relation "measure (\<lambda>(L, cfg, sl, i, n). sl_n sl - i)") auto

declare sort_loop.simps [simp del]

text \<open>
  The lowercase copy is released unused. \<open>normalized\<close> starts as a block of twice the length of
  the string, whose first byte is set; \<open>xmlStrncat\<close> gives it the room it needs later. The
  string of the caller is returned too, since reading the list cuts it at its first newline.
\<close>

definition swish_stringlist_parse_sort_string ::
  "('s, 'p) cf_lib \<Rightarrow> wide \<Rightarrow> mem \<Rightarrow> (('s, 'p) swish_Config \<times> heap) option \<Rightarrow> (swish_StringList \<times> mem) res" where
  "swish_stringlist_parse_sort_string L W sort_string cfg =
     (let X = cl_str L in
      bnd (cstr sort_string 0) (\<lambda>s.
      bnd (swish_str_tolower X W s) (\<lambda>_.
      bnd (swish_stringlist_build (Some sort_string)) (\<lambda>b.
        case b of
          None \<Rightarrow> Inl NullPointer
        | Some (sl, sort_string) \<Rightarrow>
            bnd (cstr sort_string 0) (\<lambda>s.
            if 2 * xmlStrlen X (Some s) \<le> 0 then Inl OutOfBounds
            else
              bnd (sort_loop L cfg sl 0 []) (\<lambda>normalized.
              bnd (swish_stringlist_free sl) (\<lambda>_.
              bnd (swish_stringlist_build (Some (cobj normalized))) (\<lambda>b.
                case b of
                  None \<Rightarrow> Inl NullPointer
                | Some (sl, _) \<Rightarrow> Inr (sl, sort_string)))))))))"

section \<open>The reference\<close>

definition direction :: "bytes \<Rightarrow> bool" where
  "direction d \<longleftrightarrow> d = lit ''asc'' \<or> d = lit ''desc''"

fun with_directions :: "bytes list \<Rightarrow> (bytes \<times> bytes) list" where
  "with_directions [] = []"
| "with_directions [p] = [(p, lit ''asc'')]"
| "with_directions (p # d # ws) =
     (if direction d then (p, d) # with_directions ws else (p, lit ''asc'') # with_directions (d # ws))"

definition flat :: "(bytes \<times> bytes) list \<Rightarrow> bytes list" where
  "flat ps = concat (map (\<lambda>(p, d). [p, d]) ps)"

fun joined :: "bytes list \<Rightarrow> bytes" where
  "joined [] = []"
| "joined [w] = w"
| "joined (w # v # ws) = w @ 0x20 # joined (v # ws)"

lemma flat_simps [simp]: "flat [] = []" "flat ((p, d) # ps) = p # d # flat ps"
  by (simp_all add: flat_def)

lemma with_directions_flat: "list_all (\<lambda>e. direction (snd e)) ps \<Longrightarrow> with_directions (flat ps) = ps"
  by (induction ps) (auto simp: flat_def)

lemma with_directions_directed: "list_all (\<lambda>e. direction (snd e)) (with_directions ws)"
  by (induction ws rule: with_directions.induct) (auto simp: direction_def)

text \<open>A word that needs no quotes.\<close>

definition bare :: "bytes \<Rightarrow> bool" where
  "bare w \<longleftrightarrow> plain w \<and> w \<noteq> [] \<and> hd w \<noteq> 0x22 \<and> hd w \<noteq> 0x27 \<and> length w \<le> SWISH_MAX_WORD_LEN"

lemma bare_directions: "list_all bare ws \<Longrightarrow> list_all (\<lambda>e. bare (fst e) \<and> bare (snd e)) (with_directions ws)"
proof (induction ws rule: with_directions.induct)
  case (2 p)
  then show ?case by (simp add: bare_def plain_def lit_def isspace_def SWISH_MAX_WORD_LEN_def) 
next
  case (3 p d ws)
  then show ?case by (auto simp: bare_def plain_def isspace_def SWISH_MAX_WORD_LEN_def)
qed simp

section \<open>Reading words without quotes\<close>

lemma getword_blank:
  assumes "isspace b" "b \<noteq> 0"
  shows "getword (pre @ b # r) (int (length pre)) = getword (pre @ b # r) (int (length (pre @ [b])))"
  using assms by (simp add: getword_def swish_str_skip_ws.simps [of "pre @ b # r" "int (length pre)"] rd_def nth_append add.commute)

lemma getword_bare:
  assumes "bare w" and "c = 0 \<or> isspace c"
  shows "getword (pre @ w @ c # r) (int (length pre)) = Inr (w, int (length pre) + int (length w) + (if c = 0 then 0 else 1))"
  using getword_plain [of w c pre r] assms by (simp add: bare_def)

lemma getword_end: "getword (pre @ [0]) (int (length pre)) = Inr ([], int (length pre))"
  by (simp add: getword_def skip_ws_end)

lemma build_loop_bare:
  assumes "list_all bare ws" and "sl_rep sl us"
  shows "\<exists>sl'. build_loop (pre @ joined ws @ [0]) (int (length pre)) sl = Inr sl' \<and> sl_rep sl' (us @ ws)"
  using assms
proof (induction ws arbitrary: pre sl us rule: joined.induct)
  case 1
  then show ?case by (subst build_loop.simps) (simp add: getword_end)
next
  case (2 w)
  obtain sl1 where 1: "swish_stringlist_add_string sl w = Inr (sl1, length us + 1)" "sl_rep sl1 (us @ [w])"
    using add_string_rep [OF 2(2)] by blast
  have "build_loop (pre @ w @ [0]) (int (length pre)) sl = build_loop ((pre @ w) @ [0]) (int (length (pre @ w))) sl1"
    using 2(1) getword_bare [of w 0 pre "[]"] 1(1) by (subst build_loop.simps) (auto simp: bare_def)
  also have "\<dots> = Inr sl1" by (subst build_loop.simps) (simp only: getword_end, simp)
  finally show ?case using 1(2) by simp
next
  case (3 w v ws)
  obtain sl1 where 1: "swish_stringlist_add_string sl w = Inr (sl1, length us + 1)" "sl_rep sl1 (us @ [w])"
    using add_string_rep [OF 3(3)] by blast
  have "getword (pre @ w @ 0x20 # joined (v # ws) @ [0]) (int (length pre)) = Inr (w, int (length (pre @ w @ [0x20])))"
    using getword_bare [of w "0x20" pre "joined (v # ws) @ [0]"] 3(2) by (simp add: isspace_def)
  then have "build_loop (pre @ w @ 0x20 # joined (v # ws) @ [0]) (int (length pre)) sl =
      build_loop ((pre @ w @ [0x20]) @ joined (v # ws) @ [0]) (int (length (pre @ w @ [0x20]))) sl1"
    using 1(1) 3(2) by (subst build_loop.simps) (simp add: bare_def)
  moreover obtain sl2 where "build_loop ((pre @ w @ [0x20]) @ joined (v # ws) @ [0]) (int (length (pre @ w @ [0x20]))) sl1 = Inr sl2"
    "sl_rep sl2 ((us @ [w]) @ v # ws)"
    using 3(1) [OF _ 1(2), of "pre @ w @ [0x20]"] 3(2) by auto
  ultimately show ?case by auto
qed

lemma joined_stops: "list_all bare ws \<Longrightarrow> nul_free (joined ws) \<and> 0x0A \<notin> set (joined ws)"
  by (induction ws rule: joined.induct) (auto simp: bare_def plain_def nul_free_def isspace_def)

lemma build_bare:
  assumes "list_all bare ws" and "b = [] \<or> b = [0x20]"
  shows "\<exists>sl. swish_stringlist_build (Some (cobj (b @ joined ws))) = Inr (Some (sl, cobj (b @ joined ws))) \<and> sl_rep sl ws \<and>
    rd (sl_word sl) (int (length ws)) = Inr Null"
proof -
  have s: "nul_free (b @ joined ws)" "0x0A \<notin> set (b @ joined ws)"
    using joined_stops [OF assms(1)] assms(2) by auto
  have rep: "sl_rep swish_stringlist_init []" by (simp add: sl_rep_def swish_stringlist_init_def)
  have "build_loop (cobj (b @ joined ws)) 0 swish_stringlist_init = build_loop (b @ joined ws @ [0]) (int (length b)) swish_stringlist_init"
    using assms(2) getword_blank [of "0x20" "[]" "joined ws @ [0]"]
    by (auto simp: cobj_def isspace_def build_loop.simps [of "0x20 # joined ws @ [0]" 0] build_loop.simps [of "0x20 # joined ws @ [0]" 1])
  moreover obtain sl where sl: "build_loop (b @ joined ws @ [0]) (int (length b)) swish_stringlist_init = Inr sl" "sl_rep sl ws"
    using build_loop_bare [OF assms(1) rep, of b] by auto
  moreover obtain sl' where "terminate sl = Inr sl'" "sl_rep sl' ws" "rd (sl_word sl') (int (length ws)) = Inr Null"
    using terminate_rep [OF sl(2)] by blast
  ultimately show ?thesis
    using s by (auto simp: swish_stringlist_build_def cut_line_def)
qed

section \<open>The loop\<close>

definition check_all ::
  "('s, 'p) cf_lib \<Rightarrow> (('s, 'p) swish_Config \<times> heap) option \<Rightarrow> bytes list \<Rightarrow> unit res" where
  "check_all L cfg ps = fold_res (\<lambda>p _. check_property L cfg p) ps ()"

definition spaced :: "bytes list \<Rightarrow> bytes" where
  "spaced ws = concat (map ((#) 0x20) ws)"

lemma spaced_joined: "ws \<noteq> [] \<Longrightarrow> spaced ws = 0x20 # joined ws"
  by (induction ws rule: joined.induct) (auto simp: spaced_def)

lemma cat_str_eq: "xml_str_ok X \<Longrightarrow> nul_free t \<Longrightarrow> cat_str X s t = s @ t"
  by (simp add: cat_str_def xml_str_laws)

lemma bare_nul_free: "bare w \<Longrightarrow> nul_free w"
  by (auto simp: bare_def plain_def nul_free_def)

lemma sl_slot:
  assumes "sl_rep sl ws" and "i < length ws"
  shows "rd (sl_word sl) (int i) = Inr (Word (ws ! i))"
proof -
  have "sl_word sl ! i = Word (ws ! i)" "i < length (sl_word sl)"
    using assms nth_take [of i "length ws" "sl_word sl"] by (auto simp: sl_rep_def)
  then show ?thesis by (simp add: rd_def)
qed

lemma next_slot:
  assumes "sl_rep sl ws" and "rd (sl_word sl) (int (length ws)) = Inr Null" and "i < length ws"
  shows "bnd (rd (sl_word sl) (int i + 1)) dir_slot = Inr (if Suc i < length ws then Some (ws ! Suc i) else None)"
proof (cases "Suc i < length ws")
  case True
  then show ?thesis using sl_slot [OF assms(1) True] by (simp add: dir_slot_def add.commute)
next
  case False
  then have "int i + 1 = int (length ws)" using assms(3) by simp
  then show ?thesis using False assms(2) by (simp add: dir_slot_def)
qed

lemma sort_loop_eq:
  assumes X: "xml_str_ok (cl_str L)" and R: "sl_rep sl ws" "rd (sl_word sl) (int (length ws)) = Inr Null"
    and B: "list_all bare ws"
  shows "i \<le> length ws \<Longrightarrow> sort_loop L cfg sl i s =
    bnd (check_all L cfg (map fst (with_directions (drop i ws))))
      (\<lambda>_. Inr (s @ spaced (flat (with_directions (drop i ws)))))"
proof (induction "length ws - i" arbitrary: i s rule: less_induct)
  case less
  have n: "sl_n sl = length ws" using R(1) by (simp add: sl_rep_def)
  show ?case
  proof (cases "i < length ws")
    case False
    then show ?thesis using n by (subst sort_loop.simps) (simp add: check_all_def spaced_def)
  next
    case True
    define p where "p = ws ! i"
    have nf: "nul_free (ws ! j)" if "j < length ws" for j
      using B that by (simp add: list_all_length bare_nul_free)
    have d: "drop i ws = p # drop (Suc i) ws" using True by (simp add: p_def Cons_nth_drop_Suc)
    have p: "nul_free p" "rd (sl_word sl) (int i) = Inr (Word p)"
      using nf [OF True] sl_slot [OF R(1) True] by (simp_all add: p_def)
    note step = sort_loop.simps [of L cfg sl i s] p next_slot [OF R True] slot_word_def
      cat_str_eq [OF X] xml_str_laws(3,5) [OF X] Let_def
    show ?thesis
    proof (cases "Suc i < length ws \<and> direction (ws ! Suc i)")
      case dir: True
      then have "drop (Suc i) ws = ws ! Suc i # drop (i + 2) ws" by (simp add: Cons_nth_drop_Suc)
      moreover have "sort_loop L cfg sl (i + 2) t =
          bnd (check_all L cfg (map fst (with_directions (drop (i + 2) ws))))
            (\<lambda>_. Inr (t @ spaced (flat (with_directions (drop (i + 2) ws)))))" for t
        using dir less(2) True by (intro less(1)) auto
      ultimately show ?thesis
        using True dir nf [of "Suc i"]
        by (auto simp: step n d direction_def check_all_def spaced_def bnd_assoc intro!: bnd_cong)
    next
      case nodir: False
      have dirs: "with_directions (drop i ws) = (p, lit ''asc'') # with_directions (drop (Suc i) ws)"
        using nodir by (cases "Suc i < length ws") (auto simp: d simp flip: Cons_nth_drop_Suc)
      have "sort_loop L cfg sl (i + 1) t =
          bnd (check_all L cfg (map fst (with_directions (drop (Suc i) ws))))
            (\<lambda>_. Inr (t @ spaced (flat (with_directions (drop (Suc i) ws)))))" for t
        using less(1) [of "i + 1"] True by simp
      then show ?thesis
        using True nodir
        by (auto simp: step n dirs direction_def check_all_def spaced_def bnd_assoc intro!: bnd_cong)
    qed
  qed
qed

lemma joined_not_empty: "list_all bare ws \<Longrightarrow> ws \<noteq> [] \<Longrightarrow> joined ws \<noteq> []"
  by (cases ws rule: joined.cases) (auto simp: bare_def)

text \<open>
  C31: a sort string is completed with directions. For a line of ASCII words without quotes, the
  result is the list in which every property is followed by its direction, the one given in
  lower case or else \<open>asc\<close>, and completing it again changes nothing; with a configuration,
  each property, in order, is looked up first, and the first one that is unknown ends the process.
  A direction in upper case is a property of that name, since the lowercase copy is not used.
\<close>

theorem sort_string_gets_directions:
  assumes "cf_lib_ok L" and "list_all bare ws" and "ws \<noteq> []" and "list_all (\<lambda>c. c < 0x80) (joined ws)"
  shows "\<exists>sl. sl_rep sl (flat (with_directions ws)) \<and>
    swish_stringlist_parse_sort_string L W (cobj (joined ws)) cfg =
      bnd (check_all L cfg (map fst (with_directions ws))) (\<lambda>_. Inr (sl, cobj (joined ws))) \<and>
    with_directions (flat (with_directions ws)) = with_directions ws"
proof -
  have X: "xml_str_ok (cl_str L)" using assms(1) by (simp add: cf_lib_ok_def)
  have s: "nul_free (joined ws)" "joined ws \<noteq> []"
    using joined_stops [OF assms(2)] joined_not_empty [OF assms(2,3)] by auto
  obtain sl where sl: "swish_stringlist_build (Some (cobj (joined ws))) = Inr (Some (sl, cobj (joined ws)))" "sl_rep sl ws"
    "rd (sl_word sl) (int (length ws)) = Inr Null"
    using build_bare [OF assms(2), of "[]"] by auto
  let ?ws = "flat (with_directions ws)"
  have ne: "?ws \<noteq> []" using assms(3) by (cases ws rule: with_directions.cases) auto
  have "list_all bare ?ws"
    using bare_directions [OF assms(2)] by (induction "with_directions ws" arbitrary: ws) (auto simp: flat_def list_all_iff)
  then obtain sl' where sl': "swish_stringlist_build (Some (cobj (spaced ?ws))) = Inr (Some (sl', cobj (spaced ?ws)))" "sl_rep sl' ?ws"
    using build_bare [of ?ws "[0x20]"] spaced_joined [OF ne] by auto
  have lower: "swish_str_tolower (cl_str L) W (joined ws) = Inr (swish_ascii_str_tolower (joined ws))"
    using s assms(4) is_ascii_eq [OF X] by (simp add: swish_str_tolower_def)
  obtain fs where free: "swish_stringlist_free sl = Inr fs" using free_rep [OF sl(2)] by blast
  have "swish_stringlist_parse_sort_string L W (cobj (joined ws)) cfg =
      bnd (check_all L cfg (map fst (with_directions ws))) (\<lambda>_. Inr (sl', cobj (joined ws)))"
    using s sl(1) sl'(1) sort_loop_eq [OF X sl(2,3) assms(2), of 0 cfg "[]"]
    by (simp add: swish_stringlist_parse_sort_string_def lower xml_str_laws(2) [OF X] free bnd_assoc)
  then show ?thesis using sl'(2) with_directions_flat [OF with_directions_directed] by blast
qed

lemma sort_string_gets_directions_witness:
  "\<exists>sl. sl_rep sl [lit ''title'', lit ''desc'', lit ''DESC'', lit ''asc''] \<and>
    swish_stringlist_parse_sort_string
      (\<lparr>cl_str = ref_str, cl_tab = ref_hash, cl_ptr = ref_hash\<rparr> :: ((bytes \<times> bytes) list, (bytes \<times> nat) list) cf_lib)
      ref_wide (cobj (lit ''title desc DESC'')) None = Inr (sl, cobj (lit ''title desc DESC''))"
proof -
  let ?L = "\<lparr>cl_str = ref_str, cl_tab = ref_hash, cl_ptr = ref_hash\<rparr> :: ((bytes \<times> bytes) list, (bytes \<times> nat) list) cf_lib"
  let ?ws = "[lit ''title'', lit ''desc'', lit ''DESC'']"
  have "cf_lib_ok ?L" by (simp add: cf_lib_ok_def)
  moreover have "list_all bare ?ws" by code_simp
  moreover have "list_all (\<lambda>c. c < 0x80) (joined ?ws)" by code_simp
  moreover have "joined ?ws = lit ''title desc DESC''" by code_simp
  moreover have "flat (with_directions ?ws) = [lit ''title'', lit ''desc'', lit ''DESC'', lit ''asc'']" by code_simp
  moreover have "check_all ?L None (map fst (with_directions ?ws)) = Inr ()" by code_simp
  ultimately show ?thesis using sort_string_gets_directions [of ?L ?ws ref_wide None] by auto
qed

end
