(* ===== verification/Mime.thy ===== *)
theory Mime
  imports MetaProp
begin

text \<open>
  \<open>src/libswish3/mime_types.c\<close>: the built-in table of file extensions, the table a
  configuration starts from, and the lookups of a MIME type and of a parser.
\<close>

text \<open>Extensions and types in turn; the count is the macro's, which the table has outgrown.\<close>

definition SWISH_MIME_TABLE_COUNT :: int where "SWISH_MIME_TABLE_COUNT = 304"

definition SWISH_MIME_TABLE :: "string list" where
  "SWISH_MIME_TABLE = [
    ''ai'', ''application/postscript'', ''aif'', ''audio/x-aiff'', ''aifc'', ''audio/x-aiff'',
    ''aiff'', ''audio/x-aiff'', ''asc'', ''text/plain'', ''au'', ''audio/basic'',
    ''avi'', ''video/x-msvideo'', ''bcpio'', ''application/x-bcpio'',
    ''bin'', ''application/octet-stream'', ''bmp'', ''image/bmp'',
    ''cdf'', ''application/x-netcdf'', ''cgm'', ''image/cgm'',
    ''class'', ''application/octet-stream'', ''cpio'', ''application/x-cpio'',
    ''cpt'', ''application/mac-compactpro'', ''csh'', ''application/x-csh'',
    ''css'', ''text/css'', ''dcr'', ''application/x-director'',
    ''dir'', ''application/x-director'', ''djv'', ''image/vnd.djvu'',
    ''djvu'', ''image/vnd.djvu'', ''dll'', ''application/octet-stream'',
    ''dmg'', ''application/octet-stream'', ''dms'', ''application/octet-stream'',
    ''doc'', ''application/msword'', ''dtd'', ''application/xml-dtd'',
    ''dvi'', ''application/x-dvi'', ''dxr'', ''application/x-director'',
    ''eps'', ''application/postscript'', ''etx'', ''text/x-setext'',
    ''exe'', ''application/octet-stream'', ''ez'', ''application/andrew-inset'',
    ''gif'', ''image/gif'', ''gram'', ''application/srgs'', ''grxml'', ''application/srgs+xml'',
    ''gtar'', ''application/x-gtar'', ''gz'', ''application/x-gzip'',
    ''hdf'', ''application/x-hdf'', ''hqx'', ''application/mac-binhex40'',
    ''htm'', ''text/html'', ''html'', ''text/html'', ''ice'', ''x-conference/x-cooltalk'',
    ''ico'', ''image/x-icon'', ''ics'', ''text/calendar'', ''ief'', ''image/ief'',
    ''ifb'', ''text/calendar'', ''iges'', ''model/iges'', ''igs'', ''model/iges'',
    ''jpe'', ''image/jpeg'', ''jpeg'', ''image/jpeg'', ''jpg'', ''image/jpeg'',
    ''js'', ''application/x-javascript'', ''kar'', ''audio/midi'',
    ''latex'', ''application/x-latex'', ''lha'', ''application/octet-stream'',
    ''lzh'', ''application/octet-stream'', ''m3u'', ''audio/x-mpegurl'',
    ''m4u'', ''video/vnd.mpegurl'', ''man'', ''application/x-troff-man'',
    ''mathml'', ''application/mathml+xml'', ''me'', ''application/x-troff-me'',
    ''mesh'', ''model/mesh'', ''mid'', ''audio/midi'', ''midi'', ''audio/midi'',
    ''mif'', ''application/vnd.mif'', ''mov'', ''video/quicktime'',
    ''movie'', ''video/x-sgi-movie'', ''mp2'', ''audio/mpeg'', ''mp3'', ''audio/mpeg'',
    ''mpe'', ''video/mpeg'', ''mpeg'', ''video/mpeg'', ''mpg'', ''video/mpeg'',
    ''mpga'', ''audio/mpeg'', ''ms'', ''application/x-troff-ms'', ''msh'', ''model/mesh'',
    ''mxu'', ''video/vnd.mpegurl'', ''nc'', ''application/x-netcdf'',
    ''oda'', ''application/oda'', ''ogg'', ''application/ogg'',
    ''pbm'', ''image/x-portable-bitmap'', ''pdb'', ''chemical/x-pdb'',
    ''pdf'', ''application/pdf'', ''pgm'', ''image/x-portable-graymap'',
    ''pgn'', ''application/x-chess-pgn'', ''png'', ''image/png'',
    ''pnm'', ''image/x-portable-anymap'', ''ppm'', ''image/x-portable-pixmap'',
    ''ppt'', ''application/vnd.ms-powerpoint'', ''ps'', ''application/postscript'',
    ''qt'', ''video/quicktime'', ''ra'', ''audio/x-pn-realaudio'',
    ''ram'', ''audio/x-pn-realaudio'', ''ras'', ''image/x-cmu-raster'',
    ''rdf'', ''application/rdf+xml'', ''rgb'', ''image/x-rgb'',
    ''rm'', ''application/vnd.rn-realmedia'', ''roff'', ''application/x-troff'',
    ''rtf'', ''text/rtf'', ''rtx'', ''text/richtext'', ''sgm'', ''text/sgml'',
    ''sgml'', ''text/sgml'', ''sh'', ''application/x-sh'', ''shar'', ''application/x-shar'',
    ''silo'', ''model/mesh'', ''sit'', ''application/x-stuffit'',
    ''skd'', ''application/x-koan'', ''skm'', ''application/x-koan'',
    ''skp'', ''application/x-koan'', ''skt'', ''application/x-koan'',
    ''smi'', ''application/smil'', ''smil'', ''application/smil'', ''snd'', ''audio/basic'',
    ''so'', ''application/octet-stream'', ''spl'', ''application/x-futuresplash'',
    ''src'', ''application/x-wais-source'', ''sv4cpio'', ''application/x-sv4cpio'',
    ''sv4crc'', ''application/x-sv4crc'', ''svg'', ''image/svg+xml'',
    ''swf'', ''application/x-shockwave-flash'', ''t'', ''application/x-troff'',
    ''tar'', ''application/x-tar'', ''tcl'', ''application/x-tcl'',
    ''tex'', ''application/x-tex'', ''texi'', ''application/x-texinfo'',
    ''texinfo'', ''application/x-texinfo'', ''tif'', ''image/tiff'', ''tiff'', ''image/tiff'',
    ''tr'', ''application/x-troff'', ''tsv'', ''text/tab-separated-values'',
    ''txt'', ''text/plain'', ''ustar'', ''application/x-ustar'',
    ''vcd'', ''application/x-cdlink'', ''vrml'', ''model/vrml'',
    ''vxml'', ''application/voicexml+xml'', ''wav'', ''audio/x-wav'',
    ''wbmp'', ''image/vnd.wap.wbmp'', ''wbxml'', ''application/vnd.wap.wbxml'',
    ''wml'', ''text/vnd.wap.wml'', ''wmlc'', ''application/vnd.wap.wmlc'',
    ''wmls'', ''text/vnd.wap.wmlscript'', ''wmlsc'', ''application/vnd.wap.wmlscriptc'',
    ''wrl'', ''model/vrml'', ''xbm'', ''image/x-xbitmap'', ''xht'', ''application/xhtml+xml'',
    ''xhtml'', ''application/xhtml+xml'', ''xls'', ''application/vnd.ms-excel'',
    ''xml'', ''application/xml'', ''xpm'', ''image/x-xpixmap'', ''xsl'', ''application/xml'',
    ''xslt'', ''application/xslt+xml'', ''xul'', ''application/vnd.mozilla.xul+xml'',
    ''xwd'', ''image/x-xwindowdump'', ''xyz'', ''chemical/x-xyz'', ''zip'', ''application/zip'']"

definition SWISH_DEFAULT_MIME :: bytes where "SWISH_DEFAULT_MIME = lit ''text/html''"

text \<open>\<open>for (i = 0; i <= SWISH_MIME_TABLE_COUNT; i += 2)\<close>\<close>

function mime_loop :: "('h, bytes) xml_hash \<Rightarrow> int \<Rightarrow> 'h \<Rightarrow> 'h res" where
  "mime_loop H i mimes =
     (if i \<le> SWISH_MIME_TABLE_COUNT then
        bnd (rd SWISH_MIME_TABLE i) (\<lambda>ext.
        bnd (rd SWISH_MIME_TABLE (i + 1)) (\<lambda>type.
        bnd (put_in H mimes (lit ext) (lit type)) (mime_loop H (i + 2))))
      else Inr mimes)"
  by pat_completeness auto
termination
  by (relation "measure (\<lambda>(H, i, m). nat (SWISH_MIME_TABLE_COUNT + 1 - i))") auto

declare mime_loop.simps [simp del]

definition swish_mime_defaults :: "('h, bytes) xml_hash \<Rightarrow> 'h res" where
  "swish_mime_defaults H =
     bnd (swish_hash_init H (SWISH_MIME_TABLE_COUNT div 2)) (mime_loop H 0)"

text \<open>A lookup in the NULL table of a configuration without defaults gives NULL.\<close>

definition swish_mime_get_type :: "('s, 'p) cf_lib \<Rightarrow> ('s, 'p) swish_Config \<Rightarrow> bytes \<Rightarrow> bytes" where
  "swish_mime_get_type L config fileext =
     (case (case cf_mimes config of None \<Rightarrow> None | Some h \<Rightarrow> swish_hash_fetch (cl_tab L) h fileext) of
        None \<Rightarrow> SWISH_DEFAULT_MIME
      | Some mime \<Rightarrow> mime)"

text \<open>\<open>swish_xstrdup\<close> of NULL ends the process.\<close>

definition swish_mime_get_parser ::
  "('s, 'p) cf_lib \<Rightarrow> ('s, 'p) swish_Config \<Rightarrow> bytes \<Rightarrow> bytes res" where
  "swish_mime_get_parser L config mime =
     (let parser = swish_hash_fetch (cl_tab L) (cf_parsers config) mime;
          deftype = swish_hash_fetch (cl_tab L) (cf_parsers config) (lit ''default'');
          parser = (if parser = None then deftype else parser) in
      case parser of
        None \<Rightarrow> Inl (Croak ''strdup returned NULL'')
      | Some p \<Rightarrow> Inr p)"

end
