(* ===== verification/Config.thy ===== *)
theory Config
  imports Mime
begin

text \<open>
  \<open>src/libswish3/config.c\<close>: a configuration as it is created, its default values, and the
  merge of a second configuration into a first. Every \<open>swish_xstrdup\<close> copies a string value.
\<close>

definition swish_config_init_flags :: "('s, 'p) cf_lib \<Rightarrow> 'p swish_ConfigFlags res" where
  "swish_config_init_flags L =
     bnd (swish_hash_init (cl_ptr L) 8) (\<lambda>meta_ids.
     bnd (swish_hash_init (cl_ptr L) 8) (\<lambda>prop_ids.
       Inr \<lparr>fl_tokenize = True, fl_cascade_meta_context = False, fl_ignore_xmlns = True,
            fl_follow_xinclude = True, fl_undef_metas = UNDEF_METAS_INDEX,
            fl_undef_attrs = UNDEF_ATTRS_DISABLE, fl_max_meta_id = -1, fl_max_prop_id = -1,
            fl_meta_ids = meta_ids, fl_prop_ids = prop_ids\<rparr>))"

definition swish_config_init :: "('s, 'p) cf_lib \<Rightarrow> ('s, 'p) swish_Config res" where
  "swish_config_init L =
     bnd (swish_config_init_flags L) (\<lambda>flags.
     bnd (swish_hash_init (cl_tab L) 8) (\<lambda>misc.
     bnd (swish_hash_init (cl_ptr L) 8) (\<lambda>metanames.
     bnd (swish_hash_init (cl_ptr L) 8) (\<lambda>properties.
     bnd (swish_hash_init (cl_tab L) 8) (\<lambda>parsers.
     bnd (swish_hash_init (cl_tab L) 8) (\<lambda>index.
     bnd (swish_hash_init (cl_tab L) 8) (\<lambda>tag_aliases.
     bnd (swish_hash_init (cl_ptr L) 8) (\<lambda>stringlists.
       Inr \<lparr>cf_ref_cnt = 0, cf_misc = misc, cf_properties = properties, cf_metanames = metanames,
            cf_tag_aliases = tag_aliases, cf_parsers = parsers, cf_mimes = None, cf_index = index,
            cf_stringlists = stringlists, cf_flags = flags\<rparr>))))))))"

section \<open>Defaults\<close>

text \<open>A built-in metaname or property: the object, its two table entries, and the largest id,
  which the first one of its kind sets whatever it was.\<close>

definition add_default_meta ::
  "('s, 'p) cf_lib \<Rightarrow> bytes \<times> int \<times> bool \<Rightarrow> ('s, 'p) swish_Config \<times> heap \<Rightarrow>
   (('s, 'p) swish_Config \<times> heap) res" where
  "add_default_meta L e st =
     (let (name, id', first) = e; (config, hp) = st; flags = cf_flags config;
          m = (swish_metaname_init name)\<lparr>mn_ref_cnt := 1, mn_id := id'\<rparr>; a = length (h_metas hp) in
      bnd (put_in (cl_ptr L) (fl_meta_ids flags) (swish_int_to_string id') a) (\<lambda>ids.
      bnd (put_in (cl_ptr L) (cf_metanames config) name a) (\<lambda>metas.
        Inr (config\<lparr>cf_metanames := metas,
               cf_flags := flags\<lparr>fl_meta_ids := ids, fl_max_meta_id :=
                 (if first \<or> fl_max_meta_id flags < id' then id' else fl_max_meta_id flags)\<rparr>\<rparr>,
             hp\<lparr>h_metas := h_metas hp @ [Some m]\<rparr>))))"

definition add_default_prop ::
  "('s, 'p) cf_lib \<Rightarrow> bytes \<times> int \<times> bool \<times> bool \<Rightarrow> ('s, 'p) swish_Config \<times> heap \<Rightarrow>
   (('s, 'p) swish_Config \<times> heap) res" where
  "add_default_prop L e st =
     (let (name, id', sort', first) = e; (config, hp) = st; flags = cf_flags config;
          p = (swish_property_init name)\<lparr>pr_ref_cnt := 1, pr_id := id', pr_sort := sort'\<rparr>;
          a = length (h_props hp) in
      bnd (put_in (cl_ptr L) (cf_properties config) name a) (\<lambda>props.
      bnd (put_in (cl_ptr L) (fl_prop_ids flags) (swish_int_to_string id') a) (\<lambda>ids.
        Inr (config\<lparr>cf_properties := props,
               cf_flags := flags\<lparr>fl_prop_ids := ids, fl_max_prop_id :=
                 (if first \<or> fl_max_prop_id flags < id' then id' else fl_max_prop_id flags)\<rparr>\<rparr>,
             hp\<lparr>h_props := h_props hp @ [Some p]\<rparr>))))"

definition put_strings ::
  "('h, bytes) xml_hash \<Rightarrow> (string \<times> bytes) list \<Rightarrow> 'h \<Rightarrow> 'h res" where
  "put_strings H es h = fold_res (\<lambda>(k, v) h. put_in H h (lit k) v) es h"

text \<open>\<open>locale\<close> is the answer of \<open>setlocale (LC_CTYPE, NULL)\<close>.\<close>

definition swish_config_set_default ::
  "('s, 'p) cf_lib \<Rightarrow> bytes \<Rightarrow> ('s, 'p) swish_Config \<Rightarrow> heap \<Rightarrow> (('s, 'p) swish_Config \<times> heap) res" where
  "swish_config_set_default L locale config hp =
     bnd (swish_mime_defaults (cl_tab L)) (\<lambda>mimes.
     bnd (add_default_meta L (lit ''swishdefault'', 0, True) (config\<lparr>cf_mimes := Some mimes\<rparr>, hp)) (\<lambda>st.
     bnd (add_default_meta L (lit ''swishtitle'', 1, False) st) (\<lambda>st.
     bnd (add_default_prop L (lit ''swishdescription'', 6, False, True) st) (\<lambda>st.
     bnd (add_default_prop L (lit ''swishtitle'', 3, True, False) st) (\<lambda>(config, hp).
     bnd (put_strings (cl_tab L)
            [(''text/plain'', lit ''TXT''), (''application/xml'', lit ''XML''), (''text/xml'', lit ''XML''),
             (''text/html'', lit ''HTML''), (''default'', lit ''HTML'')] (cf_parsers config)) (\<lambda>parsers.
     bnd (put_strings (cl_tab L)
            [(''Format'', lit ''Native''), (''Name'', lit ''index.swish''), (''Locale'', locale)]
            (cf_index config)) (\<lambda>index.
     bnd (put_strings (cl_tab L)
            [(''title'', lit ''swishtitle''), (''body'', lit ''swishdescription'')]
            (cf_tag_aliases config)) (\<lambda>tag_aliases.
       Inr (config\<lparr>cf_parsers := parsers, cf_index := index, cf_tag_aliases := tag_aliases\<rparr>, hp)))))))))"

section \<open>Merging\<close>

text \<open>
  \<open>alias_for\<close> of the target is released whenever it was set, and set again only when the
  source has one: otherwise the released pointer stays.
\<close>

definition copy_alias :: "bytes cell \<Rightarrow> bytes cell \<Rightarrow> bytes cell res" where
  "copy_alias alias1 alias2 =
     bnd (free_cell alias1) (\<lambda>alias1.
       case alias2 of
         NullCell \<Rightarrow> Inr alias1
       | Cell s \<Rightarrow> Inr (Cell s)
       | Freed \<Rightarrow> Inl UseAfterFree)"

definition copy_property ::
  "('s, 'p) cf_lib \<Rightarrow> bytes \<times> nat \<Rightarrow> 'p \<times> heap \<Rightarrow> ('p \<times> heap) res" where
  "copy_property L e st =
     (let (prop2name, a2) = e; (props1, hp) = st in
      bnd (obj_at (h_props hp) a2) (\<lambda>prop2.
      bnd (case swish_hash_fetch (cl_ptr L) props1 prop2name of
             Some a1 \<Rightarrow>
               bnd (obj_at (h_props hp) a1) (\<lambda>prop1. Inr (props1, hp, a1, prop1\<lparr>pr_name := pr_name prop2\<rparr>))
           | None \<Rightarrow>
               (let prop1 = (swish_property_init prop2name)\<lparr>pr_ref_cnt := 1\<rparr>; a1 = length (h_props hp) in
                bnd (put_in (cl_ptr L) props1 prop2name a1) (\<lambda>props1.
                  Inr (props1, hp\<lparr>h_props := h_props hp @ [Some prop1]\<rparr>, a1, prop1)))) (\<lambda>(props1, hp, a1, prop1).
      bnd (copy_alias (pr_alias_for prop1) (pr_alias_for prop2)) (\<lambda>alias.
        Inr (props1, hp\<lparr>h_props := (h_props hp)[a1 := Some (prop1\<lparr>pr_id := pr_id prop2,
               pr_ignore_case := pr_ignore_case prop2, pr_type := pr_type prop2,
               pr_verbatim := pr_verbatim prop2, pr_alias_for := alias, pr_max := pr_max prop2,
               pr_sort := pr_sort prop2\<rparr>)]\<rparr>)))))"

definition merge_properties :: "('s, 'p) cf_lib \<Rightarrow> 'p \<Rightarrow> 'p \<Rightarrow> heap \<Rightarrow> ('p \<times> heap) res" where
  "merge_properties L props1 props2 hp =
     fold_res (copy_property L) (xmlHashEntries (cl_ptr L) props2) (props1, hp)"

definition copy_metaname ::
  "('s, 'p) cf_lib \<Rightarrow> bytes \<times> nat \<Rightarrow> 'p \<times> heap \<Rightarrow> ('p \<times> heap) res" where
  "copy_metaname L e st =
     (let (meta2name, a2) = e; (metas1, hp) = st in
      bnd (obj_at (h_metas hp) a2) (\<lambda>meta2.
      bnd (case swish_hash_fetch (cl_ptr L) metas1 meta2name of
             Some a1 \<Rightarrow>
               bnd (obj_at (h_metas hp) a1) (\<lambda>meta1. Inr (metas1, hp, a1, meta1\<lparr>mn_name := mn_name meta2\<rparr>))
           | None \<Rightarrow>
               (let meta1 = (swish_metaname_init meta2name)\<lparr>mn_ref_cnt := 1\<rparr>; a1 = length (h_metas hp) in
                bnd (put_in (cl_ptr L) metas1 meta2name a1) (\<lambda>metas1.
                  Inr (metas1, hp\<lparr>h_metas := h_metas hp @ [Some meta1]\<rparr>, a1, meta1)))) (\<lambda>(metas1, hp, a1, meta1).
      bnd (copy_alias (mn_alias_for meta1) (mn_alias_for meta2)) (\<lambda>alias.
        Inr (metas1, hp\<lparr>h_metas := (h_metas hp)[a1 := Some (meta1\<lparr>mn_id := mn_id meta2,
               mn_bias := mn_bias meta2, mn_alias_for := alias\<rparr>)]\<rparr>)))))"

definition merge_metanames :: "('s, 'p) cf_lib \<Rightarrow> 'p \<Rightarrow> 'p \<Rightarrow> heap \<Rightarrow> ('p \<times> heap) res" where
  "merge_metanames L metas1 metas2 hp =
     fold_res (copy_metaname L) (xmlHashEntries (cl_ptr L) metas2) (metas1, hp)"

text \<open>
  \<open>swish_stringlist_merge (strlist2, strlist1)\<close> releases \<open>strlist2\<close>, which the second
  configuration's table still points to.
\<close>

definition copy_strlist ::
  "('s, 'p) cf_lib \<Rightarrow> bytes \<times> nat \<Rightarrow> 'p \<times> heap \<Rightarrow> ('p \<times> heap) res" where
  "copy_strlist L e st =
     (let (key, a2) = e; (strlists1, hp) = st in
      case swish_hash_fetch (cl_ptr L) strlists1 key of
        Some a1 \<Rightarrow>
          bnd (obj_at (h_lists hp) a1) (\<lambda>strlist1.
          bnd (obj_at (h_lists hp) a2) (\<lambda>strlist2.
          bnd (swish_stringlist_merge strlist2 strlist1) (\<lambda>l.
            Inr (strlists1, hp\<lparr>h_lists := (h_lists hp)[a1 := Some l, a2 := None]\<rparr>))))
      | None \<Rightarrow>
          bnd (obj_at (h_lists hp) a2) (\<lambda>strlist2.
          bnd (swish_stringlist_copy strlist2) (\<lambda>l.
          bnd (put_in (cl_ptr L) strlists1 key (length (h_lists hp))) (\<lambda>strlists1.
            Inr (strlists1, hp\<lparr>h_lists := h_lists hp @ [Some l]\<rparr>)))))"

definition merge_stringlists :: "('s, 'p) cf_lib \<Rightarrow> 'p \<Rightarrow> 'p \<Rightarrow> heap \<Rightarrow> ('p \<times> heap) res" where
  "merge_stringlists L strlists1 strlists2 hp =
     fold_res (copy_strlist L) (xmlHashEntries (cl_ptr L) strlists2) (strlists1, hp)"

text \<open>A flag of the second configuration, replaced by its \<open>misc\<close> entry when there is one.\<close>

definition misc_flag ::
  "('s, 'p) cf_lib \<Rightarrow> ('s, 'p) swish_Config \<Rightarrow> string \<Rightarrow> bool \<Rightarrow> bool res" where
  "misc_flag L config2 key old =
     (case swish_hash_fetch (cl_tab L) (cf_misc config2) (lit key) of
        None \<Rightarrow> Inr old
      | Some v \<Rightarrow> swish_string_to_boolean (Some (cobj v)))"

definition misc_undef_metas ::
  "('s, 'p) cf_lib \<Rightarrow> ('s, 'p) swish_Config \<Rightarrow> undef_metas \<Rightarrow> undef_metas res" where
  "misc_undef_metas L config2 old =
     (case swish_hash_fetch (cl_tab L) (cf_misc config2) (lit ''UndefinedMetaTags'') of
        None \<Rightarrow> Inr old
      | Some v \<Rightarrow>
          (let is_v = (\<lambda>s. xmlStrEqual (cl_str L) (Some v) (Some (lit s))) in
           if is_v ''error'' then Inr UNDEF_METAS_ERROR
           else if is_v ''ignore'' then Inr UNDEF_METAS_IGNORE
           else if is_v ''index'' then Inr UNDEF_METAS_INDEX
           else if is_v ''auto'' then Inr UNDEF_METAS_AUTO
           else if is_v ''autoall'' then Inr UNDEF_METAS_AUTOALL
           else Inl (Croak ''Unknown value for UndefinedMetaTags'')))"

definition misc_undef_attrs ::
  "('s, 'p) cf_lib \<Rightarrow> ('s, 'p) swish_Config \<Rightarrow> undef_attrs \<Rightarrow> undef_attrs res" where
  "misc_undef_attrs L config2 old =
     (case swish_hash_fetch (cl_tab L) (cf_misc config2) (lit ''UndefinedXMLAttributes'') of
        None \<Rightarrow> Inr old
      | Some v \<Rightarrow>
          (let is_v = (\<lambda>s. xmlStrEqual (cl_str L) (Some v) (Some (lit s))) in
           if is_v ''error'' then Inr UNDEF_ATTRS_ERROR
           else if is_v ''ignore'' then Inr UNDEF_ATTRS_IGNORE
           else if is_v ''index'' then Inr UNDEF_ATTRS_INDEX
           else if is_v ''auto'' then Inr UNDEF_ATTRS_AUTO
           else if is_v ''autoall'' then Inr UNDEF_ATTRS_AUTOALL
           else if is_v ''disable'' then Inr UNDEF_ATTRS_DISABLE
           else Inl (Croak ''Unknown value for UndefinedXMLAttributes'')))"

text \<open>
  The flags of both configurations after the merge: those read from \<open>config2->misc\<close> are
  stored in \<open>config2\<close> too.
\<close>

definition merge_flags ::
  "('s, 'p) cf_lib \<Rightarrow> ('s, 'p) swish_Config \<Rightarrow> 'p swish_ConfigFlags \<Rightarrow>
   ('p swish_ConfigFlags \<times> 'p swish_ConfigFlags) res" where
  "merge_flags L config2 flags1 =
     (let flags2 = cf_flags config2 in
      bnd (misc_flag L config2 ''Tokenize'' (fl_tokenize flags2)) (\<lambda>tokenize.
      bnd (misc_flag L config2 ''CascadeMetaContext'' (fl_cascade_meta_context flags2)) (\<lambda>cascade.
      bnd (misc_flag L config2 ''IgnoreXMLNameSpaces'' (fl_ignore_xmlns flags2)) (\<lambda>xmlns.
      bnd (misc_flag L config2 ''FollowXInclude'' (fl_follow_xinclude flags2)) (\<lambda>xinclude.
      bnd (misc_undef_metas L config2 (fl_undef_metas flags2)) (\<lambda>metas.
      bnd (misc_undef_attrs L config2 (fl_undef_attrs flags2)) (\<lambda>attrs.
        let set = (\<lambda>f. f\<lparr>fl_tokenize := tokenize, fl_cascade_meta_context := cascade, fl_ignore_xmlns := xmlns,
              fl_follow_xinclude := xinclude, fl_undef_metas := metas, fl_undef_attrs := attrs\<rparr>) in
        Inr ((set flags1)\<lparr>fl_max_meta_id := max (fl_max_meta_id flags1) (fl_max_meta_id flags2),
               fl_max_prop_id := max (fl_max_prop_id flags1) (fl_max_prop_id flags2)\<rparr>,
             set flags2))))))))"

definition swish_config_merge ::
  "('s, 'p) cf_lib \<Rightarrow> ('s, 'p) swish_Config \<Rightarrow> ('s, 'p) swish_Config \<Rightarrow> heap \<Rightarrow>
   (('s, 'p) swish_Config \<times> ('s, 'p) swish_Config \<times> heap) res" where
  "swish_config_merge L config1 config2 hp =
     bnd (merge_properties L (cf_properties config1) (cf_properties config2) hp) (\<lambda>(properties, hp).
     bnd (merge_metanames L (cf_metanames config1) (cf_metanames config2) hp) (\<lambda>(metanames, hp).
     bnd (swish_hash_merge (cl_tab L) (cf_parsers config1) (cf_parsers config2)) (\<lambda>parsers.
     bnd (case (cf_mimes config1, cf_mimes config2) of
            (Some m1, Some m2) \<Rightarrow> bnd (swish_hash_merge (cl_tab L) m1 m2) (\<lambda>m. Inr (Some m))
          | (m1, None) \<Rightarrow> Inr m1
          | (None, Some m2) \<Rightarrow>
              if xmlHashEntries (cl_tab L) m2 = [] then Inr None
              else Inl (Croak ''xmlHashAddEntry failed'')) (\<lambda>mimes.
     bnd (swish_hash_merge (cl_tab L) (cf_index config1) (cf_index config2)) (\<lambda>index.
     bnd (swish_hash_merge (cl_tab L) (cf_tag_aliases config1) (cf_tag_aliases config2)) (\<lambda>tag_aliases.
     bnd (swish_hash_merge (cl_tab L) (cf_misc config1) (cf_misc config2)) (\<lambda>misc.
     bnd (merge_stringlists L (cf_stringlists config1) (cf_stringlists config2) hp) (\<lambda>(stringlists, hp).
     bnd (merge_flags L config2 (cf_flags config1)) (\<lambda>(flags1, flags2).
       Inr (config1\<lparr>cf_properties := properties, cf_metanames := metanames, cf_parsers := parsers,
              cf_mimes := mimes, cf_index := index, cf_tag_aliases := tag_aliases, cf_misc := misc,
              cf_stringlists := stringlists, cf_flags := flags1\<rparr>,
            config2\<lparr>cf_flags := flags2\<rparr>, hp))))))))))"

section \<open>Release\<close>

text \<open>
  \<open>swish_config_free\<close>: the tables of strings own their values, the other three the objects at
  the addresses they hold. A property or metaname goes when its count drops below 1; a
  string list always goes.
\<close>

definition free_stringlist :: "bytes \<times> nat \<Rightarrow> heap \<Rightarrow> heap res" where
  "free_stringlist e hp =
     bnd (obj_at (h_lists hp) (snd e)) (\<lambda>l.
     bnd (swish_stringlist_free l) (\<lambda>_. Inr (hp\<lparr>h_lists := (h_lists hp)[snd e := None]\<rparr>)))"

definition free_stringlists :: "('s, 'p) cf_lib \<Rightarrow> ('s, 'p) swish_Config \<Rightarrow> heap \<Rightarrow> heap res" where
  "free_stringlists L config hp =
     fold_res free_stringlist (xmlHashEntries (cl_ptr L) (cf_stringlists config)) hp"

definition free_props :: "bytes \<times> nat \<Rightarrow> heap \<Rightarrow> heap res" where
  "free_props e hp =
     bnd (obj_at (h_props hp) (snd e)) (\<lambda>prop.
       let prop = prop\<lparr>pr_ref_cnt := pr_ref_cnt prop - 1\<rparr> in
       if pr_ref_cnt prop < 1
       then bnd (swish_property_free prop) (\<lambda>_. Inr (hp\<lparr>h_props := (h_props hp)[snd e := None]\<rparr>))
       else Inr (hp\<lparr>h_props := (h_props hp)[snd e := Some prop]\<rparr>))"

definition free_metas :: "bytes \<times> nat \<Rightarrow> heap \<Rightarrow> heap res" where
  "free_metas e hp =
     bnd (obj_at (h_metas hp) (snd e)) (\<lambda>meta.
       let meta = meta\<lparr>mn_ref_cnt := mn_ref_cnt meta - 1\<rparr> in
       if mn_ref_cnt meta < 1
       then bnd (swish_metaname_free meta) (\<lambda>_. Inr (hp\<lparr>h_metas := (h_metas hp)[snd e := None]\<rparr>))
       else Inr (hp\<lparr>h_metas := (h_metas hp)[snd e := Some meta]\<rparr>))"

definition swish_config_free :: "('s, 'p) cf_lib \<Rightarrow> ('s, 'p) swish_Config \<Rightarrow> heap \<Rightarrow> heap res" where
  "swish_config_free L config hp =
     bnd (fold_res free_props (xmlHashEntries (cl_ptr L) (cf_properties config)) hp) (\<lambda>hp.
     bnd (fold_res free_metas (xmlHashEntries (cl_ptr L) (cf_metanames config)) hp) (\<lambda>hp.
       free_stringlists L config hp))"

end
