(* ===== verification/Config_Correct.thy ===== *)
theory Config_Correct
  imports Config
begin

text \<open>
  What a configuration guarantees: the MIME table it starts from, the precedence of the
  second configuration in a merge, and the two faults a merge prepares, a dangling alias
  and a string list that two configurations own.
\<close>

section \<open>MIME types\<close>

fun string_pairs :: "string list \<Rightarrow> (string \<times> string) list" where
  "string_pairs (a # b # r) = (a, b) # string_pairs r"
| "string_pairs _ = []"

text \<open>The pairs the loop reads: all but the last.\<close>

definition mime_pairs :: "(string \<times> string) list" where
  "mime_pairs = take 153 (string_pairs SWISH_MIME_TABLE)"

lemma mime_table_length: "length SWISH_MIME_TABLE = 308"
  by (simp add: SWISH_MIME_TABLE_def)

lemma string_pairs_nth:
  "2 * k + 1 < length xs \<Longrightarrow> string_pairs xs ! k = (xs ! (2 * k), xs ! (2 * k + 1)) \<and> k < length (string_pairs xs)"
proof (induction xs arbitrary: k rule: string_pairs.induct)
  case (1 a b r)
  then show ?case by (cases k) auto
qed auto

lemma mime_pairs_nth:
  assumes "k < 153"
  shows "mime_pairs ! k = (SWISH_MIME_TABLE ! (2 * k), SWISH_MIME_TABLE ! (2 * k + 1))"
  using string_pairs_nth [of k SWISH_MIME_TABLE] assms by (simp add: mime_pairs_def mime_table_length)

lemma mime_pairs_length: "length mime_pairs = 153"
  using string_pairs_nth [of 152 SWISH_MIME_TABLE] by (simp add: mime_pairs_def mime_table_length)

lemma mime_loop_fold:
  "k \<le> 153 \<Longrightarrow> mime_loop H (2 * int k) m =
     fold_res (\<lambda>e h. bnd (swish_hash_add H h (fst e) (snd e)) (\<lambda>(h', _). Inr h'))
       (map (\<lambda>(a, b). (lit a, lit b)) (drop k mime_pairs)) m"
proof (induction "153 - k" arbitrary: k m)
  case 0
  then show ?case
    by (subst mime_loop.simps) (simp add: SWISH_MIME_TABLE_COUNT_def mime_pairs_length)
next
  case (Suc n)
  then have k: "k < 153" "n = 153 - Suc k" by simp_all
  have "rd SWISH_MIME_TABLE (2 * int k) = Inr (SWISH_MIME_TABLE ! (2 * k))"
    "rd SWISH_MIME_TABLE (2 * int k + 1) = Inr (SWISH_MIME_TABLE ! (2 * k + 1))"
    using k(1) rd_in [of "2 * k" SWISH_MIME_TABLE] rd_in [of "2 * k + 1" SWISH_MIME_TABLE]
    by (simp_all add: mime_table_length add.commute)
  moreover have "drop k mime_pairs = (SWISH_MIME_TABLE ! (2 * k), SWISH_MIME_TABLE ! (2 * k + 1)) # drop (Suc k) mime_pairs"
    using k(1) mime_pairs_nth [of k] by (simp add: nth_tl_Cons mime_pairs_length)
  moreover have "mime_loop H (2 * int k + 2) = fold_res (\<lambda>e h. bnd (swish_hash_add H h (fst e) (snd e)) (\<lambda>(h', _). Inr h'))
       (map (\<lambda>(a, b). (lit a, lit b)) (drop (Suc k) mime_pairs))"
    using Suc.hyps(1) [OF k(2)] k(1) by (simp add: fun_eq_iff ac_simps)
  ultimately show ?case
    using k(1) by (subst mime_loop.simps) (simp add: SWISH_MIME_TABLE_COUNT_def put_in_def)
qed

text \<open>The extensions are in alphabetical order, so that no two are the same.\<close>

fun sless :: "string \<Rightarrow> string \<Rightarrow> bool" where
  "sless (a # as) (b # bs) \<longleftrightarrow> of_char a < (of_char b :: nat) \<or> (a = b \<and> sless as bs)"
| "sless [] (b # bs) \<longleftrightarrow> True"
| "sless _ [] \<longleftrightarrow> False"

lemma sless_irrefl: "\<not> sless s s"
  by (induction s) auto

lemma sless_trans: "sless s t \<Longrightarrow> sless t u \<Longrightarrow> sless s u"
proof (induction s t arbitrary: u rule: sless.induct)
  case (1 a as b bs)
  then show ?case by (cases u) auto
next
  case (2 b bs)
  then show ?case by (cases u) auto
qed simp

lemma sorted_wrt_irrefl_distinct: "sorted_wrt P xs \<Longrightarrow> (\<And>x. \<not> P x x) \<Longrightarrow> distinct xs"
  by (induction xs) auto

lemma successively_sless: "successively sless (map fst (string_pairs SWISH_MIME_TABLE))"
  by code_simp

lemma mime_keys_distinct: "distinct (map fst (string_pairs SWISH_MIME_TABLE))"
proof -
  have "transp sless" using sless_trans by (auto simp: transp_def)
  then have "sorted_wrt sless (map fst (string_pairs SWISH_MIME_TABLE))"
    using successively_sless by (simp add: successively_conv_sorted_wrt)
  then show ?thesis by (rule sorted_wrt_irrefl_distinct) (rule sless_irrefl)
qed

lemma unat_of_char: "unat (of_char c :: u8) = of_char c"
proof -
  have "unat (of_nat (of_char c) :: u8) = of_char c"
    using nat_of_char_less_256 [of c] by (simp add: unat_of_nat take_bit_nat_eq_self del: nat_of_char_less_256)
  then show ?thesis by (simp add: of_nat_of_char)
qed

lemma lit_inj: "lit a = lit b \<longleftrightarrow> a = b"
proof -
  have "inj (of_char :: char \<Rightarrow> u8)"
    by (intro injI) (metis unat_of_char of_char_eq_iff)
  then show ?thesis by (simp add: lit_def inj_map_eq_map)
qed

lemma mime_defaults_rep:
  assumes "xml_hash_ok H"
  shows "\<exists>m. swish_mime_defaults H = Inr m \<and>
    swish_hash_fetch H m = map_of (map (\<lambda>(a, b). (lit a, lit b)) mime_pairs)"
proof -
  let ?es = "map (\<lambda>(a, b). (lit a, lit b)) mime_pairs"
  obtain h where h: "xmlHashCreate H (SWISH_MIME_TABLE_COUNT div 2) = Some h" "xmlHashLookup H h = Map.empty"
    using xml_hash_create [OF assms] by blast
  then have empty: "swish_hash_fetch H h = Map.empty" by (simp add: fun_eq_iff swish_hash_fetch_def)
  have "distinct (map fst mime_pairs)"
    using distinct_take [OF mime_keys_distinct, of 153] by (simp add: mime_pairs_def take_map)
  moreover have "inj_on lit A" for A by (rule inj_onI) (simp add: lit_inj)
  ultimately have "distinct (map lit (map fst mime_pairs))"
    by (simp only: distinct_map [of lit])
  then have "distinct (map fst ?es)" by (simp add: comp_def case_prod_beta)
  from table.add_all_new [OF assms this, of h] obtain m where
    "fold_res (\<lambda>e h. bnd (swish_hash_add H h (fst e) (snd e)) (\<lambda>(h', _). Inr h')) ?es h = Inr m"
    "swish_hash_fetch H m = swish_hash_fetch H h ++ map_of ?es"
    by (auto simp: empty)
  then show ?thesis
    using mime_loop_fold [of 0 H h] h(1) empty
    by (auto simp: swish_mime_defaults_def swish_hash_init_def)
qed

text \<open>
  C20: the MIME table of a new configuration. Building it never fails, and each of the first
  153 extensions of the built-in table has its type. The loop stops at the number the macro
  gives and not at the end of the table: the last pair, \<open>zip\<close>, is never entered, and files
  with that extension are taken for HTML.
\<close>

theorem mime_defaults_lack_zip:
  assumes "cf_lib_ok L"
  shows "\<exists>m. swish_mime_defaults (cl_tab L) = Inr m \<and>
    (\<forall>(ext, type) \<in> set (take 153 (string_pairs SWISH_MIME_TABLE)).
       swish_mime_get_type L (config\<lparr>cf_mimes := Some m\<rparr>) (lit ext) = lit type) \<and>
    last (string_pairs SWISH_MIME_TABLE) = (''zip'', ''application/zip'') \<and>
    swish_mime_get_type L (config\<lparr>cf_mimes := Some m\<rparr>) (lit ''zip'') = lit ''text/html''"
proof -
  have "xml_hash_ok (cl_tab L)" using assms by (simp add: cf_lib_ok_def)
  then obtain m where m: "swish_mime_defaults (cl_tab L) = Inr m"
    "swish_hash_fetch (cl_tab L) m = map_of (map (\<lambda>(a, b). (lit a, lit b)) mime_pairs)"
    using mime_defaults_rep by blast
  have map_lit: "map_of (map (\<lambda>(a, b). (lit a, lit b)) es) (lit k) = map_option lit (map_of es k)" for es k
    by (induction es) (auto simp: lit_inj)
  have d: "distinct (map fst mime_pairs)"
    using distinct_take [OF mime_keys_distinct, of 153] by (simp add: mime_pairs_def take_map)
  have last: "last (string_pairs SWISH_MIME_TABLE) = (''zip'', ''application/zip'')"
    by (simp add: SWISH_MIME_TABLE_def)
  have "length (string_pairs SWISH_MIME_TABLE) = 154" by (simp add: SWISH_MIME_TABLE_def)
  moreover from this have "string_pairs SWISH_MIME_TABLE \<noteq> []" by auto
  ultimately have split: "string_pairs SWISH_MIME_TABLE = mime_pairs @ [(''zip'', ''application/zip'')]"
    using last append_butlast_last_id [of "string_pairs SWISH_MIME_TABLE"]
    by (auto simp: mime_pairs_def butlast_conv_take)
  then have "''zip'' \<notin> set (map fst mime_pairs)" using mime_keys_distinct by simp
  then have "map_of mime_pairs ''zip'' = None" by (simp add: map_of_eq_None_iff)
  moreover have "map_of mime_pairs ext = Some type" if "(ext, type) \<in> set mime_pairs" for ext type
    using that d by simp
  ultimately show ?thesis
    using m last
    by (auto simp: swish_mime_get_type_def map_lit SWISH_DEFAULT_MIME_def simp flip: mime_pairs_def
        simp del: lit_Cons)
qed

lemma mime_defaults_lack_zip_witness:
  "\<exists>m. swish_mime_defaults (ref_hash :: ((bytes \<times> bytes) list, bytes) xml_hash) = Inr m \<and>
    last (string_pairs SWISH_MIME_TABLE) = (''zip'', ''application/zip'')"
  using mime_defaults_lack_zip [of "\<lparr>cl_str = ref_str, cl_tab = ref_hash, cl_ptr = ref_hash\<rparr>"]
  by (auto simp: cf_lib_ok_def)

section \<open>Merging flags\<close>

lemma string_to_boolean_total: "\<exists>b. swish_string_to_boolean (Some (cobj v)) = Inr b"
  by (cases v; cases "tl v") (auto simp: swish_string_to_boolean_def cobj_def rd_def)

lemma misc_flag_total: "\<exists>b. misc_flag L config2 key old = Inr b"
  using string_to_boolean_total by (auto simp: misc_flag_def split: option.splits)

definition known_undef :: "('s, 'p) cf_lib \<Rightarrow> ('s, 'p) swish_Config \<Rightarrow> bool" where
  "known_undef L config \<longleftrightarrow>
     (\<forall>v. swish_hash_fetch (cl_tab L) (cf_misc config) (lit ''UndefinedMetaTags'') = Some v \<longrightarrow>
        v \<in> lit ` {''error'', ''ignore'', ''index'', ''auto'', ''autoall''}) \<and>
     (\<forall>v. swish_hash_fetch (cl_tab L) (cf_misc config) (lit ''UndefinedXMLAttributes'') = Some v \<longrightarrow>
        v \<in> lit ` {''error'', ''ignore'', ''index'', ''auto'', ''autoall'', ''disable''})"

lemma misc_undef_total:
  assumes "xml_str_ok (cl_str L)" and "known_undef L config"
  shows "\<exists>m. misc_undef_metas L config old = Inr m" and "\<exists>a. misc_undef_attrs L config old' = Inr a"
  using assms
  by (auto simp: known_undef_def misc_undef_metas_def misc_undef_attrs_def lib_laws Let_def lit_inj
      simp del: lit_Cons split: option.splits)

text \<open>
  Where a flag comes from: the \<open>misc\<close> entry \<open>key\<close> of a configuration, read by \<open>reads\<close>, when
  there is one, and otherwise the value \<open>old\<close>. The values the documentation names for
  undefined tags and attributes are a table.
\<close>

definition flag_from :: "('s, 'p) cf_lib \<Rightarrow> ('s, 'p) swish_Config \<Rightarrow> string \<Rightarrow> (bytes \<Rightarrow> 'a \<Rightarrow> bool) \<Rightarrow>
    'a \<Rightarrow> 'a \<Rightarrow> bool" where
  "flag_from L config key reads old new \<longleftrightarrow>
     (case swish_hash_fetch (cl_tab L) (cf_misc config) (lit key) of None \<Rightarrow> new = old | Some v \<Rightarrow> reads v new)"

definition reads_boolean :: "bytes \<Rightarrow> bool \<Rightarrow> bool" where
  "reads_boolean v b \<longleftrightarrow> swish_string_to_boolean (Some (cobj v)) = Inr b"

definition undef_metas_values :: "(string \<times> undef_metas) list" where
  "undef_metas_values = [(''error'', UNDEF_METAS_ERROR), (''ignore'', UNDEF_METAS_IGNORE),
     (''index'', UNDEF_METAS_INDEX), (''auto'', UNDEF_METAS_AUTO), (''autoall'', UNDEF_METAS_AUTOALL)]"

definition undef_attrs_values :: "(string \<times> undef_attrs) list" where
  "undef_attrs_values = [(''error'', UNDEF_ATTRS_ERROR), (''ignore'', UNDEF_ATTRS_IGNORE),
     (''index'', UNDEF_ATTRS_INDEX), (''auto'', UNDEF_ATTRS_AUTO), (''autoall'', UNDEF_ATTRS_AUTOALL),
     (''disable'', UNDEF_ATTRS_DISABLE)]"

definition named_in :: "(string \<times> 'a) list \<Rightarrow> bytes \<Rightarrow> 'a \<Rightarrow> bool" where
  "named_in table v x \<longleftrightarrow> (\<exists>(s, y) \<in> set table. lit s = v \<and> y = x)"

lemma misc_flag_from: "\<exists>b. misc_flag L config key old = Inr b \<and> flag_from L config key reads_boolean old b"
  using string_to_boolean_total
  by (auto simp: misc_flag_def flag_from_def reads_boolean_def split: option.splits)

lemma misc_undef_from:
  assumes "xml_str_ok (cl_str L)" and "known_undef L config"
  shows "\<exists>m. misc_undef_metas L config old = Inr m \<and>
      flag_from L config ''UndefinedMetaTags'' (named_in undef_metas_values) old m"
    and "\<exists>a. misc_undef_attrs L config old' = Inr a \<and>
      flag_from L config ''UndefinedXMLAttributes'' (named_in undef_attrs_values) old' a"
  using assms
  by (auto simp: known_undef_def misc_undef_metas_def misc_undef_attrs_def flag_from_def named_in_def
      undef_metas_values_def undef_attrs_values_def lib_laws Let_def lit_inj
      simp del: lit_Cons split: option.splits)

text \<open>
  C17: the flags after a merge. With known values for undefined tags and attributes the merge
  of the flags returns, both configurations then have the same flags, and each of the six is
  what the second configuration's \<open>misc\<close> entry says when there is one (a boolean, or the
  value the entry names) and otherwise what the second configuration had: never what the first
  one had, so that merging a configuration that says nothing of a flag resets it. The largest
  ids are the maxima.
\<close>

theorem merge_flags_from_second:
  assumes "cf_lib_ok L" and "known_undef L config2"
  shows "\<exists>f1 f2. merge_flags L config2 flags1 = Inr (f1, f2) \<and>
    fl_tokenize f1 = fl_tokenize f2 \<and> fl_cascade_meta_context f1 = fl_cascade_meta_context f2 \<and>
    fl_ignore_xmlns f1 = fl_ignore_xmlns f2 \<and> fl_follow_xinclude f1 = fl_follow_xinclude f2 \<and>
    fl_undef_metas f1 = fl_undef_metas f2 \<and> fl_undef_attrs f1 = fl_undef_attrs f2 \<and>
    flag_from L config2 ''Tokenize'' reads_boolean
      (fl_tokenize (cf_flags config2)) (fl_tokenize f1) \<and>
    flag_from L config2 ''CascadeMetaContext'' reads_boolean
      (fl_cascade_meta_context (cf_flags config2)) (fl_cascade_meta_context f1) \<and>
    flag_from L config2 ''IgnoreXMLNameSpaces'' reads_boolean
      (fl_ignore_xmlns (cf_flags config2)) (fl_ignore_xmlns f1) \<and>
    flag_from L config2 ''FollowXInclude'' reads_boolean
      (fl_follow_xinclude (cf_flags config2)) (fl_follow_xinclude f1) \<and>
    flag_from L config2 ''UndefinedMetaTags'' (named_in undef_metas_values)
      (fl_undef_metas (cf_flags config2)) (fl_undef_metas f1) \<and>
    flag_from L config2 ''UndefinedXMLAttributes'' (named_in undef_attrs_values)
      (fl_undef_attrs (cf_flags config2)) (fl_undef_attrs f1) \<and>
    fl_max_meta_id f1 = max (fl_max_meta_id flags1) (fl_max_meta_id (cf_flags config2)) \<and>
    fl_max_prop_id f1 = max (fl_max_prop_id flags1) (fl_max_prop_id (cf_flags config2))"
proof -
  let ?f = "cf_flags config2"
  have X: "xml_str_ok (cl_str L)" using assms(1) by (simp add: cf_lib_ok_def)
  show ?thesis
    using misc_flag_from [of L config2 "''Tokenize''" "fl_tokenize ?f"]
      misc_flag_from [of L config2 "''CascadeMetaContext''" "fl_cascade_meta_context ?f"]
      misc_flag_from [of L config2 "''IgnoreXMLNameSpaces''" "fl_ignore_xmlns ?f"]
      misc_flag_from [of L config2 "''FollowXInclude''" "fl_follow_xinclude ?f"]
      misc_undef_from(1) [OF X assms(2), of "fl_undef_metas ?f"]
      misc_undef_from(2) [OF X assms(2), of "fl_undef_attrs ?f"]
    by (elim exE conjE) (simp add: merge_flags_def Let_def)
qed

lemma merge_flags_from_second_witness:
  fixes c and fl1 fl2
  defines "fl1 \<equiv> \<lparr>fl_tokenize = True, fl_cascade_meta_context = True, fl_ignore_xmlns = True,
      fl_follow_xinclude = True, fl_undef_metas = UNDEF_METAS_ERROR, fl_undef_attrs = UNDEF_ATTRS_ERROR,
      fl_max_meta_id = 12, fl_max_prop_id = 6, fl_meta_ids = [], fl_prop_ids = []\<rparr>"
  defines "fl2 \<equiv> \<lparr>fl_tokenize = True, fl_cascade_meta_context = False, fl_ignore_xmlns = True,
      fl_follow_xinclude = True, fl_undef_metas = UNDEF_METAS_INDEX, fl_undef_attrs = UNDEF_ATTRS_DISABLE,
      fl_max_meta_id = 1, fl_max_prop_id = 8, fl_meta_ids = [], fl_prop_ids = []\<rparr>"
  defines "c \<equiv> \<lparr>cf_ref_cnt = 0, cf_misc = [(lit ''Tokenize'', lit ''no''), (lit ''UndefinedMetaTags'', lit ''auto'')],
      cf_properties = [], cf_metanames = [],
      cf_tag_aliases = [], cf_parsers = [], cf_mimes = None, cf_index = [], cf_stringlists = [], cf_flags = fl2\<rparr>"
  shows "\<exists>f1 f2. merge_flags \<lparr>cl_str = ref_str, cl_tab = ref_hash, cl_ptr = ref_hash\<rparr> c fl1 = Inr (f1, f2) \<and>
    \<not> fl_tokenize f1 \<and> \<not> fl_cascade_meta_context f1 \<and> fl_undef_metas f1 = UNDEF_METAS_AUTO \<and>
    fl_undef_attrs f1 = UNDEF_ATTRS_DISABLE \<and> fl_max_meta_id f1 = 12 \<and> fl_max_prop_id f1 = 8"
proof -
  let ?L = "\<lparr>cl_str = ref_str, cl_tab = ref_hash, cl_ptr = ref_hash\<rparr>"
  have fetch: "swish_hash_fetch ref_hash (cf_misc c) k =
      (if k = lit ''Tokenize'' then Some (lit ''no'')
       else if k = lit ''UndefinedMetaTags'' then Some (lit ''auto'') else None)" for k
    by (simp add: c_def swish_hash_fetch_def ref_hash_def del: lit_Cons)
  have known: "known_undef ?L c" by (simp add: known_undef_def fetch lit_inj del: lit_Cons)
  have no: "reads_boolean (lit ''no'') b \<longleftrightarrow> \<not> b" for b
    by (auto simp: reads_boolean_def swish_string_to_boolean_def cobj_def rd_def)
  have auto: "named_in undef_metas_values (lit ''auto'') m \<longleftrightarrow> m = UNDEF_METAS_AUTO" for m
    by (auto simp: named_in_def undef_metas_values_def lit_inj simp del: lit_Cons)
  have "cf_flags c = fl2" by (simp add: c_def)
  then show ?thesis
    using merge_flags_from_second [of ?L c fl1] known
    by (auto simp: cf_lib_ok_def flag_from_def fetch lit_inj no auto fl1_def fl2_def simp del: lit_Cons)
qed

section \<open>What a merge leaves behind\<close>

text \<open>
  C18: a dangling alias. When the first configuration has a property with an alias and the
  second has the same property without one, the merge releases the alias and keeps the
  pointer; merging again, or freeing the property, uses it after it was released.
\<close>

theorem merged_alias_dangles:
  assumes "swish_hash_fetch (cl_ptr L) props1 name = Some a1"
    and "a1 < length (h_props hp)" and "h_props hp ! a1 = Some p1" and "pr_alias_for p1 = Cell s"
    and "a2 < length (h_props hp)" and "h_props hp ! a2 = Some p2" and "pr_alias_for p2 = NullCell"
    and "a1 \<noteq> a2" and "pr_ref_cnt p1 = 1"
  shows "\<exists>hp'. copy_property L (name, a2) (props1, hp) = Inr (props1, hp') \<and>
    copy_property L (name, a2) (props1, hp') = Inl UseAfterFree \<and>
    free_props (name, a1) hp' = Inl UseAfterFree"
  using assms
  by (simp add: copy_property_def copy_alias_def free_cell_def free_props_def swish_property_free_def)

lemma merged_alias_dangles_witness:
  fixes p q hp
  defines "p \<equiv> (swish_property_init [0x61])\<lparr>pr_alias_for := Cell [0x62], pr_ref_cnt := 1\<rparr>"
  defines "q \<equiv> swish_property_init [0x61]"
  defines "hp \<equiv> \<lparr>h_metas = [], h_props = [Some p, Some q], h_lists = []\<rparr>"
  shows "\<exists>hp'. copy_property \<lparr>cl_str = ref_str, cl_tab = (ref_hash :: ((bytes \<times> bytes) list, bytes) xml_hash), cl_ptr = ref_hash\<rparr>
      ([0x61], 1) ([([0x61], 0)], hp) = Inr ([([0x61], 0)], hp') \<and> free_props ([0x61], 0) hp' = Inl UseAfterFree"
  using merged_alias_dangles [of "\<lparr>cl_str = ref_str, cl_tab = (ref_hash :: ((bytes \<times> bytes) list, bytes) xml_hash), cl_ptr = ref_hash\<rparr>"
      "[([0x61], 0)]" "[0x61]" 0 hp p "[0x62]" 1 q]
  by (auto simp: hp_def p_def q_def swish_property_init_def swish_hash_fetch_def ref_hash_def)

text \<open>
  C19: a list with two owners. When both configurations have a string list of the same name,
  the merge appends the second list to the first and releases it, while the second
  configuration's table still points to it: freeing that configuration releases it again.
\<close>

theorem merged_stringlist_freed_twice:
  assumes "swish_hash_fetch (cl_ptr L) lists1 key = Some a1"
    and "xmlHashEntries (cl_ptr L) (cf_stringlists config2) = [(key, a2)]" and "a1 \<noteq> a2"
    and "a1 < length (h_lists hp)" and "h_lists hp ! a1 = Some l1" and "sl_rep l1 ws1"
    and "a2 < length (h_lists hp)" and "h_lists hp ! a2 = Some l2" and "sl_rep l2 ws2"
  shows "\<exists>l hp'. merge_stringlists L lists1 (cf_stringlists config2) hp = Inr (lists1, hp') \<and>
    h_lists hp' ! a1 = Some l \<and> sl_word l = map Word (ws1 @ ws2) \<and>
    free_stringlists L config2 hp' = Inl UseAfterFree"
proof -
  obtain l where l: "swish_stringlist_merge l2 l1 = Inr l" "sl_word l = map Word (ws1 @ ws2)"
    using merge_rep [OF assms(9,6)] by blast
  let ?hp = "hp\<lparr>h_lists := (h_lists hp)[a1 := Some l, a2 := None]\<rparr>"
  have "merge_stringlists L lists1 (cf_stringlists config2) hp = Inr (lists1, ?hp)"
    using assms(1-5,7,8) l(1) by (simp add: merge_stringlists_def copy_strlist_def)
  moreover have "free_stringlists L config2 ?hp = Inl UseAfterFree"
    using assms(2,7) by (simp add: free_stringlists_def free_stringlist_def)
  moreover have "h_lists ?hp ! a1 = Some l" using assms(3,4) by simp
  ultimately show ?thesis using l(2) by blast
qed

lemma merged_stringlist_freed_twice_witness:
  fixes c and fl and l1 and l2
  defines "fl \<equiv> \<lparr>fl_tokenize = True, fl_cascade_meta_context = False, fl_ignore_xmlns = True,
      fl_follow_xinclude = True, fl_undef_metas = UNDEF_METAS_INDEX, fl_undef_attrs = UNDEF_ATTRS_DISABLE,
      fl_max_meta_id = 1, fl_max_prop_id = 6, fl_meta_ids = [], fl_prop_ids = []\<rparr>"
  defines "c \<equiv> \<lparr>cf_ref_cnt = 0, cf_misc = ([] :: (bytes \<times> bytes) list), cf_properties = [], cf_metanames = [],
      cf_tag_aliases = [], cf_parsers = [], cf_mimes = None, cf_index = [], cf_stringlists = [([0x77], 1)],
      cf_flags = fl\<rparr>"
  shows "\<exists>l hp'. merge_stringlists \<lparr>cl_str = ref_str, cl_tab = ref_hash, cl_ptr = ref_hash\<rparr> [([0x77], 0)]
      (cf_stringlists c) \<lparr>h_metas = [], h_props = [], h_lists = [Some swish_stringlist_init, Some swish_stringlist_init]\<rparr>
    = Inr ([([0x77], 0)], hp') \<and> h_lists hp' ! 0 = Some l \<and> sl_word l = map Word ([] @ []) \<and>
    free_stringlists \<lparr>cl_str = ref_str, cl_tab = ref_hash, cl_ptr = ref_hash\<rparr> c hp' = Inl UseAfterFree"
  by (rule merged_stringlist_freed_twice [of _ _ "[0x77]" 0 c 1 _ "swish_stringlist_init" "[]" "swish_stringlist_init" "[]"])
    (simp_all add: c_def swish_hash_fetch_def ref_hash_def sl_rep_def swish_stringlist_init_def)

end
