(* ===== verification/Config_Typed.thy ===== *)
theory Config_Typed
  imports Config_Correct
begin

text \<open>
  A typing of the tables of a configuration: what they hold are the addresses of live objects
  that know the name and the id they are entered under. A configuration made by
  \<open>swish_config_init\<close> and \<open>swish_config_set_default\<close> is typed, and the creation of metanames and
  properties (\<open>metaname.c\<close>, \<open>property.c\<close>) keeps it so and never fails.
\<close>

section \<open>A pair of tables, by name and by id\<close>

definition table_typed ::
  "('a \<Rightarrow> bytes) \<Rightarrow> ('a \<Rightarrow> int) \<Rightarrow> ('a \<Rightarrow> bool) \<Rightarrow> (bytes \<Rightarrow> nat option) \<Rightarrow> (bytes \<Rightarrow> nat option) \<Rightarrow> int \<Rightarrow> 'a option list \<Rightarrow> bool" where
  "table_typed name_of id_of ok names ids mx objs \<longleftrightarrow>
     (\<forall>k a. names k = Some a \<longrightarrow>
        (\<exists>m. obj_at objs a = Inr m \<and> name_of m = k \<and> 0 \<le> id_of m \<and> id_of m \<le> mx \<and> ok m \<and>
           ids (swish_int_to_string (id_of m)) = Some a)) \<and>
     (\<forall>s a. ids s = Some a \<longrightarrow>
        (\<exists>m. obj_at objs a = Inr m \<and> s = swish_int_to_string (id_of m) \<and> names (name_of m) = Some a)) \<and>
     mx < 2 ^ 31"

lemma table_typed_empty: "table_typed name_of id_of ok Map.empty Map.empty (-1) objs"
  by (simp add: table_typed_def)

lemma typed_name:
  assumes "table_typed name_of id_of ok names ids mx objs" and "names k = Some a"
  obtains m where "obj_at objs a = Inr m" "name_of m = k" "0 \<le> id_of m" "id_of m \<le> mx" "ok m"
    "ids (swish_int_to_string (id_of m)) = Some a"
  using assms unfolding table_typed_def by blast

lemma typed_id:
  assumes "table_typed name_of id_of ok names ids mx objs" and "ids s = Some a"
  obtains m where "obj_at objs a = Inr m" "s = swish_int_to_string (id_of m)" "names (name_of m) = Some a"
  using assms unfolding table_typed_def by blast

lemma typed_max: "table_typed name_of id_of ok names ids mx objs \<Longrightarrow> mx < 2 ^ 31"
  by (simp add: table_typed_def)

lemma int_to_string_inj:
  assumes "0 \<le> i" "i < 2 ^ 31" "0 \<le> j" "j < 2 ^ 31" and "swish_int_to_string i = swish_int_to_string j"
  shows "i = j"
  using assms int_text(1) [of i] int_text(1) [of j] by (simp add: int_ok_def dec_int_inj)

lemma obj_at_append: "obj_at objs a = Inr m \<Longrightarrow> obj_at (objs @ x) a = Inr m"
  by (auto simp: obj_at_def bnd_eq_Inr rd_Inr_iff nth_append split: option.splits)

lemma obj_at_last [simp]: "obj_at (objs @ [Some m]) (length objs) = Inr m"
  by (simp add: obj_at_def rd_def)

text \<open>An id above the largest is free, and so is any id that no object has.\<close>

lemma id_free:
  assumes "table_typed name_of id_of ok names ids mx objs" and "0 \<le> i" "i < 2 ^ 31"
    and "\<And>k a m. names k = Some a \<Longrightarrow> obj_at objs a = Inr m \<Longrightarrow> id_of m \<noteq> i"
  shows "ids (swish_int_to_string i) = None"
proof (rule ccontr)
  assume "ids (swish_int_to_string i) \<noteq> None"
  then obtain a m where a: "obj_at objs a = Inr m" "swish_int_to_string i = swish_int_to_string (id_of m)"
      "names (name_of m) = Some a"
    by (auto elim: typed_id [OF assms(1)])
  moreover obtain "0 \<le> id_of m" "id_of m \<le> mx"
    by (rule typed_name [OF assms(1) a(3)]) (use a(1) in simp)
  ultimately show False
    using int_to_string_inj [of i "id_of m"] typed_max [OF assms(1)] assms(2-4) by fastforce
qed

lemma table_typed_add:
  assumes T: "table_typed name_of id_of ok names ids mx objs"
    and "names k = None" and "ids (swish_int_to_string i) = None"
    and "name_of m = k" "id_of m = i" "ok m" and "0 \<le> i" and "mx' = (if mx < i then i else mx)" "i < 2 ^ 31"
  shows "table_typed name_of id_of ok (names(k \<mapsto> length objs)) (ids(swish_int_to_string i \<mapsto> length objs)) mx' (objs @ [Some m])"
proof -
  have names: "\<exists>m'. obj_at (objs @ [Some m]) a = Inr m' \<and> name_of m' = j \<and> 0 \<le> id_of m' \<and> id_of m' \<le> mx' \<and> ok m' \<and>
      (ids(swish_int_to_string i \<mapsto> length objs)) (swish_int_to_string (id_of m')) = Some a"
    if "(names(k \<mapsto> length objs)) j = Some a" for j a
  proof (cases "j = k")
    case True
    then show ?thesis using that assms(4-8) by auto
  next
    case False
    then have "names j = Some a" using that by simp
    then obtain m' where "obj_at objs a = Inr m'" "name_of m' = j" "0 \<le> id_of m'" "id_of m' \<le> mx" "ok m'"
        "ids (swish_int_to_string (id_of m')) = Some a"
      by (rule typed_name [OF T])
    then show ?thesis using assms(3,8) by (intro exI [of _ m']) (auto simp: obj_at_append)
  qed
  have ids: "\<exists>m'. obj_at (objs @ [Some m]) a = Inr m' \<and> s = swish_int_to_string (id_of m') \<and>
      (names(k \<mapsto> length objs)) (name_of m') = Some a"
    if "(ids(swish_int_to_string i \<mapsto> length objs)) s = Some a" for s a
  proof (cases "s = swish_int_to_string i")
    case True
    then show ?thesis using that assms(4,5) by auto
  next
    case False
    then have "ids s = Some a" using that by simp
    then obtain m' where "obj_at objs a = Inr m'" "s = swish_int_to_string (id_of m')" "names (name_of m') = Some a"
      by (rule typed_id [OF T])
    then show ?thesis using assms(2) by (intro exI [of _ m']) (auto simp: obj_at_append)
  qed
  show ?thesis
    using names ids typed_max [OF T] assms(8,9) unfolding table_typed_def by (intro conjI allI impI) simp_all
qed

lemma table_typed_fresh:
  assumes "table_typed name_of id_of ok names ids mx objs" and "-1 \<le> mx" and "mx + 1 < 2 ^ 31"
  shows "ids (swish_int_to_string (mx + 1)) = None"
proof (rule id_free [OF assms(1)])
  fix k a m
  assume "names k = Some a" and m: "obj_at objs a = Inr m"
  from typed_name [OF assms(1) this(1)] show "id_of m \<noteq> mx + 1" using m by force
qed (use assms in simp_all)

text \<open>Two names never share an object.\<close>

lemma table_typed_distinct:
  assumes "table_typed name_of id_of ok (map_of es) ids mx objs" and "distinct (map fst es)"
  shows "distinct (map snd es)"
proof -
  have "inj_on snd (set es)"
  proof (rule inj_onI)
    fix x y
    assume "x \<in> set es" "y \<in> set es" "snd x = snd y"
    then obtain a where "map_of es (fst x) = Some a" "map_of es (fst y) = Some a"
      using assms(2) by (metis map_of_eq_Some_iff prod.collapse)
    then have "fst x = fst y" by (metis typed_name [OF assms(1)] sum.inject(2))
    with \<open>snd x = snd y\<close> show "x = y" by (simp add: prod_eq_iff)
  qed
  moreover have "distinct es" using assms(2) by (simp add: distinct_map)
  ultimately show ?thesis by (simp add: distinct_map)
qed

section \<open>Typed configurations\<close>

definition config_typed :: "('s, 'p) cf_lib \<Rightarrow> ('s, 'p) swish_Config \<Rightarrow> heap \<Rightarrow> bool" where
  "config_typed L cf hp \<longleftrightarrow>
     table_typed mn_name mn_id (\<lambda>m. mn_ref_cnt m = 1 \<and> mn_alias_for m = NullCell)
       (swish_hash_fetch (cl_ptr L) (cf_metanames cf)) (swish_hash_fetch (cl_ptr L) (fl_meta_ids (cf_flags cf)))
       (fl_max_meta_id (cf_flags cf)) (h_metas hp) \<and>
     table_typed pr_name pr_id (\<lambda>p. pr_ref_cnt p = 1 \<and> pr_alias_for p = NullCell)
       (swish_hash_fetch (cl_ptr L) (cf_properties cf)) (swish_hash_fetch (cl_ptr L) (fl_prop_ids (cf_flags cf)))
       (fl_max_prop_id (cf_flags cf)) (h_props hp) \<and>
     -1 \<le> fl_max_meta_id (cf_flags cf) \<and> -1 \<le> fl_max_prop_id (cf_flags cf) \<and>
     (\<forall>k. swish_hash_fetch (cl_ptr L) (cf_stringlists cf) k = None)"

abbreviation meta_names :: "('s, 'p) cf_lib \<Rightarrow> ('s, 'p) swish_Config \<Rightarrow> bytes set" where
  "meta_names L cf \<equiv> dom (swish_hash_fetch (cl_ptr L) (cf_metanames cf))"

abbreviation prop_names_of :: "('s, 'p) cf_lib \<Rightarrow> ('s, 'p) swish_Config \<Rightarrow> bytes set" where
  "prop_names_of L cf \<equiv> dom (swish_hash_fetch (cl_ptr L) (cf_properties cf))"

lemma hash_init_empty:
  assumes "xml_hash_ok H"
  obtains h where "swish_hash_init H n = Inr h" "swish_hash_fetch H h = Map.empty"
  by (rule xml_hash_create [OF assms, of n]) (auto simp: swish_hash_init_def swish_hash_fetch_def fun_eq_iff)

text \<open>An object of either kind with an id no other has.\<close>

lemma add_meta:
  assumes "cf_lib_ok L" and T: "config_typed L cf hp" and "name \<notin> meta_names L cf"
    and "0 \<le> i" "i < 2 ^ 31"
    and free: "swish_hash_fetch (cl_ptr L) (fl_meta_ids (cf_flags cf)) (swish_int_to_string i) = None"
    and mx: "first \<or> fl_max_meta_id (cf_flags cf) < i \<longleftrightarrow> fl_max_meta_id (cf_flags cf) < i"
  shows "\<exists>cf' hp'. add_default_meta L (name, i, first) (cf, hp) = Inr (cf', hp') \<and> config_typed L cf' hp' \<and>
    meta_names L cf' = insert name (meta_names L cf) \<and> prop_names_of L cf' = prop_names_of L cf \<and>
    fl_max_meta_id (cf_flags cf') = max (fl_max_meta_id (cf_flags cf)) i \<and>
    fl_max_prop_id (cf_flags cf') = fl_max_prop_id (cf_flags cf) \<and> cf_parsers cf' = cf_parsers cf \<and>
    cf_index cf' = cf_index cf \<and> cf_tag_aliases cf' = cf_tag_aliases cf"
proof -
  have H: "xml_hash_ok (cl_ptr L)" using assms(1) by (simp add: cf_lib_ok_def)
  have n: "swish_hash_fetch (cl_ptr L) (cf_metanames cf) name = None" using assms(3) by auto
  let ?a = "length (h_metas hp)"
  obtain ids where ids: "put_in (cl_ptr L) (fl_meta_ids (cf_flags cf)) (swish_int_to_string i) ?a = Inr ids"
    "swish_hash_fetch (cl_ptr L) ids = (swish_hash_fetch (cl_ptr L) (fl_meta_ids (cf_flags cf)))(swish_int_to_string i \<mapsto> ?a)"
    using put_in_new [OF H free] by blast
  obtain metas where metas: "put_in (cl_ptr L) (cf_metanames cf) name ?a = Inr metas"
    "swish_hash_fetch (cl_ptr L) metas = (swish_hash_fetch (cl_ptr L) (cf_metanames cf))(name \<mapsto> ?a)"
    using put_in_new [OF H n] by blast
  let ?m = "(swish_metaname_init name)\<lparr>mn_ref_cnt := 1, mn_id := i\<rparr>"
  let ?mx = "if fl_max_meta_id (cf_flags cf) < i then i else fl_max_meta_id (cf_flags cf)"
  have "table_typed mn_name mn_id (\<lambda>m. mn_ref_cnt m = 1 \<and> mn_alias_for m = NullCell)
       (swish_hash_fetch (cl_ptr L) metas) (swish_hash_fetch (cl_ptr L) ids) ?mx (h_metas hp @ [Some ?m])"
    unfolding metas(2) ids(2)
    using T assms(4,5) n free unfolding config_typed_def
    by (intro table_typed_add) (auto simp: swish_metaname_init_def)
  then show ?thesis
    using T assms(4) by (auto simp: add_default_meta_def Let_def ids(1) metas mx config_typed_def)
qed

lemma add_prop:
  assumes "cf_lib_ok L" and T: "config_typed L cf hp" and "name \<notin> prop_names_of L cf"
    and "0 \<le> i" "i < 2 ^ 31"
    and free: "swish_hash_fetch (cl_ptr L) (fl_prop_ids (cf_flags cf)) (swish_int_to_string i) = None"
    and mx: "first \<or> fl_max_prop_id (cf_flags cf) < i \<longleftrightarrow> fl_max_prop_id (cf_flags cf) < i"
  shows "\<exists>cf' hp'. add_default_prop L (name, i, sort', first) (cf, hp) = Inr (cf', hp') \<and> config_typed L cf' hp' \<and>
    prop_names_of L cf' = insert name (prop_names_of L cf) \<and> meta_names L cf' = meta_names L cf \<and>
    swish_hash_fetch (cl_ptr L) (fl_prop_ids (cf_flags cf')) =
      (swish_hash_fetch (cl_ptr L) (fl_prop_ids (cf_flags cf)))(swish_int_to_string i \<mapsto> length (h_props hp)) \<and>
    fl_max_prop_id (cf_flags cf') = max (fl_max_prop_id (cf_flags cf)) i \<and>
    fl_max_meta_id (cf_flags cf') = fl_max_meta_id (cf_flags cf) \<and> cf_parsers cf' = cf_parsers cf \<and>
    cf_index cf' = cf_index cf \<and> cf_tag_aliases cf' = cf_tag_aliases cf"
proof -
  have H: "xml_hash_ok (cl_ptr L)" using assms(1) by (simp add: cf_lib_ok_def)
  have n: "swish_hash_fetch (cl_ptr L) (cf_properties cf) name = None" using assms(3) by auto
  let ?a = "length (h_props hp)"
  obtain ids where ids: "put_in (cl_ptr L) (fl_prop_ids (cf_flags cf)) (swish_int_to_string i) ?a = Inr ids"
    "swish_hash_fetch (cl_ptr L) ids = (swish_hash_fetch (cl_ptr L) (fl_prop_ids (cf_flags cf)))(swish_int_to_string i \<mapsto> ?a)"
    using put_in_new [OF H free] by blast
  obtain props where props: "put_in (cl_ptr L) (cf_properties cf) name ?a = Inr props"
    "swish_hash_fetch (cl_ptr L) props = (swish_hash_fetch (cl_ptr L) (cf_properties cf))(name \<mapsto> ?a)"
    using put_in_new [OF H n] by blast
  let ?p = "(swish_property_init name)\<lparr>pr_ref_cnt := 1, pr_id := i, pr_sort := sort'\<rparr>"
  let ?mx = "if fl_max_prop_id (cf_flags cf) < i then i else fl_max_prop_id (cf_flags cf)"
  have "table_typed pr_name pr_id (\<lambda>p. pr_ref_cnt p = 1 \<and> pr_alias_for p = NullCell)
       (swish_hash_fetch (cl_ptr L) props) (swish_hash_fetch (cl_ptr L) ids) ?mx (h_props hp @ [Some ?p])"
    unfolding props(2) ids(2)
    using T assms(4,5) n free unfolding config_typed_def
    by (intro table_typed_add) (auto simp: swish_property_init_def)
  then show ?thesis
    using T assms(4) by (auto simp: add_default_prop_def Let_def ids props mx config_typed_def)
qed

text \<open>A new object is a default one with the next id.\<close>

lemma metaname_new_eq:
  "swish_metaname_new L name cf hp = add_default_meta L (name, fl_max_meta_id (cf_flags cf) + 1, False) (cf, hp)"
  by (cases cf; cases "cf_flags cf")
    (simp add: swish_metaname_new_def add_default_meta_def Let_def)

lemma property_new_eq:
  assumes "add_default_prop L (name, fl_max_prop_id (cf_flags cf) + 1, True, False) (cf, hp) = Inr st"
  shows "swish_property_new L name cf hp = Inr st"
  using assms
  by (cases cf; cases "cf_flags cf")
    (auto simp: swish_property_new_def add_default_prop_def Let_def bnd_eq_Inr swish_property_init_def)

definition room :: "('s, 'p) swish_Config \<Rightarrow> nat \<Rightarrow> bool" where
  "room cf n \<longleftrightarrow> fl_max_meta_id (cf_flags cf) + int n < 2 ^ 31 \<and> fl_max_prop_id (cf_flags cf) + int n < 2 ^ 31"

datatype creation = NewMeta bytes | NewProp bytes

fun create :: "('s, 'p) cf_lib \<Rightarrow> creation \<Rightarrow> ('s, 'p) swish_Config \<times> heap \<Rightarrow> (('s, 'p) swish_Config \<times> heap) res" where
  "create L (NewMeta name) (cf, hp) = swish_metaname_new L name cf hp"
| "create L (NewProp name) (cf, hp) = swish_property_new L name cf hp"

definition created_metas :: "creation list \<Rightarrow> bytes set" where
  "created_metas cs = {n. NewMeta n \<in> set cs}"

definition created_props :: "creation list \<Rightarrow> bytes set" where
  "created_props cs = {n. NewProp n \<in> set cs}"

lemma created_Cons [simp]:
  "created_metas (NewMeta n # cs) = insert n (created_metas cs)" "created_metas (NewProp n # cs) = created_metas cs"
  "created_props (NewProp n # cs) = insert n (created_props cs)" "created_props (NewMeta n # cs) = created_props cs"
  by (auto simp: created_metas_def created_props_def)

lemma created_Nil [simp]: "created_metas [] = {}" "created_props [] = {}"
  by (simp_all add: created_metas_def created_props_def)

lemma create_step:
  assumes L: "cf_lib_ok L" and T: "config_typed L cf hp" and "room cf (Suc n)"
    and "created_metas [c] \<inter> meta_names L cf = {}" and "created_props [c] \<inter> prop_names_of L cf = {}"
  shows "\<exists>cf' hp'. create L c (cf, hp) = Inr (cf', hp') \<and> config_typed L cf' hp' \<and> room cf' n \<and>
    meta_names L cf' = meta_names L cf \<union> created_metas [c] \<and> prop_names_of L cf' = prop_names_of L cf \<union> created_props [c]"
proof (cases c)
  case (NewMeta name)
  let ?i = "fl_max_meta_id (cf_flags cf) + 1"
  have i: "0 \<le> ?i" "?i < 2 ^ 31" "-1 \<le> fl_max_meta_id (cf_flags cf)" using T assms(3) by (auto simp: config_typed_def room_def)
  have "swish_hash_fetch (cl_ptr L) (fl_meta_ids (cf_flags cf)) (swish_int_to_string ?i) = None"
    using T i(2,3) unfolding config_typed_def by (blast intro: table_typed_fresh)
  from add_meta [OF L T _ i(1,2) this, of name False] show ?thesis
    using assms(3,4) i(3) by (auto simp: NewMeta metaname_new_eq room_def)
next
  case (NewProp name)
  let ?i = "fl_max_prop_id (cf_flags cf) + 1"
  have i: "0 \<le> ?i" "?i < 2 ^ 31" "-1 \<le> fl_max_prop_id (cf_flags cf)" using T assms(3) by (auto simp: config_typed_def room_def)
  have "swish_hash_fetch (cl_ptr L) (fl_prop_ids (cf_flags cf)) (swish_int_to_string ?i) = None"
    using T i(2,3) unfolding config_typed_def by (blast intro: table_typed_fresh)
  from add_prop [OF L T _ i(1,2) this, of name False True] show ?thesis
    using assms(3,5) i(3) by (auto simp: NewProp room_def dest!: property_new_eq)
qed

lemma create_all:
  assumes L: "cf_lib_ok L"
  shows "config_typed L cf hp \<Longrightarrow> room cf (length cs) \<Longrightarrow> distinct cs \<Longrightarrow>
    created_metas cs \<inter> meta_names L cf = {} \<Longrightarrow> created_props cs \<inter> prop_names_of L cf = {} \<Longrightarrow>
    \<exists>cf' hp'. fold_res (create L) cs (cf, hp) = Inr (cf', hp') \<and> config_typed L cf' hp' \<and>
      meta_names L cf' = meta_names L cf \<union> created_metas cs \<and> prop_names_of L cf' = prop_names_of L cf \<union> created_props cs"
proof (induction cs arbitrary: cf hp)
  case (Cons c cs)
  have c: "created_metas (c # cs) = created_metas [c] \<union> created_metas cs" "created_props (c # cs) = created_props [c] \<union> created_props cs"
    by (cases c; simp)+
  have d: "created_metas [c] \<inter> meta_names L cf = {}" "created_props [c] \<inter> prop_names_of L cf = {}"
    using Cons.prems(4,5) unfolding c by blast+
  obtain cf1 hp1 where 1: "create L c (cf, hp) = Inr (cf1, hp1)" "config_typed L cf1 hp1" "room cf1 (length cs)"
    "meta_names L cf1 = meta_names L cf \<union> created_metas [c]" "prop_names_of L cf1 = prop_names_of L cf \<union> created_props [c]"
    using create_step [OF L Cons.prems(1) _ d, of "length cs"] Cons.prems(2) by auto
  have new: "created_metas [c] \<inter> created_metas cs = {}" "created_props [c] \<inter> created_props cs = {}"
    using Cons.prems(3) by (cases c; auto simp: created_metas_def created_props_def)+
  have d2: "created_metas cs \<inter> meta_names L cf1 = {}" "created_props cs \<inter> prop_names_of L cf1 = {}"
    using Cons.prems(4,5) new unfolding c 1(4,5) by blast+
  obtain cf2 hp2 where "fold_res (create L) cs (cf1, hp1) = Inr (cf2, hp2)" "config_typed L cf2 hp2"
    "meta_names L cf2 = meta_names L cf1 \<union> created_metas cs" "prop_names_of L cf2 = prop_names_of L cf1 \<union> created_props cs"
    using Cons.IH [OF 1(2,3) _ d2] Cons.prems(3) by auto
  with 1(1,4,5) show ?case unfolding c by auto
qed auto

section \<open>Release\<close>

lemma free_props_run:
  "distinct (map snd es) \<Longrightarrow>
   \<forall>e \<in> set es. \<exists>p. obj_at (h_props hp) (snd e) = Inr p \<and> pr_alias_for p = NullCell \<Longrightarrow>
   \<exists>hp'. fold_res free_props es hp = Inr hp' \<and> h_metas hp' = h_metas hp \<and> h_lists hp' = h_lists hp"
proof (induction es arbitrary: hp)
  case (Cons e es)
  obtain p where p: "obj_at (h_props hp) (snd e) = Inr p" "pr_alias_for p = NullCell" using Cons.prems(2) by auto
  then obtain c where c: "free_props e hp = Inr (hp\<lparr>h_props := (h_props hp)[snd e := c]\<rparr>)"
    by (cases "pr_ref_cnt p - 1 < 1") (auto simp: free_props_def Let_def swish_property_free_def free_cell_def)
  have "obj_at ((h_props hp)[snd e := c]) a = obj_at (h_props hp) a" if "a \<noteq> snd e" for a
    using that by (simp add: obj_at_def rd_def)
  then have "\<forall>x \<in> set es. \<exists>p. obj_at ((h_props hp)[snd e := c]) (snd x) = Inr p \<and> pr_alias_for p = NullCell"
    using Cons.prems by (auto simp: image_iff) (metis snd_conv)
  then show ?case using Cons.IH [of "hp\<lparr>h_props := (h_props hp)[snd e := c]\<rparr>"] Cons.prems(1) c by simp
qed simp

lemma free_metas_run:
  "distinct (map snd es) \<Longrightarrow>
   \<forall>e \<in> set es. \<exists>m. obj_at (h_metas hp) (snd e) = Inr m \<and> mn_alias_for m = NullCell \<Longrightarrow>
   \<exists>hp'. fold_res free_metas es hp = Inr hp' \<and> h_lists hp' = h_lists hp"
proof (induction es arbitrary: hp)
  case (Cons e es)
  obtain m where m: "obj_at (h_metas hp) (snd e) = Inr m" "mn_alias_for m = NullCell" using Cons.prems(2) by auto
  then obtain c where c: "free_metas e hp = Inr (hp\<lparr>h_metas := (h_metas hp)[snd e := c]\<rparr>)"
    by (cases "mn_ref_cnt m - 1 < 1") (auto simp: free_metas_def Let_def swish_metaname_free_def free_cell_def)
  have "obj_at ((h_metas hp)[snd e := c]) a = obj_at (h_metas hp) a" if "a \<noteq> snd e" for a
    using that by (simp add: obj_at_def rd_def)
  then have "\<forall>x \<in> set es. \<exists>m. obj_at ((h_metas hp)[snd e := c]) (snd x) = Inr m \<and> mn_alias_for m = NullCell"
    using Cons.prems by (auto simp: image_iff) (metis snd_conv)
  then show ?case using Cons.IH [of "hp\<lparr>h_metas := (h_metas hp)[snd e := c]\<rparr>"] Cons.prems(1) c by simp
qed simp

lemma typed_config_free:
  assumes "cf_lib_ok L" and T: "config_typed L cf hp"
  shows "\<exists>hp'. swish_config_free L cf hp = Inr hp'"
proof -
  have H: "xml_hash_ok (cl_ptr L)" using assms(1) by (simp add: cf_lib_ok_def)
  let ?P = "xmlHashEntries (cl_ptr L) (cf_properties cf)" and ?M = "xmlHashEntries (cl_ptr L) (cf_metanames cf)"
  note es = table.entries [OF H] table.entries_distinct [OF H]
  have P: "table_typed pr_name pr_id (\<lambda>p. pr_ref_cnt p = 1 \<and> pr_alias_for p = NullCell) (map_of ?P)
      (swish_hash_fetch (cl_ptr L) (fl_prop_ids (cf_flags cf))) (fl_max_prop_id (cf_flags cf)) (h_props hp)"
   and M: "table_typed mn_name mn_id (\<lambda>m. mn_ref_cnt m = 1 \<and> mn_alias_for m = NullCell) (map_of ?M)
      (swish_hash_fetch (cl_ptr L) (fl_meta_ids (cf_flags cf))) (fl_max_meta_id (cf_flags cf)) (h_metas hp)"
    using T by (simp_all add: config_typed_def es)
  have "\<forall>e \<in> set ?P. \<exists>p. obj_at (h_props hp) (snd e) = Inr p \<and> pr_alias_for p = NullCell"
    using es(2) by (auto intro: typed_name [OF P])
  then obtain hp1 where 1: "fold_res free_props ?P hp = Inr hp1" "h_metas hp1 = h_metas hp"
    using free_props_run [OF table_typed_distinct [OF P es(2)]] by blast
  have "\<forall>e \<in> set ?M. \<exists>m. obj_at (h_metas hp) (snd e) = Inr m \<and> mn_alias_for m = NullCell"
    using es(2) by (auto intro: typed_name [OF M])
  then obtain hp2 where 2: "fold_res free_metas ?M hp1 = Inr hp2"
    using free_metas_run [OF table_typed_distinct [OF M es(2)], of hp1] 1(2) by auto
  have "map_of (xmlHashEntries (cl_ptr L) (cf_stringlists cf)) = Map.empty"
    using T by (auto simp: config_typed_def es(1) fun_eq_iff)
  then have "xmlHashEntries (cl_ptr L) (cf_stringlists cf) = []" by simp
  then show ?thesis using 1(1) 2 by (simp add: swish_config_free_def free_stringlists_def)
qed

section \<open>The defaults\<close>

definition default_metas :: "bytes set" where
  "default_metas = {lit ''swishdefault'', lit ''swishtitle''}"

definition default_props :: "bytes set" where
  "default_props = {lit ''swishdescription'', lit ''swishtitle''}"

lemma put_strings_new:
  assumes "xml_hash_ok H" and "swish_hash_fetch H h = Map.empty" and "distinct (map fst es)"
  shows "\<exists>h'. put_strings H es h = Inr h'"
proof -
  let ?es = "map (\<lambda>(k, v). (lit k, v)) es"
  have "fold_res (\<lambda>(k, v) h. put_in H h (lit k) v) es h = fold_res (\<lambda>e h. bnd (swish_hash_add H h (fst e) (snd e)) (\<lambda>(h', _). Inr h')) ?es h" for h
    by (induction es arbitrary: h) (auto simp: put_in_def intro!: bnd_cong)
  moreover have "distinct (map fst ?es)"
  proof -
    have "map fst ?es = map lit (map fst es)" by auto
    then show ?thesis using assms(3) by (simp only: distinct_map) (auto intro: inj_onI simp: lit_inj)
  qed
  ultimately show ?thesis
    using table.add_all_new [OF assms(1), of ?es h] assms(2) by (auto simp: put_strings_def)
qed

lemma config_init_typed:
  assumes L: "cf_lib_ok L"
  shows "\<exists>cf. swish_config_init L = Inr cf \<and> config_typed L cf hp \<and> meta_names L cf = {} \<and> prop_names_of L cf = {} \<and>
    fl_max_meta_id (cf_flags cf) = -1 \<and> fl_max_prop_id (cf_flags cf) = -1 \<and>
    swish_hash_fetch (cl_tab L) (cf_parsers cf) = Map.empty \<and> swish_hash_fetch (cl_tab L) (cf_index cf) = Map.empty \<and>
    swish_hash_fetch (cl_tab L) (cf_tag_aliases cf) = Map.empty"
proof -
  have P: "xml_hash_ok (cl_ptr L)" and H: "xml_hash_ok (cl_tab L)" using L by (simp_all add: cf_lib_ok_def)
  obtain p where p: "swish_hash_init (cl_ptr L) 8 = Inr p" "swish_hash_fetch (cl_ptr L) p = Map.empty"
    by (rule hash_init_empty [OF P])
  obtain h where h: "swish_hash_init (cl_tab L) 8 = Inr h" "swish_hash_fetch (cl_tab L) h = Map.empty"
    by (rule hash_init_empty [OF H])
  show ?thesis
    by (simp add: swish_config_init_def swish_config_init_flags_def p h config_typed_def table_typed_empty)
qed

lemma small_ids [simp]: "int_ok 0" "int_ok 1" "int_ok 3" "int_ok 6"
  by (simp_all add: int_ok_def)

lemma set_default_typed:
  assumes L: "cf_lib_ok L" and T: "config_typed L cf hp" and "meta_names L cf = {}" "prop_names_of L cf = {}"
    and mx: "fl_max_meta_id (cf_flags cf) = -1" "fl_max_prop_id (cf_flags cf) = -1"
    and "swish_hash_fetch (cl_tab L) (cf_parsers cf) = Map.empty" "swish_hash_fetch (cl_tab L) (cf_index cf) = Map.empty"
    "swish_hash_fetch (cl_tab L) (cf_tag_aliases cf) = Map.empty"
  shows "\<exists>cf' hp'. swish_config_set_default L loc cf hp = Inr (cf', hp') \<and> config_typed L cf' hp' \<and>
    meta_names L cf' = default_metas \<and> prop_names_of L cf' = default_props \<and>
    fl_max_meta_id (cf_flags cf') = 1 \<and> fl_max_prop_id (cf_flags cf') = 6"
proof -
  have H: "xml_hash_ok (cl_tab L)" using L by (simp_all add: cf_lib_ok_def)
  obtain mimes where mimes: "swish_mime_defaults (cl_tab L) = Inr mimes" using mime_defaults_rep [OF H] by blast
  let ?cf = "cf\<lparr>cf_mimes := Some mimes\<rparr>"
  have T0: "config_typed L ?cf hp" using T by (simp add: config_typed_def)
  have free: "swish_hash_fetch (cl_ptr L) (fl_meta_ids (cf_flags c)) (swish_int_to_string (fl_max_meta_id (cf_flags c) + 1)) = None"
    if "config_typed L c q" "fl_max_meta_id (cf_flags c) \<le> 0" for c q
    using that unfolding config_typed_def by (intro table_typed_fresh) auto
  obtain cf1 hp1 where 1: "add_default_meta L (lit ''swishdefault'', 0, True) (?cf, hp) = Inr (cf1, hp1)" "config_typed L cf1 hp1"
    "meta_names L cf1 = {lit ''swishdefault''}" "prop_names_of L cf1 = {}"
    "fl_max_meta_id (cf_flags cf1) = 0" "fl_max_prop_id (cf_flags cf1) = -1"
    "cf_parsers cf1 = cf_parsers cf" "cf_index cf1 = cf_index cf" "cf_tag_aliases cf1 = cf_tag_aliases cf"
    using add_meta [OF L T0, of "lit ''swishdefault''" 0 True] free [OF T0] assms(3,4) mx by auto
  obtain cf2 hp2 where 2: "add_default_meta L (lit ''swishtitle'', 1, False) (cf1, hp1) = Inr (cf2, hp2)" "config_typed L cf2 hp2"
    "meta_names L cf2 = default_metas" "prop_names_of L cf2 = {}"
    "fl_max_meta_id (cf_flags cf2) = 1" "fl_max_prop_id (cf_flags cf2) = -1"
    "cf_parsers cf2 = cf_parsers cf" "cf_index cf2 = cf_index cf" "cf_tag_aliases cf2 = cf_tag_aliases cf"
    using add_meta [OF L 1(2), of "lit ''swishtitle''" 1 False] free [OF 1(2)] 1 by (auto simp: default_metas_def lit_inj insert_commute simp del: lit_Cons)
  have none: "prop_names_of L cf2 = {} \<Longrightarrow> swish_hash_fetch (cl_ptr L) (cf_properties cf2) k = None" for k by auto
  have T2: "table_typed pr_name pr_id (\<lambda>p. pr_ref_cnt p = 1 \<and> pr_alias_for p = NullCell)
       (swish_hash_fetch (cl_ptr L) (cf_properties cf2)) (swish_hash_fetch (cl_ptr L) (fl_prop_ids (cf_flags cf2))) (-1) (h_props hp2)"
    using 2(2,6) by (simp add: config_typed_def)
  have free_prop: "swish_hash_fetch (cl_ptr L) (fl_prop_ids (cf_flags cf2)) (swish_int_to_string i) = None"
    if "0 \<le> i" "i < 2 ^ 31" for i
    by (rule id_free [OF T2 that]) (use none [OF 2(4)] in auto)
  obtain cf3 hp3 where 3: "add_default_prop L (lit ''swishdescription'', 6, False, True) (cf2, hp2) = Inr (cf3, hp3)" "config_typed L cf3 hp3"
    "meta_names L cf3 = default_metas" "prop_names_of L cf3 = {lit ''swishdescription''}"
    "swish_hash_fetch (cl_ptr L) (fl_prop_ids (cf_flags cf3)) =
      (swish_hash_fetch (cl_ptr L) (fl_prop_ids (cf_flags cf2)))(swish_int_to_string 6 \<mapsto> length (h_props hp2))"
    "fl_max_meta_id (cf_flags cf3) = 1" "fl_max_prop_id (cf_flags cf3) = 6"
    "cf_parsers cf3 = cf_parsers cf" "cf_index cf3 = cf_index cf" "cf_tag_aliases cf3 = cf_tag_aliases cf"
    using add_prop [OF L 2(2), of "lit ''swishdescription''" 6 True False] 2 free_prop [of 6] by auto
  have "swish_hash_fetch (cl_ptr L) (fl_prop_ids (cf_flags cf3)) (swish_int_to_string 3) = None"
    using free_prop [of 3] int_to_string_inj [of 3 6] by (auto simp: 3(5))
  then obtain cf4 hp4 where 4: "add_default_prop L (lit ''swishtitle'', 3, True, False) (cf3, hp3) = Inr (cf4, hp4)" "config_typed L cf4 hp4"
    "meta_names L cf4 = default_metas" "prop_names_of L cf4 = default_props"
    "fl_max_meta_id (cf_flags cf4) = 1" "fl_max_prop_id (cf_flags cf4) = 6"
    "cf_parsers cf4 = cf_parsers cf" "cf_index cf4 = cf_index cf" "cf_tag_aliases cf4 = cf_tag_aliases cf"
    using add_prop [OF L 3(2), of "lit ''swishtitle''" 3 False True] 3
    by (auto simp: default_props_def lit_inj insert_commute simp del: lit_Cons)
  have "\<exists>h'. put_strings (cl_tab L)
            [(''text/plain'', lit ''TXT''), (''application/xml'', lit ''XML''), (''text/xml'', lit ''XML''),
             (''text/html'', lit ''HTML''), (''default'', lit ''HTML'')] (cf_parsers cf4) = Inr h'"
    unfolding 4(7) by (rule put_strings_new [OF H assms(7)]) simp
  then obtain parsers where parsers: "put_strings (cl_tab L)
            [(''text/plain'', lit ''TXT''), (''application/xml'', lit ''XML''), (''text/xml'', lit ''XML''),
             (''text/html'', lit ''HTML''), (''default'', lit ''HTML'')] (cf_parsers cf4) = Inr parsers" by blast
  have "\<exists>h'. put_strings (cl_tab L)
            [(''Format'', lit ''Native''), (''Name'', lit ''index.swish''), (''Locale'', loc)] (cf_index cf4) = Inr h'"
    unfolding 4(8) by (rule put_strings_new [OF H assms(8)]) simp
  then obtain index where index: "put_strings (cl_tab L)
            [(''Format'', lit ''Native''), (''Name'', lit ''index.swish''), (''Locale'', loc)] (cf_index cf4) = Inr index" by blast
  have "\<exists>h'. put_strings (cl_tab L)
            [(''title'', lit ''swishtitle''), (''body'', lit ''swishdescription'')] (cf_tag_aliases cf4) = Inr h'"
    unfolding 4(9) by (rule put_strings_new [OF H assms(9)]) simp
  then obtain aliases where aliases: "put_strings (cl_tab L)
            [(''title'', lit ''swishtitle''), (''body'', lit ''swishdescription'')] (cf_tag_aliases cf4) = Inr aliases" by blast
  have "swish_config_set_default L loc cf hp =
      Inr (cf4\<lparr>cf_parsers := parsers, cf_index := index, cf_tag_aliases := aliases\<rparr>, hp4)"
    by (simp add: swish_config_set_default_def mimes 1(1) 2(1) 3(1) 4(1) parsers index aliases del: lit_Cons)
  with 4 show ?thesis by (auto simp: config_typed_def)
qed

text \<open>
  C6: configurations are well typed and creation never goes wrong. From \<open>swish_config_init\<close> and
  \<open>swish_config_set_default\<close>, any sequence of calls of \<open>swish_metaname_new\<close> and
  \<open>swish_property_new\<close> with names that are new runs without an error, as long as the ids fit an
  \<open>int\<close>; then every address in the tables is that of a live object with one reference, entered
  under its own name and under its own id, no id is above the recorded maximum, the names are the
  default ones and the new ones, and the configuration is released without a fault.
\<close>

theorem configurations_stay_typed:
  assumes "cf_lib_ok L" and "distinct cs" and "int (length cs) + 6 < 2 ^ 31"
    and "created_metas cs \<inter> default_metas = {}" and "created_props cs \<inter> default_props = {}"
  shows "\<exists>cf0 cf1 hp1 cf hp hp'. swish_config_init L = Inr cf0 \<and>
    swish_config_set_default L loc cf0 hp0 = Inr (cf1, hp1) \<and>
    fold_res (create L) cs (cf1, hp1) = Inr (cf, hp) \<and> config_typed L cf1 hp1 \<and> config_typed L cf hp \<and>
    meta_names L cf = default_metas \<union> created_metas cs \<and> prop_names_of L cf = default_props \<union> created_props cs \<and>
    swish_config_free L cf hp = Inr hp'"
proof -
  note L = assms(1)
  obtain cf0 cf1 hp1 where 0: "swish_config_init L = Inr cf0"
    and 1: "swish_config_set_default L loc cf0 hp0 = Inr (cf1, hp1)" "config_typed L cf1 hp1"
      "meta_names L cf1 = default_metas" "prop_names_of L cf1 = default_props"
      "fl_max_meta_id (cf_flags cf1) = 1" "fl_max_prop_id (cf_flags cf1) = 6"
    using config_init_typed [OF L, of hp0] set_default_typed [OF L, of _ hp0 loc] by blast
  have "room cf1 (length cs)" using 1(5,6) assms(3) by (simp add: room_def)
  then obtain cf hp where "fold_res (create L) cs (cf1, hp1) = Inr (cf, hp)" "config_typed L cf hp"
    "meta_names L cf = default_metas \<union> created_metas cs" "prop_names_of L cf = default_props \<union> created_props cs"
    using create_all [OF L 1(2) _ assms(2)] assms(4,5) unfolding 1(3,4) by blast
  moreover obtain hp' where "swish_config_free L cf hp = Inr hp'" using typed_config_free [OF L calculation(2)] by blast
  ultimately show ?thesis using 0 1(1,2) by blast
qed

lemma configurations_stay_typed_witness:
  "\<exists>cf0 cf1 hp1 cf hp. swish_config_init \<lparr>cl_str = ref_str, cl_tab = ref_hash, cl_ptr = ref_hash\<rparr> = Inr cf0 \<and>
    swish_config_set_default \<lparr>cl_str = ref_str, cl_tab = ref_hash, cl_ptr = ref_hash\<rparr> (lit ''C'') cf0
      \<lparr>h_metas = [], h_props = [], h_lists = []\<rparr> = Inr (cf1, hp1) \<and>
    fold_res (create \<lparr>cl_str = ref_str, cl_tab = ref_hash, cl_ptr = ref_hash\<rparr>) [NewMeta (lit ''a''), NewProp (lit ''a'')] (cf1, hp1) =
      Inr (cf, hp) \<and>
    config_typed \<lparr>cl_str = ref_str, cl_tab = ref_hash, cl_ptr = ref_hash\<rparr> cf hp"
proof -
  let ?L = "\<lparr>cl_str = ref_str, cl_tab = ref_hash, cl_ptr = ref_hash\<rparr> ::
    ((bytes \<times> bytes) list, (bytes \<times> nat) list) cf_lib"
  let ?cs = "[NewMeta (lit ''a''), NewProp (lit ''a'')]"
  have "cf_lib_ok ?L" by (simp add: cf_lib_ok_def)
  moreover have "distinct ?cs" "int (length ?cs) + 6 < 2 ^ 31" by simp_all
  moreover have "created_metas ?cs \<inter> default_metas = {}" "created_props ?cs \<inter> default_props = {}"
    by (simp_all add: default_metas_def default_props_def lit_inj del: lit_Cons)
  ultimately show ?thesis
    using configurations_stay_typed [of ?L ?cs "lit ''C''" "\<lparr>h_metas = [], h_props = [], h_lists = []\<rparr>"] by blast
qed

end
