(* ===== verification/Tokens.thy ===== *)
theory Tokens
  imports MetaProp NamedBuffer
begin

text \<open>
  \<open>src/libswish3/tokenizer.c\<close>: which bytes belong to a word, the token list and its iterator,
  and the two tokenizers, one for ASCII and one for UTF-8 text.

  \<^item> A token list keeps the text of its tokens in one buffer; a token has its offset in it.
    \<open>swish_Token.value\<close>, a pointer into that buffer that the code refreshes before each use, is
    computed from the offset.
  \<^item> Metanames are shared and counted: a token holds the address of its metaname and each token
    raises its count, so that the heap is part of the state.
  \<^item> The analyzer of an iterator, shared with its owner, is passed next to the iterator.
  \<^item> \<open>tk_malloc n\<close> is the block the allocator answers a request of \<open>n\<close> bytes with: what it
    happens to hold, and how much of it may be touched without a fault.
\<close>

section \<open>State\<close>

record swish_Token =
  to_pos :: nat
  to_meta :: nat
  to_context :: "bytes option"
  to_offset :: nat
  to_len :: int
  to_ref_cnt :: int

record ('b, 'c) swish_TokenList =
  tl_n :: nat
  tl_pos :: nat
  tl_contexts :: 'c
  tl_buf :: 'b
  tl_tokens :: "swish_Token option list"
  tl_ref_cnt :: int

record ('b, 'c) swish_TokenIterator =
  it_tl :: "('b, 'c) swish_TokenList"
  it_pos :: nat
  it_ref_cnt :: int

record ('b, 'c) tk_lib =
  tk_str :: xml_str
  tk_buf :: "'b xml_buf"
  tk_tab :: "('c, bytes) xml_hash"
  tk_wide :: wide
  tk_malloc :: "nat \<Rightarrow> mem"

definition SWISH_TOKEN_LIST_SIZE :: nat where "SWISH_TOKEN_LIST_SIZE = 1024"

section \<open>Characters\<close>

definition is_ignore_start_utf8 :: "wide \<Rightarrow> u32 \<Rightarrow> bool" where
  "is_ignore_start_utf8 W c \<longleftrightarrow> c = 0 \<or> iswspace W c \<or> iswcntrl W c \<or> iswpunct W c"

definition is_ignore_end_utf8 :: "wide \<Rightarrow> u32 \<Rightarrow> bool" where
  "is_ignore_end_utf8 W c \<longleftrightarrow> c = 0 \<or> iswspace W c \<or> iswcntrl W c \<or> iswpunct W c"

definition is_ignore_word_utf8 :: "wide \<Rightarrow> u32 \<Rightarrow> bool" where
  "is_ignore_word_utf8 W c \<longleftrightarrow>
     (if c = 0x27 then False
      else if c = 0x5F then False
      else c = 0 \<or> iswspace W c \<or> iswcntrl W c \<or> iswpunct W c)"

definition is_ignore_start_ascii :: "u8 \<Rightarrow> bool" where
  "is_ignore_start_ascii c \<longleftrightarrow> c = 0 \<or> isspace c \<or> iscntrl c \<or> ispunct c"

definition is_ignore_end_ascii :: "u8 \<Rightarrow> bool" where
  "is_ignore_end_ascii c \<longleftrightarrow> c = 0 \<or> isspace c \<or> iscntrl c \<or> ispunct c"

definition is_ignore_word_ascii :: "u8 \<Rightarrow> bool" where
  "is_ignore_word_ascii c \<longleftrightarrow>
     (if c = 0x27 then False
      else if c = 0x5F then False
      else c = 0 \<or> isspace c \<or> iscntrl c \<or> ispunct c)"

text \<open>
  The three tables of 128 entries, static and zero, of which the loop sets the first 127. They
  are made before the first token list, hence before anything is looked up.
\<close>

definition make_ascii_table :: "(u8 \<Rightarrow> bool) \<Rightarrow> bool list" where
  "make_ascii_table ignore = map (\<lambda>i. \<not> ignore (of_nat i)) [0..<127] @ [False]"

definition ascii_word_table :: "bool list" where
  "ascii_word_table = make_ascii_table is_ignore_word_ascii"

definition ascii_end_table :: "bool list" where
  "ascii_end_table = make_ascii_table is_ignore_end_ascii"

definition ascii_start_table :: "bool list" where
  "ascii_start_table = make_ascii_table is_ignore_start_ascii"

section \<open>The token list\<close>

definition swish_token_list_init :: "('b, 'c) tk_lib \<Rightarrow> ('b, 'c) swish_TokenList res" where
  "swish_token_list_init L =
     bnd (swish_hash_init (tk_tab L) 8) (\<lambda>contexts.
       Inr \<lparr>tl_n = 0, tl_pos = 0, tl_contexts = contexts, tl_buf = xmlBufferCreateSize (tk_buf L),
            tl_tokens = replicate SWISH_TOKEN_LIST_SIZE None, tl_ref_cnt = 0\<rparr>)"

definition swish_token_init :: swish_Token where
  "swish_token_init =
     \<lparr>to_pos = 0, to_meta = 0, to_context = None, to_offset = 0, to_len = 0, to_ref_cnt = 0\<rparr>"

text \<open>\<open>len\<close> bytes of the object \<open>token\<close> are appended to the buffer.\<close>

definition swish_token_list_set_token ::
  "('b, 'c) tk_lib \<Rightarrow> ('b, 'c) swish_TokenList \<Rightarrow> mem \<Rightarrow> int \<Rightarrow> ('b, 'c) swish_TokenList res" where
  "swish_token_list_set_token L tks token len =
     (if int (length token) < len then Inl OutOfBounds
      else
        (let (buf, ret) = xmlBufferAdd (tk_buf L) (tl_buf tks) (take (nat len) token) in
         if ret \<noteq> 0 then Inl (Croak ''error appending token to buffer'')
         else Inr (tks\<lparr>tl_buf := buf\<rparr>)))"

text \<open>The array grows by \<open>SWISH_TOKEN_LIST_SIZE\<close> elements whenever it is full.\<close>

definition grow_tokens :: "nat \<Rightarrow> 'a option list \<Rightarrow> 'a option list" where
  "grow_tokens n tokens =
     (let num_of_allocs = n div SWISH_TOKEN_LIST_SIZE in
      if num_of_allocs \<noteq> 0 \<and> n mod SWISH_TOKEN_LIST_SIZE = 0
      then realloc_fill None (SWISH_TOKEN_LIST_SIZE * (num_of_allocs + 1)) tokens
      else tokens)"

definition swish_token_list_add_token ::
  "('b, 'c) tk_lib \<Rightarrow> mem \<Rightarrow> int \<Rightarrow> nat \<Rightarrow> bytes \<Rightarrow> ('b, 'c) swish_TokenList \<times> heap \<Rightarrow>
   (('b, 'c) swish_TokenList \<times> heap) res" where
  "swish_token_list_add_token L token token_len meta context st =
     (let (tks, hp) = st in
      bnd (if token_len = 0 then Inr True
           else bnd (cstr token 0) (\<lambda>s. Inr (xmlStrlen (tk_str L) (Some s) = 0))) (\<lambda>empty.
      if empty then Inl (Croak ''can't add empty token to token list'')
      else
        bnd (obj_at (h_metas hp) meta) (\<lambda>m.
          let hp = hp\<lparr>h_metas := (h_metas hp)[meta := Some (m\<lparr>mn_ref_cnt := mn_ref_cnt m + 1\<rparr>)]\<rparr>;
              tks = tks\<lparr>tl_pos := tl_pos tks + 1\<rparr>;
              stoken = swish_token_init\<lparr>to_offset := nat (xmlBufferLength (tk_buf L) (tl_buf tks)),
                to_len := token_len - 1, to_pos := tl_pos tks, to_meta := meta\<rparr> in
          bnd (swish_token_list_set_token L tks token token_len) (\<lambda>tks.
          bnd (swish_hash_exists_or_add (tk_tab L) (tl_contexts tks) context context) (\<lambda>(contexts, _).
            let stoken = stoken\<lparr>to_context := swish_hash_fetch (tk_tab L) contexts context, to_ref_cnt := 1\<rparr>;
                tokens = grow_tokens (tl_n tks) (tl_tokens tks) in
            bnd (wr tokens (int (tl_n tks)) (Some stoken)) (\<lambda>tokens.
              Inr (tks\<lparr>tl_contexts := contexts, tl_tokens := tokens, tl_n := tl_n tks + 1\<rparr>, hp)))))))"

text \<open>The object the value points at, from its offset on.\<close>

definition swish_token_list_get_token_value ::
  "('b, 'c) tk_lib \<Rightarrow> ('b, 'c) swish_TokenList \<Rightarrow> swish_Token \<Rightarrow> mem" where
  "swish_token_list_get_token_value L tks t = drop (to_offset t) (xmlBufferContent (tk_buf L) (tl_buf tks))"

section \<open>The iterator\<close>

definition swish_token_iterator_init ::
  "('b, 'c) tk_lib \<Rightarrow> swish_Analyzer \<Rightarrow> (('b, 'c) swish_TokenIterator \<times> swish_Analyzer) res" where
  "swish_token_iterator_init L a =
     bnd (swish_token_list_init L) (\<lambda>tks.
       Inr (\<lparr>it_tl = tks\<lparr>tl_ref_cnt := tl_ref_cnt tks + 1\<rparr>, it_pos = 0, it_ref_cnt = 0\<rparr>,
            a\<lparr>an_ref_cnt := an_ref_cnt a + 1\<rparr>))"

text \<open>An array element that was never written is a wild pointer.\<close>

definition token_at :: "('b, 'c) swish_TokenList \<Rightarrow> nat \<Rightarrow> swish_Token res" where
  "token_at tks i = bnd (rd (tl_tokens tks) (int i)) (\<lambda>t. case t of None \<Rightarrow> Inl OutOfBounds | Some t \<Rightarrow> Inr t)"

definition swish_token_iterator_next_token ::
  "('b, 'c) swish_TokenIterator \<Rightarrow> (swish_Token option \<times> ('b, 'c) swish_TokenIterator) res" where
  "swish_token_iterator_next_token it =
     (if tl_n (it_tl it) \<le> it_pos it then Inr (None, it)
      else bnd (token_at (it_tl it) (it_pos it)) (\<lambda>t. Inr (Some t, it\<lparr>it_pos := it_pos it + 1\<rparr>)))"

section \<open>Release\<close>

text \<open>A token gives back its reference to the metaname, which goes with its last reference.\<close>

definition swish_token_free :: "swish_Token \<Rightarrow> heap \<Rightarrow> heap res" where
  "swish_token_free t hp =
     bnd (obj_at (h_metas hp) (to_meta t)) (\<lambda>m.
       let m = m\<lparr>mn_ref_cnt := mn_ref_cnt m - 1\<rparr> in
       if mn_ref_cnt m = 0
       then bnd (swish_metaname_free m) (\<lambda>_. Inr (hp\<lparr>h_metas := (h_metas hp)[to_meta t := None]\<rparr>))
       else Inr (hp\<lparr>h_metas := (h_metas hp)[to_meta t := Some m]\<rparr>))"

text \<open>\<open>while (tl->n)\<close>: a token another owner still counts is left alone.\<close>

fun token_list_free_loop :: "('b, 'c) swish_TokenList \<Rightarrow> nat \<Rightarrow> heap \<Rightarrow> heap res" where
  "token_list_free_loop tks 0 hp = Inr hp"
| "token_list_free_loop tks (Suc n) hp =
     bnd (token_at tks n) (\<lambda>t.
       let t = t\<lparr>to_ref_cnt := to_ref_cnt t - 1\<rparr> in
       bnd (if to_ref_cnt t < 1 then swish_token_free t hp else Inr hp) (token_list_free_loop tks n))"

definition swish_token_list_free :: "('b, 'c) swish_TokenList \<Rightarrow> heap \<Rightarrow> heap res" where
  "swish_token_list_free tks hp = token_list_free_loop tks (tl_n tks) hp"

text \<open>The analyzer, when it is not released.\<close>

definition swish_token_iterator_free ::
  "('b, 'c) swish_TokenIterator \<Rightarrow> swish_Analyzer \<Rightarrow> heap \<Rightarrow> (swish_Analyzer option \<times> heap) res" where
  "swish_token_iterator_free it a hp =
     (let a = a\<lparr>an_ref_cnt := an_ref_cnt a - 1\<rparr>;
          a' = (if an_ref_cnt a = 0 then None else Some a) in
      bnd (if tl_ref_cnt (it_tl it) - 1 = 0 then swish_token_list_free (it_tl it) hp else Inr hp) (\<lambda>hp.
        Inr (a', hp)))"

end
