(* ===== verification/Tokenizer.thy ===== *)
theory Tokenizer
  imports Tokens
begin

text \<open>
  The two tokenizers of \<open>src/libswish3/tokenizer.c\<close>. The word being read is in a block of
  \<open>maxwordlen\<close> bytes; every store into it, and into the five bytes of \<open>chr\<close>, is checked.
\<close>

section \<open>Stripping an ASCII word\<close>

text \<open>\<open>while (i-- > 0)\<close> from the end.\<close>

fun strip_ascii_end :: "mem \<Rightarrow> nat \<Rightarrow> mem res" where
  "strip_ascii_end word 0 = Inr word"
| "strip_ascii_end word (Suc i) =
     bnd (rd word (int i)) (\<lambda>c.
     bnd (rd ascii_end_table (uint c)) (\<lambda>keep.
       if \<not> keep then bnd (wr word (int i) 0) (\<lambda>word. strip_ascii_end word i)
       else Inr word))"

text \<open>The number of characters to drop at the start.\<close>

function strip_ascii_start :: "mem \<Rightarrow> nat \<Rightarrow> nat res" where
  "strip_ascii_start word i =
     bnd (rd word (int i)) (\<lambda>c.
       if c = 0 then Inr i
       else bnd (rd ascii_start_table (uint c)) (\<lambda>keep.
         if keep then Inr i else strip_ascii_start word (i + 1)))"
  by pat_completeness auto
termination
  by (relation "measure (\<lambda>(word, i). length word - i)") (auto dest!: rd_Inr_nth)

function strip_ascii_move :: "mem \<Rightarrow> nat \<Rightarrow> nat \<Rightarrow> mem res" where
  "strip_ascii_move word k j =
     bnd (rd word (int k)) (\<lambda>c.
       if c \<noteq> 0 then bnd (wr word (int j) c) (\<lambda>word. strip_ascii_move word (k + 1) (j + 1))
       else wr word (int j) 0)"
  by pat_completeness auto
termination
  by (relation "measure (\<lambda>(word, k, j). length word - k)") (auto dest!: rd_Inr_nth length_wr)

definition strip_ascii_chrs :: "xml_str \<Rightarrow> mem \<Rightarrow> nat \<Rightarrow> (mem \<times> int) res" where
  "strip_ascii_chrs X word len =
     bnd (strip_ascii_end word len) (\<lambda>word.
     bnd (strip_ascii_start word 0) (\<lambda>i.
     bnd (if i \<noteq> 0 then strip_ascii_move word i 0 else Inr word) (\<lambda>word.
     bnd (cstr word 0) (\<lambda>s.
       Inr (word, xmlStrlen X (Some s) + 1)))))"

section \<open>The ASCII tokenizer\<close>

record word_state =
  ws_inside :: bool
  ws_token :: mem
  ws_len :: nat

type_synonym ('b, 'c) tok_state = "word_state \<times> ('b, 'c) swish_TokenList \<times> heap"

definition bump :: "u8 \<Rightarrow> ('b, 'c) swish_TokenList \<Rightarrow> ('b, 'c) swish_TokenList" where
  "bump c tks = (if c = SWISH_TOKENPOS_BUMPER ! 0 then tks\<lparr>tl_pos := tl_pos tks + 1\<rparr> else tks)"

text \<open>The end of a word: its NUL, the stripping, and the token unless nothing is left.\<close>

definition end_ascii_word ::
  "('b, 'c) tk_lib \<Rightarrow> nat \<Rightarrow> nat \<Rightarrow> bytes \<Rightarrow> ('b, 'c) tok_state \<Rightarrow> ('b, 'c) tok_state res" where
  "end_ascii_word L minwordlen meta context st =
     (let (w, tks, hp) = st in
      bnd (wr (ws_token w) (int (ws_len w)) 0) (\<lambda>token.
      bnd (strip_ascii_chrs (tk_str L) token (ws_len w + 1)) (\<lambda>(token, token_len).
      bnd (rd token 0) (\<lambda>c.
      bnd (if c \<noteq> 0 \<and> int minwordlen \<le> token_len
           then swish_token_list_add_token L token token_len meta context (tks, hp)
           else Inr (tks, hp)) (\<lambda>(tks, hp).
        Inr (\<lparr>ws_inside = False, ws_token = token, ws_len = nat token_len\<rparr>, tks, hp))))))"

text \<open>The last character of the text, when it starts a word, is a token as it is.\<close>

definition one_char_word ::
  "('b, 'c) tk_lib \<Rightarrow> nat \<Rightarrow> bytes \<Rightarrow> ('b, 'c) tok_state \<Rightarrow> ('b, 'c) tok_state res" where
  "one_char_word L meta context st =
     (let (w, tks, hp) = st in
      bnd (wr (ws_token w) (int (ws_len w)) 0) (\<lambda>token.
      bnd (swish_token_list_add_token L token (int (ws_len w) + 1) meta context (tks, hp)) (\<lambda>(tks, hp).
        Inr (\<lparr>ws_inside = False, ws_token = token, ws_len = ws_len w + 1\<rparr>, tks, hp))))"

definition ascii_step ::
  "('b, 'c) tk_lib \<Rightarrow> swish_Analyzer \<Rightarrow> nat \<Rightarrow> bytes \<Rightarrow> u8 \<Rightarrow> u8 \<Rightarrow> ('b, 'c) tok_state \<Rightarrow>
   ('b, 'c) tok_state res" where
  "ascii_step L a meta context c nextc st =
     (let (w, tks, hp) = st in
      bnd (rd ascii_word_table (sint c)) (\<lambda>word_chr.
      bnd
        (if \<not> word_chr then
           (if ws_inside w then end_ascii_word L (an_minwordlen a) meta context st else Inr st)
         else if ws_inside w then
           bnd (wr (ws_token w) (int (ws_len w)) c) (\<lambda>token.
             let w = w\<lparr>ws_token := token, ws_len := ws_len w + 1\<rparr> in
             if an_maxwordlen a \<le> ws_len w \<or> nextc = 0
             then end_ascii_word L (an_minwordlen a) meta context (w, tks, hp)
             else Inr (w, tks, hp))
         else
           bnd (wr (ws_token w) 0 c) (\<lambda>token.
             let w = \<lparr>ws_inside = True, ws_token = token, ws_len = 1\<rparr> in
             if nextc = 0 \<and> an_minwordlen a = 1 then one_char_word L meta context (w, tks, hp)
             else Inr (w, tks, hp)))
        (\<lambda>(w, tks, hp). Inr (w, bump c tks, hp))))"

function tokenize_ascii_loop ::
  "('b, 'c) tk_lib \<Rightarrow> swish_Analyzer \<Rightarrow> nat \<Rightarrow> bytes \<Rightarrow> mem \<Rightarrow> nat \<Rightarrow> ('b, 'c) tok_state \<Rightarrow>
   ('b, 'c) tok_state res" where
  "tokenize_ascii_loop L a meta context buf i st =
     bnd (rd buf (int i)) (\<lambda>b.
       if b = 0 then Inr st
       else bnd (rd buf (int i + 1)) (\<lambda>b'.
         bnd (ascii_step L a meta context (tolower b) (tolower b') st)
           (tokenize_ascii_loop L a meta context buf (i + 1))))"
  by pat_completeness auto
termination
  by (relation "measure (\<lambda>(L, a, meta, context, buf, i, st). length buf - i)") (auto dest!: rd_Inr_nth)

text \<open>The number of tokens added, the iterator, and the heap.\<close>

definition swish_tokenize_ascii ::
  "('b, 'c) tk_lib \<Rightarrow> swish_Analyzer \<Rightarrow> ('b, 'c) swish_TokenIterator \<Rightarrow> mem \<Rightarrow> nat \<Rightarrow> bytes \<Rightarrow> heap \<Rightarrow>
   (int \<times> ('b, 'c) swish_TokenIterator \<times> heap) res" where
  "swish_tokenize_ascii L a ti buf meta context hp =
     bnd (wr (tk_malloc L (an_maxwordlen a)) 0 0) (\<lambda>token.
     bnd (tokenize_ascii_loop L a meta context buf 0
            (\<lparr>ws_inside = False, ws_token = token, ws_len = 0\<rparr>, it_tl ti, hp)) (\<lambda>(w, tks, hp).
       Inr (int (tl_n tks) - int (tl_n (it_tl ti)), ti\<lparr>it_tl := tks\<rparr>, hp)))"

section \<open>Stripping a UTF-8 word\<close>

text \<open>\<open>n\<close> bytes of \<open>src\<close> from \<open>i\<close> on, then a NUL, in the five bytes of \<open>chr\<close>.\<close>

definition load_chr :: "mem \<Rightarrow> int \<Rightarrow> nat \<Rightarrow> mem \<Rightarrow> mem res" where
  "load_chr src i n chr = bnd (copy_bytes n src i chr 0) (\<lambda>chr. wr chr (int n) 0)"

text \<open>\<open>j\<close> stays where it was first set: each round takes everything after \<open>i\<close> for the character.\<close>

function strip_utf8_end :: "('b, 'c) tk_lib \<Rightarrow> mem \<Rightarrow> int \<Rightarrow> int \<Rightarrow> mem \<Rightarrow> (mem \<times> mem) res" where
  "strip_utf8_end L token i j chr =
     (if 0 \<le> i then
        (if j - i = 0 then
           bnd (swish_utf8_prev_chr token i) (\<lambda>i'. strip_utf8_end L token i' i chr)
         else
           bnd (load_chr token i (nat (j - i)) chr) (\<lambda>chr.
           bnd (swish_utf8_codepoint (tk_str L) chr) (\<lambda>cp.
             if is_ignore_end_utf8 (tk_wide L) cp then
               bnd (wr token i 0) (\<lambda>token.
               bnd (swish_utf8_prev_chr token i) (\<lambda>i'. strip_utf8_end L token i' j chr))
             else Inr (token, chr))))
      else Inr (token, chr))"
  by pat_completeness auto
termination
  by (relation "measure (\<lambda>(L, token, i, j, chr). nat (i + 1))")
    (auto simp: swish_utf8_prev_chr_def u8_dec_def bnd_eq_Inr split: if_splits)

text \<open>
  \<open>token += i\<close> moves the pointer of this function only, by \<open>base\<close>; \<open>i\<close> and \<open>j\<close> are counted from
  the moved pointer although they were not reset.
\<close>

function strip_utf8_start :: "('b, 'c) tk_lib \<Rightarrow> mem \<Rightarrow> nat \<Rightarrow> nat \<Rightarrow> nat \<Rightarrow> mem \<Rightarrow> nat res" where
  "strip_utf8_start L token base i j chr =
     bnd (rd token (int (base + j))) (\<lambda>t.
       if t = 0 then Inr base
       else if int i - int j = 0 then
         bnd (swish_utf8_next_chr token (int (base + i))) (\<lambda>p.
           strip_utf8_start L token base (nat p - base) i chr)
       else
         bnd (load_chr token (int (base + j)) (i - j) chr) (\<lambda>chr.
         bnd (swish_utf8_codepoint (tk_str L) chr) (\<lambda>cp.
           if \<not> is_ignore_start_utf8 (tk_wide L) cp then Inr base
           else
             bnd (swish_utf8_next_chr token (int (base + i + i))) (\<lambda>p.
               strip_utf8_start L token (base + i) (nat p - (base + i)) j chr))))"
  by pat_completeness auto
termination
  by (relation "measure (\<lambda>(L, token, base, i, j, chr). length token + 1 - (base + i))")
    (auto simp: swish_utf8_next_chr_def u8_inc_def bnd_eq_Inr rd_Inr_iff nat_add_distrib split: if_splits)

definition strip_utf8_chrs :: "('b, 'c) tk_lib \<Rightarrow> mem \<Rightarrow> nat \<Rightarrow> (mem \<times> int) res" where
  "strip_utf8_chrs L token len =
     bnd (strip_utf8_end L token (int len) (int len) (replicate 5 0)) (\<lambda>(token, chr).
     bnd (wr chr 0 0) (\<lambda>chr.
     bnd (strip_utf8_start L token 0 0 0 chr) (\<lambda>base.
     bnd (cstr token (int base)) (\<lambda>s.
       Inr (token, xmlStrlen (tk_str L) (Some s) + 1)))))"

section \<open>The UTF-8 tokenizer\<close>

definition end_utf8_word ::
  "('b, 'c) tk_lib \<Rightarrow> nat \<Rightarrow> nat \<Rightarrow> bytes \<Rightarrow> ('b, 'c) tok_state \<Rightarrow> ('b, 'c) tok_state res" where
  "end_utf8_word L minwordlen meta context st =
     (let (w, tks, hp) = st in
      bnd (wr (ws_token w) (int (ws_len w) + 1) 0) (\<lambda>token.
      bnd (strip_utf8_chrs L token (ws_len w + 1)) (\<lambda>(token, token_len).
      bnd (rd token 0) (\<lambda>c.
      bnd (if c \<noteq> 0 \<and> int minwordlen \<le> token_len
           then swish_token_list_add_token L token token_len meta context (tks, hp)
           else Inr (tks, hp)) (\<lambda>(tks, hp).
        Inr (\<lparr>ws_inside = False, ws_token = token, ws_len = nat token_len\<rparr>, tks, hp))))))"

text \<open>One character of \<open>chr_len\<close> bytes, with code point \<open>cp\<close>; \<open>next\<close> reads the byte after it.\<close>

definition utf8_step ::
  "('b, 'c) tk_lib \<Rightarrow> swish_Analyzer \<Rightarrow> nat \<Rightarrow> bytes \<Rightarrow> mem \<Rightarrow> nat \<Rightarrow> u32 \<Rightarrow> u8 res \<Rightarrow>
   ('b, 'c) tok_state \<Rightarrow> ('b, 'c) tok_state res" where
  "utf8_step L a meta context chr chr_len cp next' st =
     (let (w, tks, hp) = st; bumps = (\<lambda>(w, tks, hp).
            Inr (w, if cp = ucast (SWISH_TOKENPOS_BUMPER ! 0) then tks\<lparr>tl_pos := tl_pos tks + 1\<rparr> else tks, hp)) in
      if is_ignore_word_utf8 (tk_wide L) cp then
        bnd (if ws_inside w then end_utf8_word L (an_minwordlen a) meta context st else Inr st) bumps
      else if ws_inside w then
        (if an_maxwordlen a < chr_len + ws_len w then Inr st
         else
           bnd (copy_bytes chr_len chr 0 (ws_token w) (int (ws_len w))) (\<lambda>token.
           bnd (wr token (int (ws_len w + chr_len)) 0) (\<lambda>token.
             let w = w\<lparr>ws_token := token, ws_len := ws_len w + chr_len\<rparr> in
             bnd (if an_maxwordlen a \<le> ws_len w then Inr True else bnd next' (\<lambda>b. Inr (b = 0))) (\<lambda>ends.
             bnd (if ends then end_utf8_word L (an_minwordlen a) meta context (w, tks, hp)
                  else Inr (w, tks, hp)) bumps))))
      else
        bnd (wr (ws_token w) 0 0) (\<lambda>token.
          if an_maxwordlen a < chr_len
          then Inr (\<lparr>ws_inside = True, ws_token = token, ws_len = 0\<rparr>, tks, hp)
          else
            bnd (copy_bytes chr_len chr 0 token 0) (\<lambda>token.
            bnd (wr token (int chr_len) 0) (\<lambda>token.
            bnd next' (\<lambda>b.
              let w = \<lparr>ws_inside = True, ws_token = token, ws_len = chr_len\<rparr> in
              bnd (if b = 0 \<and> an_minwordlen a = 1 then one_char_word L meta context (w, tks, hp)
                   else Inr (w, tks, hp)) bumps)))))"

text \<open>
  \<open>for (byte_pos = 0; buf_lower[prev_pos] != '\0'; swish_utf8_next_chr (buf_lower, &byte_pos))\<close>:
  the first round only steps over the first character.
\<close>

function tokenize_utf8_loop ::
  "('b, 'c) tk_lib \<Rightarrow> swish_Analyzer \<Rightarrow> nat \<Rightarrow> bytes \<Rightarrow> mem \<Rightarrow> nat \<Rightarrow> nat \<Rightarrow> mem \<Rightarrow>
   ('b, 'c) tok_state \<Rightarrow> ('b, 'c) tok_state res" where
  "tokenize_utf8_loop L a meta context low byte_pos prev_pos chr st =
     bnd (rd low (int prev_pos)) (\<lambda>b.
       if b = 0 then Inr st
       else
         bnd (let chr_len = int byte_pos - int prev_pos in
              if chr_len = 0 then Inr (chr, st)
              else
                bnd (load_chr low (int prev_pos) (nat chr_len) chr) (\<lambda>chr.
                bnd (swish_utf8_codepoint (tk_str L) chr) (\<lambda>cp.
                bnd (utf8_step L a meta context chr (nat chr_len) cp (rd low (int byte_pos)) st) (\<lambda>st.
                  Inr (chr, st))))) (\<lambda>(chr, st).
         bnd (swish_utf8_next_chr low (int byte_pos)) (\<lambda>p.
           tokenize_utf8_loop L a meta context low (nat p) byte_pos chr st)))"
  by pat_completeness auto
termination
  by (relation "measure (\<lambda>(L, a, meta, context, low, byte_pos, prev_pos, chr, st). length low - byte_pos)")
    (auto simp: swish_utf8_next_chr_def u8_inc_def bnd_eq_Inr rd_Inr_iff split: if_splits)

text \<open>\<open>buf_lower\<close> is a block for the bytes of the text and its NUL.\<close>

definition lower_block :: "('b, 'c) tk_lib \<Rightarrow> bytes \<Rightarrow> mem" where
  "lower_block L low = low @ [0] @ drop (length low + 1) (tk_malloc L (length low + 1))"

definition swish_tokenize_utf8 ::
  "('b, 'c) tk_lib \<Rightarrow> swish_Analyzer \<Rightarrow> ('b, 'c) swish_TokenIterator \<Rightarrow> bytes \<Rightarrow> nat \<Rightarrow> bytes \<Rightarrow> heap \<Rightarrow>
   (int \<times> ('b, 'c) swish_TokenIterator \<times> heap) res" where
  "swish_tokenize_utf8 L a ti buf meta context hp =
     bnd (swish_utf8_str_tolower (tk_wide L) buf) (\<lambda>low.
     bnd (tokenize_utf8_loop L a meta context (lower_block L low) 0 0 (replicate 5 0)
            (\<lparr>ws_inside = False, ws_token = tk_malloc L (an_maxwordlen a), ws_len = 0\<rparr>, it_tl ti, hp))
       (\<lambda>(w, tks, hp).
       Inr (int (tl_n tks) - int (tl_n (it_tl ti)), ti\<lparr>it_tl := tks\<rparr>, hp)))"

definition swish_tokenize ::
  "('b, 'c) tk_lib \<Rightarrow> swish_Analyzer \<Rightarrow> ('b, 'c) swish_TokenIterator \<Rightarrow> bytes \<Rightarrow> nat \<Rightarrow> bytes \<Rightarrow> heap \<Rightarrow>
   (int \<times> ('b, 'c) swish_TokenIterator \<times> heap) res" where
  "swish_tokenize L a ti buf meta context hp =
     (if swish_is_ascii (tk_str L) (Some buf)
      then swish_tokenize_ascii L a ti (cobj buf) meta context hp
      else swish_tokenize_utf8 L a ti buf meta context hp)"

declare strip_ascii_start.simps [simp del] strip_ascii_move.simps [simp del]
  tokenize_ascii_loop.simps [simp del] strip_utf8_end.simps [simp del]
  strip_utf8_start.simps [simp del] tokenize_utf8_loop.simps [simp del]

end
