(* ===== verification/Tokens_Correct.thy ===== *)
theory Tokens_Correct
  imports Tokenizer
begin

text \<open>
  What the token list guarantees: \<open>tokens_rep\<close> relates it to the list of tokens added, text,
  metaname, context and position, and to the heap, in which every token counts once for its
  metaname. Adding a token to a list appends it; releasing the list restores the heap.
\<close>

section \<open>The token list as a list\<close>

record token_val =
  tv_text :: bytes
  tv_meta :: nat
  tv_context :: bytes
  tv_pos :: nat

definition tk_ok :: "('b, 'c) tk_lib \<Rightarrow> bool" where
  "tk_ok L \<longleftrightarrow> xml_str_ok (tk_str L) \<and> xml_buf_ok (tk_buf L) \<and> xml_hash_ok (tk_tab L) \<and>
     utf8_locale (tk_wide L) \<and> (\<forall>n. n \<le> length (tk_malloc L n))"

fun placed :: "nat \<Rightarrow> token_val list \<Rightarrow> swish_Token list" where
  "placed off [] = []"
| "placed off (v # vs) =
     \<lparr>to_pos = tv_pos v, to_meta = tv_meta v, to_context = Some (tv_context v), to_offset = off,
      to_len = int (length (tv_text v)), to_ref_cnt = 1\<rparr> # placed (off + length (tv_text v) + 1) vs"

definition texts :: "token_val list \<Rightarrow> bytes" where
  "texts vs = concat (map (\<lambda>v. tv_text v @ [0]) vs)"

definition refs_to :: "nat \<Rightarrow> token_val list \<Rightarrow> int" where
  "refs_to a vs = int (length (filter (\<lambda>v. tv_meta v = a) vs))"

definition add_refs :: "token_val list \<Rightarrow> heap \<Rightarrow> heap" where
  "add_refs vs hp = hp\<lparr>h_metas := map (\<lambda>a. map_option
     (\<lambda>m. m\<lparr>mn_ref_cnt := mn_ref_cnt m + refs_to a vs\<rparr>) (h_metas hp ! a)) [0..<length (h_metas hp)]\<rparr>"

definition live_meta :: "heap \<Rightarrow> nat \<Rightarrow> bool" where
  "live_meta hp a \<longleftrightarrow> a < length (h_metas hp) \<and> h_metas hp ! a \<noteq> None"

definition tokens_rep ::
  "('b, 'c) tk_lib \<Rightarrow> heap \<Rightarrow> ('b, 'c) swish_TokenList \<times> heap \<Rightarrow> token_val list \<Rightarrow> bool" where
  "tokens_rep L base st vs \<longleftrightarrow>
     (let (tks, hp) = st in
      tl_n tks = length vs \<and>
      length (tl_tokens tks) = SWISH_TOKEN_LIST_SIZE * max 1 ((length vs + SWISH_TOKEN_LIST_SIZE - 1) div SWISH_TOKEN_LIST_SIZE) \<and>
      take (length vs) (tl_tokens tks) = map Some (placed 0 vs) \<and>
      bufBytes (tk_buf L) (tl_buf tks) = texts vs \<and>
      (\<forall>k v. swish_hash_fetch (tk_tab L) (tl_contexts tks) k = Some v \<longrightarrow> v = k) \<and>
      (\<forall>v \<in> set vs. live_meta base (tv_meta v) \<and> nul_free (tv_text v) \<and> tv_text v \<noteq> []) \<and>
      hp = add_refs vs base)"

lemma length_placed [simp]: "length (placed off vs) = length vs"
  by (induction vs arbitrary: off) auto

lemma texts_simps [simp]:
  "texts [] = []"
  "texts (vs @ ws) = texts vs @ texts ws"
  "texts (v # vs) = tv_text v @ 0 # texts vs"
  by (simp_all add: texts_def)

lemma placed_append: "placed off (vs @ ws) = placed off vs @ placed (off + length (texts vs)) ws"
  by (induction vs arbitrary: off) (auto simp: ac_simps)

lemma refs_to_simps [simp]:
  "refs_to a [] = 0"
  "refs_to a (vs @ ws) = refs_to a vs + refs_to a ws"
  "refs_to a (v # vs) = (if tv_meta v = a then 1 else 0) + refs_to a vs"
  by (simp_all add: refs_to_def)

lemma refs_to_nonneg: "0 \<le> refs_to a vs"
  by (simp add: refs_to_def)

lemma add_refs_Nil [simp]: "add_refs [] hp = hp"
proof -
  have "map (\<lambda>a. h_metas hp ! a) [0..<length (h_metas hp)] = h_metas hp" by (rule map_nth)
  moreover have "map_option (\<lambda>m. m\<lparr>mn_ref_cnt := mn_ref_cnt m\<rparr>) x = x" for x :: "swish_MetaName option"
    by (cases x) auto
  ultimately show ?thesis by (simp add: add_refs_def)
qed

lemma add_refs_nth:
  "a < length (h_metas hp) \<Longrightarrow> h_metas (add_refs vs hp) ! a =
     map_option (\<lambda>m. m\<lparr>mn_ref_cnt := mn_ref_cnt m + refs_to a vs\<rparr>) (h_metas hp ! a)"
  by (simp add: add_refs_def)

lemma length_add_refs [simp]: "length (h_metas (add_refs vs hp)) = length (h_metas hp)"
  by (simp add: add_refs_def)

lemma heap_eqI: "h_metas hp = h_metas hp' \<Longrightarrow> h_props hp = h_props hp' \<Longrightarrow> h_lists hp = h_lists hp' \<Longrightarrow>
    (hp :: heap) = hp'"
  by (cases hp; cases hp') simp

lemma add_refs_snoc:
  assumes "h_metas base ! a = Some m" and "a < length (h_metas base)" and "tv_meta v = a"
  shows "(add_refs vs base)\<lparr>h_metas := (h_metas (add_refs vs base))[a :=
      Some (m\<lparr>mn_ref_cnt := mn_ref_cnt m + refs_to a vs + 1\<rparr>)]\<rparr> = add_refs (vs @ [v]) base"
proof (rule heap_eqI)
  show "h_metas ((add_refs vs base)\<lparr>h_metas := (h_metas (add_refs vs base))[a :=
      Some (m\<lparr>mn_ref_cnt := mn_ref_cnt m + refs_to a vs + 1\<rparr>)]\<rparr>) = h_metas (add_refs (vs @ [v]) base)"
    using assms by (auto intro!: nth_equalityI simp: nth_list_update add_refs_nth)
qed (simp_all add: add_refs_def)

lemma capacity:
  fixes n s :: nat
  assumes "0 < s" and "c = s * max 1 ((n + s - 1) div s)"
  shows "(n div s \<noteq> 0 \<and> n mod s = 0 \<longrightarrow> s * (n div s + 1) = s * max 1 ((n + s) div s) \<and> n < s * (n div s + 1)) \<and>
    (\<not> (n div s \<noteq> 0 \<and> n mod s = 0) \<longrightarrow> c = s * max 1 ((n + s) div s) \<and> n < c)"
proof -
  obtain q r where n: "n = q * s + r" "r < s" "q = n div s" "r = n mod s"
    using assms(1) by (metis div_mod_decomp mod_less_divisor)
  have q: "(q' * s + r') div s = q'" if "r' < s" for q' r' using that by simp
  have d1: "(n + s) div s = q + 1" using assms(1) n(3) by (simp add: div_add_self2)
  show ?thesis
  proof (cases "r = 0")
    case True
    have m: "n mod s = 0" using True n(4) by simp
    have "(n + s - 1) div s = q"
    proof -
      have "n + s - 1 = q * s + (s - 1)" using True n(1) assms(1) by simp
      then show ?thesis using q [of "s - 1" q] assms(1) by simp
    qed
    then have "c = s * max 1 q" using assms(2) by simp
    moreover have "n < s * (q + 1)" using n(1,2) by (simp add: algebra_simps)
    ultimately have "(q \<noteq> 0 \<longrightarrow> s * (q + 1) = s * max 1 (q + 1) \<and> n < s * (q + 1)) \<and>
      (q = 0 \<longrightarrow> c = s * max 1 (q + 1) \<and> n < c)" by (cases "q = 0") simp_all
    then show ?thesis unfolding d1 n(3)[symmetric] using m by blast
  next
    case False
    have "(n + s - 1) div s = q + 1"
    proof -
      have "n + s - 1 = (q + 1) * s + (r - 1)" using False n(1) by (simp add: algebra_simps)
      moreover have "r - 1 < s" using n(2) by simp
      ultimately show ?thesis using q [of "r - 1" "q + 1"] by simp
    qed
    then have "c = s * (q + 1)" using assms(2) by simp
    moreover have "n < s * (q + 1)" using n(1,2) by (simp add: algebra_simps)
    ultimately have "c = s * max 1 (q + 1) \<and> n < c" by simp
    then show ?thesis unfolding d1 using False n(4) by simp
  qed
qed

definition tok_add ::
  "('b, 'c) tk_lib \<Rightarrow> bytes \<times> nat \<times> bytes \<Rightarrow> ('b, 'c) swish_TokenList \<times> heap \<Rightarrow>
   (('b, 'c) swish_TokenList \<times> heap) res" where
  "tok_add L x st = swish_token_list_add_token L (cobj (fst x)) (int (length (fst x)) + 1) (fst (snd x)) (snd (snd x)) st"

lemma hash_cache:
  assumes "xml_hash_ok H" and "\<forall>k v. swish_hash_fetch H h k = Some v \<longrightarrow> v = k"
  shows "\<exists>h' r. swish_hash_exists_or_add H h c c = Inr (h', r) \<and> swish_hash_fetch H h' c = Some c \<and>
    (\<forall>k v. swish_hash_fetch H h' k = Some v \<longrightarrow> v = k)"
proof (cases "swish_hash_fetch H h c")
  case None
  then obtain h' where "swish_hash_add H h c c = Inr (h', 0)" "swish_hash_fetch H h' = (swish_hash_fetch H h)(c \<mapsto> c)"
    using table.add_new [OF assms(1)] by blast
  moreover have "\<not> swish_hash_exists H h c"
    using None by (simp add: swish_hash_exists_def swish_hash_fetch_def)
  ultimately show ?thesis
    using assms(2) by (simp add: swish_hash_exists_or_add_def)
next
  case (Some v)
  then show ?thesis
    using assms(2) by (auto simp: swish_hash_exists_or_add_def swish_hash_exists_def swish_hash_fetch_def)
qed

lemma add_token_rep:
  assumes "tk_ok L" and "tokens_rep L base (tks, hp) vs" and "nul_free w" and "w \<noteq> []" and "live_meta base meta"
  shows "\<exists>tks' hp'. swish_token_list_add_token L (w @ 0 # r) (int (length w) + 1) meta context (tks, hp) =
      Inr (tks', hp') \<and>
    tokens_rep L base (tks', hp') (vs @ [\<lparr>tv_text = w, tv_meta = meta, tv_context = context, tv_pos = tl_pos tks + 1\<rparr>]) \<and>
    tl_pos tks' = tl_pos tks + 1 \<and> tl_n tks' = tl_n tks + 1 \<and> tl_ref_cnt tks' = tl_ref_cnt tks"
proof -
  let ?S = SWISH_TOKEN_LIST_SIZE and ?n = "length vs"
  have lib: "xml_str_ok (tk_str L)" "xml_buf_ok (tk_buf L)" "xml_hash_ok (tk_tab L)"
    using assms(1) by (simp_all add: tk_ok_def)
  have S: "0 < ?S" by (simp add: SWISH_TOKEN_LIST_SIZE_def)
  note rep = assms(2)[unfolded tokens_rep_def Let_def prod.case]
  obtain m where m: "h_metas base ! meta = Some m" "meta < length (h_metas base)"
    using assms(5) by (auto simp: live_meta_def)
  have hp: "obj_at (h_metas hp) meta = Inr (m\<lparr>mn_ref_cnt := mn_ref_cnt m + refs_to meta vs\<rparr>)"
    using m rep by (simp add: add_refs_nth)
  obtain h' ret where h: "swish_hash_exists_or_add (tk_tab L) (tl_contexts tks) context context = Inr (h', ret)"
    "swish_hash_fetch (tk_tab L) h' context = Some context"
    "\<forall>k v. swish_hash_fetch (tk_tab L) h' k = Some v \<longrightarrow> v = k"
    using hash_cache [OF lib(3), of "tl_contexts tks" "context"] rep by blast
  define tokens where "tokens = grow_tokens ?n (tl_tokens tks)"
  have "length (tl_tokens tks) = ?S * max 1 ((?n + ?S - 1) div ?S)" using rep by blast
  note cap = capacity [OF S this]
  have len: "length tokens = ?S * max 1 ((?n + ?S) div ?S)" "?n < length tokens"
    using cap by (cases "?n div ?S \<noteq> 0 \<and> ?n mod ?S = 0"; simp only: tokens_def grow_tokens_def Let_def if_True if_False length_realloc; simp)+
  have "?n \<le> length (tl_tokens tks)"
    using rep by (metis length_map length_placed length_take min.absorb_iff2)
  then have t: "take ?n tokens = map Some (placed 0 vs)"
    using len(2) rep by (auto simp: tokens_def grow_tokens_def Let_def take_realloc)
  define new where "new = \<lparr>to_pos = tl_pos tks + 1, to_meta = meta, to_context = Some context,
    to_offset = length (texts vs), to_len = int (length w), to_ref_cnt = 1\<rparr>"
  obtain toks where toks: "wr tokens (int ?n) (Some new) = Inr toks"
    "take (Suc ?n) toks = map Some (placed 0 vs) @ [Some new]" "length toks = length tokens"
    using wr_next [OF t _ len(2), of "Some new"] by auto
  obtain b where b: "xmlBufferAdd (tk_buf L) (tl_buf tks) (w @ [0]) = (b, 0)" "bufBytes (tk_buf L) b = texts vs @ w @ [0]"
    using xml_buf_laws(2,3) [OF lib(2), of "tl_buf tks" "w @ [0]"] rep
    by (cases "xmlBufferAdd (tk_buf L) (tl_buf tks) (w @ [0])") auto
  have off: "nat (xmlBufferLength (tk_buf L) (tl_buf tks)) = length (texts vs)"
    using rep by (simp add: xml_buf_laws [OF lib(2)])
  have hp': "hp\<lparr>h_metas := (h_metas hp)[meta := Some (m\<lparr>mn_ref_cnt := mn_ref_cnt m + refs_to meta vs + 1\<rparr>)]\<rparr> =
      add_refs (vs @ [\<lparr>tv_text = w, tv_meta = meta, tv_context = context, tv_pos = tl_pos tks + 1\<rparr>]) base"
    using add_refs_snoc [OF m, of "\<lparr>tv_text = w, tv_meta = meta, tv_context = context, tv_pos = tl_pos tks + 1\<rparr>" vs] rep
    by simp
  have n: "tl_n tks = ?n" using rep by simp
  have "cstr (w @ 0 # r) 0 = Inr w" using cstr_at [OF assms(3), of "[]"] by simp
  moreover have "take (nat (int (length w) + 1)) (w @ 0 # r) = w @ [0]" by (simp add: nat_add_distrib)
  ultimately have "swish_token_list_add_token L (w @ 0 # r) (int (length w) + 1) meta context (tks, hp) =
    Inr (tks\<lparr>tl_pos := tl_pos tks + 1, tl_buf := b, tl_contexts := h', tl_tokens := toks, tl_n := ?n + 1\<rparr>,
      hp\<lparr>h_metas := (h_metas hp)[meta := Some (m\<lparr>mn_ref_cnt := mn_ref_cnt m + refs_to meta vs + 1\<rparr>)]\<rparr>)"
    using assms(3,4) toks(1) h(1,2)
    by (simp add: swish_token_list_add_token_def swish_token_list_set_token_def hp b(1) Let_def off n
        xml_str_laws [OF lib(1)] swish_token_init_def new_def flip: tokens_def)
  moreover have "tokens_rep L base (tks\<lparr>tl_pos := tl_pos tks + 1, tl_buf := b, tl_contexts := h', tl_tokens := toks,
      tl_n := ?n + 1\<rparr>, hp\<lparr>h_metas := (h_metas hp)[meta := Some (m\<lparr>mn_ref_cnt := mn_ref_cnt m + refs_to meta vs + 1\<rparr>)]\<rparr>)
      (vs @ [\<lparr>tv_text = w, tv_meta = meta, tv_context = context, tv_pos = tl_pos tks + 1\<rparr>])"
    unfolding hp' using rep toks(2,3) len(1) b(2) h(3) assms(3-5)
    by (auto simp: tokens_rep_def placed_append new_def)
  ultimately show ?thesis using n by force
qed

lemma token_list_init_rep:
  assumes "tk_ok L"
  shows "\<exists>tks. swish_token_list_init L = Inr tks \<and> tokens_rep L base (tks, base) [] \<and> tl_pos tks = 0 \<and> tl_ref_cnt tks = 0"
proof -
  have H: "xml_hash_ok (tk_tab L)" and B: "xml_buf_ok (tk_buf L)" using assms by (simp_all add: tk_ok_def)
  obtain h where "xmlHashCreate (tk_tab L) 8 = Some h" "xmlHashLookup (tk_tab L) h = Map.empty"
    using xml_hash_create [OF H] .
  then show ?thesis
    by (simp add: swish_token_list_init_def swish_hash_init_def tokens_rep_def xml_buf_laws [OF B]
        swish_hash_fetch_def SWISH_TOKEN_LIST_SIZE_def)
qed

text \<open>The token list as a growing array: texts with their metaname and context.\<close>

interpretation token_list: growing_array "tk_ok L" "bnd (swish_token_list_init L) (\<lambda>tks. Inr (tks, base))"
    "tok_add L" "\<lambda>(w, meta, _). nul_free w \<and> w \<noteq> [] \<and> live_meta base meta"
    "\<lambda>st xs. \<exists>vs. tokens_rep L base st vs \<and> xs = map (\<lambda>v. (tv_text v, tv_meta v, tv_context v)) vs"
  for L :: "('b, 'c) tk_lib" and base
proof
  show "\<exists>l. bnd (swish_token_list_init L) (\<lambda>tks. Inr (tks, base)) = Inr l \<and>
      (\<exists>vs. tokens_rep L base l vs \<and> [] = map (\<lambda>v. (tv_text v, tv_meta v, tv_context v)) vs)" if "tk_ok L"
    using token_list_init_rep [OF that, of base] by auto
next
  fix l :: "('b, 'c) swish_TokenList \<times> heap" and xs and x :: "bytes \<times> nat \<times> bytes"
  assume L: "tk_ok L" and "\<exists>vs. tokens_rep L base l vs \<and> xs = map (\<lambda>v. (tv_text v, tv_meta v, tv_context v)) vs"
    and x: "case x of (w, meta, _) \<Rightarrow> nul_free w \<and> w \<noteq> [] \<and> live_meta base meta"
  then obtain tks hp vs w meta ctx where *: "l = (tks, hp)" "tokens_rep L base (tks, hp) vs"
    "xs = map (\<lambda>v. (tv_text v, tv_meta v, tv_context v)) vs" "x = (w, meta, ctx)"
    "nul_free w" "w \<noteq> []" "live_meta base meta"
    by (cases l; cases x) auto
  from add_token_rep [OF L *(2) *(5-7), of "[]" ctx] obtain st' where
    "tok_add L x l = Inr st'" "tokens_rep L base st'
      (vs @ [\<lparr>tv_text = w, tv_meta = meta, tv_context = ctx, tv_pos = tl_pos tks + 1\<rparr>])"
    by (auto simp: tok_add_def cobj_def *)
  then show "\<exists>l'. tok_add L x l = Inr l' \<and>
      (\<exists>vs. tokens_rep L base l' vs \<and> xs @ [x] = map (\<lambda>v. (tv_text v, tv_meta v, tv_context v)) vs)"
    by (intro exI conjI) (auto simp: *)
qed

section \<open>A library and a list to evaluate on\<close>

definition ref_tk :: "(bytes, (bytes \<times> bytes) list) tk_lib" where
  "ref_tk = \<lparr>tk_str = ref_str, tk_buf = ref_buf, tk_tab = ref_hash, tk_wide = ref_wide,
     tk_malloc = (\<lambda>n. replicate n 0xAA)\<rparr>"

lemma ref_tk_ok [simp]: "tk_ok ref_tk"
  by (simp add: tk_ok_def ref_tk_def)

definition one_meta :: heap where
  "one_meta = \<lparr>h_metas = [Some ((swish_metaname_init (lit ''swishdefault''))\<lparr>mn_ref_cnt := 1\<rparr>)],
     h_props = [], h_lists = []\<rparr>"

lemma live_one_meta [simp]: "live_meta one_meta 0"
  by (simp add: live_meta_def one_meta_def)

lemma sample_list:
  "\<exists>tks hp. tokens_rep ref_tk one_meta (tks, hp)
     [\<lparr>tv_text = [0x61, 0x62], tv_meta = 0, tv_context = [0x63], tv_pos = 1\<rparr>]"
proof -
  obtain tks where "tokens_rep ref_tk one_meta (tks, one_meta) []" "tl_pos tks = 0"
    using token_list_init_rep [OF ref_tk_ok, of one_meta] by auto
  then show ?thesis
    using add_token_rep [OF ref_tk_ok, of one_meta tks one_meta "[]" "[0x61, 0x62]" 0 "[]" "[0x63]"] by auto
qed

section \<open>Iteration\<close>

lemma placed_nth:
  "i < length vs \<Longrightarrow> placed off vs ! i =
     \<lparr>to_pos = tv_pos (vs ! i), to_meta = tv_meta (vs ! i), to_context = Some (tv_context (vs ! i)),
      to_offset = off + length (texts (take i vs)), to_len = int (length (tv_text (vs ! i))), to_ref_cnt = 1\<rparr>"
proof (induction vs arbitrary: off i)
  case (Cons v vs)
  then show ?case by (cases i) auto
qed simp

lemma token_at_rep:
  assumes "tokens_rep L base (tks, hp) vs" and "i < length vs"
  shows "token_at tks i = Inr (placed 0 vs ! i)"
proof -
  have "take (length vs) (tl_tokens tks) = map Some (placed 0 vs)"
    using assms(1) by (simp add: tokens_rep_def)
  moreover from this have "length vs \<le> length (tl_tokens tks)"
    by (metis length_map length_placed length_take min.absorb_iff2)
  ultimately have "i < length (tl_tokens tks)" "tl_tokens tks ! i = Some (placed 0 vs ! i)"
    using assms(2) by (simp, metis length_placed nth_map nth_take)
  then show ?thesis by (simp add: token_at_def rd_def)
qed

lemma texts_split: "i < length vs \<Longrightarrow> texts vs = texts (take i vs) @ tv_text (vs ! i) @ 0 # texts (drop (Suc i) vs)"
  by (metis append_Cons append_Nil append.assoc append_take_drop_id nth_tl_Cons texts_simps(2,3))

text \<open>
  C13: the iterator gives the tokens in the order they were added. At position \<open>i\<close> the next
  token has the position, metaname and context of the \<open>i\<close>th token added; the C string at its
  value is its whole text and its length is that text's; after the last token the answer is
  NULL and nothing moves.
\<close>

theorem iterator_yields_tokens:
  assumes "tokens_rep L base (it_tl it, hp) vs"
  shows "if it_pos it < length vs
    then \<exists>t. swish_token_iterator_next_token it = Inr (Some t, it\<lparr>it_pos := it_pos it + 1\<rparr>) \<and>
      to_pos t = tv_pos (vs ! it_pos it) \<and> to_meta t = tv_meta (vs ! it_pos it) \<and>
      to_context t = Some (tv_context (vs ! it_pos it)) \<and>
      to_len t = int (length (tv_text (vs ! it_pos it))) \<and>
      cstr (swish_token_list_get_token_value L (it_tl it) t) 0 = Inr (tv_text (vs ! it_pos it))
    else swish_token_iterator_next_token it = Inr (None, it)"
proof (cases "it_pos it < length vs")
  case True
  have nf: "nul_free (tv_text (vs ! it_pos it))" using assms True by (simp add: tokens_rep_def)
  have "cstr (drop (length (texts (take (it_pos it) vs))) (texts vs @ [0])) 0 = Inr (tv_text (vs ! it_pos it))"
    using cstr_at [OF nf, of "[]" "texts (drop (Suc (it_pos it)) vs) @ [0]"]
    by (subst texts_split [OF True]) simp
  moreover have "tl_n (it_tl it) = length vs" and "bufBytes (tk_buf L) (tl_buf (it_tl it)) = texts vs"
    using assms by (simp_all add: tokens_rep_def)
  ultimately show ?thesis
    using True by (simp add: swish_token_iterator_next_token_def token_at_rep [OF assms True] placed_nth
        swish_token_list_get_token_value_def xmlBufferContent_def)
next
  case False
  then show ?thesis using assms by (simp add: swish_token_iterator_next_token_def tokens_rep_def)
qed

lemma iterator_yields_tokens_witness:
  "\<exists>it t. swish_token_iterator_next_token it = Inr (Some t, it\<lparr>it_pos := 1\<rparr>) \<and>
    cstr (swish_token_list_get_token_value ref_tk (it_tl it) t) 0 = Inr [0x61, 0x62]"
proof -
  obtain tks hp where "tokens_rep ref_tk one_meta (tks, hp)
      [\<lparr>tv_text = [0x61, 0x62], tv_meta = 0, tv_context = [0x63], tv_pos = 1\<rparr>]"
    using sample_list by blast
  then have "tokens_rep ref_tk one_meta (it_tl \<lparr>it_tl = tks, it_pos = 0, it_ref_cnt = 0\<rparr>, hp)
      [\<lparr>tv_text = [0x61, 0x62], tv_meta = 0, tv_context = [0x63], tv_pos = 1\<rparr>]" by simp
  from iterator_yields_tokens [OF this] show ?thesis
    by (intro exI [of _ "\<lparr>it_tl = tks, it_pos = 0, it_ref_cnt = 0\<rparr>"]) auto
qed

section \<open>Release\<close>

lemma token_free_add_refs:
  assumes "h_metas base ! tv_meta v = Some m" and "tv_meta v < length (h_metas base)" and "0 < mn_ref_cnt m"
    and "to_meta t = tv_meta v"
  shows "swish_token_free t (add_refs (us @ [v]) base) = Inr (add_refs us base)"
proof -
  let ?a = "tv_meta v"
  have m: "obj_at (h_metas (add_refs (us @ [v]) base)) ?a = Inr (m\<lparr>mn_ref_cnt := mn_ref_cnt m + refs_to ?a us + 1\<rparr>)"
    using assms(1,2) by (simp add: add_refs_nth ac_simps)
  have "(add_refs (us @ [v]) base)\<lparr>h_metas := (h_metas (add_refs (us @ [v]) base))[?a :=
      Some (m\<lparr>mn_ref_cnt := mn_ref_cnt m + refs_to ?a us\<rparr>)]\<rparr> = add_refs us base"
    using assms(1,2)
    by (intro heap_eqI) (auto intro!: nth_equalityI simp: nth_list_update add_refs_nth, auto simp: add_refs_def)
  then show ?thesis
    using assms(3,4) m refs_to_nonneg [of ?a us] by (simp add: swish_token_free_def Let_def)
qed

lemma token_list_free_loop_rep:
  assumes "tokens_rep L base (tks, hp) (us @ ws)"
    and "\<forall>v \<in> set us. \<forall>m. h_metas base ! tv_meta v = Some m \<longrightarrow> 0 < mn_ref_cnt m"
  shows "token_list_free_loop tks (length us) (add_refs us base) = Inr base"
  using assms
proof (induction us arbitrary: ws rule: rev_induct)
  case (snoc v us)
  have live: "live_meta base (tv_meta v)" using snoc.prems(1) by (simp add: tokens_rep_def)
  then obtain m where m: "h_metas base ! tv_meta v = Some m" "tv_meta v < length (h_metas base)"
    by (auto simp: live_meta_def)
  have t: "token_at tks (length us) = Inr (placed 0 (us @ v # ws) ! length us)"
    using token_at_rep [OF snoc.prems(1), of "length us"] by simp
  have "swish_token_free ((placed 0 (us @ v # ws) ! length us)\<lparr>to_ref_cnt := 0\<rparr>) (add_refs (us @ [v]) base) = Inr (add_refs us base)"
    using snoc.prems(2) m by (intro token_free_add_refs [OF m]) (auto simp: placed_nth)
  moreover have "token_list_free_loop tks (length us) (add_refs us base) = Inr base"
    using snoc.IH [of "v # ws"] snoc.prems by simp
  ultimately show ?case using t by (simp add: Let_def placed_nth)
qed simp

text \<open>
  C12: reference counts balance. Whatever tokens a list collected, releasing it gives every
  metaname back the count it had before the first token, provided the metanames of those
  tokens had another owner; the heap is exactly what it was.
\<close>

theorem token_list_free_restores_heap:
  assumes "tokens_rep L base (tks, hp) vs"
    and "\<forall>v \<in> set vs. \<forall>m. h_metas base ! tv_meta v = Some m \<longrightarrow> 0 < mn_ref_cnt m"
  shows "swish_token_list_free tks hp = Inr base"
proof -
  have "hp = add_refs vs base" "tl_n tks = length vs" using assms(1) by (simp_all add: tokens_rep_def)
  then show ?thesis
    using token_list_free_loop_rep [of L base tks hp vs "[]"] assms by (simp add: swish_token_list_free_def)
qed

lemma token_list_free_restores_heap_witness:
  "\<exists>(tks :: (bytes, (bytes \<times> bytes) list) swish_TokenList) hp. h_metas hp \<noteq> h_metas one_meta \<and> swish_token_list_free tks hp = Inr one_meta"
proof -
  obtain tks hp where *: "tokens_rep ref_tk one_meta (tks, hp)
      [\<lparr>tv_text = [0x61, 0x62], tv_meta = 0, tv_context = [0x63], tv_pos = 1\<rparr>]"
    using sample_list by blast
  then have "h_metas hp \<noteq> h_metas one_meta"
    by (auto simp: tokens_rep_def add_refs_def one_meta_def swish_metaname_init_def)
  moreover have "swish_token_list_free tks hp = Inr one_meta"
    by (rule token_list_free_restores_heap [OF *]) (simp add: one_meta_def)
  ultimately show ?thesis by blast
qed

end
