(* ===== verification/Tokenizer_Correct.thy ===== *)
theory Tokenizer_Correct
  imports Tokens_Correct
begin

text \<open>
  The ASCII tokenizer against a reference: the text is cut into words and separators, each
  word is stripped of apostrophes and underscores at its ends, and the words that are left
  are numbered, the token-position byte skipping a number. Then the words on which the two
  tokenizers write past their buffers, and what the UTF-8 one does to a word that starts
  with an apostrophe.
\<close>

section \<open>The reference\<close>

definition word_chr :: "u8 \<Rightarrow> bool" where
  "word_chr c \<longleftrightarrow> c < 128 \<and> \<not> is_ignore_word_ascii c"

definition edge_chr :: "u8 \<Rightarrow> bool" where
  "edge_chr c \<longleftrightarrow> c = 0x27 \<or> c = 0x5F"

definition strip_word :: "bytes \<Rightarrow> bytes" where
  "strip_word w = dropWhile edge_chr (rev (dropWhile edge_chr (rev w)))"

datatype piece = Word_piece bytes | Sep_piece u8

function pieces :: "bytes \<Rightarrow> piece list" where
  "pieces [] = []"
| "pieces (c # s) =
     (if word_chr c then Word_piece (c # takeWhile word_chr s) # pieces (dropWhile word_chr s)
      else Sep_piece c # pieces s)"
  by pat_completeness auto
termination
  by (relation "measure length") (auto simp: le_imp_less_Suc length_dropWhile_le)

text \<open>The token a word gives after \<open>p\<close> tokens, if any.\<close>

definition word_token :: "nat \<Rightarrow> bytes \<Rightarrow> (bytes \<times> nat) list" where
  "word_token p w = (if strip_word w = [] then [] else [(strip_word w, p + 1)])"

text \<open>A word of one character that ends the text is taken as it is.\<close>

fun words_of :: "nat \<Rightarrow> piece list \<Rightarrow> (bytes \<times> nat) list" where
  "words_of p [] = []"
| "words_of p (Sep_piece c # ps) = words_of (if c = 3 then p + 1 else p) ps"
| "words_of p (Word_piece w # ps) =
     (let ts = (if ps = [] \<and> length w = 1 then [(w, p + 1)] else word_token p w) in
      ts @ words_of (p + length ts) ps)"

section \<open>The tables\<close>

lemma unat_lt: "c < 128 \<longleftrightarrow> unat (c :: u8) < 128"
  by (simp add: word_less_nat_alt)

lemma table_at:
  assumes "c < 128" and "p 127"
  shows "rd (make_ascii_table p) (uint c) = Inr (\<not> p c)"
proof (cases "unat c = 127")
  case True
  then have "c = 127" by (simp add: word_unat_eq_iff)
  then show ?thesis using assms(2) by (simp add: rd_def make_ascii_table_def nth_append)
next
  case False
  then have "unat c < 127" using assms(1) by (simp add: unat_lt)
  then have "rd (make_ascii_table p) (int (unat c)) = Inr (\<not> p (of_nat (unat c)))"
    unfolding make_ascii_table_def by (subst rd_in) (simp_all add: nth_append)
  then show ?thesis by simp
qed

lemma sint_ascii: "c < 128 \<Longrightarrow> sint (c :: u8) = uint c"
  using signed_take_bit_int_eq_self [of 7 "uint c"] uint_ge_0 [of c]
  by (simp add: sint_uint word_less_def del: uint_ge_0)

lemma word_table_at: "c < 128 \<Longrightarrow> rd ascii_word_table (sint c) = Inr (word_chr c)"
  by (simp add: ascii_word_table_def sint_ascii table_at word_chr_def is_ignore_word_ascii_def iscntrl_def)

lemma edge_punct: "word_chr c \<Longrightarrow> c = 0 \<or> isspace c \<or> iscntrl c \<or> ispunct c \<longleftrightarrow> edge_chr c"
  by (auto simp: word_chr_def is_ignore_word_ascii_def edge_chr_def ispunct_def split: if_splits)

lemma end_table_at: "word_chr c \<Longrightarrow> rd ascii_end_table (uint c) = Inr (\<not> edge_chr c)"
  using edge_punct [of c]
  by (simp add: ascii_end_table_def table_at is_ignore_end_ascii_def iscntrl_def word_chr_def)

lemma start_table_at: "word_chr c \<Longrightarrow> rd ascii_start_table (uint c) = Inr (\<not> edge_chr c)"
  using edge_punct [of c]
  by (simp add: ascii_start_table_def table_at is_ignore_start_ascii_def iscntrl_def word_chr_def)

lemma word_chr_0 [simp]: "\<not> word_chr 0"
  by (simp add: word_chr_def is_ignore_word_ascii_def)

lemma word_chr_nul_free: "list_all word_chr v \<Longrightarrow> nul_free v"
  by (induction v) (auto simp: nul_free_def)

section \<open>Stripping\<close>

definition rstrip_word :: "bytes \<Rightarrow> bytes" where
  "rstrip_word v = rev (dropWhile edge_chr (rev v))"

lemma rstrip_word_snoc: "rstrip_word (v @ [c]) = (if edge_chr c then rstrip_word v else v @ [c])"
  by (simp add: rstrip_word_def)

lemma strip_word_rstrip: "strip_word v = dropWhile edge_chr (rstrip_word v)"
  by (simp add: strip_word_def rstrip_word_def)

lemma set_strip: "set (rstrip_word v) \<subseteq> set v" "set (strip_word v) \<subseteq> set v"
  by (auto simp: strip_word_def rstrip_word_def dest!: set_dropWhileD)

lemma list_all_sub: "list_all P v \<Longrightarrow> set u \<subseteq> set v \<Longrightarrow> list_all P u"
  by (auto simp: list_all_iff)

lemma strip_ascii_end_eq:
  "list_all word_chr v \<Longrightarrow> \<exists>r'. strip_ascii_end (v @ 0 # r) (length v) = Inr (rstrip_word v @ 0 # r') \<and>
     length (rstrip_word v @ 0 # r') = length (v @ 0 # r)"
proof (induction v arbitrary: r rule: rev_induct)
  case (snoc c v)
  have "rd (v @ c # 0 # r) (int (length v)) = Inr c" by simp
  moreover have "wr (v @ c # 0 # r) (int (length v)) 0 = Inr (v @ 0 # 0 # r)" by (simp add: wr_append_at)
  ultimately show ?case
    using snoc.prems snoc.IH [of "0 # r"] by (auto simp: end_table_at rstrip_word_snoc)
qed (simp add: rstrip_word_def)

lemma strip_ascii_start_eq:
  "list_all word_chr u \<Longrightarrow> strip_ascii_start (pre @ u @ 0 # r) (length pre) =
     Inr (length pre + length (takeWhile edge_chr u))"
proof (induction u arbitrary: pre)
  case Nil
  then show ?case by (simp add: strip_ascii_start.simps)
next
  case (Cons c u)
  have "c \<noteq> 0" using Cons.prems by auto
  then show ?case
    using Cons.prems Cons.IH [of "pre @ [c]"]
    by (subst strip_ascii_start.simps) (simp add: start_table_at)
qed

lemma strip_ascii_move_eq:
  "nul_free y \<Longrightarrow> \<exists>r'. strip_ascii_move (d @ m @ y @ 0 # r) (length d + length m) (length d) = Inr (d @ y @ 0 # r') \<and>
     length (d @ y @ 0 # r') = length (d @ m @ y @ 0 # r)"
proof (induction y arbitrary: d m)
  case Nil
  then show ?case
  proof (cases m)
    case Nil
    then show ?thesis by (subst strip_ascii_move.simps) (simp add: wr_append_at)
  next
    case (Cons b m')
    have "rd (d @ (b # m') @ 0 # r) (int (length d + length (b # m'))) = Inr 0"
      using rd_append_at [of _ "d @ b # m'" 0 r] by simp
    then show ?thesis
      using Cons by (subst strip_ascii_move.simps) (auto simp: wr_append_at)
  qed
next
  case (Cons c y)
  obtain b m' where bm: "m @ [c] = b # m'" by (cases m) auto
  have "rd (d @ m @ c # y @ 0 # r) (int (length d + length m)) = Inr c"
    using rd_append_at [of _ "d @ m" c "y @ 0 # r"] by simp
  moreover have "wr (d @ m @ c # y @ 0 # r) (int (length d)) c = Inr (d @ c # m' @ y @ 0 # r)"
    using wr_append_at [of "int (length d)" d b "m' @ y @ 0 # r" c] bm
    by (metis append.assoc append_Cons append_Nil)
  moreover have "length m' = length m" using arg_cong [OF bm, of length] by simp
  ultimately show ?case
    using Cons.IH [of "d @ [c]" m'] Cons.prems by (subst strip_ascii_move.simps) auto
qed

lemma strip_ascii_chrs_eq:
  assumes "xml_str_ok X" and "list_all word_chr v"
  shows "\<exists>r'. strip_ascii_chrs X (v @ 0 # r) (length v + 1) = Inr (strip_word v @ 0 # r', int (length (strip_word v)) + 1) \<and>
    length (strip_word v @ 0 # r') = length (v @ 0 # r)"
proof -
  let ?u = "rstrip_word v" let ?x = "takeWhile edge_chr ?u"
  have last: "strip_ascii_end (v @ 0 # r) (length v + 1) = strip_ascii_end (v @ 0 # r) (length v)"
    by (simp add: wr_append_at ascii_end_table_def rd_def make_ascii_table_def is_ignore_end_ascii_def nth_append)
  obtain r1 where r1: "strip_ascii_end (v @ 0 # r) (length v) = Inr (?u @ 0 # r1)"
    "length (?u @ 0 # r1) = length (v @ 0 # r)"
    using strip_ascii_end_eq [OF assms(2)] by blast
  have u: "list_all word_chr ?u" and s: "nul_free (strip_word v)"
    using list_all_sub [OF assms(2)] set_strip word_chr_nul_free by blast+
  have "?u = ?x @ strip_word v" by (simp add: strip_word_rstrip)
  then obtain r2 where r2: "(if length ?x \<noteq> 0 then strip_ascii_move (?u @ 0 # r1) (length ?x) 0 else Inr (?u @ 0 # r1)) =
      Inr (strip_word v @ 0 # r2)" "length (strip_word v @ 0 # r2) = length (?u @ 0 # r1)"
    using strip_ascii_move_eq [OF s, of "[]" ?x r1]
    by (metis (no_types) append.assoc append_Nil length_0_conv list.size(3) plus_nat.add_0)
  have "strip_ascii_start (?u @ 0 # r1) 0 = Inr (length ?x)"
    using strip_ascii_start_eq [OF u, of "[]" r1] by simp
  moreover have "cstr (strip_word v @ 0 # r2) 0 = Inr (strip_word v)"
    using cstr_at [OF s, of "[]" r2] by simp
  ultimately show ?thesis
    using r1 r2 s unfolding strip_ascii_chrs_def last by (simp add: xml_str_laws [OF assms(1)])
qed

section \<open>The ASCII loop\<close>

definition tok_of :: "nat \<Rightarrow> bytes \<Rightarrow> bytes \<times> nat \<Rightarrow> token_val" where
  "tok_of meta ctx e = \<lparr>tv_text = fst e, tv_meta = meta, tv_context = ctx, tv_pos = snd e\<rparr>"

text \<open>The state outside a word, after the tokens \<open>vs\<close> and at token position \<open>p\<close>.\<close>

definition outside ::
  "('b, 'c) tk_lib \<Rightarrow> heap \<Rightarrow> nat \<Rightarrow> token_val list \<Rightarrow> nat \<Rightarrow> ('b, 'c) tok_state \<Rightarrow> bool" where
  "outside L base mx vs p st \<longleftrightarrow>
     (case st of (w, tks, hp) \<Rightarrow>
       \<not> ws_inside w \<and> mx \<le> length (ws_token w) \<and> tokens_rep L base (tks, hp) vs \<and> tl_pos tks = p)"

lemma end_ascii_word_eq:
  assumes "tk_ok L" and "tokens_rep L base (tks, hp) vs" and "live_meta base meta"
    and "list_all word_chr v" and "t \<noteq> []" and "mx \<le> length (v @ t)"
  shows "\<exists>st'. end_ascii_word L 1 meta ctx (\<lparr>ws_inside = i, ws_token = v @ t, ws_len = length v\<rparr>, tks, hp) = Inr st' \<and>
    outside L base mx (vs @ map (tok_of meta ctx) (word_token (tl_pos tks) v))
      (tl_pos tks + length (word_token (tl_pos tks) v)) st'"
proof -
  obtain x t' where t: "t = x # t'" using assms(5) by (cases t) auto
  have X: "xml_str_ok (tk_str L)" using assms(1) by (simp add: tk_ok_def)
  obtain r where r: "strip_ascii_chrs (tk_str L) (v @ 0 # t') (length v + 1) =
      Inr (strip_word v @ 0 # r, int (length (strip_word v)) + 1)"
    "length (strip_word v @ 0 # r) = length (v @ 0 # t')"
    using strip_ascii_chrs_eq [OF X assms(4)] by blast
  have s: "nul_free (strip_word v)"
    using list_all_sub [OF assms(4)] set_strip word_chr_nul_free by blast
  have wr: "wr (v @ t) (int (length v)) 0 = Inr (v @ 0 # t')" by (simp add: t wr_append_at)
  show ?thesis
  proof (cases "strip_word v")
    case Nil
    then show ?thesis
      using assms(2,6) wr r
      by (auto simp: end_ascii_word_def word_token_def outside_def t rd_Cons)
  next
    case (Cons b u)
    obtain tks' hp' where "swish_token_list_add_token L (strip_word v @ 0 # r) (int (length (strip_word v)) + 1) meta ctx
        (tks, hp) = Inr (tks', hp')"
      "tokens_rep L base (tks', hp') (vs @ [\<lparr>tv_text = strip_word v, tv_meta = meta, tv_context = ctx,
         tv_pos = tl_pos tks + 1\<rparr>])" "tl_pos tks' = tl_pos tks + 1"
      using add_token_rep [OF assms(1,2) s _ assms(3), of r ctx] Cons by auto
    then show ?thesis
      using assms(6) wr r s Cons
      by (auto simp: end_ascii_word_def word_token_def outside_def t tok_of_def rd_Cons)
  qed
qed

lemma one_char_word_eq:
  assumes "tk_ok L" and "tokens_rep L base (tks, hp) vs" and "live_meta base meta"
    and "c \<noteq> 0" and "t \<noteq> []" and "mx \<le> length (c # t)"
  shows "\<exists>st'. one_char_word L meta ctx (\<lparr>ws_inside = i, ws_token = c # t, ws_len = 1\<rparr>, tks, hp) = Inr st' \<and>
    outside L base mx (vs @ [tok_of meta ctx ([c], tl_pos tks + 1)]) (tl_pos tks + 1) st'"
proof -
  obtain x t' where t: "t = x # t'" using assms(5) by (cases t) auto
  have "wr (c # t) 1 0 = Inr (c # 0 # t')" using wr_append_at [of 1 "[c]" x t' 0] by (simp add: t)
  then show ?thesis
    using add_token_rep [OF assms(1,2) _ _ assms(3), of "[c]" t' ctx] assms(4,6)
    by (auto simp: one_char_word_def outside_def t tok_of_def)
qed

text \<open>The loop over a text \<open>s\<close> that starts at index \<open>length pre\<close>.\<close>

definition run ::
  "('b, 'c) tk_lib \<Rightarrow> swish_Analyzer \<Rightarrow> nat \<Rightarrow> bytes \<Rightarrow> bytes \<Rightarrow> bytes \<Rightarrow> ('b, 'c) tok_state \<Rightarrow> ('b, 'c) tok_state res" where
  "run L a meta ctx pre s st = tokenize_ascii_loop L a meta ctx (pre @ s @ [0]) (length pre) st"

lemma run_Nil: "run L a meta ctx pre [] st = Inr st"
  by (simp add: run_def tokenize_ascii_loop.simps)

lemma run_Cons:
  assumes "b \<noteq> 0"
  shows "run L a meta ctx pre (b # s) st =
    bnd (ascii_step L a meta ctx (tolower b) (tolower (hd (s @ [0]))) st) (run L a meta ctx (pre @ [b]) s)"
proof -
  have "rd (pre @ b # s @ [0]) (int (length pre) + 1) = Inr (hd (s @ [0]))"
    by (cases s) (simp_all add: rd_append_next)
  moreover have "tokenize_ascii_loop L a meta ctx (pre @ b # s @ [0]) (Suc (length pre)) = run L a meta ctx (pre @ [b]) s"
    by (simp add: run_def fun_eq_iff)
  ultimately show ?thesis using assms
    by (simp add: run_def [of L a meta ctx pre] tokenize_ascii_loop.simps [of L a meta ctx "pre @ b # s @ [0]" "length pre"])
qed

lemma hd_nul: "nul_free s \<Longrightarrow> tolower (hd (s @ [0])) = 0 \<longleftrightarrow> s = []"
  by (cases s) auto

text \<open>Reading on inside a word that does not end the text.\<close>

lemma run_inside:
  assumes "list_all word_chr (map tolower u)" and "rest \<noteq> []" and "nul_free (u @ rest)"
    and "length v + length u < an_maxwordlen a" and "an_maxwordlen a \<le> length (v @ t)"
  shows "\<exists>t'. run L a meta ctx pre (u @ rest) (\<lparr>ws_inside = True, ws_token = v @ t, ws_len = length v\<rparr>, tks, hp) =
      run L a meta ctx (pre @ u) rest (\<lparr>ws_inside = True, ws_token = (v @ map tolower u) @ t',
        ws_len = length (v @ map tolower u)\<rparr>, tks, hp) \<and>
    length (v @ t) = length ((v @ map tolower u) @ t')"
  using assms
proof (induction u arbitrary: pre v t)
  case (Cons b u)
  have b: "b \<noteq> 0" "word_chr (tolower b)" "tolower b < 128" using Cons.prems by (auto simp: word_chr_def)
  obtain x t' where t: "t = x # t'" using Cons.prems(4,5) by (cases t) auto
  have "wr (v @ t) (int (length v)) (tolower b) = Inr (v @ tolower b # t')" by (simp add: t wr_append_at)
  moreover have "nul_free (u @ rest)" using Cons.prems(3) by simp
  then have "tolower (hd ((u @ rest) @ [0])) \<noteq> 0" using hd_nul Cons.prems(2) by blast
  moreover have "bump (tolower b) tks = tks"
    using b(2) by (auto simp: bump_def SWISH_TOKENPOS_BUMPER_def word_chr_def is_ignore_word_ascii_def iscntrl_def)
  ultimately have "ascii_step L a meta ctx (tolower b) (tolower (hd ((u @ rest) @ [0])))
      (\<lparr>ws_inside = True, ws_token = v @ t, ws_len = length v\<rparr>, tks, hp) =
    Inr (\<lparr>ws_inside = True, ws_token = (v @ [tolower b]) @ t', ws_len = length (v @ [tolower b])\<rparr>, tks, hp)"
    using b Cons.prems(4) by (simp add: ascii_step_def word_table_at Let_def)
  moreover have "\<exists>t''. run L a meta ctx (pre @ [b]) (u @ rest) (\<lparr>ws_inside = True, ws_token = (v @ [tolower b]) @ t',
      ws_len = length (v @ [tolower b])\<rparr>, tks, hp) =
      run L a meta ctx ((pre @ [b]) @ u) rest (\<lparr>ws_inside = True, ws_token = ((v @ [tolower b]) @ map tolower u) @ t'',
        ws_len = length ((v @ [tolower b]) @ map tolower u)\<rparr>, tks, hp) \<and>
      length ((v @ [tolower b]) @ t') = length (((v @ [tolower b]) @ map tolower u) @ t'')"
    using Cons.prems t by (intro Cons.IH) auto
  ultimately show ?case using t b(1) by (auto simp: run_Cons)
qed auto

lemma step_sep:
  assumes "tk_ok L" and "outside L base (an_maxwordlen a) vs p st" and "b < 128" and "\<not> word_chr (tolower b)"
  shows "\<exists>st'. ascii_step L a meta ctx (tolower b) nextc st = Inr st' \<and>
    outside L base (an_maxwordlen a) vs (if tolower b = 3 then p + 1 else p) st'"
proof -
  obtain w tks hp where st: "st = (w, tks, hp)" by (cases st)
  have "tokens_rep L base (bump c tks, hp) vs \<longleftrightarrow> tokens_rep L base (tks, hp) vs" for c
    by (simp add: bump_def tokens_rep_def)
  then show ?thesis
    using assms tolower_ascii [OF assms(3)]
    by (auto simp: ascii_step_def word_table_at outside_def bump_def SWISH_TOKENPOS_BUMPER_def st)
qed

lemma step_start:
  assumes "outside L base (an_maxwordlen a) vs p (w, tks, hp)" and "word_chr (tolower b)" and "0 < an_maxwordlen a"
    and "an_minwordlen a = 1"
  shows "\<exists>t. length (ws_token w) = Suc (length t) \<and>
    ascii_step L a meta ctx (tolower b) nextc (w, tks, hp) =
      (let w' = \<lparr>ws_inside = True, ws_token = tolower b # t, ws_len = 1\<rparr> in
       if nextc = 0 then bnd (one_char_word L meta ctx (w', tks, hp)) (\<lambda>st. Inr st) else Inr (w', tks, hp))"
proof -
  obtain x t where t: "ws_token w = x # t" using assms(1,3) by (cases "ws_token w") (auto simp: outside_def)
  have "tolower b \<noteq> 3" using assms(2) by (auto simp: word_chr_def is_ignore_word_ascii_def iscntrl_def)
  then show ?thesis
    using assms(1,2,4) t wr_append_at [of 0 "[]" x t "tolower b"]
    by (auto simp: ascii_step_def word_table_at word_chr_def outside_def bump_def SWISH_TOKENPOS_BUMPER_def
        bnd_eq_Inr case_prod_beta Let_def)
qed

lemma outside_bump:
  "outside L base mx vs p (w, tks, hp) \<Longrightarrow> outside L base mx vs (if c = 3 then p + 1 else p) (w, bump c tks, hp)"
  by (auto simp: outside_def bump_def SWISH_TOKENPOS_BUMPER_def tokens_rep_def)

lemma step_end_sep:
  assumes "tk_ok L" and "tokens_rep L base (tks, hp) vs" and "live_meta base meta" and "an_minwordlen a = 1"
    and "list_all word_chr v" and "length v < an_maxwordlen a" and "an_maxwordlen a \<le> length (v @ t)"
    and "b < 128" and "\<not> word_chr (tolower b)"
  defines "ts \<equiv> word_token (tl_pos tks) v"
  shows "\<exists>st'. ascii_step L a meta ctx (tolower b) nextc
      (\<lparr>ws_inside = True, ws_token = v @ t, ws_len = length v\<rparr>, tks, hp) = Inr st' \<and>
    outside L base (an_maxwordlen a) (vs @ map (tok_of meta ctx) ts)
      (if tolower b = 3 then tl_pos tks + length ts + 1 else tl_pos tks + length ts) st'"
proof -
  have "t \<noteq> []" using assms(6,7) by auto
  then obtain w' tks' hp' where *: "end_ascii_word L 1 meta ctx (\<lparr>ws_inside = True, ws_token = v @ t, ws_len = length v\<rparr>, tks, hp) =
      Inr (w', tks', hp')"
    "outside L base (an_maxwordlen a) (vs @ map (tok_of meta ctx) ts) (tl_pos tks + length ts) (w', tks', hp')"
    using end_ascii_word_eq [OF assms(1-3,5) _ assms(7), of ctx True] by (auto simp: ts_def)
  then have "ascii_step L a meta ctx (tolower b) nextc
      (\<lparr>ws_inside = True, ws_token = v @ t, ws_len = length v\<rparr>, tks, hp) = Inr (w', bump (tolower b) tks', hp')"
    using assms(4,8,9) by (simp add: ascii_step_def word_table_at tolower_ascii)
  with outside_bump [OF *(2), of "tolower b"] show ?thesis by blast
qed

lemma step_end_text:
  assumes "tk_ok L" and "tokens_rep L base (tks, hp) vs" and "live_meta base meta" and "an_minwordlen a = 1"
    and "list_all word_chr (v @ [tolower b])" and "length v + 1 < an_maxwordlen a" and "an_maxwordlen a \<le> length (v @ t)"
  defines "ts \<equiv> word_token (tl_pos tks) (v @ [tolower b])"
  shows "\<exists>st'. ascii_step L a meta ctx (tolower b) 0
      (\<lparr>ws_inside = True, ws_token = v @ t, ws_len = length v\<rparr>, tks, hp) = Inr st' \<and>
    outside L base (an_maxwordlen a) (vs @ map (tok_of meta ctx) ts) (tl_pos tks + length ts) st'"
proof -
  obtain x t' where t: "t = x # t'" using assms(6,7) by (cases t) auto
  have "t' \<noteq> []" using assms(6,7) t by auto
  moreover have "an_maxwordlen a \<le> length ((v @ [tolower b]) @ t')" using assms(7) t by simp
  ultimately obtain w' tks' hp' where *: "end_ascii_word L 1 meta ctx
      (\<lparr>ws_inside = True, ws_token = (v @ [tolower b]) @ t', ws_len = length (v @ [tolower b])\<rparr>, tks, hp) = Inr (w', tks', hp')"
    "outside L base (an_maxwordlen a) (vs @ map (tok_of meta ctx) ts) (tl_pos tks + length ts) (w', tks', hp')"
    using end_ascii_word_eq [OF assms(1-3,5), of t' "an_maxwordlen a" ctx True] by (auto simp: ts_def)
  have c: "word_chr (tolower b)" "tolower b < 128" "tolower b \<noteq> 3"
    using assms(5) by (auto simp: word_chr_def is_ignore_word_ascii_def iscntrl_def)
  have "wr (v @ t) (int (length v)) (tolower b) = Inr (v @ tolower b # t')" by (simp add: t wr_append_at)
  then have "ascii_step L a meta ctx (tolower b) 0
      (\<lparr>ws_inside = True, ws_token = v @ t, ws_len = length v\<rparr>, tks, hp) = Inr (w', tks', hp')"
    using *(1) c assms(4)
    by (simp add: ascii_step_def word_table_at Let_def bump_def SWISH_TOKENPOS_BUMPER_def)
  with *(2) show ?thesis by blast
qed

text \<open>The loop, piece by piece.\<close>

lemma run_word:
  assumes "tk_ok L" and "live_meta base meta" and "an_minwordlen a = 1"
    and "outside L base (an_maxwordlen a) vs p st"
    and "list_all word_chr (map tolower (b # u))" and "nul_free (b # u)"
    and "Suc (length u) < an_maxwordlen a"
  defines "ts \<equiv> (if u = [] then [([tolower b], p + 1)] else word_token p (map tolower (b # u)))"
  shows "\<exists>st'. run L a meta ctx pre (b # u) st = Inr st' \<and>
    outside L base (an_maxwordlen a) (vs @ map (tok_of meta ctx) ts) (p + length ts) st'"
proof -
  obtain w tks hp where st: "st = (w, tks, hp)" by (cases st)
  have out: "tokens_rep L base (tks, hp) vs" "tl_pos tks = p" "an_maxwordlen a \<le> length (ws_token w)"
    using assms(4) by (simp_all add: outside_def st)
  have b: "b \<noteq> 0" "word_chr (tolower b)" using assms(5,6) by simp_all
  obtain t where t: "length (ws_token w) = Suc (length t)"
    "ascii_step L a meta ctx (tolower b) (tolower (hd (u @ [0]))) (w, tks, hp) =
      (let w' = \<lparr>ws_inside = True, ws_token = tolower b # t, ws_len = 1\<rparr> in
       if tolower (hd (u @ [0])) = 0 then bnd (one_char_word L meta ctx (w', tks, hp)) (\<lambda>st. Inr st) else Inr (w', tks, hp))"
    using step_start [OF assms(4) [unfolded st] b(2) _ assms(3), of meta ctx "tolower (hd (u @ [0]))"] assms(7)
    by auto
  show ?thesis
  proof (cases u rule: rev_cases)
    case Nil
    have "t \<noteq> []" using assms(7) out(3) t(1) by auto
    then obtain st' where "one_char_word L meta ctx (\<lparr>ws_inside = True, ws_token = tolower b # t, ws_len = 1\<rparr>, tks, hp) = Inr st'"
      "outside L base (an_maxwordlen a) (vs @ [tok_of meta ctx ([tolower b], tl_pos tks + 1)]) (tl_pos tks + 1) st'"
      using one_char_word_eq [OF assms(1) out(1) assms(2), of "tolower b" t "an_maxwordlen a" ctx True] b(1) out(3) t(1) by auto
    then show ?thesis using t(2) b(1) Nil out(2) by (auto simp: run_Cons run_Nil st ts_def)
  next
    case (snoc u' d)
    have d: "d \<noteq> 0" using assms(6) snoc by simp
    have first: "run L a meta ctx pre (b # u) st = run L a meta ctx (pre @ [b]) (u' @ [d])
        (\<lparr>ws_inside = True, ws_token = [tolower b] @ t, ws_len = length [tolower b]\<rparr>, tks, hp)"
      using t(2) b(1) hd_nul [of u] assms(6) snoc by (simp add: run_Cons st)
    obtain t' where t': "run L a meta ctx (pre @ [b]) (u' @ [d])
        (\<lparr>ws_inside = True, ws_token = [tolower b] @ t, ws_len = length [tolower b]\<rparr>, tks, hp) =
      run L a meta ctx ((pre @ [b]) @ u') [d] (\<lparr>ws_inside = True, ws_token = ([tolower b] @ map tolower u') @ t',
        ws_len = length ([tolower b] @ map tolower u')\<rparr>, tks, hp)"
      "length ([tolower b] @ t) = length (([tolower b] @ map tolower u') @ t')"
      using run_inside [of u' "[d]" "[tolower b]" a t L meta ctx "pre @ [b]" tks hp] assms(5-7) snoc out(3) t(1) by auto
    have "\<exists>st'. ascii_step L a meta ctx (tolower d) 0
      (\<lparr>ws_inside = True, ws_token = (tolower b # map tolower u') @ t', ws_len = length (tolower b # map tolower u')\<rparr>, tks, hp) = Inr st' \<and>
      outside L base (an_maxwordlen a) (vs @ map (tok_of meta ctx) ts) (p + length ts) st'"
      using step_end_text [OF assms(1) out(1) assms(2,3), of "tolower b # map tolower u'" d t' ctx]
        assms(5,7) snoc out(2,3) t(1) t'(2) by (auto simp: ts_def)
    then show ?thesis using first t'(1) d by (auto simp: run_Cons run_Nil)
  qed
qed

lemma run_word_sep:
  assumes "tk_ok L" and "live_meta base meta" and "an_minwordlen a = 1"
    and "outside L base (an_maxwordlen a) vs p st"
    and "list_all word_chr (map tolower (b # u))" and "nul_free (b # u @ d # r)"
    and "Suc (length u) < an_maxwordlen a" and "d < 128" and "\<not> word_chr (tolower d)"
  defines "ts \<equiv> word_token p (map tolower (b # u))"
  shows "\<exists>st'. run L a meta ctx pre (b # u @ d # r) st = run L a meta ctx (pre @ b # u @ [d]) r st' \<and>
    outside L base (an_maxwordlen a) (vs @ map (tok_of meta ctx) ts)
      (if tolower d = 3 then p + length ts + 1 else p + length ts) st'"
proof -
  obtain w tks hp where st: "st = (w, tks, hp)" by (cases st)
  have out: "tokens_rep L base (tks, hp) vs" "tl_pos tks = p" "an_maxwordlen a \<le> length (ws_token w)"
    using assms(4) by (simp_all add: outside_def st)
  have b: "b \<noteq> 0" "word_chr (tolower b)" "d \<noteq> 0" using assms(5,6) by simp_all
  obtain t where t: "length (ws_token w) = Suc (length t)"
    "ascii_step L a meta ctx (tolower b) (tolower (hd ((u @ d # r) @ [0]))) (w, tks, hp) =
      (let w' = \<lparr>ws_inside = True, ws_token = tolower b # t, ws_len = 1\<rparr> in
       if tolower (hd ((u @ d # r) @ [0])) = 0 then bnd (one_char_word L meta ctx (w', tks, hp)) (\<lambda>st. Inr st) else Inr (w', tks, hp))"
    using step_start [OF assms(4) [unfolded st] b(2) _ assms(3), of meta ctx "tolower (hd ((u @ d # r) @ [0]))"] assms(7)
    by auto
  have first: "run L a meta ctx pre (b # u @ d # r) st = run L a meta ctx (pre @ [b]) (u @ d # r)
      (\<lparr>ws_inside = True, ws_token = [tolower b] @ t, ws_len = length [tolower b]\<rparr>, tks, hp)"
    using t(2) b(1) hd_nul [of "u @ d # r"] assms(6) by (simp add: run_Cons st)
  obtain t' where t': "run L a meta ctx (pre @ [b]) (u @ d # r)
      (\<lparr>ws_inside = True, ws_token = [tolower b] @ t, ws_len = length [tolower b]\<rparr>, tks, hp) =
    run L a meta ctx ((pre @ [b]) @ u) (d # r) (\<lparr>ws_inside = True, ws_token = ([tolower b] @ map tolower u) @ t',
      ws_len = length ([tolower b] @ map tolower u)\<rparr>, tks, hp)"
    "length ([tolower b] @ t) = length (([tolower b] @ map tolower u) @ t')"
    using run_inside [of u "d # r" "[tolower b]" a t L meta ctx "pre @ [b]" tks hp] assms(5-7) out(3) t(1) by auto
  obtain st' where "ascii_step L a meta ctx (tolower d) (tolower (hd (r @ [0])))
      (\<lparr>ws_inside = True, ws_token = (map tolower (b # u)) @ t', ws_len = length (map tolower (b # u))\<rparr>, tks, hp) = Inr st'"
    and "outside L base (an_maxwordlen a) (vs @ map (tok_of meta ctx) ts)
      (if tolower d = 3 then p + length ts + 1 else p + length ts) st'"
    using step_end_sep [OF assms(1) out(1) assms(2,3,5), of t' d ctx "tolower (hd (r @ [0]))"] assms(7-9) out(2,3) t(1) t'(2)
    unfolding ts_def by auto
  moreover from this have "run L a meta ctx pre (b # u @ d # r) st = run L a meta ctx (pre @ b # u @ [d]) r st'"
    using first t'(1) b(3) by (simp add: run_Cons)
  ultimately show ?thesis by blast
qed

lemma run_pieces:
  assumes "tk_ok L" and "live_meta base meta" and "an_minwordlen a = 1"
  shows "outside L base (an_maxwordlen a) vs p st \<Longrightarrow> nul_free s \<Longrightarrow> list_all (\<lambda>c. c < 128) s \<Longrightarrow>
    \<forall>w. Word_piece w \<in> set (pieces (map tolower s)) \<longrightarrow> length w < an_maxwordlen a \<Longrightarrow>
    \<exists>st' q. run L a meta ctx pre s st = Inr st' \<and>
      outside L base (an_maxwordlen a) (vs @ map (tok_of meta ctx) (words_of p (pieces (map tolower s)))) q st'"
proof (induction s arbitrary: pre vs p st rule: measure_induct_rule [of length])
  case (less s)
  show ?case
  proof (cases s)
    case Nil
    with less.prems show ?thesis by (auto simp: run_Nil)
  next
    case (Cons b s')
    have b: "b \<noteq> 0" "b < 128" using less.prems Cons by simp_all
    define u where "u = takeWhile (word_chr \<circ> tolower) s'"
    define rest where "rest = dropWhile (word_chr \<circ> tolower) s'"
    have s': "s' = u @ rest" by (simp add: u_def rest_def)
    have len: "length rest < length s" by (simp add: Cons s')
    show ?thesis
    proof (cases "word_chr (tolower b)")
      case False
      obtain st1 where st1: "ascii_step L a meta ctx (tolower b) (tolower (hd (s' @ [0]))) st = Inr st1"
        "outside L base (an_maxwordlen a) vs (if tolower b = 3 then p + 1 else p) st1"
        using step_sep [OF assms(1) less.prems(1) b(2) False] by blast
      moreover have "\<exists>st' q. run L a meta ctx (pre @ [b]) s' st1 = Inr st' \<and>
          outside L base (an_maxwordlen a) (vs @ map (tok_of meta ctx)
            (words_of (if tolower b = 3 then p + 1 else p) (pieces (map tolower s')))) q st'"
        using less.prems Cons False by (intro less.IH [OF _ st1(2)]) simp_all
      ultimately show ?thesis using False Cons b(1) by (auto simp: run_Cons)
    next
      case True
      have ps: "pieces (map tolower s) = Word_piece (map tolower (b # u)) # pieces (map tolower rest)"
        using True by (simp add: Cons takeWhile_map dropWhile_map u_def rest_def)
      have u: "list_all word_chr (map tolower (b # u))"
        using True set_takeWhileD [of _ "word_chr \<circ> tolower" s'] by (auto simp: list_all_iff u_def)
      have l: "Suc (length u) < an_maxwordlen a" using less.prems(4) by (auto simp: ps)
      show ?thesis
      proof (cases rest)
        case Nil
        then show ?thesis
          using run_word [OF assms less.prems(1) u _ l, of ctx pre] less.prems(2) ps by (auto simp: Cons s')
      next
        case (Cons d r)
        have d: "d < 128" "\<not> word_chr (tolower d)" "nul_free (b # u @ d # r)"
          using less.prems(2,3) dropWhile_hd [of "word_chr \<circ> tolower" s' d r, folded rest_def, OF Cons] Cons
          by (simp_all add: \<open>s = b # s'\<close> s')
        let ?ts = "word_token p (map tolower (b # u))"
        let ?p = "if tolower d = 3 then p + length ?ts + 1 else p + length ?ts"
        obtain st1 where st1: "run L a meta ctx pre (b # u @ d # r) st = run L a meta ctx (pre @ b # u @ [d]) r st1"
          "outside L base (an_maxwordlen a) (vs @ map (tok_of meta ctx) ?ts) ?p st1"
          using run_word_sep [OF assms less.prems(1) u d(3) l d(1,2)] by blast
        have "\<forall>w. Word_piece w \<in> set (pieces (map tolower r)) \<longrightarrow> length w < an_maxwordlen a"
          using less.prems(4) d(2) by (simp add: ps Cons)
        then have "\<exists>st' q. run L a meta ctx (pre @ b # u @ [d]) r st1 = Inr st' \<and>
            outside L base (an_maxwordlen a) ((vs @ map (tok_of meta ctx) ?ts) @ map (tok_of meta ctx)
              (words_of ?p (pieces (map tolower r)))) q st'"
          using d(3) less.prems(3) len Cons by (intro less.IH [OF _ st1(2)]) (simp_all add: \<open>s = b # s'\<close> s')
        moreover have "words_of p (pieces (map tolower s)) = ?ts @ words_of ?p (pieces (map tolower r))"
          using d(2) by (simp add: ps Cons Let_def)
        ultimately show ?thesis using st1(1) by (simp add: \<open>s = b # s'\<close> s' Cons)
      qed
    qed
  qed
qed

lemma words_of_sorted: "sorted_wrt (<) (p # map snd (words_of p ps)) \<and> (\<forall>e \<in> set (words_of p ps). p < snd e)"
proof (induction p ps rule: words_of.induct)
  case (2 p c ps)
  then show ?case by (auto simp: order.strict_trans1 split: if_splits)
next
  case (3 p w ps)
  define ts where "ts = (if ps = [] \<and> length w = 1 then [(w, p + 1)] else word_token p w)"
  have "ts = [] \<or> (\<exists>x. ts = [(x, p + 1)])" by (simp add: ts_def word_token_def)
  moreover have "words_of p (Word_piece w # ps) = ts @ words_of (p + length ts) ps" by (simp add: ts_def Let_def)
  ultimately show ?case using 3 [OF ts_def] by force
qed simp

text \<open>
  C7: the ASCII tokenizer against the reference. On ASCII text whose words are all shorter
  than the longest word allowed, with the minimum length 1 of every analyzer, the tokenizer
  adds exactly the tokens of the reference: the lowercased words without apostrophes and
  underscores at their ends, at the positions the reference counts, each with the metaname
  and context of the call; it returns their number, and positions strictly increase.
\<close>

theorem tokenize_ascii_matches_reference:
  assumes "tk_ok L" and "live_meta base meta" and "an_minwordlen a = 1" and "0 < an_maxwordlen a"
    and "tokens_rep L base (it_tl ti, hp) vs" and "nul_free s" and "list_all (\<lambda>c. c < 128) s"
    and "\<forall>w. Word_piece w \<in> set (pieces (map tolower s)) \<longrightarrow> length w < an_maxwordlen a"
  defines "ts \<equiv> words_of (tl_pos (it_tl ti)) (pieces (map tolower s))"
  shows "\<exists>ti' hp'. swish_tokenize_ascii L a ti (cobj s) meta ctx hp = Inr (int (length ts), ti', hp') \<and>
    tokens_rep L base (it_tl ti', hp') (vs @ map (tok_of meta ctx) ts) \<and>
    sorted_wrt (<) (tl_pos (it_tl ti) # map snd ts)"
proof -
  have mx: "an_maxwordlen a \<le> length (tk_malloc L (an_maxwordlen a))" using assms(1) by (simp add: tk_ok_def)
  then obtain x t where t: "tk_malloc L (an_maxwordlen a) = x # t"
    using assms(4) by (cases "tk_malloc L (an_maxwordlen a)") auto
  have "outside L base (an_maxwordlen a) vs (tl_pos (it_tl ti))
      (\<lparr>ws_inside = False, ws_token = 0 # t, ws_len = 0\<rparr>, it_tl ti, hp)"
    using mx t assms(5) by (simp add: outside_def)
  from run_pieces [OF assms(1-3) this assms(6-8), of ctx "[]"] obtain w tks hp' q where
    "run L a meta ctx [] s (\<lparr>ws_inside = False, ws_token = 0 # t, ws_len = 0\<rparr>, it_tl ti, hp) = Inr (w, tks, hp')"
    "outside L base (an_maxwordlen a) (vs @ map (tok_of meta ctx) ts) q (w, tks, hp')"
    by (auto simp: ts_def)
  moreover from this have "tl_n tks = length vs + length ts" "tl_n (it_tl ti) = length vs"
    using assms(5) by (simp_all add: outside_def tokens_rep_def)
  ultimately show ?thesis
    using wr_append_at [of 0 "[]" x t 0] words_of_sorted [of "tl_pos (it_tl ti)"]
    by (auto simp: swish_tokenize_ascii_def t run_def cobj_def outside_def ts_def)
qed

lemma tokenize_ascii_matches_reference_witness:
  fixes a
  defines "a \<equiv> \<lparr>an_maxwordlen = 256, an_minwordlen = 1, an_tokenize = True, an_lc = True, an_ref_cnt = 0\<rparr>"
  shows "\<exists>ti ti' hp'. swish_tokenize_ascii ref_tk a ti (cobj [0x5F, 0x41, 0x62, 3, 0x27, 0x20, 0x63]) 0 [0x63] one_meta =
      Inr (2, ti', hp') \<and>
    tokens_rep ref_tk one_meta (it_tl ti', hp') [tok_of 0 [0x63] ([0x61, 0x62], 1), tok_of 0 [0x63] ([0x63], 3)]"
proof -
  let ?s = "[0x5F, 0x41, 0x62, 3, 0x27, 0x20, 0x63] :: bytes"
  obtain tks where tks: "tokens_rep ref_tk one_meta (tks, one_meta) []" "tl_pos tks = 0"
    using token_list_init_rep [OF ref_tk_ok, of one_meta] by auto
  let ?ti = "\<lparr>it_tl = tks, it_pos = 0, it_ref_cnt = 0\<rparr>"
  have p: "pieces (map tolower ?s) =
      [Word_piece [0x5F, 0x61, 0x62], Sep_piece 3, Word_piece [0x27], Sep_piece 0x20, Word_piece [0x63]]"
    by (simp add: tolower_def word_chr_def is_ignore_word_ascii_def isspace_def iscntrl_def ispunct_def)
  have "words_of (tl_pos (it_tl ?ti)) (pieces (map tolower ?s)) = [([0x61, 0x62], 1), ([0x63], 3)]"
    unfolding p by (simp add: tks(2) word_token_def strip_word_def edge_chr_def)
  then show ?thesis
    using tokenize_ascii_matches_reference [of ref_tk one_meta 0 a ?ti one_meta "[]" ?s "[0x63]"] tks(1) p
    by (auto simp: a_def)
qed

text \<open>
  C21: a word as long as the longest word allowed ends in a write past the buffer. The buffer
  has \<open>maxwordlen\<close> bytes and the NUL goes after the word: when the allocator gives just what
  was asked for, a text that begins with \<open>maxwordlen\<close> word characters makes the ASCII
  tokenizer store a byte past the block.
\<close>

theorem tokenize_ascii_overflows:
  assumes "length (tk_malloc L (an_maxwordlen a)) = an_maxwordlen a" and "1 < an_maxwordlen a"
    and "list_all word_chr (map tolower w)" and "length w = an_maxwordlen a" and "nul_free (w @ r)"
  shows "swish_tokenize_ascii L a ti (cobj (w @ r)) meta ctx hp = Inl OutOfBounds"
proof -
  obtain b w' where w': "w = b # w'" "w' \<noteq> []" using assms(2,4) by (cases w; cases "tl w") auto
  then obtain u d where w: "w = b # u @ [d]" by (metis append_butlast_last_id)
  obtain x t where t: "tk_malloc L (an_maxwordlen a) = x # t"
    using assms(1,2) by (cases "tk_malloc L (an_maxwordlen a)") auto
  have chr: "b \<noteq> 0" "d \<noteq> 0" "word_chr (tolower b)" "word_chr (tolower d)" "tolower b < 128" "tolower d < 128" "tolower b \<noteq> 3"
    using assms(3,5) w by (auto simp: word_chr_def is_ignore_word_ascii_def iscntrl_def)
  let ?st = "\<lambda>v t. (\<lparr>ws_inside = True, ws_token = v @ t, ws_len = length v\<rparr>, it_tl ti, hp)"
  have "ascii_step L a meta ctx (tolower b) (tolower (hd ((u @ d # r) @ [0])))
      (\<lparr>ws_inside = False, ws_token = 0 # t, ws_len = 0\<rparr>, it_tl ti, hp) = Inr (?st [tolower b] t)"
    using chr hd_nul [of "u @ d # r"] assms(5) w wr_append_at [of 0 "[]" 0 t "tolower b"]
    by (simp add: ascii_step_def word_table_at bump_def SWISH_TOKENPOS_BUMPER_def Let_def)
  then have "run L a meta ctx [] (w @ r) (\<lparr>ws_inside = False, ws_token = 0 # t, ws_len = 0\<rparr>, it_tl ti, hp) =
      run L a meta ctx [b] (u @ d # r) (?st [tolower b] t)"
    using chr(1) w by (simp add: run_Cons)
  moreover have "length ([tolower b] @ t) = an_maxwordlen a" using assms(1) t by simp
  moreover obtain t' where "run L a meta ctx [b] (u @ d # r) (?st [tolower b] t) =
      run L a meta ctx ([b] @ u) (d # r) (?st ([tolower b] @ map tolower u) t')"
    "length ([tolower b] @ t) = length (([tolower b] @ map tolower u) @ t')"
    using run_inside [of u "d # r" "[tolower b]" a t L meta ctx "[b]" "it_tl ti" hp] assms w calculation(2) by auto
  moreover from this obtain y where "t' = [y]" using calculation(2) assms(4) w by (cases t'; cases "tl t'") auto
  moreover have "ascii_step L a meta ctx (tolower d) nextc (?st ([tolower b] @ map tolower u) [y]) = Inl OutOfBounds" for nextc
    using chr assms(4) w wr_append_at [of "int (length (tolower b # map tolower u))" "tolower b # map tolower u" y "[]" "tolower d"]
    by (simp add: ascii_step_def word_table_at Let_def end_ascii_word_def wr_out)
  ultimately have "run L a meta ctx [] (w @ r) (\<lparr>ws_inside = False, ws_token = 0 # t, ws_len = 0\<rparr>, it_tl ti, hp) = Inl OutOfBounds"
    using chr(2) by (simp add: run_Cons)
  then show ?thesis
    using wr_append_at [of 0 "[]" x t 0] by (simp add: swish_tokenize_ascii_def t cobj_def run_def)
qed

lemma tokenize_ascii_overflows_witness:
  "\<forall>ti. swish_tokenize_ascii ref_tk \<lparr>an_maxwordlen = 2, an_minwordlen = 1, an_tokenize = True, an_lc = True, an_ref_cnt = 0\<rparr>
     ti (cobj [0x61, 0x62, 0x20]) 0 [] one_meta = Inl OutOfBounds"
  using tokenize_ascii_overflows [of ref_tk "\<lparr>an_maxwordlen = 2, an_minwordlen = 1, an_tokenize = True, an_lc = True, an_ref_cnt = 0\<rparr>"
      "[0x61, 0x62]" "[0x20]"]
  by (simp add: ref_tk_def tolower_def word_chr_def is_ignore_word_ascii_def isspace_def iscntrl_def ispunct_def)

section \<open>The UTF-8 tokenizer\<close>

lemma u8_inc_stops:
  assumes "u8_inc m (int i) = Inr p" and "nul_free s" and "m = s @ [0]" and "i < length s"
  shows "int i < p \<and> p \<le> int (length s)"
proof -
  have nul: "isutf 0" by (rule isutf_0)
  have rd: "rd m j = (if j = int (length s) then Inr 0 else rd s j)" for j
    by (auto simp: assms(3) rd_def nth_append)
  show ?thesis using assms(1,4) nul by (auto simp: u8_inc_def rd bnd_eq_Inr rd_Inr_iff split: if_splits)
qed

lemma load_one: "rd m i = Inr c \<Longrightarrow> load_chr m i 1 [a0, a1, a2, a3, a4] = Inr [c, 0, a2, a3, a4]"
  by (simp add: load_chr_def wr_def)

lemma load_two: "rd m i = Inr c \<Longrightarrow> rd m (i + 1) = Inr d \<Longrightarrow>
    load_chr m i 2 [a0, a1, a2, a3, a4] = Inr [c, d, 0, a3, a4]"
  by (simp add: load_chr_def wr_def numeral_2_eq_2)

lemma rd_two_ends: "i \<le> int (length s) \<Longrightarrow> rd (s @ [0]) i = rd (s @ [0, x]) i"
  by (auto simp: rd_def nth_append)

lemma copy_bytes_two_ends:
  "int n + i \<le> int (length s) \<Longrightarrow>
   copy_bytes n (s @ [0]) i dest di = copy_bytes n (s @ [0, x]) i dest di"
proof (induction n arbitrary: i dest di)
  case (Suc n)
  then show ?case by (simp add: rd_two_ends [of i s x] del: append.simps)
qed simp

lemma u8_inc_two_ends:
  assumes "i < length s"
  shows "u8_inc (s @ [0]) (int i) = u8_inc (s @ [0, x]) (int i)" and "\<exists>p. u8_inc (s @ [0]) (int i) = Inr p"
proof -
  let ?n = "int (length s)"
  define g where "g j = (if j = ?n then 0 else s ! nat j)" for j
  have rd: "rd (s @ [0]) j = Inr (g j)" "rd (s @ [0, x]) j = Inr (g j)" if "0 \<le> j" "j \<le> ?n" for j
    using that by (auto simp: rd_def nth_append g_def)
  have before: "j + 1 \<le> ?n" if "\<not> isutf (g j)" "j \<le> ?n" for j
    using that isutf_0 by (cases "j = ?n") (auto simp: g_def)
  have "int i + 1 \<le> ?n" using assms by simp
  then consider "int i + 1 \<le> ?n" "isutf (g (int i + 1))"
    | "int i + 1 \<le> ?n" "int i + 2 \<le> ?n" "\<not> isutf (g (int i + 1))" "isutf (g (int i + 2))"
    | "int i + 1 \<le> ?n" "int i + 2 \<le> ?n" "int i + 3 \<le> ?n" "\<not> isutf (g (int i + 1))" "\<not> isutf (g (int i + 2))"
    using before [of "int i + 1"] before [of "int i + 2"] by (auto simp: add.assoc)
  then show "u8_inc (s @ [0]) (int i) = u8_inc (s @ [0, x]) (int i)" and "\<exists>p. u8_inc (s @ [0]) (int i) = Inr p"
    by (cases; simp add: u8_inc_def rd)+
qed

lemma utf8_loop_two_ends:
  assumes "nul_free s" and "isutf x"
  shows "prev_pos < length s \<Longrightarrow> prev_pos \<le> byte_pos \<Longrightarrow> byte_pos \<le> length s \<Longrightarrow>
    tokenize_utf8_loop L a meta ctx (s @ [0]) byte_pos prev_pos chr st =
      bnd (tokenize_utf8_loop L a meta ctx (s @ [0, x]) byte_pos prev_pos chr st) (\<lambda>_. Inl OutOfBounds)"
proof (induction "length s - byte_pos" arbitrary: byte_pos prev_pos chr st rule: less_induct)
  case less
  let ?m = "s @ [0]" and ?m' = "s @ [0, x]"
  have rds: "rd ?m (int prev_pos) = rd ?m' (int prev_pos)" "rd ?m (int byte_pos) = rd ?m' (int byte_pos)"
    using less.prems by (simp_all add: rd_two_ends del: append.simps)
  have b: "rd ?m' (int prev_pos) = Inr (s ! prev_pos)" "s ! prev_pos \<noteq> 0"
    using assms(1) less.prems by (auto simp: rd_def nth_append nul_free_def in_set_conv_nth)
  define body where "body =
    (let chr_len = int byte_pos - int prev_pos in
      if chr_len = 0 then Inr (chr, st)
      else
        bnd (load_chr ?m' (int prev_pos) (nat chr_len) chr) (\<lambda>chr.
        bnd (swish_utf8_codepoint (tk_str L) chr) (\<lambda>cp.
        bnd (utf8_step L a meta ctx chr (nat chr_len) cp (rd ?m' (int byte_pos)) st) (\<lambda>st.
          Inr (chr, st)))))"
  have load: "load_chr ?m (int prev_pos) (nat (int byte_pos - int prev_pos)) chr =
      load_chr ?m' (int prev_pos) (nat (int byte_pos - int prev_pos)) chr"
    unfolding load_chr_def by (subst copy_bytes_two_ends [of _ _ s _ _ x]) (use less.prems in simp_all)
  have lhs: "tokenize_utf8_loop L a meta ctx ?m byte_pos prev_pos chr st =
      bnd body (\<lambda>(chr, st). bnd (swish_utf8_next_chr ?m (int byte_pos)) (\<lambda>p.
        tokenize_utf8_loop L a meta ctx ?m (nat p) byte_pos chr st))"
    by (subst tokenize_utf8_loop.simps) (simp add: b body_def rds load Let_def del: append.simps)
  have rhs: "tokenize_utf8_loop L a meta ctx ?m' byte_pos prev_pos chr st =
      bnd body (\<lambda>(chr, st). bnd (swish_utf8_next_chr ?m' (int byte_pos)) (\<lambda>p.
        tokenize_utf8_loop L a meta ctx ?m' (nat p) byte_pos chr st))"
    by (subst tokenize_utf8_loop.simps) (simp add: b body_def Let_def)
  show ?case
  proof (cases "byte_pos < length s")
    case True
    obtain p where p: "u8_inc ?m (int byte_pos) = Inr p" "u8_inc ?m' (int byte_pos) = Inr p"
      using u8_inc_two_ends(1) [OF True, of x] u8_inc_two_ends(2) [OF True] by auto
    have "int byte_pos < p \<and> p \<le> int (length s)" by (rule u8_inc_stops [OF p(1) assms(1) refl True])
    then have "tokenize_utf8_loop L a meta ctx ?m (nat p) byte_pos chr' st' =
        bnd (tokenize_utf8_loop L a meta ctx ?m' (nat p) byte_pos chr' st') (\<lambda>_. Inl OutOfBounds)" for chr' st'
      using True by (intro less.hyps) linarith+
    then show ?thesis unfolding lhs rhs
      by (cases body) (simp_all add: swish_utf8_next_chr_def p case_prod_beta)
  next
    case False
    then have "byte_pos = length s" using less.prems by simp
    then have "swish_utf8_next_chr ?m (int byte_pos) = Inl OutOfBounds"
      "swish_utf8_next_chr ?m' (int byte_pos) = Inr (int byte_pos + 1)"
      "tokenize_utf8_loop L a meta ctx ?m' byte_pos' byte_pos chr' st' = Inr st'" for byte_pos' chr' st'
      using assms(2) rd_append_next [of s 0 x "[]"]
      by (simp_all add: swish_utf8_next_chr_def u8_inc_def rd_out tokenize_utf8_loop.simps)
    then show ?thesis unfolding lhs rhs by (cases body) (simp_all add: case_prod_beta)
  qed
qed

text \<open>A text of ignored characters: no word is open, and no character opens one.\<close>

lemma load_chr_enc:
  assumes "ch < 0x110000" and "length chr = 5"
  shows "\<exists>r. load_chr (p @ u8_wc_toutf8 ch @ t) (int (length p)) (length (u8_wc_toutf8 ch)) chr =
    Inr (u8_wc_toutf8 ch @ 0 # r) \<and> length (u8_wc_toutf8 ch @ 0 # r) = 5"
proof -
  let ?e = "u8_wc_toutf8 ch"
  have len: "length ?e \<le> 4" by (simp add: length_u8_wc_toutf8 u8_charlen_def)
  define junk y where "junk = take (length ?e) chr" and "y = drop (length ?e) chr"
  have chr: "chr = [] @ junk @ y" "length junk = length ?e" "length y = 5 - length ?e"
    using len assms(2) by (simp_all add: junk_def y_def)
  then obtain z r where y: "y = z # r" using len by (cases y) auto
  have "copy_bytes (length ?e) (p @ ?e @ t) (int (length p)) chr 0 = Inr (?e @ y)"
    using copy_bytes_eq [OF chr(2), of p t "[]" y] chr(1) by simp
  then show ?thesis
    using chr(3) len wr_append_at [of "int (length ?e)" ?e z r 0] by (auto simp: load_chr_def y)
qed

lemma utf8_loop_ignored_step:
  assumes "xml_str_ok (tk_str L)" and "ch < 0x110000" and "ch \<noteq> 0"
    and "is_ignore_word_utf8 (tk_wide L) ch" and "length chr = 5" and "\<not> ws_inside w"
  shows "\<exists>chr' tks'. length chr' = 5 \<and>
    tokenize_utf8_loop L a meta ctx (p @ u8_wc_toutf8 ch @ t) (length p + length (u8_wc_toutf8 ch))
        (length p) chr (w, tks, hp) =
      bnd (u8_inc (p @ u8_wc_toutf8 ch @ t) (int (length p) + int (length (u8_wc_toutf8 ch)))) (\<lambda>q.
        tokenize_utf8_loop L a meta ctx (p @ u8_wc_toutf8 ch @ t) (nat q)
          (length p + length (u8_wc_toutf8 ch)) chr' (w, tks', hp))"
proof -
  obtain b cs where e: "u8_wc_toutf8 ch = b # cs" "b \<noteq> 0"
    using nul_free_u8_wc_toutf8 [OF assms(2,3)] u8_wc_toutf8_seq [OF assms(2)] by (auto simp: utf8_seq_def)
  obtain r where r: "load_chr (p @ u8_wc_toutf8 ch @ t) (int (length p)) (length (u8_wc_toutf8 ch)) chr =
      Inr (u8_wc_toutf8 ch @ 0 # r)" "length (u8_wc_toutf8 ch @ 0 # r) = 5"
    using load_chr_enc [OF assms(2,5)] by blast
  have "\<exists>tks'. utf8_step L a meta ctx chr' n ch next' (w, tks, hp) = Inr (w, tks', hp)" for chr' n next'
    using assms(4,6) by (simp add: utf8_step_def)
  then obtain tks' where "utf8_step L a meta ctx (u8_wc_toutf8 ch @ 0 # r) (length (u8_wc_toutf8 ch)) ch
      (rd (p @ u8_wc_toutf8 ch @ t) (int (length p) + int (length (u8_wc_toutf8 ch)))) (w, tks, hp) = Inr (w, tks', hp)"
    by blast
  moreover have "rd (p @ u8_wc_toutf8 ch @ t) (int (length p)) = Inr b" "u8_wc_toutf8 ch \<noteq> []" by (simp_all add: e)
  ultimately show ?thesis
    using r codepoint_of_encoding [OF assms(1-3), of r] e(2)
    by (intro exI [of _ "u8_wc_toutf8 ch @ 0 # r"] exI [of _ tks'], subst tokenize_utf8_loop.simps)
      (simp add: Let_def swish_utf8_next_chr_def)
qed

lemma utf8_loop_ignored:
  assumes "xml_str_ok (tk_str L)" and "isutf x" and "\<not> ws_inside w"
  shows "scalars (ch # chs) \<Longrightarrow> list_all (is_ignore_word_utf8 (tk_wide L)) (ch # chs) \<Longrightarrow> length chr = 5 \<Longrightarrow>
    \<exists>r. tokenize_utf8_loop L a meta ctx (p @ u8_wc_toutf8 ch @ encs chs @ [0, x])
      (length p + length (u8_wc_toutf8 ch)) (length p) chr (w, tks, hp) = Inr r"
proof (induction chs arbitrary: p ch chr tks)
  case (Nil p ch chr tks)
  let ?p = "p @ u8_wc_toutf8 ch"
  have inc: "u8_inc (?p @ [0, x]) (int (length ?p)) = Inr (int (length ?p) + 1)"
    using assms(2) rd_append_next [of ?p 0 x "[]"] by (simp add: u8_inc_def)
  have stop: "tokenize_utf8_loop L a meta ctx (?p @ [0, x]) n (length ?p) chr' st = Inr st" for n chr' st
    by (subst tokenize_utf8_loop.simps) (simp only: rd_append_at [OF refl] bnd_Inr if_True simp_thms)
  have "ch < 0x110000" "ch \<noteq> 0" "is_ignore_word_utf8 (tk_wide L) ch" using Nil.prems by auto
  then show ?case
    using utf8_loop_ignored_step [OF assms(1) _ _ _ Nil.prems(3) assms(3), of ch a meta ctx p "[0, x]" tks hp] inc stop
    by auto
next
  case (Cons d chs)
  let ?p = "p @ u8_wc_toutf8 ch"
  have inc: "u8_inc (?p @ u8_wc_toutf8 d @ encs chs @ [0, x]) (int (length ?p)) =
      Inr (int (length ?p) + int (length (u8_wc_toutf8 d)))"
    using Cons.prems lead_ok_encs [of chs "[0, x]"] isutf_0
    by (intro u8_inc_seq u8_wc_toutf8_seq) auto
  have "ch < 0x110000" "ch \<noteq> 0" "is_ignore_word_utf8 (tk_wide L) ch" using Cons.prems by auto
  then obtain chr' tks' where *: "length chr' = 5"
    "tokenize_utf8_loop L a meta ctx (?p @ u8_wc_toutf8 d @ encs chs @ [0, x]) (length ?p) (length p) chr (w, tks, hp) =
      bnd (u8_inc (?p @ u8_wc_toutf8 d @ encs chs @ [0, x]) (int (length ?p))) (\<lambda>q.
        tokenize_utf8_loop L a meta ctx (?p @ u8_wc_toutf8 d @ encs chs @ [0, x]) (nat q) (length ?p) chr' (w, tks', hp))"
    using utf8_loop_ignored_step [OF assms(1) _ _ _ Cons.prems(3) assms(3), of ch a meta ctx p
        "u8_wc_toutf8 d @ encs chs @ [0, x]" tks hp] by auto
  obtain r where "tokenize_utf8_loop L a meta ctx (?p @ u8_wc_toutf8 d @ encs chs @ [0, x])
      (length ?p + length (u8_wc_toutf8 d)) (length ?p) chr' (w, tks', hp) = Inr r"
    using Cons.IH [of d chr' ?p tks'] Cons.prems *(1) by auto
  then show ?case using *(2) inc by (cases r) (simp add: nat_add_distrib add.assoc)
qed

lemma utf8_loop_ignored_text:
  assumes "tk_ok L" and "scalars chs" and "chs \<noteq> []" and "list_all (is_ignore_word_utf8 (tk_wide L)) chs"
    and "\<not> ws_inside w"
  shows "\<exists>r. tokenize_utf8_loop L a meta ctx (encs chs @ [0, 0]) 0 0 (replicate 5 0) (w, tks, hp) = Inr r"
proof -
  obtain c cs where chs: "chs = c # cs" using assms(3) by (cases chs) auto
  have X: "xml_str_ok (tk_str L)" using assms(1) by (simp add: tk_ok_def)
  have c: "utf8_seq (u8_wc_toutf8 c)" using assms(2) chs by (auto intro: u8_wc_toutf8_seq)
  have "nul_free (u8_wc_toutf8 c)" using assms(2) chs by (auto intro: nul_free_u8_wc_toutf8)
  with c obtain b bs where b: "u8_wc_toutf8 c = b # bs" "b \<noteq> 0" by (auto simp: utf8_seq_def)
  have "rd (encs chs @ [0, 0]) 0 = Inr b" by (simp add: chs b rd_Cons)
  moreover have "u8_inc (encs chs @ [0, 0]) 0 = Inr (int (length (u8_wc_toutf8 c)))"
    using u8_inc_seq [OF c, of "encs cs @ [0, 0]" "[]"] lead_ok_encs [of cs "[0, 0]"] assms(2) isutf_0
    by (simp add: chs)
  moreover obtain r where "tokenize_utf8_loop L a meta ctx (encs chs @ [0, 0]) (length (u8_wc_toutf8 c)) 0
      (replicate 5 0) (w, tks, hp) = Inr r"
    using utf8_loop_ignored [OF X isutf_0 assms(5), of c cs "replicate 5 0" a meta ctx "[]" tks hp] assms(2,4)
    by (auto simp: chs)
  ultimately show ?thesis
    using b(2) by (subst tokenize_utf8_loop.simps) (cases r; simp add: swish_utf8_next_chr_def)
qed

text \<open>
  C22: the UTF-8 tokenizer reads one byte past the block of the lowercased text. After the
  last character the loop steps once more, from the NUL, and looks at the byte after it. When
  the block is no larger than what was asked for, a call on any text does what the loop does
  on a block one byte longer, but where that loop returns, the call reads out of bounds: it
  never returns, and for a text of ignored characters, where nothing else can fail, the read
  is all it ends with.
\<close>

theorem tokenize_utf8_reads_past_its_text:
  assumes "swish_utf8_str_tolower (tk_wide L) buf = Inr low" and "low \<noteq> []" and "nul_free low"
    and "length (tk_malloc L (length low + 1)) = length low + 1"
  shows "(\<forall>x. isutf x \<longrightarrow>
      swish_tokenize_utf8 L a ti buf meta ctx hp =
      bnd (tokenize_utf8_loop L a meta ctx (low @ [0, x]) 0 0 (replicate 5 0)
        (\<lparr>ws_inside = False, ws_token = tk_malloc L (an_maxwordlen a), ws_len = 0\<rparr>, it_tl ti, hp))
        (\<lambda>_. Inl OutOfBounds)) \<and>
    (\<forall>chs. tk_ok L \<and> low = encs chs \<and> scalars chs \<and> list_all (is_ignore_word_utf8 (tk_wide L)) chs \<longrightarrow>
      swish_tokenize_utf8 L a ti buf meta ctx hp = Inl OutOfBounds)"
proof -
  let ?st = "(\<lparr>ws_inside = False, ws_token = tk_malloc L (an_maxwordlen a), ws_len = 0\<rparr>, it_tl ti, hp)"
  have "lower_block L low = low @ [0]" using assms(4) by (simp add: lower_block_def)
  then have run: "swish_tokenize_utf8 L a ti buf meta ctx hp =
      bnd (tokenize_utf8_loop L a meta ctx (low @ [0, x]) 0 0 (replicate 5 0) ?st) (\<lambda>_. Inl OutOfBounds)"
    if "isutf x" for x
    using utf8_loop_two_ends [OF assms(3) that, of 0 0 L a meta ctx "replicate 5 0" ?st] assms(1,2)
    by (cases "tokenize_utf8_loop L a meta ctx (low @ [0, x]) 0 0 (replicate 5 0) ?st")
      (simp_all add: swish_tokenize_utf8_def)
  have "swish_tokenize_utf8 L a ti buf meta ctx hp = Inl OutOfBounds"
    if h: "tk_ok L" "low = encs chs" "scalars chs" "list_all (is_ignore_word_utf8 (tk_wide L)) chs" for chs
  proof -
    have "chs \<noteq> []" using h(2) assms(2) by auto
    then obtain r where "tokenize_utf8_loop L a meta ctx (low @ [0, 0]) 0 0 (replicate 5 0) ?st = Inr r"
      using utf8_loop_ignored_text [OF h(1,3) _ h(4), of "fst ?st" a meta ctx "it_tl ti" hp] h(2) by auto
    then show ?thesis using run [OF isutf_0] by simp
  qed
  with run show ?thesis by blast
qed

lemma tokenize_utf8_reads_past_its_text_witness:
  defines "a \<equiv> \<lparr>an_maxwordlen = 8, an_minwordlen = 2, an_tokenize = True, an_lc = True, an_ref_cnt = 0\<rparr>"
  shows "\<forall>ti. swish_tokenize_utf8 ref_tk a ti [0xC3, 0xA9] 0 [] one_meta = Inl OutOfBounds"
proof
  fix ti :: "(bytes, (bytes \<times> bytes) list) swish_TokenIterator"
  have e: "u8_wc_toutf8 0xE9 = [0xC3, 0xA9]" by (simp add: u8_wc_toutf8_def)
  then have encs: "encs [0xE9] = [0xC3, 0xA9]" by simp
  have "encodable [0xE9]" by (simp add: encodable_chr_def)
  then have "mbstowcs ref_wide [0xC3, 0xA9] = Some [0xE9]"
    using utf8_locale_laws(6) [OF ref_wide_ok, of "[0xE9]"] encs by simp
  moreover have "wcstombs ref_wide (swish_wstr_tolower ref_wide [0xE9]) = Some [0xC3, 0xA9]"
    by (simp add: ref_wide_def swish_wstr_tolower_def e)
  ultimately have low: "swish_utf8_str_tolower (tk_wide ref_tk) [0xC3, 0xA9] = Inr [0xC3, 0xA9]"
    by (simp add: swish_utf8_str_tolower_def swish_locale_to_wchar_def swish_wchar_to_locale_def ref_tk_def)
  have cp: "swish_utf8_codepoint (tk_str ref_tk) [0xC3, 0xA9, 0, 0, 0] = Inr 0xE9"
    using codepoint_of_encoding [of ref_str "0xE9" "[0, 0]"] e by (simp add: ref_tk_def)
  have r5: "replicate 5 (0 :: u8) = [0, 0, 0, 0, 0]" and token: "tk_malloc ref_tk 8 = replicate 8 0xAA"
    by (simp_all add: ref_tk_def numeral_eq_Suc)
  have bytes: "wr (replicate 8 (0xAA :: u8)) 0 0 = Inr (0 # replicate 7 0xAA)"
    "copy_bytes 2 [0xC3, 0xA9, 0, 0, 0 :: u8] 0 (0 # replicate 7 0xAA) 0 = Inr (0xC3 # 0xA9 # replicate 6 0xAA)"
    "wr (0xC3 # 0xA9 # replicate 6 (0xAA :: u8)) 2 0 = Inr (0xC3 # 0xA9 # 0 # replicate 5 0xAA)"
    by code_simp+
  have ign: "\<not> is_ignore_word_utf8 (tk_wide ref_tk) 0xE9"
    by (simp add: ref_tk_def is_ignore_word_utf8_def ref_wide_def)
  have step: "\<exists>r. utf8_step ref_tk a 0 [] [0xC3, 0xA9, 0, 0, 0] 2 0xE9 (Inr 0)
      (\<lparr>ws_inside = False, ws_token = tk_malloc ref_tk 8, ws_len = 0\<rparr>, it_tl ti, one_meta) = Inr r"
    using bytes ign
    by (simp add: utf8_step_def token a_def Let_def SWISH_TOKENPOS_BUMPER_def)
  have load: "load_chr [0xC3, 0xA9, 0, 0] 0 2 [0, 0, 0, 0, 0] = Inr [0xC3, 0xA9, 0, 0, 0]"
    by (rule load_two) (simp_all add: rd_Cons)
  have inc: "swish_utf8_next_chr [0xC3, 0xA9, 0, 0] 0 = Inr 2" "swish_utf8_next_chr [0xC3, 0xA9, 0, 0] 2 = Inr 3"
    by (simp_all add: swish_utf8_next_chr_def u8_inc_def rd_Cons isutf_def)
  have stop: "tokenize_utf8_loop ref_tk a 0 [] [0xC3, 0xA9, 0, 0] 3 2 chr st = Inr st" for chr st
    by (subst tokenize_utf8_loop.simps) (simp add: rd_Cons)
  have "\<exists>r. tokenize_utf8_loop ref_tk a 0 [] [0xC3, 0xA9, 0, 0] 2 0 [0, 0, 0, 0, 0]
      (\<lparr>ws_inside = False, ws_token = tk_malloc ref_tk 8, ws_len = 0\<rparr>, it_tl ti, one_meta) = Inr r"
    using step by (subst tokenize_utf8_loop.simps) (auto simp: rd_Cons load cp inc stop Let_def)
  then have run: "\<exists>r. tokenize_utf8_loop ref_tk a 0 [] [0xC3, 0xA9, 0, 0] 0 0 (replicate 5 0)
      (\<lparr>ws_inside = False, ws_token = tk_malloc ref_tk (an_maxwordlen a), ws_len = 0\<rparr>, it_tl ti, one_meta) = Inr r"
    by (subst tokenize_utf8_loop.simps) (simp add: rd_Cons inc r5 a_def)
  show "swish_tokenize_utf8 ref_tk a ti [0xC3, 0xA9] 0 [] one_meta = Inl OutOfBounds"
    using tokenize_utf8_reads_past_its_text [OF low, of a ti 0 "[]" one_meta] run isutf_0
    by (auto simp: ref_tk_def)
qed

definition plain_chr :: "u8 \<Rightarrow> bool" where
  "plain_chr c \<longleftrightarrow> word_chr c \<and> \<not> edge_chr c"

lemma ucast_up_0 [simp]: "(ucast (c :: u8) :: u32) = 0 \<longleftrightarrow> c = 0"
  by (simp add: word_unat_eq_iff)

lemma codepoint_ascii:
  assumes "xml_str_ok X" and "c < 128" and "0 \<in> set (c # r)"
  shows "swish_utf8_codepoint X (c # r) = Inr (ucast c)"
proof (cases "c = 0")
  case True
  then have "cstr (c # r) 0 = Inr []" by (simp add: cstr_def)
  then show ?thesis
    using True by (simp add: swish_utf8_codepoint_def swish_utf8_chr_len_def xml_str_laws(7) [OF assms(1)] rd_Cons)
next
  case False
  then obtain u where u: "cstr (c # r) 0 = Inr (c # u)" using assms(3) by (auto simp: cstr_def)
  have c: "(ucast c :: u32) < 0x80" using assms(2) ucast_up_less [of c] by simp
  then have "ucast c < (0x110000 :: u32)" "ucast c \<noteq> (0 :: u32)" "u8_wc_toutf8 (ucast c) = [c]" "u8_charlen (ucast c) = 1"
    using False ucast_ucast_up [of c] by (auto simp: u8_wc_toutf8_def u8_charlen_def word_less_nat_alt)
  then have "xmlUTF8Size X (c # u) = 1"
    using xml_str_laws(6) [OF assms(1), of "ucast c" u] by simp
  then show ?thesis using u by (simp add: swish_utf8_codepoint_def swish_utf8_chr_len_def rd_Cons)
qed

lemma plain_kept:
  assumes "utf8_locale W" and "plain_chr c"
  shows "\<not> is_ignore_end_utf8 W (ucast c)" and "\<not> is_ignore_start_utf8 W (ucast c)"
proof -
  have c: "word_chr c" "c < 128" "\<not> edge_chr c" using assms(2) by (simp_all add: plain_chr_def word_chr_def)
  then have "(ucast c :: u32) < 128" using ucast_up_less [of c] by simp
  with c edge_punct [of c] ucast_ucast_up [of c]
  show "\<not> is_ignore_end_utf8 W (ucast c)" and "\<not> is_ignore_start_utf8 W (ucast c)"
    by (auto simp: is_ignore_end_utf8_def is_ignore_start_utf8_def utf8_locale_laws [OF assms(1)])
qed

lemma apostrophe_ignored:
  assumes "utf8_locale W"
  shows "is_ignore_start_utf8 W 0x27"
  by (simp add: is_ignore_start_utf8_def utf8_locale_laws(3) [OF assms] ispunct_def)

lemma isutf_ascii: "c < 128 \<Longrightarrow> isutf c"
  by (simp add: isutf_unat word_less_nat_alt)

text \<open>The end of a word that needs no stripping: only the NUL is looked at and put back.\<close>

lemma strip_utf8_end_plain:
  assumes "tk_ok L" and "plain_chr d" and "m = z @ d # 0 # r"
  shows "strip_utf8_end L m (int (length z) + 2) (int (length z) + 2) [0, 0, 0, 0, 0] = Inr (m, [d, 0, 0, 0, 0])"
proof -
  have X: "xml_str_ok (tk_str L)" and W: "utf8_locale (tk_wide L)" using assms(1) by (simp_all add: tk_ok_def)
  have d: "d < 128" using assms(2) by (simp add: plain_chr_def word_chr_def)
  have rds: "rd m (int (length z)) = Inr d" "rd m (int (length z) + 1) = Inr 0"
    by (simp_all add: assms(3) rd_append_next)
  have w: "wr m (int (length z) + 1) 0 = Inr m"
    using wr_append_at [of "int (length z) + 1" "z @ [d]" 0 r 0] by (simp add: assms(3))
  have cp: "swish_utf8_codepoint (tk_str L) [0, 0, 0, 0, 0] = Inr 0" "swish_utf8_codepoint (tk_str L) [d, 0, 0, 0, 0] = Inr (ucast d)"
    using codepoint_ascii [OF X, of 0 "[0, 0, 0, 0]"] codepoint_ascii [OF X d, of "[0, 0, 0, 0]"] by simp_all
  let ?n = "int (length z)"
  have prev: "swish_utf8_prev_chr m (?n + 2) = Inr (?n + 1)" "swish_utf8_prev_chr m (?n + 1) = Inr ?n"
  proof -
    have "?n + 2 - 1 = ?n + 1" "?n + 1 - 1 = ?n" by simp_all
    then show "swish_utf8_prev_chr m (?n + 2) = Inr (?n + 1)" "swish_utf8_prev_chr m (?n + 1) = Inr ?n"
      using isutf_ascii [OF d] isutf_0
      by (simp_all only: swish_utf8_prev_chr_def u8_dec_def rds bnd_Inr if_True)
  qed
  have "strip_utf8_end L m (?n + 2) (?n + 2) [0, 0, 0, 0, 0] = strip_utf8_end L m (?n + 1) (?n + 2) [0, 0, 0, 0, 0]"
    by (subst strip_utf8_end.simps) (simp add: prev)
  also have "\<dots> = strip_utf8_end L m ?n (?n + 2) [0, 0, 0, 0, 0]"
    using load_one [OF rds(2), of 0 0 0 0 0] w
    by (subst strip_utf8_end.simps) (simp add: prev cp is_ignore_end_utf8_def)
  also have "\<dots> = Inr (m, [d, 0, 0, 0, 0])"
    using load_two [OF rds, of 0 0 0 0 0] plain_kept [OF W assms(2)]
    by (subst strip_utf8_end.simps) (simp add: cp)
  finally show ?thesis .
qed

lemma strip_utf8_start_apostrophe:
  assumes "tk_ok L" and "plain_chr c" and "c' < 128" and "c'' < 128"
  shows "strip_utf8_start L (0x27 # c # c' # c'' # r) 0 0 0 [0, a1, 0, 0, 0] = Inr 1"
proof -
  have X: "xml_str_ok (tk_str L)" and W: "utf8_locale (tk_wide L)" using assms(1) by (simp_all add: tk_ok_def)
  have c: "c < 128" "c \<noteq> 0" using assms(2) by (auto simp: plain_chr_def word_chr_def is_ignore_word_ascii_def)
  let ?m = "0x27 # c # c' # c'' # r"
  have rds: "rd ?m 0 = Inr 0x27" "rd ?m 1 = Inr c" "rd ?m 2 = Inr c'" "rd ?m 3 = Inr c''" by (simp_all add: rd_Cons)
  have cp: "swish_utf8_codepoint (tk_str L) [0x27, 0, 0, 0, 0] = Inr 0x27" "swish_utf8_codepoint (tk_str L) [c, c', 0, 0, 0] = Inr (ucast c)"
    using codepoint_ascii [OF X, of "0x27" "[0, 0, 0, 0]"] codepoint_ascii [OF X c(1), of "[c', 0, 0, 0]"] by simp_all
  have nxt: "swish_utf8_next_chr ?m 0 = Inr 1" "swish_utf8_next_chr ?m 2 = Inr 3"
    using isutf_ascii [OF c(1)] isutf_ascii [OF assms(4)] by (simp_all add: swish_utf8_next_chr_def u8_inc_def rds)
  have "strip_utf8_start L ?m 0 0 0 [0, a1, 0, 0, 0] = strip_utf8_start L ?m 0 1 0 [0, a1, 0, 0, 0]"
    by (subst strip_utf8_start.simps) (simp add: rds nxt)
  also have "\<dots> = strip_utf8_start L ?m 1 2 0 [0x27, 0, 0, 0, 0]"
    using load_one [OF rds(1), of 0 a1 0 0 0] apostrophe_ignored [OF W]
    by (subst strip_utf8_start.simps) (simp add: rds nxt cp)
  also have "\<dots> = Inr 1"
    using load_two [of ?m 1 c c' "0x27" 0 0 0 0] plain_kept [OF W assms(2)] c(2)
    by (subst strip_utf8_start.simps) (simp add: rds cp)
  finally show ?thesis .
qed

text \<open>
  C23: an apostrophe at the start of a UTF-8 word. The stripping moves its own copy of the
  pointer, so that the word keeps its apostrophe, while the length it returns is that of the
  rest: of a word of plain characters behind an apostrophe, the tokenizer stores the
  apostrophe and all characters, and no terminator, so that the value of the token runs into
  the next one.
\<close>

theorem utf8_leading_apostrophe_unterminated:
  assumes "tk_ok L" and "list_all plain_chr x" and "x \<noteq> []"
  defines "token \<equiv> 0x27 # x @ [0, 0]"
  shows "strip_utf8_chrs L token (length x + 2) = Inr (token, int (length x) + 1) \<and>
    (\<exists>tks'. swish_token_list_set_token L tks token (int (length x) + 1) = Inr tks' \<and>
      bufBytes (tk_buf L) (tl_buf tks') = bufBytes (tk_buf L) (tl_buf tks) @ 0x27 # x)"
proof -
  have X: "xml_str_ok (tk_str L)" and B: "xml_buf_ok (tk_buf L)" using assms(1) by (simp_all add: tk_ok_def)
  obtain z d where xz: "x = z @ [d]" using assms(3) by (metis append_butlast_last_id)
  obtain c y where xc: "x = c # y" using assms(3) by (cases x) auto
  obtain c' c'' r where y: "y @ [0, 0] = c' # c'' # r" "c' < 128" "c'' < 128"
  proof -
    have "list_all (\<lambda>c. c < 128) (y @ [0, 0])"
      using assms(2) xc by (auto simp: list_all_iff plain_chr_def word_chr_def)
    moreover obtain c' c'' r where "y @ [0, 0] = c' # c'' # r"
      by (cases "y @ [0, 0 :: u8]"; cases "tl (y @ [0, 0 :: u8])") (auto simp: Cons_eq_append_conv)
    ultimately show ?thesis using that by simp
  qed
  have nf: "nul_free x" using assms(2) by (intro word_chr_nul_free) (simp add: list_all_iff plain_chr_def)
  have "token = (0x27 # z) @ d # 0 # [0]" "plain_chr d" using assms(2) xz by (simp_all add: token_def)
  from strip_utf8_end_plain [OF assms(1) this(2,1)]
  have e: "strip_utf8_end L token (int (length x + 2)) (int (length x + 2)) (replicate 5 0) = Inr (token, [d, 0, 0, 0, 0])"
    by (simp add: xz numeral_eq_Suc)
  have "strip_utf8_start L token 0 0 0 [0, 0, 0, 0, 0] = Inr 1"
    using strip_utf8_start_apostrophe [OF assms(1) _ y(2,3)] assms(2) xc y(1) by (simp add: token_def)
  moreover have "cstr token 1 = Inr x" using cstr_at [OF nf, of "[0x27]" "[0]"] by (simp add: token_def)
  ultimately have "strip_utf8_chrs L token (length x + 2) = Inr (token, int (length x) + 1)"
    unfolding strip_utf8_chrs_def e using nf by (simp add: wr_def xml_str_laws [OF X])
  moreover have "take (nat (int (length x) + 1)) token = 0x27 # x" by (simp add: token_def nat_add_distrib)
  ultimately show ?thesis
    using xml_buf_laws(2,3) [OF B, of "tl_buf tks" "0x27 # x"]
    by (auto simp: swish_token_list_set_token_def case_prod_beta token_def)
qed

lemma utf8_leading_apostrophe_unterminated_witness:
  "\<forall>tks. strip_utf8_chrs ref_tk (0x27 # [0x61, 0x62] @ [0, 0]) (length [0x61, 0x62 :: u8] + 2) =
    Inr (0x27 # [0x61, 0x62] @ [0, 0], int (length [0x61, 0x62 :: u8]) + 1)"
proof -
  have "list_all plain_chr [0x61, 0x62]"
    by (simp add: plain_chr_def word_chr_def edge_chr_def is_ignore_word_ascii_def isspace_def iscntrl_def ispunct_def)
  from utf8_leading_apostrophe_unterminated [OF ref_tk_ok this] show ?thesis by blast
qed

end
