(* ===== verification/TagStack.thy ===== *)
theory TagStack
  imports Prelude Libxml
begin

text \<open>
  The tag stacks of \<open>src/libswish3/parser.c\<close>: the stack of open elements, of open metanames
  and of open properties. The linked list is the list of its tags, the head first; the
  pointer \<open>temp\<close> the code walks it with and the name of the stack, a debugging aid, are left
  out.
\<close>

record swish_Tag =
  tg_raw :: bytes
  tg_baked :: bytes
  tg_context :: bytes
  tg_n :: nat

record swish_TagStack =
  st_tags :: "swish_Tag list"
  st_count :: nat

definition SWISH_DOT :: u8 where "SWISH_DOT = 0x2E"
definition SWISH_DOM_CHAR :: u8 where "SWISH_DOM_CHAR = 0x2F"
definition SWISH_DOM_STR :: bytes where "SWISH_DOM_STR = [0x2F]"
definition SWISH_XMLNS_CHAR :: u8 where "SWISH_XMLNS_CHAR = 0x3A"

definition empty_stack :: swish_TagStack where
  "empty_stack = \<lparr>st_tags = [], st_count = 0\<rparr>"

text \<open>\<open>snprintf (buf, size, "%s%c%s", a, c, b)\<close>: what fits, with the NUL.\<close>

definition join_chr :: "nat \<Rightarrow> bytes \<Rightarrow> u8 \<Rightarrow> bytes \<Rightarrow> bytes" where
  "join_chr size' a c b = take (size' - 1) (a @ c # b)"

fun flatten_loop :: "u8 \<Rightarrow> swish_Tag list \<Rightarrow> bytes \<Rightarrow> bytes" where
  "flatten_loop c [] flat = flat"
| "flatten_loop c (t # ts) flat =
     flatten_loop c ts (join_chr (length flat + length (tg_baked t) + 3) (tg_baked t) c flat)"

definition flatten_tag_stack :: "bytes option \<Rightarrow> swish_TagStack \<Rightarrow> u8 \<Rightarrow> bytes res" where
  "flatten_tag_stack baked stack c =
     (case baked of
        Some b \<Rightarrow> Inr (flatten_loop c (st_tags stack) b)
      | None \<Rightarrow>
          (case st_tags stack of
             [] \<Rightarrow> Inl NullPointer
           | t # ts \<Rightarrow> Inr (flatten_loop c ts (tg_baked t))))"

text \<open>The context is made from the stack with the new tag on it.\<close>

definition push_tag_stack :: "swish_TagStack \<Rightarrow> bytes \<Rightarrow> bytes \<Rightarrow> u8 \<Rightarrow> swish_TagStack res" where
  "push_tag_stack stack raw baked c =
     (let thistag = \<lparr>tg_raw = raw, tg_baked = baked, tg_context = [], tg_n = st_count stack\<rparr>;
          stack = \<lparr>st_tags = thistag # st_tags stack, st_count = st_count stack + 1\<rparr> in
      bnd (flatten_tag_stack None stack c) (\<lambda>context.
        Inr (stack\<lparr>st_tags := thistag\<lparr>tg_context := context\<rparr> # tl (st_tags stack)\<rparr>)))"

definition pop_tag_stack :: "swish_TagStack \<Rightarrow> swish_Tag option \<times> swish_TagStack" where
  "pop_tag_stack stack =
     (case st_tags stack of
        [] \<Rightarrow> (None, stack)
      | t # ts \<Rightarrow>
          (if 1 < st_count stack
           then (Some t, stack\<lparr>st_tags := ts, st_count := st_count stack - 1\<rparr>)
           else (Some t, stack\<lparr>st_tags := [], st_count := st_count stack - 1\<rparr>)))"

text \<open>The head is looked at whether there is one or not.\<close>

definition pop_tag_stack_on_match ::
  "xml_str \<Rightarrow> swish_TagStack \<Rightarrow> bytes \<Rightarrow> (swish_Tag option \<times> swish_TagStack) res" where
  "pop_tag_stack_on_match X stack tag =
     (case st_tags stack of
        [] \<Rightarrow> Inl NullPointer
      | t # ts \<Rightarrow>
          (if xmlStrEqual X (Some (tg_raw t)) (Some tag)
           then (case pop_tag_stack stack of
                   (None, stack) \<Rightarrow>
                     (if st_count stack \<noteq> 0 then Inr (None, stack) else Inl (Croak ''stack was empty''))
                 | (Some st, stack) \<Rightarrow> Inr (Some st, stack))
           else Inr (None, stack)))"

section \<open>Paths\<close>

text \<open>
  A stack is well formed when its count is its height, each tag knows the number of tags
  below it, and its context is the path from the bottom of the stack to it.
\<close>

fun path :: "u8 \<Rightarrow> bytes list \<Rightarrow> bytes" where
  "path c [] = []"
| "path c [b] = b"
| "path c (b # bs) = path c bs @ c # b"

fun tags_ok :: "u8 \<Rightarrow> swish_Tag list \<Rightarrow> bool" where
  "tags_ok c [] \<longleftrightarrow> True"
| "tags_ok c (t # ts) \<longleftrightarrow>
     tg_n t = length ts \<and> tg_context t = path c (map tg_baked (t # ts)) \<and> tags_ok c ts"

definition stack_ok :: "u8 \<Rightarrow> swish_TagStack \<Rightarrow> bool" where
  "stack_ok c s \<longleftrightarrow> st_count s = length (st_tags s) \<and> tags_ok c (st_tags s)"

lemma stack_ok_empty [simp]: "stack_ok c empty_stack"
  by (simp add: stack_ok_def empty_stack_def)

lemma path_append: "bs \<noteq> [] \<Longrightarrow> cs \<noteq> [] \<Longrightarrow> path c (bs @ cs) = path c cs @ c # path c bs"
proof (induction c bs rule: path.induct)
  case (2 c b)
  then show ?case by (cases cs) auto
qed auto

lemma flatten_loop_eq: "flatten_loop c ts flat = (if ts = [] then flat else path c (map tg_baked ts) @ c # flat)"
proof (induction ts arbitrary: flat)
  case (Cons t ts)
  then show ?case by (cases ts) (simp_all add: join_chr_def)
qed simp

lemma flatten_eq:
  "flatten_tag_stack (Some b) s c = Inr (path c (b # map tg_baked (st_tags s)))"
  "st_tags s \<noteq> [] \<Longrightarrow> flatten_tag_stack None s c = Inr (path c (map tg_baked (st_tags s)))"
proof -
  have "flatten_loop c ts b = path c (b # map tg_baked ts)" for b ts
    by (cases ts) (auto simp: flatten_loop_eq)
  then show "flatten_tag_stack (Some b) s c = Inr (path c (b # map tg_baked (st_tags s)))"
    and "st_tags s \<noteq> [] \<Longrightarrow> flatten_tag_stack None s c = Inr (path c (map tg_baked (st_tags s)))"
    by (auto simp: flatten_tag_stack_def split: list.splits)
qed

lemma push_eq:
  "push_tag_stack s raw baked c =
     Inr \<lparr>st_tags = \<lparr>tg_raw = raw, tg_baked = baked, tg_context = path c (baked # map tg_baked (st_tags s)),
            tg_n = st_count s\<rparr> # st_tags s, st_count = st_count s + 1\<rparr>"
  by (simp add: push_tag_stack_def Let_def flatten_eq)

lemma push_ok:
  assumes "stack_ok c s"
  shows "\<exists>t s'. push_tag_stack s raw baked c = Inr s' \<and> stack_ok c s' \<and> st_tags s' = t # st_tags s \<and>
    tg_raw t = raw \<and> tg_baked t = baked \<and> tg_context t = path c (baked # map tg_baked (st_tags s))"
  using assms by (simp add: push_eq stack_ok_def)

lemma pop_ok:
  assumes "stack_ok c s"
  shows "pop_tag_stack s = (case st_tags s of [] \<Rightarrow> (None, s)
    | t # ts \<Rightarrow> (Some t, \<lparr>st_tags = ts, st_count = length ts\<rparr>)) \<and> stack_ok c (snd (pop_tag_stack s))"
  using assms by (cases s) (auto simp: pop_tag_stack_def stack_ok_def split: list.splits)

lemma pop_on_match_eq:
  assumes "xml_str_ok X" and "stack_ok c s" and "st_tags s = t # ts"
  shows "pop_tag_stack_on_match X s tag =
    (if tg_raw t = tag then Inr (Some t, \<lparr>st_tags = ts, st_count = length ts\<rparr>) else Inr (None, s))"
  using pop_ok [OF assms(2)] assms(3)
  by (simp add: pop_tag_stack_on_match_def xml_str_laws [OF assms(1)])

end
