(* ===== verification/Files.thy ===== *)
theory Files
  imports Strings_Correct
begin

text \<open>
  \<open>src/libswish3/fs.c\<close> and \<open>io.c\<close>: questions to the file system, parts of a path, and reading
  files whole. The operating system and zlib are parameters: what \<open>stat\<close> and \<open>lstat\<close> answer
  for a path, what a file opened under a path holds, and what \<open>gzread\<close> decompresses from it.
  The path functions are those of a system whose separator is the slash.
\<close>

record stat =
  st_mode :: u32
  st_size :: int
  st_mtime :: int

text \<open>\<open>gz_data\<close> is what \<open>gzread\<close> gives from the start of the file on; \<open>gz_bad\<close> says it fails.\<close>

record gz_file =
  gz_data :: bytes
  gz_bad :: bool

record os =
  os_stat :: "bytes \<Rightarrow> stat option"
  os_lstat :: "bytes \<Rightarrow> stat option"
  os_file :: "bytes \<Rightarrow> bytes option"
  os_gz :: "bytes \<Rightarrow> gz_file option"

definition S_IFMT :: u32 where "S_IFMT = 0xF000"
definition S_IFDIR :: u32 where "S_IFDIR = 0x4000"
definition S_IFREG :: u32 where "S_IFREG = 0x8000"
definition S_IFLNK :: u32 where "S_IFLNK = 0xA000"

definition SWISH_MAXSTRLEN :: nat where "SWISH_MAXSTRLEN = 2048"
definition SWISH_MAX_FILE_LEN :: int where "SWISH_MAX_FILE_LEN = 102400000"
definition SWISH_EXT_SEP :: bytes where "SWISH_EXT_SEP = [0x2F, 0x2E]"
definition SWISH_EXT_CH :: u8 where "SWISH_EXT_CH = 0x2E"
definition SWISH_PATH_SEP :: u8 where "SWISH_PATH_SEP = 0x2F"
definition SWISH_PATH_SEP_STR :: bytes where "SWISH_PATH_SEP_STR = [0x2F]"

section \<open>The file system\<close>

definition swish_fs_file_exists :: "os \<Rightarrow> bytes \<Rightarrow> bool" where
  "swish_fs_file_exists S path \<longleftrightarrow> os_stat S path \<noteq> None"

definition swish_fs_is_dir :: "os \<Rightarrow> bytes \<Rightarrow> bool" where
  "swish_fs_is_dir S path =
     (case os_stat S path of None \<Rightarrow> False | Some st \<Rightarrow> st_mode st AND S_IFMT = S_IFDIR)"

definition swish_fs_is_file :: "os \<Rightarrow> bytes \<Rightarrow> bool" where
  "swish_fs_is_file S path =
     (case os_stat S path of None \<Rightarrow> False | Some st \<Rightarrow> st_mode st AND S_IFMT = S_IFREG)"

text \<open>The mask is the code's own, not \<open>S_IFMT\<close>.\<close>

definition swish_fs_is_link :: "os \<Rightarrow> bytes \<Rightarrow> bool" where
  "swish_fs_is_link S path =
     (case os_lstat S path of None \<Rightarrow> False | Some st \<Rightarrow> st_mode st AND S_IFLNK = S_IFLNK)"

definition swish_fs_get_file_size :: "os \<Rightarrow> bytes \<Rightarrow> int" where
  "swish_fs_get_file_size S path = (case os_stat S path of None \<Rightarrow> -1 | Some st \<Rightarrow> st_size st)"

definition swish_fs_get_file_mtime :: "os \<Rightarrow> bytes \<Rightarrow> int" where
  "swish_fs_get_file_mtime S path = (case os_stat S path of None \<Rightarrow> -1 | Some st \<Rightarrow> st_mtime st)"

section \<open>Paths\<close>

function lastptr_loop :: "mem \<Rightarrow> int \<Rightarrow> int res" where
  "lastptr_loop str p = bnd (rd str p) (\<lambda>c. if c \<noteq> 0 then lastptr_loop str (p + 1) else Inr (p - 1))"
  by pat_completeness auto
termination
  by (relation "measure (\<lambda>(m, p). nat (int (length m) - p))") (auto simp: rd_Inr_iff)

definition lastptr :: "mem option \<Rightarrow> int option res" where
  "lastptr str =
     (case str of
        None \<Rightarrow> Inl (Croak ''received null pointer while looking for last NULL'')
      | Some m \<Rightarrow>
          bnd (rd m 0) (\<lambda>c. if c = 0 then Inr None else bnd (lastptr_loop m 0) (\<lambda>p. Inr (Some p))))"

function findlast_loop :: "xml_str \<Rightarrow> mem \<Rightarrow> bytes \<Rightarrow> int \<Rightarrow> int res" where
  "findlast_loop X str set' p =
     bnd (rd str p) (\<lambda>c.
       if p \<noteq> 0 \<and> xmlStrchr X set' c = None then findlast_loop X str set' (p - 1) else Inr p)"
  by pat_completeness auto
termination
  by (relation "measure (\<lambda>(X, m, v, p). nat p)") (auto simp: rd_Inr_iff)

declare lastptr_loop.simps [simp del] findlast_loop.simps [simp del]

definition findlast :: "xml_str \<Rightarrow> mem option \<Rightarrow> bytes \<Rightarrow> int option res" where
  "findlast X str set' =
     (case str of
        None \<Rightarrow> Inr None
      | Some m \<Rightarrow>
          bnd (rd m 0) (\<lambda>c.
            if c = 0 \<or> set' = [] then Inr None
            else
              bnd (lastptr str) (\<lambda>p.
                case p of
                  None \<Rightarrow> Inl Aborted
                | Some p \<Rightarrow>
                    bnd (findlast_loop X m set' p) (\<lambda>p.
                    bnd (rd m p) (\<lambda>c. Inr (if xmlStrchr X set' c = None then None else Some p))))))"

definition swish_fs_get_file_ext :: "xml_str \<Rightarrow> wide \<Rightarrow> mem \<Rightarrow> bytes option res" where
  "swish_fs_get_file_ext X W url =
     bnd (findlast X (Some url) SWISH_EXT_SEP) (\<lambda>p.
       case p of
         None \<Rightarrow> Inr None
       | Some p \<Rightarrow>
           bnd (rd url p) (\<lambda>c.
             if c \<noteq> SWISH_EXT_CH then Inr None
             else
               bnd (cstr url (p + 1)) (\<lambda>s.
               bnd (swish_str_tolower X W s) (\<lambda>ext. Inr (Some ext)))))"

definition swish_fs_get_path :: "xml_str \<Rightarrow> mem \<Rightarrow> bytes option res" where
  "swish_fs_get_path X url =
     bnd (findlast X (Some url) SWISH_PATH_SEP_STR) (\<lambda>p.
       case p of
         None \<Rightarrow> Inr None
       | Some p \<Rightarrow>
           bnd (rd url p) (\<lambda>c.
             if c \<noteq> SWISH_PATH_SEP then Inr None
             else
               bnd (cstr url 0) (\<lambda>u.
               bnd (cstr url p) (\<lambda>v.
                 if xmlStrEqual X (Some u) (Some v) then Inr None
                 else Inr (xmlStrsub X u 0 (p + 1))))))"

definition swish_fs_looks_like_gz :: "xml_str \<Rightarrow> wide \<Rightarrow> mem \<Rightarrow> bool res" where
  "swish_fs_looks_like_gz X W file =
     bnd (swish_fs_get_file_ext X W file) (\<lambda>ext. Inr (xmlStrEqual X ext (Some (lit ''gz''))))"

section \<open>Reading\<close>

text \<open>Embedded NULs and connectors of the first \<open>bytes_read\<close> bytes become newlines, when there
  is a NUL among them.\<close>

function no_nulls_loop :: "mem \<Rightarrow> int \<Rightarrow> int \<Rightarrow> mem res" where
  "no_nulls_loop buffer n i =
     (if i < n then
        bnd (rd buffer i) (\<lambda>c.
        bnd (if c = 0 then wr buffer i 10 else Inr buffer) (\<lambda>buffer.
        bnd (rd buffer i) (\<lambda>c.
        bnd (if c = 3 then wr buffer i 10 else Inr buffer) (\<lambda>buffer.
          no_nulls_loop buffer n (i + 1)))))
      else Inr buffer)"
  by pat_completeness auto
termination
  by (relation "measure (\<lambda>(m, n, i). nat (n - i))") auto

declare no_nulls_loop.simps [simp del]

definition no_nulls :: "xml_str \<Rightarrow> mem \<Rightarrow> int \<Rightarrow> mem res" where
  "no_nulls X buffer bytes_read =
     bnd (cstr buffer 0) (\<lambda>s.
       if xmlStrlen X (Some s) < bytes_read then no_nulls_loop buffer bytes_read 0 else Inr buffer)"

text \<open>What is left of the stream is returned with the buffer.\<close>

definition swish_io_slurp_fh :: "xml_str \<Rightarrow> bytes \<Rightarrow> nat \<Rightarrow> bool \<Rightarrow> (mem \<times> bytes) res" where
  "swish_io_slurp_fh X fh flen binmode =
     (if length fh < flen then Inl (Croak ''did not read expected bytes'')
      else
        (let buffer = take flen fh @ [0] in
         bnd (if binmode then Inr buffer else no_nulls X buffer (int flen)) (\<lambda>buffer.
           Inr (buffer, drop flen fh))))"

text \<open>A length of -1 asks for no memory and for every byte of the file.\<close>

definition swish_io_slurp_file_len :: "xml_str \<Rightarrow> os \<Rightarrow> bytes \<Rightarrow> int \<Rightarrow> bool \<Rightarrow> mem res" where
  "swish_io_slurp_file_len X S filename flen binmode =
     (let flen = (if SWISH_MAX_FILE_LEN < flen then SWISH_MAX_FILE_LEN else flen) in
      case os_file S filename of
        None \<Rightarrow> Inl (Croak ''Error reading file'')
      | Some content \<Rightarrow>
          if flen < 0 then
            (if flen = -1 \<and> content \<noteq> [] then Inl OutOfBounds else Inl (Croak ''out of memory''))
          else if int (length content) < flen then Inl (Croak ''did not read expected bytes'')
          else
            (let buffer = take (nat flen) content @ [0] in
             if binmode then Inr buffer else no_nulls X buffer flen))"

text \<open>
  \<open>gzread (fh, buffer, len)\<close> from the start of the file: \<open>None\<close> is -1, the answer on an error and
  for a length that does not fit an \<open>int\<close>.
\<close>

definition gzread :: "gz_file \<Rightarrow> u32 \<Rightarrow> nat option" where
  "gzread fh len =
     (if gz_bad fh \<or> 2 ^ 31 \<le> unat len then None else Some (min (unat len) (length (gz_data fh))))"

text \<open>
  The buffer is filled from the start again each time it has proved too small; what is read
  last stays in it. Its size, an \<open>unsigned int\<close> that wraps around, and the number of bytes
  read. The sizes can come back to one tried before: \<open>None\<close> is a loop that never ends.
\<close>

partial_function (option) gz_loop :: "gz_file \<Rightarrow> u32 \<Rightarrow> nat \<Rightarrow> (u32 \<times> nat) res option" where
  "gz_loop fh buf_size buffer_len =
     (case gzread fh buf_size of
        None \<Rightarrow> Some (Inl (Croak ''Error reading gzipped file''))
      | Some bytes_read \<Rightarrow>
          if bytes_read = 0 then Some (Inr (buf_size, buffer_len))
          else if bytes_read < unat buf_size then Some (Inr (buf_size, bytes_read))
          else gz_loop fh (buf_size * 3) bytes_read)"

text \<open>
  Up to a third of the largest \<open>int\<close> nothing wraps: the loop ends with all of the data, in a
  buffer that has room for the NUL.
\<close>

lemma gz_loop_returns:
  assumes "\<not> gz_bad fh" and "3 * length (gz_data fh) < 2 ^ 31" and "gz_data fh \<noteq> []"
  shows "0 < unat b \<Longrightarrow> unat b < 2 ^ 31 \<Longrightarrow>
    \<exists>b'. gz_loop fh b n = Some (Inr (b', length (gz_data fh))) \<and> length (gz_data fh) < unat b'"
proof (induction "Suc (length (gz_data fh)) - unat b" arbitrary: b n rule: less_induct)
  case less
  let ?l = "length (gz_data fh)"
  have read: "gzread fh b = Some (min (unat b) ?l)" using assms(1) less.prems by (simp add: gzread_def)
  show ?case
  proof (cases "?l < unat b")
    case True
    then show ?thesis using assms(3) by (subst gz_loop.simps) (simp add: read)
  next
    case False
    then have b3: "unat (b * 3) = 3 * unat b" "3 * unat b < 2 ^ 31"
      using assms(2) by (auto simp: unat_word_ariths)
    then have "\<exists>b'. gz_loop fh (b * 3) (unat b) = Some (Inr (b', ?l)) \<and> ?l < unat b'"
      using False less.prems by (intro less.hyps) auto
    then show ?thesis using False less.prems by (subst gz_loop.simps) (simp add: read)
  qed
qed

text \<open>Larger files can make it loop for ever: the sizes 2^29 and 3 * 2^29 follow each other.\<close>

lemma gz_loop_hangs:
  assumes "\<not> gz_bad fh" and "3 * 2 ^ 29 \<le> length (gz_data fh)"
  shows "gz_loop fh (3 * 2 ^ 29) n = None"
proof -
  have "\<not> (\<not> gz_bad fh \<and> 3 * 2 ^ 29 \<le> length (gz_data fh) \<and> b \<in> {2 ^ 29, 3 * 2 ^ 29})"
    if "gz_loop fh b n = Some r" for b r n
  proof (rule gz_loop.raw_induct [where P = "\<lambda>fh b n r.
      \<not> (\<not> gz_bad fh \<and> 3 * 2 ^ 29 \<le> length (gz_data fh) \<and> b \<in> {2 ^ 29, 3 * 2 ^ 29})", OF _ that])
    fix f fh b n r
    assume IH: "\<And>fh b n r. f fh b n = Some r \<Longrightarrow>
        \<not> (\<not> gz_bad fh \<and> 3 * 2 ^ 29 \<le> length (gz_data fh) \<and> b \<in> {2 ^ 29, 3 * 2 ^ 29})"
      and eq: "(case gzread fh b of
          None \<Rightarrow> Some (Inl (Croak ''Error reading gzipped file''))
        | Some k \<Rightarrow> if k = 0 then Some (Inr (b, n)) else if k < unat b then Some (Inr (b, k))
            else f fh (b * 3) k) = Some r"
    show "\<not> (\<not> gz_bad fh \<and> 3 * 2 ^ 29 \<le> length (gz_data fh) \<and> b \<in> {2 ^ 29, 3 * 2 ^ 29})"
    proof
      assume *: "\<not> gz_bad fh \<and> 3 * 2 ^ 29 \<le> length (gz_data fh) \<and> b \<in> {2 ^ 29, 3 * 2 ^ 29}"
      then have b: "b * 3 \<in> {2 ^ 29, 3 * 2 ^ 29}" "0 < unat b" "unat b \<le> 3 * 2 ^ 29" by auto
      then have "gzread fh b = Some (unat b)" using * by (simp add: gzread_def)
      then have "f fh (b * 3) (unat b) = Some r" using eq b(2) by simp
      then show False using IH * b(1) by blast
    qed
  qed
  then show ?thesis using assms by (cases "gz_loop fh (3 * 2 ^ 29) n") blast+
qed

text \<open>\<open>flen\<close> is the size of the file, cut to an \<open>unsigned int\<close> when it is multiplied.\<close>

definition swish_io_slurp_gzfile_len ::
  "xml_str \<Rightarrow> os \<Rightarrow> (nat \<Rightarrow> mem) \<Rightarrow> bytes \<Rightarrow> int \<Rightarrow> bool \<Rightarrow> (mem \<times> nat) res" where
  "swish_io_slurp_gzfile_len X S alloc filename flen binmode =
     (case os_gz S filename of
        None \<Rightarrow> Inl (Croak ''Failed to open file'')
      | Some fh \<Rightarrow>
          bnd (case gz_loop fh (of_int (flen * 3)) 0 of None \<Rightarrow> Inl NoReturn | Some r \<Rightarrow> r) (\<lambda>(buf_size, buffer_len).
          bnd (wr (take buffer_len (gz_data fh) @ drop buffer_len (alloc (unat buf_size))) (int buffer_len) 0) (\<lambda>buffer.
          bnd (if binmode then Inr buffer else no_nulls X buffer (int buffer_len)) (\<lambda>buffer.
            Inr (buffer, buffer_len)))))"

text \<open>A size of 0 asks the file system; so does a file it cannot find, whose size is -1.\<close>

definition swish_io_slurp_file ::
  "xml_str \<Rightarrow> os \<Rightarrow> (nat \<Rightarrow> mem) \<Rightarrow> bytes \<Rightarrow> int \<Rightarrow> bool \<Rightarrow> bool \<Rightarrow> mem res" where
  "swish_io_slurp_file X S alloc filename file_len is_gzipped binmode =
     (let file_len = (if file_len = 0 then swish_fs_get_file_size S filename else file_len) in
      if file_len = 0 \<or> file_len = -1 then Inl (Croak ''Can't stat'')
      else if is_gzipped
      then bnd (swish_io_slurp_gzfile_len X S alloc filename file_len binmode) (\<lambda>(buffer, _). Inr buffer)
      else swish_io_slurp_file_len X S filename file_len binmode)"

section \<open>Lines\<close>

text \<open>\<open>fgets (line, size, fp)\<close>: up to \<open>size - 1\<close> bytes, a newline the last of them.\<close>

fun fgets_bytes :: "nat \<Rightarrow> bytes \<Rightarrow> bytes" where
  "fgets_bytes 0 fp = []"
| "fgets_bytes (Suc n) [] = []"
| "fgets_bytes (Suc n) (c # fp) = (if c = 10 then [c] else c # fgets_bytes n fp)"

definition fgets :: "nat \<Rightarrow> bytes \<Rightarrow> (mem \<times> bytes) option" where
  "fgets size' fp =
     (if fp = [] then None
      else (let s = fgets_bytes (size' - 1) fp in Some (s @ [0], drop (length s) fp)))"

definition swish_io_is_skippable_line :: "xml_str \<Rightarrow> mem \<Rightarrow> bool res" where
  "swish_io_is_skippable_line X str =
     bnd (swish_str_skip_ws str 0) (\<lambda>line.
     bnd (cstr str line) (\<lambda>s.
     bnd (rd str line) (\<lambda>c.
       Inr (if xmlStrlen X (Some s) = 0 \<or> xmlStrlen X (Some s) = 1 \<and> c = 10 then True
            else c = 0x23))))"

function count_lines :: "xml_str \<Rightarrow> bytes \<Rightarrow> int \<Rightarrow> int res" where
  "count_lines X fp count =
     (case fgets SWISH_MAXSTRLEN fp of
        None \<Rightarrow> Inr count
      | Some (line_in_file, fp) \<Rightarrow>
          bnd (swish_io_is_skippable_line X line_in_file) (\<lambda>skip.
            if skip then count_lines X fp count else count_lines X fp (count + 1)))"
  by pat_completeness auto

lemma fgets_bytes_shrinks: "fp \<noteq> [] \<Longrightarrow> 0 < n \<Longrightarrow> length fp - length (fgets_bytes n fp) < length fp"
  by (cases n; cases fp) (auto intro: diff_less)

termination count_lines
  by (relation "measure (\<lambda>(X, fp, n). length fp)")
     (auto simp: fgets_def Let_def SWISH_MAXSTRLEN_def fgets_bytes_shrinks split: if_splits)

declare count_lines.simps [simp del]

definition swish_io_count_operable_file_lines :: "xml_str \<Rightarrow> os \<Rightarrow> bytes \<Rightarrow> int res" where
  "swish_io_count_operable_file_lines X S filename =
     (case os_file S filename of
        None \<Rightarrow> Inl (Croak ''failed to open file'')
      | Some fp \<Rightarrow> count_lines X fp 0)"

end
