(* ===== verification/DocInfo.thy ===== *)
theory DocInfo
  imports Files Mime
begin

text \<open>
  \<open>src/libswish3/docinfo.c\<close>: what is known of a document, completed from its headers or from
  the file system. A string field is NULL or the string it points to: whoever replaces one
  frees it first.
\<close>

record swish_DocInfo =
  di_mtime :: int
  di_size :: int
  di_mime :: "bytes option"
  di_encoding :: "bytes option"
  di_uri :: "bytes option"
  di_nwords :: nat
  di_ext :: "bytes option"
  di_parser :: "bytes option"
  di_action :: "bytes option"
  di_is_gzipped :: bool
  di_ref_cnt :: int

definition swish_docinfo_init :: swish_DocInfo where
  "swish_docinfo_init =
     \<lparr>di_mtime = 0, di_size = 0, di_mime = None, di_encoding = Some SWISH_DEFAULT_ENCODING, di_uri = None,
      di_nwords = 0, di_ext = None, di_parser = None, di_action = None, di_is_gzipped = False,
      di_ref_cnt = 0\<rparr>"

text \<open>The table of MIME types looked up with a NULL extension gives NULL.\<close>

definition mime_of_ext :: "('s, 'p) cf_lib \<Rightarrow> ('s, 'p) swish_Config \<Rightarrow> bytes option \<Rightarrow> bytes" where
  "mime_of_ext L config ext =
     (case ext of None \<Rightarrow> SWISH_DEFAULT_MIME | Some e \<Rightarrow> swish_mime_get_type L config e)"

definition swish_docinfo_check ::
  "('s, 'p) cf_lib \<Rightarrow> wide \<Rightarrow> swish_DocInfo \<Rightarrow> ('s, 'p) swish_Config \<Rightarrow> swish_DocInfo res" where
  "swish_docinfo_check L W docinfo config =
     (case di_uri docinfo of
        None \<Rightarrow> Inl (Croak ''Failed to return required header Content-Location:'')
      | Some uri \<Rightarrow>
          if di_size docinfo = -1 then Inl (Croak ''Failed to return required header Content-Length:'')
          else if di_size docinfo = 0 then Inl (Croak ''Found zero Content-Length'')
          else
            bnd (swish_fs_get_file_ext (cl_str L) W (cobj uri)) (\<lambda>ext.
              let docinfo = (if di_ext docinfo = None
                             then docinfo\<lparr>di_ext := Some (case ext of Some e \<Rightarrow> e | None \<Rightarrow> lit ''none'')\<rparr>
                             else docinfo);
                  mime = (case di_mime docinfo of
                            None \<Rightarrow> mime_of_ext L config (di_ext docinfo)
                          | Some m \<Rightarrow> m);
                  docinfo = docinfo\<lparr>di_mime := Some mime\<rparr> in
              case di_parser docinfo of
                None \<Rightarrow>
                  bnd (swish_mime_get_parser L config mime) (\<lambda>p. Inr (docinfo\<lparr>di_parser := Some p\<rparr>))
              | Some _ \<Rightarrow> Inr docinfo))"

text \<open>The extension, and whether the name ends in \<open>gz\<close>, in which case the one before is taken
  from a copy cut three bytes earlier.\<close>

definition docinfo_ext :: "xml_str \<Rightarrow> wide \<Rightarrow> bytes \<Rightarrow> swish_DocInfo \<Rightarrow> swish_DocInfo res" where
  "docinfo_ext X W filename i =
     bnd (swish_fs_get_file_ext X W (cobj filename)) (\<lambda>ext.
       if xmlStrEqual X ext (Some (lit ''gz'')) then
         bnd (wr (cobj filename) (xmlStrlen X (Some filename) - 3) 0) (\<lambda>copy.
         bnd (swish_fs_get_file_ext X W copy) (\<lambda>ext. Inr (i\<lparr>di_is_gzipped := True, di_ext := ext\<rparr>)))
       else Inr (i\<lparr>di_ext := ext\<rparr>))"

text \<open>The answer is whether the file exists.\<close>

definition swish_docinfo_from_filesystem ::
  "('s, 'p) cf_lib \<Rightarrow> wide \<Rightarrow> os \<Rightarrow> bytes \<Rightarrow> swish_DocInfo \<Rightarrow> ('s, 'p) swish_Config \<Rightarrow>
   (bool \<times> swish_DocInfo) res" where
  "swish_docinfo_from_filesystem L W S filename i config =
     bnd (docinfo_ext (cl_str L) W filename i) (\<lambda>i.
       if \<not> swish_fs_file_exists S filename then Inr (False, i)
       else
         (let i = i\<lparr>di_uri := Some filename, di_mtime := swish_fs_get_file_mtime S filename,
                di_size := swish_fs_get_file_size S filename\<rparr>;
              mime = mime_of_ext L config (di_ext i) in
          bnd (swish_mime_get_parser L config mime) (\<lambda>p.
            Inr (True, i\<lparr>di_mime := Some mime, di_parser := Some p\<rparr>))))"

text \<open>The strings \<open>swish_docinfo_free\<close> releases; it leaves the action where it is.\<close>

definition swish_docinfo_free :: "swish_DocInfo \<Rightarrow> bytes list" where
  "swish_docinfo_free ptr =
     List.map_filter (\<lambda>s. s) [di_encoding ptr, di_mime ptr, di_uri ptr, di_ext ptr, di_parser ptr]"

end
