(* ===== verification/Head.thy ===== *)
theory Head
  imports DocInfo
begin

text \<open>
  The headers in front of a document (\<open>buf_to_head\<close> and \<open>head_to_docinfo\<close> of
  \<open>src/libswish3/parser.c\<close>): the lines before a blank one, and what they say of the document.
\<close>

record HEAD =
  h_lines :: "bytes list"
  h_body_start :: int
  h_nlines :: nat

definition SWISH_MAX_HEADERS :: nat where "SWISH_MAX_HEADERS = 6"

text \<open>
  The loop over the buffer: \<open>i\<close> in the line, \<open>k\<close> in the buffer, and the lines so far, as many as
  \<open>j\<close> counts. \<open>line\<close> is the block of \<open>SWISH_MAXSTRLEN + 1\<close> bytes a line is gathered in.
\<close>

function head_loop :: "mem \<Rightarrow> mem \<Rightarrow> int \<Rightarrow> int \<Rightarrow> bytes list \<Rightarrow> HEAD res" where
  "head_loop buf line i k lines =
     (if length lines < SWISH_MAX_HEADERS \<and> i \<le> int SWISH_MAXSTRLEN then
        bnd (rd buf k) (\<lambda>c.
          if c = 10 then Inl (Croak ''illegal newline to start doc header'')
          else
            bnd (wr line i c) (\<lambda>line.
            bnd (rd buf (k + 1)) (\<lambda>d.
              if d = 10 then
                bnd (wr line (i + 1) 0) (\<lambda>line.
                bnd (cstr line 0) (\<lambda>s.
                bnd (rd buf (k + 2)) (\<lambda>e.
                  if e = 10 \<or> e = 0
                  then Inr \<lparr>h_lines = lines @ [s], h_body_start = k + 3, h_nlines = length lines + 1\<rparr>
                  else head_loop buf line 0 (k + 2) (lines @ [s]))))
              else head_loop buf line (i + 1) (k + 1) lines)))
      else Inr \<lparr>h_lines = lines, h_body_start = 0, h_nlines = length lines\<rparr>)"
  by pat_completeness auto
termination
  by (relation "measure (\<lambda>(buf, line, i, k, ls). nat (int (length buf) - k))") (auto simp: rd_Inr_iff)

declare head_loop.simps [simp del]

text \<open>\<open>block\<close> is what the line's memory holds when it is allocated.\<close>

definition buf_to_head :: "mem \<Rightarrow> mem \<Rightarrow> HEAD res" where
  "buf_to_head block buf = head_loop buf (take (SWISH_MAXSTRLEN + 1) block) 0 0 []"

definition header_is :: "xml_str \<Rightarrow> bytes \<Rightarrow> string \<Rightarrow> int \<Rightarrow> bool" where
  "header_is X line name n \<longleftrightarrow> xmlStrncasecmp X (Some line) (Some (lit name)) n = 0"

text \<open>One header line, the names in the order they are tried in.\<close>

definition head_line :: "xml_str \<Rightarrow> bytes \<Rightarrow> swish_DocInfo \<Rightarrow> swish_DocInfo res" where
  "head_line X line info =
     (case xmlStrchr X line 0x3A of
        None \<Rightarrow> Inl (Croak ''bad header line'')
      | Some p \<Rightarrow>
          bnd (swish_str_skip_ws (cobj line) (int p + 1)) (\<lambda>v.
          bnd (cstr (cobj line) v) (\<lambda>val.
            if header_is X line ''Content-Length'' 14
            then bnd (swish_string_to_int val) (\<lambda>n. Inr (info\<lparr>di_size := n\<rparr>))
            else if header_is X line ''Last-Modified'' 13
            then bnd (swish_string_to_int val) (\<lambda>n. Inr (info\<lparr>di_mtime := n\<rparr>))
            else if header_is X line ''Last-Mtime'' 10
            then bnd (swish_string_to_int val) (\<lambda>n. Inr (info\<lparr>di_mtime := n\<rparr>))
            else if header_is X line ''Content-Location'' 16 then Inr (info\<lparr>di_uri := Some val\<rparr>)
            else if header_is X line ''Path-Name'' 9 then Inr (info\<lparr>di_uri := Some val\<rparr>)
            else if header_is X line ''Document-Type'' 13 then Inr (info\<lparr>di_parser := Some val\<rparr>)
            else if header_is X line ''Parser-Type'' 11 then Inr (info\<lparr>di_parser := Some val\<rparr>)
            else if header_is X line ''Content-Type'' 12 then Inr (info\<lparr>di_mime := Some val\<rparr>)
            else if header_is X line ''Encoding'' 8 \<or> header_is X line ''Charset'' 7
            then Inr (info\<lparr>di_encoding := Some val\<rparr>)
            else if header_is X line ''Action'' 11 then Inr (info\<lparr>di_action := Some val\<rparr>)
            else Inr info)))"

definition head_to_docinfo :: "xml_str \<Rightarrow> HEAD \<Rightarrow> swish_DocInfo res" where
  "head_to_docinfo X h =
     fold_res (head_line X) (take (h_nlines h) (h_lines h)) (swish_docinfo_init\<lparr>di_ref_cnt := 1\<rparr>)"

end
