(* ===== verification/Parser.thy ===== *)
theory Parser
  imports TagStack Tokenizer Config Head
begin

text \<open>
  \<open>src/libswish3/parser.c\<close>: the state of the parser of one document and what it does on the
  events of libxml2's SAX interface.

  \<^item> \<open>swish_ParserData\<close> carries the configuration, the heap of shared objects and the analyzer,
    which the code reaches through \<open>s3\<close>. \<open>offset\<close>, never read, and the libxml2 context are left
    out.
  \<^item> \<open>tag\<close> is a cell: the code frees the string in several places without clearing the pointer.
  \<^item> Counts of tags and words are natural numbers: a document has fewer than \<open>2 ^ 31\<close> of them.
\<close>

record ('s, 'p, 'h, 'b, 'c) pd_lib =
  pl_cf :: "('s, 'p) cf_lib"
  pl_nb :: "('h, 'b) nb_lib"
  pl_tk :: "('b, 'c) tk_lib"
  pl_htmlTagLookup :: "bytes \<Rightarrow> bool option"

text \<open>\<open>htmlTagLookup\<close>: whether the element libxml2 knows under a name is an inline one.\<close>

record ('s, 'p, 'h, 'b, 'c) swish_ParserData =
  pd_config :: "('s, 'p) swish_Config"
  pd_heap :: heap
  pd_analyzer :: swish_Analyzer
  pd_meta_buf :: 'b
  pd_prop_buf :: 'b
  pd_tag :: "bytes cell"
  pd_docinfo :: swish_DocInfo
  pd_ignore_content :: nat
  pd_is_html :: bool
  pd_bump_word :: bool
  pd_metastack :: swish_TagStack
  pd_propstack :: swish_TagStack
  pd_domstack :: swish_TagStack
  pd_token_iterator :: "('b, 'c) swish_TokenIterator"
  pd_properties :: "('h, 'b) swish_NamedBuffer"
  pd_metanames :: "('h, 'b) swish_NamedBuffer"

definition SWISH_DEFAULT_METANAME :: bytes where "SWISH_DEFAULT_METANAME = lit ''swishdefault''"
definition SWISH_TITLE_METANAME :: bytes where "SWISH_TITLE_METANAME = lit ''swishtitle''"

abbreviation pl_str :: "('s, 'p, 'h, 'b, 'c) pd_lib \<Rightarrow> xml_str" where
  "pl_str L \<equiv> cl_str (pl_cf L)"

abbreviation pl_buf :: "('s, 'p, 'h, 'b, 'c) pd_lib \<Rightarrow> 'b xml_buf" where
  "pl_buf L \<equiv> nb_buf (pl_nb L)"

abbreviation pl_wide :: "('s, 'p, 'h, 'b, 'c) pd_lib \<Rightarrow> wide" where
  "pl_wide L \<equiv> tk_wide (pl_tk L)"

text \<open>Tables of the configuration; a NULL key is in none.\<close>

definition is_metaname :: "('s, 'p, 'h, 'b, 'c) pd_lib \<Rightarrow> ('s, 'p, 'h, 'b, 'c) swish_ParserData \<Rightarrow> bytes \<Rightarrow> bool" where
  "is_metaname L pd k = swish_hash_exists (cl_ptr (pl_cf L)) (cf_metanames (pd_config pd)) k"

definition is_property :: "('s, 'p, 'h, 'b, 'c) pd_lib \<Rightarrow> ('s, 'p, 'h, 'b, 'c) swish_ParserData \<Rightarrow> bytes \<Rightarrow> bool" where
  "is_property L pd k = swish_hash_exists (cl_ptr (pl_cf L)) (cf_properties (pd_config pd)) k"

definition tag_alias :: "('s, 'p, 'h, 'b, 'c) pd_lib \<Rightarrow> ('s, 'p, 'h, 'b, 'c) swish_ParserData \<Rightarrow> bytes \<Rightarrow> bytes option" where
  "tag_alias L pd k = swish_hash_fetch (cl_tab (pl_cf L)) (cf_tag_aliases (pd_config pd)) k"

definition cell_is :: "(bytes \<Rightarrow> bool) \<Rightarrow> bytes cell \<Rightarrow> bool" where
  "cell_is P c = (case c of Cell s \<Rightarrow> P s | _ \<Rightarrow> False)"

definition stack_head :: "swish_TagStack \<Rightarrow> swish_Tag res" where
  "stack_head s = (case st_tags s of [] \<Rightarrow> Inl NullPointer | t # _ \<Rightarrow> Inr t)"

section \<open>Text\<close>

text \<open>\<open>swish_buffer_append\<close> with the position bumper in front when the buffer is not empty.\<close>

definition append_bumped ::
  "'b xml_buf \<Rightarrow> bool \<Rightarrow> mem \<Rightarrow> int \<Rightarrow> int \<Rightarrow> 'b \<Rightarrow> 'b res" where
  "append_bumped B bmp m ch len buf =
     bnd (if bmp \<and> xmlBufferLength B buf \<noteq> 0
          then swish_buffer_append B buf (cobj SWISH_TOKENPOS_BUMPER) 0 1 else Inr buf) (\<lambda>buf.
       swish_buffer_append B buf m ch len)"

definition buffer_characters ::
  "('s, 'p, 'h, 'b, 'c) pd_lib \<Rightarrow> mem \<Rightarrow> int \<Rightarrow> int \<Rightarrow> ('s, 'p, 'h, 'b, 'c) swish_ParserData \<Rightarrow>
   ('s, 'p, 'h, 'b, 'c) swish_ParserData res" where
  "buffer_characters L m ch len pd =
     (if pd_ignore_content pd \<noteq> 0 then Inr pd
      else
        bnd (append_bumped (pl_buf L) (pd_bump_word pd) m ch len (pd_meta_buf pd)) (\<lambda>meta_buf.
        bnd (append_bumped (pl_buf L) (pd_bump_word pd) m ch len (pd_prop_buf pd)) (\<lambda>prop_buf.
          Inr (pd\<lparr>pd_meta_buf := meta_buf, pd_prop_buf := prop_buf, pd_bump_word := False\<rparr>))))"

section \<open>Metanames\<close>

text \<open>
  A metaname that is not configured is the NULL pointer, here an address without an object.
  The analyzer's tokenizer is \<open>swish_tokenize\<close>, which \<open>init_parser_data\<close> sets.
\<close>

definition tokenize ::
  "('s, 'p, 'h, 'b, 'c) pd_lib \<Rightarrow> bytes \<Rightarrow> int \<Rightarrow> bytes \<Rightarrow> bytes option \<Rightarrow>
   ('s, 'p, 'h, 'b, 'c) swish_ParserData \<Rightarrow> ('s, 'p, 'h, 'b, 'c) swish_ParserData res" where
  "tokenize L str len metaname ctx pd =
     (let meta = (case swish_hash_fetch (cl_ptr (pl_cf L)) (cf_metanames (pd_config pd)) metaname of
                    None \<Rightarrow> length (h_metas (pd_heap pd)) | Some a \<Rightarrow> a) in
      if len = 0 then Inr pd
      else
        bnd (case ctx of
               None \<Rightarrow> bnd (stack_head (pd_metastack pd)) (\<lambda>t. Inr (tg_context t))
             | Some c \<Rightarrow> Inr c) (\<lambda>ctx.
        bnd (swish_tokenize (pl_tk L) (pd_analyzer pd) (pd_token_iterator pd) str meta ctx (pd_heap pd))
          (\<lambda>(n, it, hp).
            Inr (pd\<lparr>pd_token_iterator := it, pd_heap := hp,
                   pd_docinfo := (pd_docinfo pd)\<lparr>di_nwords := nat (int (di_nwords (pd_docinfo pd)) + n)\<rparr>\<rparr>))))"

definition stored_as :: "bytes cell \<Rightarrow> bytes \<Rightarrow> bytes res" where
  "stored_as alias_for name =
     (case alias_for of NullCell \<Rightarrow> Inr name | Cell s \<Rightarrow> Inr s | Freed \<Rightarrow> Inl UseAfterFree)"

text \<open>One metaname of the stack, when the context cascades.\<close>

definition cascade_tag ::
  "('s, 'p, 'h, 'b, 'c) pd_lib \<Rightarrow> bytes \<Rightarrow> 'b \<Rightarrow> swish_Tag \<Rightarrow> ('h, 'b) swish_NamedBuffer \<Rightarrow>
   ('h, 'b) swish_NamedBuffer res" where
  "cascade_tag L stored buf t nb =
     (if xmlStrEqual (pl_str L) (Some (tg_baked t)) (Some stored) then Inr nb
      else bnd (swish_nb_add_buf (pl_nb L) nb (tg_baked t) buf SWISH_TOKENPOS_BUMPER False True) (\<lambda>(nb, _). Inr nb))"

definition flush_buffer ::
  "('s, 'p, 'h, 'b, 'c) pd_lib \<Rightarrow> bytes \<Rightarrow> bytes \<Rightarrow> ('s, 'p, 'h, 'b, 'c) swish_ParserData \<Rightarrow>
   ('s, 'p, 'h, 'b, 'c) swish_ParserData res" where
  "flush_buffer L metaname ctx pd =
     (case swish_hash_fetch (cl_ptr (pl_cf L)) (cf_metanames (pd_config pd)) metaname of
        None \<Rightarrow> Inl NullPointer
      | Some a \<Rightarrow>
          bnd (obj_at (h_metas (pd_heap pd)) a) (\<lambda>meta.
          bnd (stored_as (mn_alias_for meta) metaname) (\<lambda>metaname_stored_as.
          bnd (swish_nb_add_buf (pl_nb L) (pd_metanames pd) metaname_stored_as (pd_meta_buf pd)
                 SWISH_TOKENPOS_BUMPER False True) (\<lambda>(nb, _).
          bnd (if fl_cascade_meta_context (cf_flags (pd_config pd))
               then fold_res (cascade_tag L metaname_stored_as (pd_meta_buf pd)) (st_tags (pd_metastack pd)) nb
               else Inr nb) (\<lambda>nb.
          let pd = pd\<lparr>pd_metanames := nb\<rparr> in
          bnd (if an_tokenize (pd_analyzer pd)
               then
                 bnd (cstr (xmlBufferContent (pl_buf L) (pd_meta_buf pd)) 0) (\<lambda>s.
                   tokenize L s (xmlBufferLength (pl_buf L) (pd_meta_buf pd)) metaname_stored_as (Some ctx) pd)
               else Inr pd) (\<lambda>pd.
            Inr (pd\<lparr>pd_meta_buf := xmlBufferEmpty (pl_buf L) (pd_meta_buf pd)\<rparr>)))))))"

section \<open>Properties\<close>

text \<open>One property of the stack. The text of the buffer is cleaned in place, so that the next
  property sees it as the last one left it.\<close>

definition add_stacked_prop ::
  "('s, 'p, 'h, 'b, 'c) pd_lib \<Rightarrow> int \<Rightarrow> bool \<Rightarrow> swish_Tag \<Rightarrow> ('h, 'b) swish_NamedBuffer \<times> mem \<Rightarrow>
   (('h, 'b) swish_NamedBuffer \<times> mem) res" where
  "add_stacked_prop L len cleanwsp t st =
     (let (nb, m) = st in
      if xmlStrEqual (pl_str L) (Some (tg_baked t)) (Some SWISH_DOM_STR) then Inr (nb, m)
      else swish_nb_add_str (pl_nb L) nb (tg_baked t) m len SWISH_TOKENPOS_BUMPER cleanwsp False)"

text \<open>Every caller empties the buffer next.\<close>

definition add_stack_to_prop_buf ::
  "('s, 'p, 'h, 'b, 'c) pd_lib \<Rightarrow> bytes option \<Rightarrow> ('s, 'p, 'h, 'b, 'c) swish_ParserData \<Rightarrow>
   ('s, 'p, 'h, 'b, 'c) swish_ParserData res" where
  "add_stack_to_prop_buf L baked pd =
     (let m = xmlBufferContent (pl_buf L) (pd_prop_buf pd); len = xmlBufferLength (pl_buf L) (pd_prop_buf pd) in
      bnd (case baked of
             None \<Rightarrow> Inr (True, pd_properties pd, m)
           | Some name \<Rightarrow>
               (case swish_hash_fetch (cl_ptr (pl_cf L)) (cf_properties (pd_config pd)) name of
                  None \<Rightarrow> Inl NullPointer
                | Some a \<Rightarrow>
                    bnd (obj_at (h_props (pd_heap pd)) a) (\<lambda>prop.
                    bnd (stored_as (pr_alias_for prop) name) (\<lambda>prop_to_store.
                    bnd (swish_nb_add_str (pl_nb L) (pd_properties pd) prop_to_store m len
                           SWISH_TOKENPOS_BUMPER (\<not> pr_verbatim prop) False) (\<lambda>(nb, m).
                      Inr (\<not> pr_verbatim prop, nb, m)))))) (\<lambda>(cleanwsp, nb, m).
      bnd (fold_res (add_stacked_prop L len cleanwsp) (st_tags (pd_propstack pd)) (nb, m)) (\<lambda>(nb, _).
        Inr (pd\<lparr>pd_properties := nb, pd_prop_buf := xmlBufferEmpty (pl_buf L) (pd_prop_buf pd)\<rparr>))))"

end
