(* ===== verification/Tags.thy ===== *)
theory Tags
  imports Parser
begin

text \<open>
  Opening and closing a tag (\<open>bake_tag\<close>, \<open>open_tag\<close> and \<open>close_tag\<close> of
  \<open>src/libswish3/parser.c\<close>). The three call each other: \<open>bake_tag\<close> opens and closes an
  element of its own for an HTML meta tag and for an XML attribute. Those inner calls have no
  attributes, and without attributes \<open>bake_tag\<close> makes no such call, so that the recursion has
  two levels: \<open>bake_tag_with\<close> takes the inner element as an argument, which is \<open>element\<close> in
  \<open>bake_tag\<close> and is never called in \<open>bake_no_atts\<close>.
\<close>

text \<open>The parameters are those of the C functions; \<open>atts\<close> is the array with its NULLs.\<close>

type_synonym ('s, 'p, 'h, 'b, 'c) inner =
  "bytes \<Rightarrow> bytes \<Rightarrow> bytes option \<Rightarrow> ('s, 'p, 'h, 'b, 'c) swish_ParserData \<Rightarrow>
   ('s, 'p, 'h, 'b, 'c) swish_ParserData res"

section \<open>Baking\<close>

text \<open>\<open>snprintf\<close> into a block of the lengths and one byte more than the joiner and the NUL.\<close>

definition joined_name :: "xml_str \<Rightarrow> bytes \<Rightarrow> u8 \<Rightarrow> bytes \<Rightarrow> bytes" where
  "joined_name X a c b = join_chr (nat (xmlStrlen X (Some a) + xmlStrlen X (Some b) + 2)) a c b"

definition bake_name ::
  "('s, 'p, 'h, 'b, 'c) pd_lib \<Rightarrow> bytes \<Rightarrow> bytes option \<Rightarrow> ('s, 'p, 'h, 'b, 'c) swish_ParserData \<Rightarrow> bytes res" where
  "bake_name L tag xmlns_prefix pd =
     bnd (swish_str_tolower (pl_str L) (pl_wide L) tag) (\<lambda>swishtag.
       case xmlns_prefix of
         None \<Rightarrow> Inr swishtag
       | Some prefix \<Rightarrow>
           if fl_ignore_xmlns (cf_flags (pd_config pd)) then Inr swishtag
           else
             bnd (swish_str_tolower (pl_str L) (pl_wide L) prefix) (\<lambda>xmlns.
               Inr (joined_name (pl_str L) xmlns SWISH_XMLNS_CHAR swishtag)))"

text \<open>The words of two block elements are kept apart.\<close>

definition bump_html_tag ::
  "('s, 'p, 'h, 'b, 'c) pd_lib \<Rightarrow> bytes \<Rightarrow> ('s, 'p, 'h, 'b, 'c) swish_ParserData \<Rightarrow>
   ('s, 'p, 'h, 'b, 'c) swish_ParserData" where
  "bump_html_tag L swishtag pd =
     (let is_tag = (\<lambda>s. xmlStrEqual (pl_str L) (Some swishtag) (Some (lit s))) in
      if is_tag ''br'' \<or> is_tag ''img'' then pd\<lparr>pd_bump_word := True\<rparr>
      else case pl_htmlTagLookup L swishtag of
             None \<Rightarrow> pd
           | Some isinline \<Rightarrow> pd\<lparr>pd_bump_word := \<not> isinline\<rparr>)"

text \<open>
  The loop over the attributes of a meta tag goes one entry further at a time, over values as
  well as names. It gives the values of \<open>name\<close> and \<open>content\<close>.
\<close>

function meta_atts ::
  "xml_str \<Rightarrow> bytes option list \<Rightarrow> int \<Rightarrow> bytes option \<Rightarrow> bytes option \<Rightarrow> (bytes option \<times> bytes option) res" where
  "meta_atts X atts i metaname metacontent =
     bnd (rd atts i) (\<lambda>a.
       if a = None then Inr (metaname, metacontent)
       else if xmlStrEqual X a (Some (lit ''name''))
       then bnd (rd atts (i + 1)) (\<lambda>v. meta_atts X atts (i + 1) v metacontent)
       else if xmlStrEqual X a (Some (lit ''content''))
       then bnd (rd atts (i + 1)) (\<lambda>v. meta_atts X atts (i + 1) metaname v)
       else meta_atts X atts (i + 1) metaname metacontent)"
  by pat_completeness auto
termination
  by (relation "measure (\<lambda>(X, atts, i, n, c). nat (int (length atts) - i))") (auto simp: rd_Inr_iff)

declare meta_atts.simps [simp del]

text \<open>A metaname, and a property if asked for, made while the document is parsed.\<close>

definition auto_metaname ::
  "('s, 'p, 'h, 'b, 'c) pd_lib \<Rightarrow> bytes \<Rightarrow> bool \<Rightarrow> ('s, 'p, 'h, 'b, 'c) swish_ParserData \<Rightarrow>
   ('s, 'p, 'h, 'b, 'c) swish_ParserData res" where
  "auto_metaname L name with_prop pd =
     bnd (swish_metaname_new (pl_cf L) name (pd_config pd) (pd_heap pd)) (\<lambda>(config, hp).
     bnd (swish_nb_new (pl_nb L) (pd_metanames pd) name) (\<lambda>metanames.
     let pd = pd\<lparr>pd_config := config, pd_heap := hp, pd_metanames := metanames\<rparr> in
       if with_prop \<and> \<not> is_property L pd name then
         bnd (swish_property_new (pl_cf L) name (pd_config pd) (pd_heap pd)) (\<lambda>(config, hp).
         bnd (swish_nb_new (pl_nb L) (pd_properties pd) name) (\<lambda>properties.
           Inr (pd\<lparr>pd_config := config, pd_heap := hp, pd_properties := properties\<rparr>)))
       else Inr pd))"

text \<open>What becomes of a tag that is no metaname; an XML tag ends a block that is ignored.\<close>

definition undefined_meta ::
  "('s, 'p, 'h, 'b, 'c) pd_lib \<Rightarrow> bytes \<Rightarrow> ('s, 'p, 'h, 'b, 'c) swish_ParserData \<Rightarrow>
   ('s, 'p, 'h, 'b, 'c) swish_ParserData res" where
  "undefined_meta L name pd =
     (if is_metaname L pd name \<or> tag_alias L pd name \<noteq> None then Inr pd
      else case fl_undef_metas (cf_flags (pd_config pd)) of
             UNDEF_METAS_ERROR \<Rightarrow> Inl (Croak ''tag is not a defined MetaName'')
           | UNDEF_METAS_IGNORE \<Rightarrow> Inr (pd\<lparr>pd_ignore_content := pd_ignore_content pd + 1\<rparr>)
           | UNDEF_METAS_AUTO \<Rightarrow> auto_metaname L name False pd
           | UNDEF_METAS_AUTOALL \<Rightarrow> auto_metaname L name True pd
           | UNDEF_METAS_INDEX \<Rightarrow> Inr (if pd_is_html pd then pd else pd\<lparr>pd_ignore_content := 0\<rparr>))"

text \<open>
  An HTML meta tag. With a name and a content it is an element of its own, after which \<open>tag\<close>
  is freed and there is no tag to push; with a name only, the rest goes on.
\<close>

definition html_meta ::
  "('s, 'p, 'h, 'b, 'c) inner \<Rightarrow> ('s, 'p, 'h, 'b, 'c) pd_lib \<Rightarrow> bytes option list option \<Rightarrow> bytes \<Rightarrow>
   bytes option \<Rightarrow> ('s, 'p, 'h, 'b, 'c) swish_ParserData \<Rightarrow> (bool \<times> ('s, 'p, 'h, 'b, 'c) swish_ParserData) res" where
  "html_meta element L atts swishtag xmlns_prefix pd =
     bnd (case atts of
            Some as \<Rightarrow> (if xmlStrEqual (pl_str L) (Some swishtag) (Some (lit ''meta''))
                        then meta_atts (pl_str L) as 0 None None else Inr (None, None))
          | None \<Rightarrow> Inr (None, None)) (\<lambda>(metaname, metacontent).
       case metaname of
         None \<Rightarrow> Inr (False, pd)
       | Some name \<Rightarrow>
           (let prev_ignore_content = pd_ignore_content pd in
            bnd (undefined_meta L name pd) (\<lambda>pd.
              case metacontent of
                Some content \<Rightarrow>
                  (let prev_bump_word = pd_bump_word pd in
                   bnd (element name content xmlns_prefix (pd\<lparr>pd_bump_word := True\<rparr>)) (\<lambda>pd.
                   bnd (free_cell (pd_tag pd)) (\<lambda>tag.
                     Inr (True, pd\<lparr>pd_bump_word := prev_bump_word, pd_tag := tag\<rparr>))))
              | None \<Rightarrow> Inr (False, pd\<lparr>pd_ignore_content := prev_ignore_content\<rparr>))))"

text \<open>The attribute names whose values become part of the tag.\<close>

definition class_attributes ::
  "('s, 'p, 'h, 'b, 'c) pd_lib \<Rightarrow> ('s, 'p, 'h, 'b, 'c) swish_ParserData \<Rightarrow> swish_StringList option res" where
  "class_attributes L pd =
     (case swish_hash_fetch (cl_ptr (pl_cf L)) (cf_stringlists (pd_config pd)) SWISH_CLASS_ATTRIBUTES of
        None \<Rightarrow> Inr None
      | Some a \<Rightarrow> bnd (obj_at (h_lists (pd_heap pd)) a) (\<lambda>l. Inr (Some l)))"

fun class_loop :: "xml_str \<Rightarrow> swish_StringList \<Rightarrow> bytes \<Rightarrow> bytes \<Rightarrow> nat list \<Rightarrow> bytes \<Rightarrow> bytes res" where
  "class_loop X strlist attr val [] swishtag = Inr swishtag"
| "class_loop X strlist attr val (j # js) swishtag =
     bnd (bnd (rd (sl_word strlist) (int j)) slot_word) (\<lambda>w.
       class_loop X strlist attr val js
         (if xmlStrEqual X (Some w) (Some attr) then joined_name X swishtag SWISH_DOT val else swishtag))"

definition lower_opt :: "('s, 'p, 'h, 'b, 'c) pd_lib \<Rightarrow> bytes option \<Rightarrow> bytes res" where
  "lower_opt L s = (case s of None \<Rightarrow> Inl NullPointer | Some t \<Rightarrow> swish_str_tolower (pl_str L) (pl_wide L) t)"

text \<open>An attribute that is no metaname.\<close>

definition undefined_attr ::
  "('s, 'p, 'h, 'b, 'c) pd_lib \<Rightarrow> bytes \<Rightarrow> bytes \<Rightarrow> ('s, 'p, 'h, 'b, 'c) swish_ParserData \<Rightarrow>
   ('s, 'p, 'h, 'b, 'c) swish_ParserData res" where
  "undefined_attr L name val pd =
     (if is_metaname L pd name then Inr pd
      else case fl_undef_attrs (cf_flags (pd_config pd)) of
             UNDEF_ATTRS_ERROR \<Rightarrow> Inl (Croak ''XML tag is not a defined MetaName'')
           | UNDEF_ATTRS_IGNORE \<Rightarrow> Inr pd
           | UNDEF_ATTRS_AUTO \<Rightarrow> auto_metaname L name False pd
           | UNDEF_ATTRS_AUTOALL \<Rightarrow> auto_metaname L name True pd
           | UNDEF_ATTRS_INDEX \<Rightarrow>
               (let prev_bump_word = pd_bump_word pd in
                bnd (buffer_characters L (cobj val) 0 (xmlStrlen (pl_str L) (Some val)) (pd\<lparr>pd_bump_word := True\<rparr>))
                  (\<lambda>pd. Inr (pd\<lparr>pd_bump_word := prev_bump_word\<rparr>)))
           | UNDEF_ATTRS_DISABLE \<Rightarrow> Inr pd)"

text \<open>One attribute of an XML element; an inner element leaves a pointer to the tag it frees.\<close>

definition xml_attr ::
  "('s, 'p, 'h, 'b, 'c) inner \<Rightarrow> ('s, 'p, 'h, 'b, 'c) pd_lib \<Rightarrow> swish_StringList option \<Rightarrow> bytes option \<Rightarrow>
   bytes \<Rightarrow> bytes \<Rightarrow> bytes \<times> ('s, 'p, 'h, 'b, 'c) swish_ParserData \<Rightarrow>
   (bytes \<times> ('s, 'p, 'h, 'b, 'c) swish_ParserData) res" where
  "xml_attr element L strlist xmlns_prefix attr_lower attr_val_lower st =
     (let (swishtag, pd) = st; X = pl_str L in
      bnd (case strlist of
             None \<Rightarrow> Inr swishtag
           | Some l \<Rightarrow> class_loop X l attr_lower attr_val_lower [0..<sl_n l] swishtag) (\<lambda>swishtag.
      let metaname_from_attr = joined_name X swishtag SWISH_DOT attr_lower in
      bnd (undefined_attr L metaname_from_attr attr_val_lower pd) (\<lambda>pd.
        if is_metaname L pd metaname_from_attr then
          bnd (element metaname_from_attr attr_val_lower xmlns_prefix (pd\<lparr>pd_bump_word := True\<rparr>)) (\<lambda>pd.
          bnd (free_cell (pd_tag pd)) (\<lambda>tag. Inr (swishtag, pd\<lparr>pd_tag := tag\<rparr>)))
        else Inr (swishtag, pd))))"

function xml_atts ::
  "('s, 'p, 'h, 'b, 'c) inner \<Rightarrow> ('s, 'p, 'h, 'b, 'c) pd_lib \<Rightarrow> swish_StringList option \<Rightarrow> bytes option \<Rightarrow>
   bytes option list \<Rightarrow> int \<Rightarrow> bytes \<times> ('s, 'p, 'h, 'b, 'c) swish_ParserData \<Rightarrow>
   (bytes \<times> ('s, 'p, 'h, 'b, 'c) swish_ParserData) res" where
  "xml_atts element L strlist xmlns_prefix atts i st =
     bnd (rd atts i) (\<lambda>a.
       if a = None then Inr st
       else
         bnd (lower_opt L a) (\<lambda>attr_lower.
         bnd (rd atts (i + 1)) (\<lambda>v.
         bnd (lower_opt L v) (\<lambda>attr_val_lower.
         bnd (xml_attr element L strlist xmlns_prefix attr_lower attr_val_lower st)
           (xml_atts element L strlist xmlns_prefix atts (i + 2))))))"
  by pat_completeness auto
termination
  by (relation "measure (\<lambda>(el, L, l, p, atts, i, st). nat (int (length atts) - i))") (auto simp: rd_Inr_iff)

declare xml_atts.simps [simp del]

text \<open>The name a tag has in the configuration, by itself or at the end of its path.\<close>

definition bake_alias ::
  "('s, 'p, 'h, 'b, 'c) pd_lib \<Rightarrow> bytes \<Rightarrow> ('s, 'p, 'h, 'b, 'c) swish_ParserData \<Rightarrow> bytes res" where
  "bake_alias L swishtag pd =
     (case tag_alias L pd swishtag of
        Some alias \<Rightarrow> Inr alias
      | None \<Rightarrow>
          bnd (flatten_tag_stack (Some swishtag) (pd_domstack pd) SWISH_DOT) (\<lambda>swishdomtag.
            Inr (case tag_alias L pd swishdomtag of Some alias \<Rightarrow> alias | None \<Rightarrow> swishtag)))"

definition bake_tag_with ::
  "('s, 'p, 'h, 'b, 'c) inner \<Rightarrow> ('s, 'p, 'h, 'b, 'c) pd_lib \<Rightarrow> bytes \<Rightarrow> bytes option list option \<Rightarrow>
   bytes option \<Rightarrow> ('s, 'p, 'h, 'b, 'c) swish_ParserData \<Rightarrow>
   (bytes option \<times> ('s, 'p, 'h, 'b, 'c) swish_ParserData) res" where
  "bake_tag_with element L tag atts xmlns_prefix pd =
     bnd (bake_name L tag xmlns_prefix pd) (\<lambda>swishtag.
     bnd (if pd_is_html pd then
            bnd (html_meta element L atts swishtag xmlns_prefix (bump_html_tag L swishtag pd))
              (\<lambda>(is_meta, pd). Inr (is_meta, swishtag, pd))
          else
            (let pd = pd\<lparr>pd_bump_word := True\<rparr> in
             bnd (case atts of
                    None \<Rightarrow> Inr (swishtag, pd)
                  | Some as \<Rightarrow>
                      bnd (class_attributes L pd) (\<lambda>strlist.
                        xml_atts element L strlist xmlns_prefix as 0 (swishtag, pd))) (\<lambda>(swishtag, pd).
             bnd (undefined_meta L swishtag pd) (\<lambda>pd. Inr (False, swishtag, pd))))) (\<lambda>(is_meta, swishtag, pd).
       if is_meta then Inr (None, pd)
       else bnd (bake_alias L swishtag pd) (\<lambda>t. Inr (Some t, pd))))"

section \<open>Opening and closing\<close>

definition free_tag ::
  "('s, 'p, 'h, 'b, 'c) swish_ParserData \<Rightarrow> ('s, 'p, 'h, 'b, 'c) swish_ParserData res" where
  "free_tag pd = bnd (free_cell (pd_tag pd)) (\<lambda>_. Inr (pd\<lparr>pd_tag := NullCell\<rparr>))"

text \<open>The name a configured tag is pushed under: its path if there is a property of that name.
  \<open>swish_xstrdup\<close> of NULL ends the process.\<close>

definition pushed_name ::
  "('s, 'p, 'h, 'b, 'c) pd_lib \<Rightarrow> bytes \<Rightarrow> ('s, 'p, 'h, 'b, 'c) swish_ParserData \<Rightarrow> bytes res" where
  "pushed_name L ctx pd =
     (if is_property L pd ctx then Inr ctx
      else case pd_tag pd of Cell t \<Rightarrow> Inr t | _ \<Rightarrow> Inl (Croak ''strdup returned NULL''))"

definition open_property ::
  "('s, 'p, 'h, 'b, 'c) pd_lib \<Rightarrow> bytes \<Rightarrow> ('s, 'p, 'h, 'b, 'c) swish_ParserData \<Rightarrow>
   ('s, 'p, 'h, 'b, 'c) swish_ParserData res" where
  "open_property L tag pd =
     bnd (stack_head (pd_domstack pd)) (\<lambda>h.
       if cell_is (is_property L pd) (pd_tag pd) \<or> is_property L pd (tg_context h) then
         bnd (add_stack_to_prop_buf L None pd) (\<lambda>pd.
         bnd (pushed_name L (tg_context h) pd) (\<lambda>baked.
         bnd (push_tag_stack (pd_propstack pd) tag baked SWISH_DOM_CHAR) (\<lambda>s.
           Inr (pd\<lparr>pd_propstack := s\<rparr>))))
       else Inr pd)"

definition open_metaname ::
  "('s, 'p, 'h, 'b, 'c) pd_lib \<Rightarrow> bytes \<Rightarrow> ('s, 'p, 'h, 'b, 'c) swish_ParserData \<Rightarrow>
   ('s, 'p, 'h, 'b, 'c) swish_ParserData res" where
  "open_metaname L tag pd =
     bnd (stack_head (pd_domstack pd)) (\<lambda>h.
       if cell_is (is_metaname L pd) (pd_tag pd) \<or> is_metaname L pd (tg_context h) then
         bnd (stack_head (pd_metastack pd)) (\<lambda>m.
         bnd (flush_buffer L (tg_baked m) (tg_context m) pd) (\<lambda>pd.
         bnd (pushed_name L (tg_context h) pd) (\<lambda>baked.
         bnd (push_tag_stack (pd_metastack pd) tag baked SWISH_DOM_CHAR) (\<lambda>s.
           Inr (pd\<lparr>pd_metastack := s\<rparr>)))))
       else Inr pd)"

definition open_tag_with ::
  "('s, 'p, 'h, 'b, 'c) inner \<Rightarrow> ('s, 'p, 'h, 'b, 'c) pd_lib \<Rightarrow> bytes \<Rightarrow> bytes option list option \<Rightarrow>
   bytes option \<Rightarrow> ('s, 'p, 'h, 'b, 'c) swish_ParserData \<Rightarrow> ('s, 'p, 'h, 'b, 'c) swish_ParserData res" where
  "open_tag_with element L tag atts xmlns_prefix pd =
     bnd (free_tag pd) (\<lambda>pd.
     bnd (bake_tag_with element L tag atts xmlns_prefix pd) (\<lambda>(baked, pd).
     let pd = pd\<lparr>pd_tag := (case baked of None \<Rightarrow> NullCell | Some b \<Rightarrow> Cell b)\<rparr> in
     bnd (push_tag_stack (pd_domstack pd) tag (case baked of None \<Rightarrow> tag | Some b \<Rightarrow> b) SWISH_DOT) (\<lambda>s.
     bnd (open_property L tag (pd\<lparr>pd_domstack := s\<rparr>)) (open_metaname L tag))))"

definition no_inner :: "('s, 'p, 'h, 'b, 'c) inner" where
  "no_inner name content xmlns_prefix pd = Inl Aborted"

definition close_property ::
  "('s, 'p, 'h, 'b, 'c) pd_lib \<Rightarrow> bytes \<Rightarrow> ('s, 'p, 'h, 'b, 'c) swish_ParserData \<Rightarrow>
   ('s, 'p, 'h, 'b, 'c) swish_ParserData res" where
  "close_property L tag pd =
     bnd (pop_tag_stack_on_match (pl_str L) (pd_propstack pd) tag) (\<lambda>(st, s).
       case st of
         None \<Rightarrow> Inr pd
       | Some t \<Rightarrow> add_stack_to_prop_buf L (Some (tg_baked t)) (pd\<lparr>pd_propstack := s\<rparr>))"

definition close_metaname ::
  "('s, 'p, 'h, 'b, 'c) pd_lib \<Rightarrow> bytes \<Rightarrow> ('s, 'p, 'h, 'b, 'c) swish_ParserData \<Rightarrow>
   ('s, 'p, 'h, 'b, 'c) swish_ParserData res" where
  "close_metaname L tag pd =
     bnd (pop_tag_stack_on_match (pl_str L) (pd_metastack pd) tag) (\<lambda>(st, s).
       case st of
         None \<Rightarrow> Inr pd
       | Some t \<Rightarrow> flush_buffer L (tg_baked t) (tg_context t) (pd\<lparr>pd_metastack := s\<rparr>))"

text \<open>The innermost element is taken off whatever its name is; freeing a NULL tag reads it.\<close>

definition close_element ::
  "('s, 'p, 'h, 'b, 'c) swish_ParserData \<Rightarrow> ('s, 'p, 'h, 'b, 'c) swish_ParserData res" where
  "close_element pd =
     (case fst (pop_tag_stack (pd_domstack pd)) of
        None \<Rightarrow> Inl NullPointer
      | Some _ \<Rightarrow> Inr (pd\<lparr>pd_domstack := snd (pop_tag_stack (pd_domstack pd))\<rparr>))"

text \<open>Without attributes: \<open>bake_tag\<close> makes no element of its own.\<close>

definition close_tag ::
  "('s, 'p, 'h, 'b, 'c) pd_lib \<Rightarrow> bytes \<Rightarrow> bytes option \<Rightarrow> ('s, 'p, 'h, 'b, 'c) swish_ParserData \<Rightarrow>
   ('s, 'p, 'h, 'b, 'c) swish_ParserData res" where
  "close_tag L tag xmlns_prefix pd =
     bnd (free_tag pd) (\<lambda>pd.
     bnd (bake_tag_with no_inner L tag None xmlns_prefix pd) (\<lambda>(baked, pd).
     case baked of
       None \<Rightarrow> Inr (pd\<lparr>pd_tag := NullCell\<rparr>)
     | Some b \<Rightarrow>
         bnd (close_property L tag (pd\<lparr>pd_tag := Cell b\<rparr>)) (\<lambda>pd.
         bnd (close_metaname L tag pd) close_element)))"

text \<open>An element whose only content is a text.\<close>

definition element :: "('s, 'p, 'h, 'b, 'c) pd_lib \<Rightarrow> ('s, 'p, 'h, 'b, 'c) inner" where
  "element L name content xmlns_prefix pd =
     bnd (open_tag_with no_inner L name None xmlns_prefix pd) (\<lambda>pd.
     bnd (buffer_characters L (cobj content) 0 (xmlStrlen (pl_str L) (Some content)) pd)
       (close_tag L name xmlns_prefix))"

definition bake_tag ::
  "('s, 'p, 'h, 'b, 'c) pd_lib \<Rightarrow> bytes \<Rightarrow> bytes option list option \<Rightarrow> bytes option \<Rightarrow>
   ('s, 'p, 'h, 'b, 'c) swish_ParserData \<Rightarrow> (bytes option \<times> ('s, 'p, 'h, 'b, 'c) swish_ParserData) res" where
  "bake_tag L = bake_tag_with (element L) L"

definition open_tag ::
  "('s, 'p, 'h, 'b, 'c) pd_lib \<Rightarrow> bytes \<Rightarrow> bytes option list option \<Rightarrow> bytes option \<Rightarrow>
   ('s, 'p, 'h, 'b, 'c) swish_ParserData \<Rightarrow> ('s, 'p, 'h, 'b, 'c) swish_ParserData res" where
  "open_tag L = open_tag_with (element L) L"

end
