(* ===== verification/Sax.thy ===== *)
theory Sax
  imports Tags
begin

text \<open>
  The callbacks \<open>src/libswish3/parser.c\<close> gives to libxml2. An event is a callback with its
  arguments; a document is the list of the events libxml2 makes of it. Warnings and errors of
  libxml2 are only printed. An XInclude element has its document parsed by \<open>include\<close>, a
  parameter here, which the theory of documents instantiates.
\<close>

datatype sax_event =
    StartDocument
  | EndDocument
  | StartElement bytes "bytes option list option"
  | EndElement bytes
  | StartElementNs bytes "bytes option" "bytes option" "(bytes \<times> bytes) list"
  | EndElementNs bytes "bytes option"
  | Characters bytes
  | Comment bytes

text \<open>
  The attributes of \<open>StartElement\<close> are libxml2's array of names and values, with its NULL at
  the end. Those of \<open>StartElementNs\<close> are pairs of a name and the bytes of its value, after the
  local name, the prefix and the URI.
\<close>

section \<open>Comments\<close>

text \<open>What the text of a comment does, with or without the word \<open>SwishCommand\<close> before it.\<close>

definition comment_command ::
  "xml_str \<Rightarrow> bool \<Rightarrow> bytes \<Rightarrow> ('s, 'p, 'h, 'b, 'c) swish_ParserData \<Rightarrow> ('s, 'p, 'h, 'b, 'c) swish_ParserData" where
  "comment_command X swishcmd_found s pd =
     (if xmlStrcasecmp X (Some s) (Some (lit ''noindex'')) = 0
      then pd\<lparr>pd_ignore_content := pd_ignore_content pd + 1\<rparr>
      else if xmlStrcasecmp X (Some s) (Some (lit ''index'')) = 0
      then (if 0 < pd_ignore_content pd then pd\<lparr>pd_ignore_content := pd_ignore_content pd - 1\<rparr> else pd)
      else if swishcmd_found then pd
      else pd\<lparr>pd_bump_word := True\<rparr>)"

definition mycomments ::
  "('s, 'p, 'h, 'b, 'c) pd_lib \<Rightarrow> bytes \<Rightarrow> ('s, 'p, 'h, 'b, 'c) swish_ParserData \<Rightarrow>
   ('s, 'p, 'h, 'b, 'c) swish_ParserData res" where
  "mycomments L cmt pd =
     (let X = pl_str L in
      bnd (swish_str_skip_ws (cobj cmt) 0) (\<lambda>comment_text.
      bnd (swish_str_trim_ws X (cobj cmt) comment_text) (\<lambda>m.
      bnd (rd m comment_text) (\<lambda>c.
        if c = 0 then Inr pd
        else
          bnd (cstr m comment_text) (\<lambda>s.
          bnd (if xmlStrcasestr X s (lit ''SwishCommand'') = Some 0
               then bnd (swish_str_skip_ws m (comment_text + xmlStrlen X (Some (lit ''SwishCommand''))))
                      (\<lambda>p. Inr (True, p))
               else Inr (False, comment_text)) (\<lambda>(swishcmd_found, comment_text).
          bnd (cstr m comment_text) (\<lambda>s. Inr (comment_command X swishcmd_found s pd))))))))"

section \<open>Elements with namespaces\<close>

text \<open>An empty value clears the name before it, and with it the rest of the array; the entry
  after such a name is not written.\<close>

definition ns_atts :: "(bytes \<times> bytes) list \<Rightarrow> bytes option list option" where
  "ns_atts attributes =
     (if attributes = [] then None
      else Some (concat (map (\<lambda>(name, value). if value \<noteq> [] then [Some name, Some value] else [None, None])
                   attributes) @ [None]))"

definition XINCLUDE_NS :: bytes where "XINCLUDE_NS = lit ''http://www.w3.org/2003/XInclude''"
definition XINCLUDE_OLD_NS :: bytes where "XINCLUDE_OLD_NS = lit ''http://www.w3.org/2001/XInclude''"

text \<open>The URI to include, and whether it is read as text.\<close>

function xinclude_atts ::
  "xml_str \<Rightarrow> bytes option list \<Rightarrow> int \<Rightarrow> bytes option \<times> bool \<Rightarrow> (bytes option \<times> bool) res" where
  "xinclude_atts X atts i st =
     bnd (rd atts i) (\<lambda>a.
       if a = None then Inr st
       else
         bnd (rd atts (i + 1)) (\<lambda>v.
           let (uri, is_text) = st;
               uri = (if xmlStrEqual X a (Some (lit ''href'')) then v else uri);
               is_text = (if xmlStrEqual X a (Some (lit ''parse'')) then xmlStrEqual X v (Some (lit ''text''))
                          else is_text) in
           xinclude_atts X atts (i + 2) (uri, is_text)))"
  by pat_completeness auto
termination
  by (relation "measure (\<lambda>(X, atts, i, st). nat (int (length atts) - i))") (auto simp: rd_Inr_iff)

declare xinclude_atts.simps [simp del]

type_synonym ('s, 'p, 'h, 'b, 'c) includer =
  "bytes \<Rightarrow> bool \<Rightarrow> ('s, 'p, 'h, 'b, 'c) swish_ParserData \<Rightarrow> ('s, 'p, 'h, 'b, 'c) swish_ParserData res"

text \<open>An element with the name of an inclusion and attributes includes what they say.\<close>

definition check_xinclude ::
  "('s, 'p, 'h, 'b, 'c) includer \<Rightarrow> ('s, 'p, 'h, 'b, 'c) pd_lib \<Rightarrow> bytes \<Rightarrow> bytes option \<Rightarrow>
   bytes option list option \<Rightarrow> ('s, 'p, 'h, 'b, 'c) swish_ParserData \<Rightarrow>
   ('s, 'p, 'h, 'b, 'c) swish_ParserData res" where
  "check_xinclude incl L localname URI atts pd =
     (let X = pl_str L in
      if (xmlStrEqual X URI (Some XINCLUDE_OLD_NS) \<or> xmlStrEqual X URI (Some XINCLUDE_NS)) \<and>
         xmlStrEqual X (Some localname) (Some (lit ''include'')) \<and> atts \<noteq> None
      then
        bnd (xinclude_atts X (the atts) 0 (None, False)) (\<lambda>(uri, is_text).
          if uri \<noteq> None \<and> fl_follow_xinclude (cf_flags (pd_config pd)) then incl (the uri) is_text pd else Inr pd)
      else Inr pd)"

definition mystartElementNs ::
  "('s, 'p, 'h, 'b, 'c) includer \<Rightarrow> ('s, 'p, 'h, 'b, 'c) pd_lib \<Rightarrow> bytes \<Rightarrow> bytes option \<Rightarrow> bytes option \<Rightarrow>
   (bytes \<times> bytes) list \<Rightarrow> ('s, 'p, 'h, 'b, 'c) swish_ParserData \<Rightarrow>
   ('s, 'p, 'h, 'b, 'c) swish_ParserData res" where
  "mystartElementNs incl L localname xmlns_prefix URI attributes pd =
     (let atts = ns_atts attributes in
      bnd (check_xinclude incl L localname URI atts pd) (open_tag L localname atts xmlns_prefix))"

section \<open>Events\<close>

definition myendDocument ::
  "('s, 'p, 'h, 'b, 'c) pd_lib \<Rightarrow> ('s, 'p, 'h, 'b, 'c) swish_ParserData \<Rightarrow>
   ('s, 'p, 'h, 'b, 'c) swish_ParserData res" where
  "myendDocument L pd = flush_buffer L SWISH_DEFAULT_METANAME SWISH_DEFAULT_METANAME pd"

fun sax_callback ::
  "('s, 'p, 'h, 'b, 'c) includer \<Rightarrow> ('s, 'p, 'h, 'b, 'c) pd_lib \<Rightarrow> sax_event \<Rightarrow>
   ('s, 'p, 'h, 'b, 'c) swish_ParserData \<Rightarrow> ('s, 'p, 'h, 'b, 'c) swish_ParserData res" where
  "sax_callback incl L StartDocument pd = Inr pd"
| "sax_callback incl L EndDocument pd = myendDocument L pd"
| "sax_callback incl L (StartElement name atts) pd = open_tag L name atts None pd"
| "sax_callback incl L (EndElement name) pd = close_tag L name None pd"
| "sax_callback incl L (StartElementNs localname prefix URI attributes) pd =
     mystartElementNs incl L localname prefix URI attributes pd"
| "sax_callback incl L (EndElementNs localname prefix) pd = close_tag L localname prefix pd"
| "sax_callback incl L (Characters ch) pd = buffer_characters L ch 0 (int (length ch)) pd"
| "sax_callback incl L (Comment cmt) pd = mycomments L cmt pd"

text \<open>The parser state before the first event; \<open>docinfo\<close> is what its owner sets next.\<close>

definition init_parser_data ::
  "('s, 'p, 'h, 'b, 'c) pd_lib \<Rightarrow> ('s, 'p) swish_Config \<Rightarrow> heap \<Rightarrow> swish_Analyzer \<Rightarrow> swish_DocInfo \<Rightarrow>
   ('s, 'p, 'h, 'b, 'c) swish_ParserData res" where
  "init_parser_data L config hp analyzer docinfo =
     bnd (swish_token_iterator_init (pl_tk L) analyzer) (\<lambda>(it, analyzer).
     bnd (swish_nb_init (pl_nb L) (map fst (xmlHashEntries (cl_ptr (pl_cf L)) (cf_properties config)))) (\<lambda>properties.
     bnd (swish_nb_init (pl_nb L) (map fst (xmlHashEntries (cl_ptr (pl_cf L)) (cf_metanames config)))) (\<lambda>metanames.
     bnd (push_tag_stack empty_stack SWISH_DEFAULT_METANAME SWISH_DEFAULT_METANAME SWISH_DOM_CHAR) (\<lambda>metastack.
     bnd (push_tag_stack empty_stack SWISH_DOM_STR SWISH_DOM_STR SWISH_DOM_CHAR) (\<lambda>propstack.
       Inr \<lparr>pd_config = config, pd_heap = hp, pd_analyzer = analyzer,
            pd_meta_buf = xmlBufferCreateSize (pl_buf L), pd_prop_buf = xmlBufferCreateSize (pl_buf L),
            pd_tag = NullCell, pd_docinfo = docinfo, pd_ignore_content = 0, pd_is_html = False,
            pd_bump_word = True, pd_metastack = metastack, pd_propstack = propstack,
            pd_domstack = empty_stack,
            pd_token_iterator = it\<lparr>it_ref_cnt := it_ref_cnt it + 1\<rparr>,
            pd_properties = properties\<lparr>nb_ref_cnt := nb_ref_cnt properties + 1\<rparr>,
            pd_metanames = metanames\<lparr>nb_ref_cnt := nb_ref_cnt metanames + 1\<rparr>\<rparr>)))))"

text \<open>Every tag of a stack is freed.\<close>

function free_swishTagStack :: "swish_TagStack \<Rightarrow> swish_TagStack" where
  "free_swishTagStack stack =
     (case pop_tag_stack stack of
        (None, s) \<Rightarrow> s
      | (Some t, s) \<Rightarrow> free_swishTagStack s)"
  by pat_completeness auto
termination
  by (relation "measure (\<lambda>s. length (st_tags s))")
    (auto simp: pop_tag_stack_def split: list.splits if_splits)

declare free_swishTagStack.simps [simp del]

text \<open>The analyzer, if it is still there, and the heap, which loses the tokens.\<close>

definition free_parser_data ::
  "('s, 'p, 'h, 'b, 'c) swish_ParserData \<Rightarrow> (swish_Analyzer option \<times> heap) res" where
  "free_parser_data pd =
     bnd (free_cell (pd_tag pd)) (\<lambda>_.
       swish_token_iterator_free (pd_token_iterator pd) (pd_analyzer pd) (pd_heap pd))"

end
