(* ===== verification/Document.thy ===== *)
theory Document
  imports Sax
begin

text \<open>
  Parsing a document (\<open>docparser\<close>, the parsers of each type, \<open>swish_parse_buffer\<close> and
  \<open>swish_parse_file\<close> of \<open>src/libswish3/parser.c\<close>). libxml2's two parsers are parameters that
  answer the bytes of a document with the events they call back with.
\<close>

text \<open>\<open>sr_encoding\<close> is \<open>ctxt->encoding\<close>, or the encoding of its input; \<open>sr_errNo\<close> is the error
  the XML parser records and what the HTML parser returns.\<close>

record sax_run =
  sr_events :: "sax_event list"
  sr_encoding :: "bytes option"
  sr_wellFormed :: bool
  sr_errNo :: int

text \<open>\<open>isolat1ToUTF8\<close> gives its return value and what it wrote.\<close>

record ('s, 'p, 'h, 'b, 'c) doc_lib =
  dl_pd :: "('s, 'p, 'h, 'b, 'c) pd_lib"
  dl_os :: os
  dl_alloc :: "nat \<Rightarrow> mem"
  dl_xml :: "bytes \<Rightarrow> sax_run option"
  dl_html :: "bytes \<Rightarrow> sax_run option"
  dl_encoding :: "bytes option"
  isolat1ToUTF8 :: "nat \<Rightarrow> bytes \<Rightarrow> int \<times> bytes"
  xmlBuildURI :: "bytes \<Rightarrow> bytes \<Rightarrow> bytes option"

abbreviation dl_str :: "('s, 'p, 'h, 'b, 'c) doc_lib \<Rightarrow> xml_str" where
  "dl_str D \<equiv> pl_str (dl_pd D)"

definition SWISH_LATIN1_ENCODING :: bytes where "SWISH_LATIN1_ENCODING = lit ''ISO8859-1''"
definition SWISH_PARSER_TXT :: bytes where "SWISH_PARSER_TXT = lit ''TXT''"
definition SWISH_ENCODING_ERROR :: int where "SWISH_ENCODING_ERROR = 100"
definition SWISH_ERR_NO_SUCH_FILE :: int where "SWISH_ERR_NO_SUCH_FILE = 1"

section \<open>Encodings\<close>

text \<open>\<open>swish_xstrdup (getenv ("SWISH_ENCODING"))\<close>\<close>

definition env_encoding :: "('s, 'p, 'h, 'b, 'c) doc_lib \<Rightarrow> bytes res" where
  "env_encoding D = (case dl_encoding D of None \<Rightarrow> Inl (Croak ''strdup returned NULL'') | Some e \<Rightarrow> Inr e)"

definition document_encoding :: "('s, 'p, 'h, 'b, 'c) doc_lib \<Rightarrow> sax_run \<Rightarrow> bytes res" where
  "document_encoding D r = (case sr_encoding r of Some e \<Rightarrow> Inr e | None \<Rightarrow> env_encoding D)"

definition set_doc_encoding ::
  "bytes \<Rightarrow> ('s, 'p, 'h, 'b, 'c) swish_ParserData \<Rightarrow> ('s, 'p, 'h, 'b, 'c) swish_ParserData" where
  "set_doc_encoding e pd = pd\<lparr>pd_docinfo := (pd_docinfo pd)\<lparr>di_encoding := Some e\<rparr>\<rparr>"

definition set_encoding ::
  "('s, 'p, 'h, 'b, 'c) doc_lib \<Rightarrow> mem \<Rightarrow> ('s, 'p, 'h, 'b, 'c) swish_ParserData \<Rightarrow>
   ('s, 'p, 'h, 'b, 'c) swish_ParserData res" where
  "set_encoding D buffer pd =
     bnd (cstr buffer 0) (\<lambda>s.
       if xmlCheckUTF8 (dl_str D) s then Inr (set_doc_encoding SWISH_DEFAULT_ENCODING pd)
       else bnd (env_encoding D) (\<lambda>e. Inr (set_doc_encoding e pd)))"

section \<open>The parsers\<close>

text \<open>The events, in order.\<close>

definition run_events ::
  "('s, 'p, 'h, 'b, 'c) includer \<Rightarrow> ('s, 'p, 'h, 'b, 'c) pd_lib \<Rightarrow> sax_event list \<Rightarrow>
   ('s, 'p, 'h, 'b, 'c) swish_ParserData \<Rightarrow> ('s, 'p, 'h, 'b, 'c) swish_ParserData res" where
  "run_events incl L = fold_res (sax_callback incl L)"

definition xml_parser ::
  "('s, 'p, 'h, 'b, 'c) includer \<Rightarrow> ('s, 'p, 'h, 'b, 'c) doc_lib \<Rightarrow> mem \<Rightarrow> int \<Rightarrow>
   ('s, 'p, 'h, 'b, 'c) swish_ParserData \<Rightarrow> (int \<times> ('s, 'p, 'h, 'b, 'c) swish_ParserData) res" where
  "xml_parser incl D buffer size' pd =
     bnd (slice buffer 0 size') (\<lambda>s.
       case dl_xml D s of
         None \<Rightarrow> Inr (-1, pd)
       | Some r \<Rightarrow>
           bnd (run_events incl (dl_pd D) (sr_events r) pd) (\<lambda>pd.
           bnd (document_encoding D r) (\<lambda>e.
             Inr (if sr_wellFormed r then 0 else if sr_errNo r \<noteq> 0 then sr_errNo r else -1,
                  set_doc_encoding e pd))))"

definition html_parser ::
  "('s, 'p, 'h, 'b, 'c) includer \<Rightarrow> ('s, 'p, 'h, 'b, 'c) doc_lib \<Rightarrow> mem \<Rightarrow>
   ('s, 'p, 'h, 'b, 'c) swish_ParserData \<Rightarrow> (int \<times> ('s, 'p, 'h, 'b, 'c) swish_ParserData) res" where
  "html_parser incl D buffer pd =
     bnd (cstr buffer 0) (\<lambda>s.
       case dl_html D s of
         None \<Rightarrow> Inr (0, pd)
       | Some r \<Rightarrow>
           bnd (document_encoding D r) (\<lambda>e.
           bnd (run_events incl (dl_pd D) (sr_events r) (set_doc_encoding e pd)) (\<lambda>pd.
             Inr (sr_errNo r, pd))))"

text \<open>Latin-1 text is converted into a block twice as large; the answer is the text to parse, or
  the error the text parser returns.\<close>

definition to_utf8 ::
  "('s, 'p, 'h, 'b, 'c) doc_lib \<Rightarrow> mem \<Rightarrow> int \<Rightarrow> bytes option \<Rightarrow> (mem \<times> int) option res" where
  "to_utf8 D buffer size' encoding =
     (let X = dl_str D; latin1 = (\<lambda>s. isolat1ToUTF8 D (2 * nat size') s) in
      if xmlStrEqual X encoding (Some SWISH_DEFAULT_ENCODING) then Inr (Some (buffer, size'))
      else if xmlStrncasecmp X encoding (Some SWISH_LATIN1_ENCODING) 9 = 0
      then bnd (slice buffer 0 size') (\<lambda>s. Inr (Some (snd (latin1 s), int (length (snd (latin1 s))))))
      else if xmlStrEqual X encoding (dl_encoding D)
      then bnd (slice buffer 0 size') (\<lambda>s.
             if fst (latin1 s) = 0 then Inr None
             else Inr (Some (snd (latin1 s), int (length (snd (latin1 s))))))
      else Inr (Some (buffer, size')))"

definition push_meta ::
  "bytes \<Rightarrow> ('s, 'p, 'h, 'b, 'c) swish_ParserData \<Rightarrow> ('s, 'p, 'h, 'b, 'c) swish_ParserData res" where
  "push_meta name pd =
     bnd (push_tag_stack (pd_metastack pd) name name SWISH_DOM_CHAR) (\<lambda>s. Inr (pd\<lparr>pd_metastack := s\<rparr>))"

text \<open>The whole text is the default metaname, the URI the title.\<close>

definition txt_parser ::
  "('s, 'p, 'h, 'b, 'c) doc_lib \<Rightarrow> mem \<Rightarrow> int \<Rightarrow> ('s, 'p, 'h, 'b, 'c) swish_ParserData \<Rightarrow>
   (int \<times> ('s, 'p, 'h, 'b, 'c) swish_ParserData) res" where
  "txt_parser D buffer size' pd =
     (let L = dl_pd D in
      bnd (set_encoding D buffer pd) (\<lambda>pd.
      bnd (to_utf8 D buffer size' (di_encoding (pd_docinfo pd))) (\<lambda>text.
        case text of
          None \<Rightarrow> Inr (SWISH_ENCODING_ERROR, pd)
        | Some (buffer, size') \<Rightarrow>
            bnd (push_meta SWISH_DEFAULT_METANAME pd) (\<lambda>pd.
            bnd (buffer_characters L buffer 0 size' pd) (\<lambda>pd.
            bnd (flush_buffer L SWISH_DEFAULT_METANAME SWISH_DEFAULT_METANAME pd) (\<lambda>pd.
            bnd (push_meta SWISH_TITLE_METANAME pd) (\<lambda>pd.
            bnd (let uri = di_uri (pd_docinfo pd) in
                 buffer_characters L (case uri of Some u \<Rightarrow> cobj u | None \<Rightarrow> []) 0 (xmlStrlen (pl_str L) uri) pd) (\<lambda>pd.
            bnd (flush_buffer L SWISH_TITLE_METANAME SWISH_TITLE_METANAME pd) (\<lambda>pd.
              Inr (0, pd))))))))))"

section \<open>A document\<close>

text \<open>A file is read when its text is not in memory already.\<close>

definition slurp ::
  "('s, 'p, 'h, 'b, 'c) doc_lib \<Rightarrow> bytes option \<Rightarrow> mem option \<Rightarrow> int \<Rightarrow>
   ('s, 'p, 'h, 'b, 'c) swish_ParserData \<Rightarrow>
   (mem option \<times> int \<times> ('s, 'p, 'h, 'b, 'c) swish_ParserData) res" where
  "slurp D filename buffer size' pd =
     (let X = dl_str D; i = pd_docinfo pd in
      case (filename, buffer) of
        (Some file, None) \<Rightarrow>
          if di_is_gzipped i then
            bnd (swish_io_slurp_gzfile_len X (dl_os D) (dl_alloc D) file (di_size i) False) (\<lambda>(m, _).
            bnd (cstr m 0) (\<lambda>s.
              Inr (Some m, xmlStrlen X (Some s), pd\<lparr>pd_docinfo := i\<lparr>di_size := xmlStrlen X (Some s)\<rparr>\<rparr>)))
          else
            bnd (swish_io_slurp_file_len X (dl_os D) file (di_size i) False) (\<lambda>m.
              Inr (Some m, di_size i, pd))
      | _ \<Rightarrow> Inr (buffer, size', pd))"

text \<open>The first letter of its name chooses the parser.\<close>

definition run_parser ::
  "('s, 'p, 'h, 'b, 'c) includer \<Rightarrow> ('s, 'p, 'h, 'b, 'c) doc_lib \<Rightarrow> bytes \<Rightarrow> mem \<Rightarrow> int \<Rightarrow>
   ('s, 'p, 'h, 'b, 'c) swish_ParserData \<Rightarrow> (int \<times> ('s, 'p, 'h, 'b, 'c) swish_ParserData) res" where
  "run_parser incl D parser m size' pd =
     bnd (rd (cobj parser) 0) (\<lambda>c.
       if c = 0x48 \<or> c = 0x68 then html_parser incl D m (pd\<lparr>pd_is_html := True\<rparr>)
       else if c = 0x58 \<or> c = 0x78 then xml_parser incl D m size' pd
       else if c = 0x54 \<or> c = 0x74 then txt_parser D m size' pd
       else Inl (Croak ''no parser known for MIME''))"

definition docparser ::
  "('s, 'p, 'h, 'b, 'c) includer \<Rightarrow> ('s, 'p, 'h, 'b, 'c) doc_lib \<Rightarrow> bytes option \<Rightarrow> mem option \<Rightarrow> int \<Rightarrow>
   ('s, 'p, 'h, 'b, 'c) swish_ParserData \<Rightarrow> (int \<times> ('s, 'p, 'h, 'b, 'c) swish_ParserData) res" where
  "docparser incl D filename buffer size' pd =
     bnd (case buffer of None \<Rightarrow> Inr None | Some m \<Rightarrow> bnd (cstr m 0) (\<lambda>s. Inr (Some s))) (\<lambda>s.
       if size' = 0 \<and> xmlStrlen (dl_str D) s = 0 \<and> di_size (pd_docinfo pd) = 0 then Inr (1, pd)
       else
         bnd (slurp D filename buffer size' pd) (\<lambda>(buffer, size', pd).
           if di_parser (pd_docinfo pd) = None \<or> buffer = None then Inl NullPointer
           else run_parser incl D (the (di_parser (pd_docinfo pd))) (the buffer) size' pd))"

section \<open>Included documents\<close>

text \<open>The tokens of an included document are added to those of the document it is part of.\<close>

function include_tokens ::
  "('b, 'c) tk_lib \<Rightarrow> ('b, 'c) swish_TokenIterator \<Rightarrow> ('b, 'c) swish_TokenList \<times> heap \<Rightarrow>
   (('b, 'c) swish_TokenList \<times> heap) res" where
  "include_tokens T it st =
     bnd (swish_token_iterator_next_token it) (\<lambda>(t, it').
       case t of
         None \<Rightarrow> Inr st
       | Some t \<Rightarrow>
           (case to_context t of
              None \<Rightarrow> Inl NullPointer
            | Some ctx \<Rightarrow>
                bnd (swish_token_list_add_token T (swish_token_list_get_token_value T (it_tl it) t) (to_len t + 1)
                       (to_meta t) ctx st) (include_tokens T it')))"
  by pat_completeness auto
termination
  by (relation "measure (\<lambda>(T, it, st). tl_n (it_tl it) - it_pos it)")
    (auto simp: swish_token_iterator_next_token_def bnd_eq_Inr split: if_splits)

declare include_tokens.simps [simp del]

definition xinclude_handler ::
  "('s, 'p, 'h, 'b, 'c) pd_lib \<Rightarrow> ('s, 'p, 'h, 'b, 'c) swish_ParserData \<Rightarrow>
   ('s, 'p, 'h, 'b, 'c) swish_ParserData \<Rightarrow> ('s, 'p, 'h, 'b, 'c) swish_ParserData res" where
  "xinclude_handler L child parent =
     bnd (include_tokens (pl_tk L) (pd_token_iterator child) (it_tl (pd_token_iterator parent), pd_heap parent))
       (\<lambda>(tks, hp).
     bnd (swish_buffer_concat (pl_nb L) (pd_properties parent) (pd_properties child)) (\<lambda>properties.
     bnd (swish_buffer_concat (pl_nb L) (pd_metanames parent) (pd_metanames child)) (\<lambda>metanames.
       Inr (parent\<lparr>pd_token_iterator := (pd_token_iterator parent)\<lparr>it_tl := tks\<rparr>, pd_heap := hp,
              pd_docinfo := (pd_docinfo parent)\<lparr>di_nwords := di_nwords (pd_docinfo parent) + di_nwords (pd_docinfo child)\<rparr>,
              pd_properties := properties, pd_metanames := metanames\<rparr>))))"

text \<open>The URI of the document, absolute or from the directory of the one that includes it.\<close>

definition xinclude_uri ::
  "('s, 'p, 'h, 'b, 'c) doc_lib \<Rightarrow> bytes \<Rightarrow> bytes option \<Rightarrow> bytes res" where
  "xinclude_uri D uri doc =
     bnd (rd (cobj uri) 0) (\<lambda>c.
       if c = SWISH_PATH_SEP then Inr uri
       else
         bnd (case doc of None \<Rightarrow> Inr None | Some u \<Rightarrow> swish_fs_get_path (dl_str D) (cobj u)) (\<lambda>path.
           case xmlBuildURI D uri (case path of None \<Rightarrow> [0x2E, SWISH_PATH_SEP] | Some p \<Rightarrow> p) of
             None \<Rightarrow> Inl (Croak ''Unable to build XInclude URI'')
           | Some xuri \<Rightarrow> Inr xuri))"

text \<open>What the included document changes of the objects it shares with its parent: the
  configuration, the heap and the analyzer, whose count is back where it was.\<close>

definition shared_from ::
  "('s, 'p, 'h, 'b, 'c) swish_ParserData \<Rightarrow> ('s, 'p, 'h, 'b, 'c) swish_ParserData \<Rightarrow>
   ('s, 'p, 'h, 'b, 'c) swish_ParserData" where
  "shared_from child parent =
     parent\<lparr>pd_config := pd_config child, pd_heap := pd_heap child, pd_analyzer := pd_analyzer child\<rparr>"

definition give_back ::
  "('s, 'p, 'h, 'b, 'c) swish_ParserData \<Rightarrow> swish_Analyzer option \<times> heap \<Rightarrow>
   ('s, 'p, 'h, 'b, 'c) swish_ParserData res" where
  "give_back parent r =
     (case fst r of
        None \<Rightarrow> Inl UseAfterFree
      | Some a \<Rightarrow> Inr (parent\<lparr>pd_analyzer := a, pd_heap := snd r\<rparr>))"

text \<open>The document of a child is parsed, as text when asked for, and added to its parent's.\<close>

definition include_child ::
  "('s, 'p, 'h, 'b, 'c) includer \<Rightarrow> ('s, 'p, 'h, 'b, 'c) doc_lib \<Rightarrow> bytes \<Rightarrow> bool \<Rightarrow>
   ('s, 'p, 'h, 'b, 'c) swish_ParserData \<Rightarrow> ('s, 'p, 'h, 'b, 'c) swish_ParserData \<Rightarrow>
   (('s, 'p, 'h, 'b, 'c) swish_ParserData \<times> ('s, 'p, 'h, 'b, 'c) swish_ParserData) res" where
  "include_child incl D xuri is_text child pd =
     (let L = dl_pd D in
      bnd (swish_docinfo_from_filesystem (pl_cf L) (pl_wide L) (dl_os D) xuri (pd_docinfo child) (pd_config child))
        (\<lambda>(exists, docinfo).
        if \<not> exists then Inr (child\<lparr>pd_docinfo := docinfo\<rparr>, shared_from child pd)
        else
          (let docinfo = (if is_text then docinfo\<lparr>di_parser := Some SWISH_PARSER_TXT\<rparr> else docinfo) in
           bnd (docparser incl D (Some xuri) None 0 (child\<lparr>pd_docinfo := docinfo\<rparr>)) (\<lambda>(_, child).
           bnd (xinclude_handler L child (shared_from child pd)) (\<lambda>pd. Inr (child\<lparr>pd_heap := pd_heap pd\<rparr>, pd))))))"

text \<open>
  Nothing stops a document from including itself: \<open>n\<close> is how many documents deep the C stack
  lets the parser go, and the fault is its overflow.
\<close>

fun process_xinclude ::
  "nat \<Rightarrow> ('s, 'p, 'h, 'b, 'c) doc_lib \<Rightarrow> ('s, 'p, 'h, 'b, 'c) includer" where
  "process_xinclude 0 D uri is_text pd = Inl OutOfBounds"
| "process_xinclude (Suc n) D uri is_text pd =
     (let L = dl_pd D in
      bnd (xinclude_uri D uri (di_uri (pd_docinfo pd))) (\<lambda>xuri.
      bnd (stack_head (pd_metastack pd)) (\<lambda>h.
      bnd (flush_buffer L (tg_baked h) (tg_context h) pd) (\<lambda>pd.
      bnd (init_parser_data L (pd_config pd) (pd_heap pd) (pd_analyzer pd) (swish_docinfo_init\<lparr>di_ref_cnt := 1\<rparr>)) (\<lambda>child.
      bnd (include_child (process_xinclude n D) D xuri is_text child pd) (\<lambda>(child, pd).
      bnd (free_parser_data child) (give_back pd)))))))"

section \<open>Entry points\<close>

text \<open>
  The result, the state the handler is called with, and what is left of the shared objects
  when it returns; a handler that keeps its hands off the state is assumed. No handler is
  called for a file that does not exist.
\<close>

type_synonym ('s, 'p, 'h, 'b, 'c) parsed =
  "(int \<times> ('s, 'p, 'h, 'b, 'c) swish_ParserData \<times> swish_Analyzer option \<times> heap) res"

definition swish_parse_buffer ::
  "nat \<Rightarrow> ('s, 'p, 'h, 'b, 'c) doc_lib \<Rightarrow> ('s, 'p) swish_Config \<Rightarrow> heap \<Rightarrow> swish_Analyzer \<Rightarrow> mem \<Rightarrow>
   ('s, 'p, 'h, 'b, 'c) parsed" where
  "swish_parse_buffer n D config hp analyzer buf =
     (let L = dl_pd D; X = dl_str D in
      bnd (buf_to_head (dl_alloc D (SWISH_MAXSTRLEN + 1)) buf) (\<lambda>head.
      bnd (init_parser_data L config hp analyzer swish_docinfo_init) (\<lambda>pd.
      bnd (head_to_docinfo X head) (\<lambda>docinfo.
      bnd (swish_docinfo_check (pl_cf L) (pl_wide L) docinfo config) (\<lambda>docinfo.
      let body = drop (nat (h_body_start head)) buf in
      bnd (cstr body 0) (\<lambda>s.
      bnd (docparser (process_xinclude n D) D None (Some body) (xmlStrlen X (Some s)) (pd\<lparr>pd_docinfo := docinfo\<rparr>))
        (\<lambda>(res, pd).
      bnd (free_parser_data pd) (\<lambda>(a, hp). Inr (res, pd, a, hp)))))))))"

definition swish_parse_file ::
  "nat \<Rightarrow> ('s, 'p, 'h, 'b, 'c) doc_lib \<Rightarrow> ('s, 'p) swish_Config \<Rightarrow> heap \<Rightarrow> swish_Analyzer \<Rightarrow> bytes \<Rightarrow>
   ('s, 'p, 'h, 'b, 'c) parsed" where
  "swish_parse_file n D config hp analyzer filename =
     (let L = dl_pd D in
      bnd (init_parser_data L config hp analyzer (swish_docinfo_init\<lparr>di_ref_cnt := 1\<rparr>)) (\<lambda>pd.
      bnd (swish_docinfo_from_filesystem (pl_cf L) (pl_wide L) (dl_os D) filename (pd_docinfo pd) config)
        (\<lambda>(exists, docinfo).
      bnd (if exists
           then docparser (process_xinclude n D) D (Some filename) None 0 (pd\<lparr>pd_docinfo := docinfo\<rparr>)
           else Inr (SWISH_ERR_NO_SUCH_FILE, pd\<lparr>pd_docinfo := docinfo\<rparr>)) (\<lambda>(res, pd).
      bnd (free_parser_data pd) (\<lambda>(a, hp). Inr (res, pd, a, hp))))))"

end
