(* ===== verification/Parser_Correct.thy ===== *)
theory Parser_Correct
  imports Document
begin

text \<open>
  The state of the parser between two callbacks. Every state a document can lead to has
  well-formed stacks, whose contexts are paths, and a \<open>tag\<close> that is NULL or a live string,
  whatever the configuration, the events and the documents included.
\<close>

section \<open>The invariant\<close>

definition stacks_ok :: "('s, 'p, 'h, 'b, 'c) swish_ParserData \<Rightarrow> bool" where
  "stacks_ok pd \<longleftrightarrow> stack_ok SWISH_DOM_CHAR (pd_metastack pd) \<and> stack_ok SWISH_DOM_CHAR (pd_propstack pd) \<and>
     stack_ok SWISH_DOT (pd_domstack pd)"

definition between_ok :: "('s, 'p, 'h, 'b, 'c) swish_ParserData \<Rightarrow> bool" where
  "between_ok pd \<longleftrightarrow> stacks_ok pd \<and> pd_tag pd \<noteq> Freed"

text \<open>The same stacks and tag: what most steps leave alone.\<close>

definition same_stacks :: "('s, 'p, 'h, 'b, 'c) swish_ParserData \<Rightarrow> ('s, 'p, 'h, 'b, 'c) swish_ParserData \<Rightarrow> bool" where
  "same_stacks pd pd' \<longleftrightarrow> pd_metastack pd' = pd_metastack pd \<and> pd_propstack pd' = pd_propstack pd \<and>
     pd_domstack pd' = pd_domstack pd \<and> pd_tag pd' = pd_tag pd"

named_theorems same_intros \<open>steps that leave the stacks and the tag alone\<close>

lemma same_stacks_refl [simp]: "same_stacks pd pd"
  by (simp add: same_stacks_def)

lemma same_stacks_trans: "same_stacks a b \<Longrightarrow> same_stacks b c \<Longrightarrow> same_stacks a c"
  by (simp add: same_stacks_def)

lemma same_stacksD: "same_stacks pd pd' \<Longrightarrow> stacks_ok pd \<Longrightarrow> stacks_ok pd'"
  by (simp add: same_stacks_def stacks_ok_def)

lemma same_buffer_characters [same_intros]: "buffer_characters L m ch len pd = Inr pd' \<Longrightarrow> same_stacks pd pd'"
  by (auto simp: buffer_characters_def bnd_eq_Inr same_stacks_def split: if_splits)

lemma same_tokenize [same_intros]: "tokenize L str len metaname ctx pd = Inr pd' \<Longrightarrow> same_stacks pd pd'"
  by (auto simp: tokenize_def Let_def bnd_eq_Inr same_stacks_def split: if_splits option.splits)

lemma same_flush_buffer [same_intros]: "flush_buffer L metaname ctx pd = Inr pd' \<Longrightarrow> same_stacks pd pd'"
  by (auto simp: flush_buffer_def Let_def bnd_eq_Inr split: if_splits option.splits dest!: same_tokenize)
    (simp_all add: same_stacks_def)

lemma same_add_stack [same_intros]: "add_stack_to_prop_buf L baked pd = Inr pd' \<Longrightarrow> same_stacks pd pd'"
  by (auto simp: add_stack_to_prop_buf_def Let_def bnd_eq_Inr same_stacks_def)

lemma same_auto_metaname [same_intros]: "auto_metaname L name p pd = Inr pd' \<Longrightarrow> same_stacks pd pd'"
  by (auto simp: auto_metaname_def Let_def bnd_eq_Inr same_stacks_def split: if_splits)

lemma same_undefined_meta [same_intros]: "undefined_meta L name pd = Inr pd' \<Longrightarrow> same_stacks pd pd'"
  by (auto simp: undefined_meta_def split: if_splits undef_metas.splits dest: same_auto_metaname)
    (simp_all add: same_stacks_def)

lemma same_undefined_attr [same_intros]: "undefined_attr L name val pd = Inr pd' \<Longrightarrow> same_stacks pd pd'"
  by (auto simp: undefined_attr_def Let_def bnd_eq_Inr split: if_splits undef_attrs.splits
      dest: same_auto_metaname same_buffer_characters)
    (auto simp: same_stacks_def dest!: same_buffer_characters)

lemma same_bump_html_tag [simp]: "same_stacks pd (bump_html_tag L t pd)"
  by (simp add: bump_html_tag_def Let_def same_stacks_def split: option.splits)

lemma same_comment_command [simp]: "same_stacks pd (comment_command X f s pd)"
  by (simp add: comment_command_def same_stacks_def)

lemma same_mycomments [same_intros]: "mycomments L cmt pd = Inr pd' \<Longrightarrow> same_stacks pd pd'"
  unfolding mycomments_def Let_def bnd_eq_Inr by (elim exE conjE) (force split: if_splits prod.splits simp del: lit_Cons simp: bnd_eq_Inr)

section \<open>Tags\<close>

lemma pop_stack_ok: "stack_ok c s \<Longrightarrow> stack_ok c (snd (pop_tag_stack s))"
  by (rule pop_ok [THEN conjunct2])

lemma pop_on_match_ok: "stack_ok c s \<Longrightarrow> pop_tag_stack_on_match X s tag = Inr (t, s') \<Longrightarrow> stack_ok c s'"
  using pop_stack_ok [of c s]
  by (auto simp: pop_tag_stack_on_match_def split: list.splits if_splits prod.splits option.splits)

lemma push_stack_ok: "stack_ok c s \<Longrightarrow> push_tag_stack s raw baked c = Inr s' \<Longrightarrow> stack_ok c s'"
  using push_ok [of c s raw baked] by auto

text \<open>An inner element may leave any tag behind.\<close>

definition keeps_stacks :: "('s, 'p, 'h, 'b, 'c) inner \<Rightarrow> bool" where
  "keeps_stacks el \<longleftrightarrow> (\<forall>name content p pd pd'. el name content p pd = Inr pd' \<longrightarrow> stacks_ok pd \<longrightarrow> stacks_ok pd')"

lemma keeps_no_inner [simp]: "keeps_stacks no_inner"
  by (simp add: keeps_stacks_def no_inner_def)

lemma stacks_ok_update [simp]:
  "stacks_ok (pd\<lparr>pd_tag := c\<rparr>) = stacks_ok pd" "stacks_ok (pd\<lparr>pd_bump_word := b\<rparr>) = stacks_ok pd"
  "stacks_ok (pd\<lparr>pd_ignore_content := n\<rparr>) = stacks_ok pd" "stacks_ok (pd\<lparr>pd_docinfo := i\<rparr>) = stacks_ok pd"
  "stacks_ok (pd\<lparr>pd_is_html := b\<rparr>) = stacks_ok pd" "stacks_ok (pd\<lparr>pd_config := cf\<rparr>) = stacks_ok pd"
  "stacks_ok (pd\<lparr>pd_heap := hp\<rparr>) = stacks_ok pd" "stacks_ok (pd\<lparr>pd_analyzer := a\<rparr>) = stacks_ok pd"
  by (simp_all add: stacks_ok_def)

lemma html_meta_ok:
  assumes "keeps_stacks el" and "html_meta el L atts t p pd = Inr (b, pd')" and "stacks_ok pd"
  shows "stacks_ok pd'"
  using assms
  by (auto simp: html_meta_def Let_def bnd_eq_Inr keeps_stacks_def split: option.splits dest!: same_undefined_meta)
    (auto dest: same_stacksD)

lemma xml_attr_ok:
  assumes "keeps_stacks el" and "xml_attr el L l p a v (t, pd) = Inr (t', pd')" and "stacks_ok pd"
  shows "stacks_ok pd'"
proof -
  obtain n pd1 where 1: "undefined_attr L n v pd = Inr pd1"
    and 2: "pd' = pd1 \<or> (\<exists>pd2 c. el n v p (pd1\<lparr>pd_bump_word := True\<rparr>) = Inr pd2 \<and> pd' = pd2\<lparr>pd_tag := c\<rparr>)"
    using assms(2) by (auto simp: xml_attr_def Let_def bnd_eq_Inr split: if_splits)
  have "stacks_ok pd1" using same_stacksD [OF same_undefined_attr [OF 1] assms(3)] .
  then show ?thesis using 2 assms(1) by (auto simp: keeps_stacks_def)
qed

lemma xml_atts_ok:
  assumes "keeps_stacks el" and "xml_atts el L l p atts i (t, pd) = Inr (t', pd')" and "stacks_ok pd"
  shows "stacks_ok pd'"
  using assms
proof (induction el L l p atts i "(t, pd)" arbitrary: t pd rule: xml_atts.induct)
  case (1 el L l p atts i t pd)
  from "1.prems"(2) consider "pd' = pd" | a attr v val t1 pd1 where "rd atts i = Inr a" "a \<noteq> None"
    "lower_opt L a = Inr attr" "rd atts (i + 1) = Inr v" "lower_opt L v = Inr val"
    "xml_attr el L l p attr val (t, pd) = Inr (t1, pd1)" "xml_atts el L l p atts (i + 2) (t1, pd1) = Inr (t', pd')"
    by (subst (asm) xml_atts.simps) (auto simp: bnd_eq_Inr split: if_splits)
  then show ?case
  proof cases
    case 2
    then show ?thesis
      using "1.hyps" "1.prems"(1,3) xml_attr_ok [OF "1.prems"(1) 2(6)] by blast
  qed (use "1.prems" in simp)
qed

lemma bake_tag_ok:
  assumes "keeps_stacks el" and "bake_tag_with el L tag atts p pd = Inr (t, pd')" and "stacks_ok pd"
  shows "stacks_ok pd'"
proof (cases "pd_is_html pd")
  case True
  then obtain b n pd1 where "html_meta el L atts n p (bump_html_tag L n pd) = Inr (b, pd1)" "pd' = pd1"
    using assms(2) by (auto simp: bake_tag_with_def bnd_eq_Inr split: if_splits)
  then show ?thesis using html_meta_ok [OF assms(1)] same_stacksD [OF same_bump_html_tag assms(3)] by blast
next
  case False
  have "\<exists>n1 n2 pd1. (pd1 = pd\<lparr>pd_bump_word := True\<rparr> \<or>
      (\<exists>as l. xml_atts el L l p as 0 (n1, pd\<lparr>pd_bump_word := True\<rparr>) = Inr (n2, pd1))) \<and>
    undefined_meta L n2 pd1 = Inr pd'"
    using assms(2) False by (cases atts) (auto simp: bake_tag_with_def bnd_eq_Inr Let_def split: if_splits, blast+)
  then obtain n1 n2 pd1 where "pd1 = pd\<lparr>pd_bump_word := True\<rparr> \<or>
      (\<exists>as l. xml_atts el L l p as 0 (n1, pd\<lparr>pd_bump_word := True\<rparr>) = Inr (n2, pd1))"
    "undefined_meta L n2 pd1 = Inr pd'" by blast
  moreover have "stacks_ok (pd\<lparr>pd_bump_word := True\<rparr>)" using assms(3) by simp
  ultimately have "stacks_ok pd1" "undefined_meta L n2 pd1 = Inr pd'"
    using xml_atts_ok [OF assms(1)] by blast+
  then show ?thesis using same_stacksD same_undefined_meta by blast
qed

lemma open_property_ok: "open_property L tag pd = Inr pd' \<Longrightarrow> stacks_ok pd \<Longrightarrow> stacks_ok pd' \<and> pd_tag pd' = pd_tag pd"
  by (auto simp: open_property_def bnd_eq_Inr split: if_splits dest!: same_add_stack)
    (auto simp: same_stacks_def stacks_ok_def intro: push_stack_ok)

lemma open_metaname_ok: "open_metaname L tag pd = Inr pd' \<Longrightarrow> stacks_ok pd \<Longrightarrow> stacks_ok pd' \<and> pd_tag pd' = pd_tag pd"
  by (auto simp: open_metaname_def bnd_eq_Inr split: if_splits dest!: same_flush_buffer)
    (auto simp: same_stacks_def stacks_ok_def intro: push_stack_ok)

lemma open_tag_ok:
  assumes "keeps_stacks el" and "open_tag_with el L tag atts p pd = Inr pd'" and "stacks_ok pd"
  shows "between_ok pd'"
proof -
  obtain pd1 b pd2 s pd3 where 1: "free_tag pd = Inr pd1" "bake_tag_with el L tag atts p pd1 = Inr (b, pd2)"
    "push_tag_stack (pd_domstack pd2) tag (case b of None \<Rightarrow> tag | Some t \<Rightarrow> t) SWISH_DOT = Inr s"
    "open_property L tag (pd2\<lparr>pd_tag := (case b of None \<Rightarrow> NullCell | Some t \<Rightarrow> Cell t), pd_domstack := s\<rparr>) = Inr pd3"
    "open_metaname L tag pd3 = Inr pd'"
    using assms(2) by (auto simp: open_tag_with_def Let_def bnd_eq_Inr)
  have "stacks_ok pd1" using 1(1) assms(3) by (auto simp: free_tag_def bnd_eq_Inr)
  then have 2: "stacks_ok pd2" using bake_tag_ok [OF assms(1) 1(2)] by blast
  then have "stacks_ok (pd2\<lparr>pd_tag := (case b of None \<Rightarrow> NullCell | Some t \<Rightarrow> Cell t), pd_domstack := s\<rparr>)"
    using push_stack_ok [OF _ 1(3)] by (simp add: stacks_ok_def)
  from open_property_ok [OF 1(4) this] have "stacks_ok pd3" "pd_tag pd3 \<noteq> Freed" by (auto split: option.splits)
  then show ?thesis using open_metaname_ok [OF 1(5)] by (simp add: between_ok_def)
qed

lemma close_property_ok: "close_property L tag pd = Inr pd' \<Longrightarrow> stacks_ok pd \<Longrightarrow> stacks_ok pd' \<and> pd_tag pd' = pd_tag pd"
  by (auto simp: close_property_def bnd_eq_Inr split: option.splits dest!: same_add_stack)
    (auto simp: same_stacks_def stacks_ok_def intro: pop_on_match_ok)

lemma close_metaname_ok: "close_metaname L tag pd = Inr pd' \<Longrightarrow> stacks_ok pd \<Longrightarrow> stacks_ok pd' \<and> pd_tag pd' = pd_tag pd"
  by (auto simp: close_metaname_def bnd_eq_Inr split: option.splits dest!: same_flush_buffer)
    (auto simp: same_stacks_def stacks_ok_def intro: pop_on_match_ok)

lemma close_element_ok: "close_element pd = Inr pd' \<Longrightarrow> stacks_ok pd \<Longrightarrow> stacks_ok pd' \<and> pd_tag pd' = pd_tag pd"
  by (auto simp: close_element_def stacks_ok_def intro: pop_stack_ok split: option.splits)

lemma close_tag_ok:
  assumes "close_tag L tag p pd = Inr pd'" and "stacks_ok pd"
  shows "between_ok pd'"
proof -
  obtain pd1 b pd2 where 1: "free_tag pd = Inr pd1" "bake_tag_with no_inner L tag None p pd1 = Inr (b, pd2)"
    using assms(1) unfolding close_tag_def bnd_eq_Inr by (metis surj_pair)
  have "stacks_ok pd1" using 1(1) assms(2) by (auto simp: free_tag_def bnd_eq_Inr)
  then have 2: "stacks_ok (pd2\<lparr>pd_tag := c\<rparr>)" for c using bake_tag_ok [OF keeps_no_inner 1(2)] by simp
  show ?thesis
  proof (cases b)
    case None
    then show ?thesis using assms(1) 1 2 by (auto simp: close_tag_def between_ok_def)
  next
    case (Some t)
    then obtain pd3 pd4 where "close_property L tag (pd2\<lparr>pd_tag := Cell t\<rparr>) = Inr pd3"
      "close_metaname L tag pd3 = Inr pd4" "close_element pd4 = Inr pd'"
      using assms(1) 1 by (auto simp: close_tag_def bnd_eq_Inr)
    from close_property_ok [OF this(1) 2] close_metaname_ok [OF this(2)] close_element_ok [OF this(3)]
    show ?thesis by (simp add: between_ok_def)
  qed
qed

lemma keeps_element [simp]: "keeps_stacks (element L)"
  unfolding keeps_stacks_def element_def bnd_eq_Inr
  by (metis between_ok_def close_tag_ok keeps_no_inner open_tag_ok same_buffer_characters same_stacksD)

section \<open>Callbacks\<close>

definition keeps_between :: "('s, 'p, 'h, 'b, 'c) includer \<Rightarrow> bool" where
  "keeps_between incl \<longleftrightarrow> (\<forall>u t pd pd'. incl u t pd = Inr pd' \<longrightarrow> between_ok pd \<longrightarrow> between_ok pd')"

lemma same_between: "same_stacks pd pd' \<Longrightarrow> between_ok pd \<Longrightarrow> between_ok pd'"
  by (simp add: same_stacks_def between_ok_def stacks_ok_def)

lemma check_xinclude_cases:
  "check_xinclude incl L n u atts pd = Inr pd' \<Longrightarrow> pd' = pd \<or> (\<exists>u b. incl u b pd = Inr pd')"
  by (auto simp: check_xinclude_def Let_def bnd_eq_Inr simp del: lit_Cons split: if_splits)

lemma callback_ok:
  assumes "keeps_between incl" and "sax_callback incl L e pd = Inr pd'" and "between_ok pd"
  shows "between_ok pd'"
proof -
  have el: "keeps_stacks (element L)" by simp
  have st: "stacks_ok pd" using assms(3) by (simp add: between_ok_def)
  show ?thesis
  proof (cases e)
    case (StartElement x y)
    then show ?thesis using open_tag_ok [OF el _ st] assms(2) by (simp add: open_tag_def)
  next
    case (EndElement x)
    then show ?thesis using close_tag_ok [OF _ st] assms(2) by simp
  next
    case (EndElementNs x y)
    then show ?thesis using close_tag_ok [OF _ st] assms(2) by simp
  next
    case (StartElementNs n p u as)
    then obtain pd1 where "pd1 = pd \<or> (\<exists>u b. incl u b pd = Inr pd1)" "open_tag L n (ns_atts as) p pd1 = Inr pd'"
      using assms(2) check_xinclude_cases [of incl L n u "ns_atts as" pd]
      by (auto simp: mystartElementNs_def Let_def bnd_eq_Inr)
    moreover from this have "stacks_ok pd1" using assms(1,3) unfolding keeps_between_def between_ok_def by metis
    ultimately show ?thesis using open_tag_ok [OF el] by (simp add: open_tag_def)
  qed (use assms in \<open>auto simp: myendDocument_def dest!: same_intros intro: same_between\<close>)
qed

section \<open>Documents\<close>

text \<open>The states a parser can be in between two callbacks, and one step from one to the next.\<close>

inductive sax_step ::
  "('s, 'p, 'h, 'b, 'c) includer \<Rightarrow> ('s, 'p, 'h, 'b, 'c) pd_lib \<Rightarrow> ('s, 'p, 'h, 'b, 'c) swish_ParserData \<Rightarrow>
   ('s, 'p, 'h, 'b, 'c) swish_ParserData \<Rightarrow> bool"
  for incl L where
  step: "sax_callback incl L e pd = Inr pd' \<Longrightarrow> sax_step incl L pd pd'"

inductive_cases sax_stepE: "sax_step incl L pd pd'"

inductive sax_reach ::
  "('s, 'p, 'h, 'b, 'c) includer \<Rightarrow> ('s, 'p, 'h, 'b, 'c) pd_lib \<Rightarrow> ('s, 'p, 'h, 'b, 'c) swish_ParserData \<Rightarrow>
   ('s, 'p, 'h, 'b, 'c) swish_ParserData \<Rightarrow> bool"
  for incl L pd0 where
  start: "sax_reach incl L pd0 pd0"
| more: "sax_reach incl L pd0 pd \<Longrightarrow> sax_step incl L pd pd' \<Longrightarrow> sax_reach incl L pd0 pd'"

lemma reach_invariant:
  assumes "sax_reach incl L pd0 pd" and "keeps_between incl" and "between_ok pd0"
  shows "between_ok pd"
  using assms(1)
proof (induction rule: sax_reach.induct)
  case (more pd pd')
  then show ?case using callback_ok [OF assms(2)] by (blast elim: sax_stepE)
qed (rule assms(3))

lemma run_events_reach:
  assumes "run_events incl L es pd = Inr pd'" and "sax_reach incl L pd0 pd"
  shows "sax_reach incl L pd0 pd'"
  using fold_res_invariant [of "sax_callback incl L" es pd pd' "sax_reach incl L pd0"] assms
  unfolding run_events_def by (blast intro: sax_reach.more sax_step.step)

lemma run_events_ok:
  assumes "keeps_between incl" and "run_events incl L es pd = Inr pd'" and "between_ok pd"
  shows "between_ok pd'"
  using reach_invariant [OF run_events_reach [OF assms(2) sax_reach.start] assms(1,3)] .

lemma between_update [simp]:
  "between_ok (pd\<lparr>pd_docinfo := i\<rparr>) = between_ok pd" "between_ok (pd\<lparr>pd_is_html := b\<rparr>) = between_ok pd"
  "between_ok (pd\<lparr>pd_config := cf\<rparr>) = between_ok pd" "between_ok (pd\<lparr>pd_heap := hp\<rparr>) = between_ok pd"
  "between_ok (pd\<lparr>pd_analyzer := a\<rparr>) = between_ok pd" "between_ok (set_doc_encoding e pd) = between_ok pd"
  by (simp_all add: between_ok_def set_doc_encoding_def)

lemma xml_parser_ok:
  "keeps_between incl \<Longrightarrow> xml_parser incl D m n pd = Inr (r, pd') \<Longrightarrow> between_ok pd \<Longrightarrow> between_ok pd'"
  by (auto simp: xml_parser_def bnd_eq_Inr split: option.splits) (metis run_events_ok)

lemma html_parser_ok:
  "keeps_between incl \<Longrightarrow> html_parser incl D m pd = Inr (r, pd') \<Longrightarrow> between_ok pd \<Longrightarrow> between_ok pd'"
  by (auto simp: html_parser_def bnd_eq_Inr split: option.splits) (metis run_events_ok between_update(6))

lemma push_meta_ok: "push_meta name pd = Inr pd' \<Longrightarrow> between_ok pd \<Longrightarrow> between_ok pd'"
  by (auto simp: push_meta_def bnd_eq_Inr between_ok_def stacks_ok_def intro: push_stack_ok)

lemma set_encoding_ok: "set_encoding D m pd = Inr pd' \<Longrightarrow> between_ok pd \<Longrightarrow> between_ok pd'"
  by (auto simp: set_encoding_def bnd_eq_Inr split: if_splits)

lemma txt_parser_ok:
  assumes "txt_parser D m n pd = Inr (r, pd')" and "between_ok pd"
  shows "between_ok pd'"
proof -
  note step = push_meta_ok set_encoding_ok same_between [OF same_buffer_characters]
    same_between [OF same_flush_buffer]
  from assms show ?thesis
    by (auto simp: txt_parser_def Let_def bnd_eq_Inr simp del: lit_Cons split: option.splits dest!: step)
qed

lemma docparser_ok:
  assumes "keeps_between incl" and "docparser incl D file m n pd = Inr (r, pd')" and "between_ok pd"
  shows "between_ok pd'"
proof -
  have slurp: "between_ok pd'" if "slurp D file m n pd = Inr (m', n', pd')" for m' n' pd'
    using that assms(3) by (auto simp: slurp_def Let_def bnd_eq_Inr split: option.splits if_splits)
  from assms(2,3) consider "pd' = pd" | parser m' n' pd1 where "between_ok pd1" "run_parser incl D parser m' n' pd1 = Inr (r, pd')"
    by (auto simp: docparser_def bnd_eq_Inr split: if_splits dest!: slurp)
  then show ?thesis
  proof cases
    case 2
    then show ?thesis
      by (auto simp: run_parser_def bnd_eq_Inr split: if_splits
          intro: txt_parser_ok xml_parser_ok [OF assms(1)] html_parser_ok [OF assms(1), of D _ "pd1\<lparr>pd_is_html := True\<rparr>"])
  qed (use assms(3) in simp)
qed

lemma xinclude_handler_ok: "xinclude_handler L child pd = Inr pd' \<Longrightarrow> between_ok pd \<Longrightarrow> between_ok pd'"
  by (auto simp: xinclude_handler_def bnd_eq_Inr between_ok_def stacks_ok_def)

lemma include_child_cases:
  "include_child incl D xuri t child pd = Inr (child', pd') \<Longrightarrow>
   \<exists>c. pd' = shared_from c pd \<or> xinclude_handler (dl_pd D) c (shared_from c pd) = Inr pd'"
  by (auto simp: include_child_def Let_def bnd_eq_Inr split: if_splits)

lemma keeps_process_xinclude: "keeps_between (process_xinclude n D)"
proof (induction n)
  case 0
  then show ?case by (simp add: keeps_between_def)
next
  case (Suc n)
  show ?case
    unfolding keeps_between_def
  proof (intro allI impI)
    fix u t pd pd'
    assume "process_xinclude (Suc n) D u t pd = Inr pd'" and pd: "between_ok pd"
    then obtain h :: swish_Tag and x pd1 child child' pd2 r where 1: "flush_buffer (dl_pd D) (tg_baked h) (tg_context h) pd = Inr pd1"
      "include_child (process_xinclude n D) D x t child pd1 = Inr (child', pd2)" "give_back pd2 r = Inr pd'"
      by (auto simp: Let_def bnd_eq_Inr)
    have sh: "between_ok (shared_from c pd1)" for c
      using same_between [OF same_flush_buffer [OF 1(1)] pd] by (simp add: shared_from_def)
    then have "between_ok pd2" using include_child_cases [OF 1(2)] xinclude_handler_ok by blast
    then show "between_ok pd'" using 1(3) by (auto simp: give_back_def split: option.splits)
  qed
qed

lemma init_ok: "init_parser_data L config hp a i = Inr pd \<Longrightarrow> between_ok pd"
  by (auto simp: init_parser_data_def bnd_eq_Inr between_ok_def stacks_ok_def
      intro: push_stack_ok [OF stack_ok_empty])

text \<open>
  C3: the stacks of the parser are well formed in every state it can reach. Whatever the
  configuration, libxml2's answers, the sequence of callbacks and the documents included on
  the way, each stack's count is its height, the context of each tag is the path of the names
  below it, and the pointer to the current tag is NULL or live between two callbacks.
\<close>

theorem reachable_states_well_formed:
  assumes "init_parser_data (dl_pd D) config hp a i = Inr pd0"
    and "sax_reach (process_xinclude n D) (dl_pd D) pd0 pd"
  shows "between_ok pd"
  using reach_invariant [OF assms(2) keeps_process_xinclude init_ok [OF assms(1)]] .

text \<open>
  The state a handler is given is well formed too, for every document that is parsed from
  a file to the end, plain text included.
\<close>

lemma parsed_file_well_formed:
  assumes "swish_parse_file n D config hp a file = Inr (r, pd, a', hp')"
  shows "between_ok pd"
proof -
  obtain pd0 i where "init_parser_data (dl_pd D) config hp a (swish_docinfo_init\<lparr>di_ref_cnt := 1\<rparr>) = Inr pd0"
    "pd = pd0\<lparr>pd_docinfo := i\<rparr> \<or>
     docparser (process_xinclude n D) D (Some file) None 0 (pd0\<lparr>pd_docinfo := i\<rparr>) = Inr (r, pd)"
    using assms by (auto simp: swish_parse_file_def Let_def bnd_eq_Inr split: if_splits)
  then show ?thesis
    using init_ok docparser_ok [OF keeps_process_xinclude] by (metis between_update(1))
qed

end
