(* ===== verification/Parser_Samples.thy ===== *)
theory Parser_Samples
  imports Parser_Correct Tokens_Correct NamedBuffer_Correct
begin

text \<open>
  Concrete libraries, configurations and analyzers on which the witnesses of the parser's
  theorems evaluate.
\<close>

lemma ref_hash_lookup [simp]: "xmlHashLookup ref_hash = map_of"
  by (simp add: ref_hash_def)

definition ref_pd :: "((bytes \<times> bytes) list, (bytes \<times> nat) list, (bytes \<times> nat) list, bytes, (bytes \<times> bytes) list) pd_lib" where
  "ref_pd = \<lparr>pl_cf = \<lparr>cl_str = ref_str, cl_tab = ref_hash, cl_ptr = ref_hash\<rparr>,
     pl_nb = \<lparr>nb_str = ref_str, nb_buf = ref_buf, nb_tab = ref_hash\<rparr>, pl_tk = ref_tk,
     pl_htmlTagLookup = (\<lambda>t. if t = lit ''b'' then Some True else if t = lit ''p'' then Some False else None)\<rparr>"

definition sample_config :: "bytes list \<Rightarrow> bytes list \<Rightarrow> ((bytes \<times> bytes) list, (bytes \<times> nat) list) swish_Config" where
  "sample_config ms ps =
     \<lparr>cf_ref_cnt = 0, cf_misc = [], cf_properties = zip ps [0..<length ps], cf_metanames = zip ms [0..<length ms],
      cf_tag_aliases = [], cf_parsers = [], cf_mimes = None, cf_index = [], cf_stringlists = [],
      cf_flags = \<lparr>fl_tokenize = False, fl_cascade_meta_context = False, fl_ignore_xmlns = True,
        fl_follow_xinclude = True, fl_undef_metas = UNDEF_METAS_INDEX, fl_undef_attrs = UNDEF_ATTRS_DISABLE,
        fl_max_meta_id = 1, fl_max_prop_id = 0, fl_meta_ids = [], fl_prop_ids = []\<rparr>\<rparr>"

definition sample_heap :: "bytes list \<Rightarrow> bytes list \<Rightarrow> heap" where
  "sample_heap ms ps =
     \<lparr>h_metas = map (\<lambda>m. Some ((swish_metaname_init m)\<lparr>mn_ref_cnt := 1\<rparr>)) ms,
      h_props = map (\<lambda>p. Some ((swish_property_init p)\<lparr>pr_ref_cnt := 1\<rparr>)) ps, h_lists = []\<rparr>"

definition sample_analyzer :: swish_Analyzer where
  "sample_analyzer = \<lparr>an_maxwordlen = 256, an_minwordlen = 1, an_tokenize = False, an_lc = True, an_ref_cnt = 1\<rparr>"

text \<open>A file system of plain files, and the documents of libxml2's XML parser over it.\<close>

definition sample_os :: "(bytes \<times> bytes) list \<Rightarrow> os" where
  "sample_os files =
     (let st = (\<lambda>p. map_option (\<lambda>d. \<lparr>st_mode = S_IFREG OR 0x1A4, st_size = int (length d), st_mtime = 0\<rparr>) (map_of files p))
      in \<lparr>os_stat = st, os_lstat = st, os_file = map_of files,
          os_gz = (\<lambda>p. map_option (\<lambda>d. \<lparr>gz_data = d, gz_bad = False\<rparr>) (map_of files p))\<rparr>)"

definition sample_doc ::
  "(bytes \<times> bytes) list \<Rightarrow> (bytes \<times> sax_event list) list \<Rightarrow>
   ((bytes \<times> bytes) list, (bytes \<times> nat) list, (bytes \<times> nat) list, bytes, (bytes \<times> bytes) list) doc_lib" where
  "sample_doc files docs =
     \<lparr>dl_pd = ref_pd, dl_os = sample_os files, dl_alloc = (\<lambda>n. replicate n 0),
      dl_xml = (\<lambda>d. map_option (\<lambda>es. \<lparr>sr_events = es, sr_encoding = None, sr_wellFormed = True, sr_errNo = 0\<rparr>) (map_of docs d)),
      dl_html = (\<lambda>d. None), dl_encoding = Some (lit ''UTF-8''), isolat1ToUTF8 = (\<lambda>n s. (int (length s), s)),
      xmlBuildURI = (\<lambda>uri base. Some (base @ uri))\<rparr>"

lemma reachable_states_well_formed_witness:
  "\<exists>pd0 pd. init_parser_data ref_pd (sample_config [SWISH_DEFAULT_METANAME] []) (sample_heap [SWISH_DEFAULT_METANAME] [])
      sample_analyzer swish_docinfo_init = Inr pd0 \<and>
    sax_callback (process_xinclude 1 (sample_doc [] [])) ref_pd (Characters (lit ''a'')) pd0 = Inr pd \<and> between_ok pd"
proof -
  let ?i = "init_parser_data ref_pd (sample_config [SWISH_DEFAULT_METANAME] []) (sample_heap [SWISH_DEFAULT_METANAME] [])
      sample_analyzer swish_docinfo_init"
  let ?f = "sax_callback (process_xinclude 1 (sample_doc [] [])) ref_pd (Characters (lit ''a''))"
  have "\<not> isl ?i" "\<not> isl (bnd ?i ?f)" by code_simp+
  then obtain pd0 pd where 0: "?i = Inr pd0" "?f pd0 = Inr pd" by (cases ?i; cases "bnd ?i ?f") auto
  have dl: "dl_pd (sample_doc [] []) = ref_pd" by (simp add: sample_doc_def)
  have "sax_reach (process_xinclude 1 (sample_doc [] [])) (dl_pd (sample_doc [] [])) pd0 pd"
    unfolding dl by (rule sax_reach.more [OF sax_reach.start sax_step.step [OF 0(2)]])
  moreover have "init_parser_data (dl_pd (sample_doc [] [])) (sample_config [SWISH_DEFAULT_METANAME] [])
      (sample_heap [SWISH_DEFAULT_METANAME] []) sample_analyzer swish_docinfo_init = Inr pd0"
    unfolding dl by (rule 0(1))
  ultimately have "between_ok pd" by (rule reachable_states_well_formed [rotated])
  with 0 show ?thesis by blast
qed

end
