(* ===== verification/Tree_Parse.thy ===== *)
theory Tree_Parse
  imports Parser_Samples Config_Correct
begin

text \<open>
  What a document means, by recursion over its tree, and the proof that the callbacks of
  \<open>src/libswish3/parser.c\<close> compute it. The reference keeps the text collected since the last
  metaname and since the last property, whether the next text is kept apart from the one
  before it, and the texts stored under each name; the stacks of the parser are the arguments
  of the recursion.
\<close>

section \<open>The reference\<close>

datatype node = Text bytes | Elem bytes "node list"

fun events :: "node \<Rightarrow> sax_event list" where
  "events (Text s) = [Characters s]"
| "events (Elem t ns) = StartElementNs t None None [] # concat (map events ns) @ [EndElementNs t None]"

record ref_state =
  r_meta_buf :: bytes
  r_prop_buf :: bytes
  r_bump :: bool
  r_metas :: "bytes \<Rightarrow> bytes option"
  r_props :: "bytes \<Rightarrow> bytes option"

definition add_bumped :: "bool \<Rightarrow> bytes \<Rightarrow> bytes \<Rightarrow> bytes" where
  "add_bumped b s buf = (if b then appended buf [3] s else buf @ s)"

definition ref_text :: "bytes \<Rightarrow> ref_state \<Rightarrow> ref_state" where
  "ref_text s r = r\<lparr>r_meta_buf := add_bumped (r_bump r) s (r_meta_buf r),
     r_prop_buf := add_bumped (r_bump r) s (r_prop_buf r), r_bump := False\<rparr>"

definition blank :: "bytes \<Rightarrow> bool" where
  "blank s \<longleftrightarrow> list_all isspace s"

definition store :: "bytes \<Rightarrow> bytes \<Rightarrow> (bytes \<Rightarrow> bytes option) \<Rightarrow> bytes \<Rightarrow> bytes option" where
  "store k t m = m(k \<mapsto> appended (case m k of None \<Rightarrow> [] | Some u \<Rightarrow> u) [3] t)"

definition ref_flush :: "bytes \<Rightarrow> ref_state \<Rightarrow> ref_state" where
  "ref_flush k r = r\<lparr>r_metas := (if blank (r_meta_buf r) then r_metas r else store k (r_meta_buf r) (r_metas r)),
     r_meta_buf := []\<rparr>"

text \<open>What is left in place of a text that has been cleaned.\<close>

definition cleaned :: "bytes \<Rightarrow> bytes" where
  "cleaned s = takeWhile isspace (ctrl_ws s) @ strip (ctrl_ws s)"

fun store_all :: "bytes list \<Rightarrow> bytes \<Rightarrow> (bytes \<Rightarrow> bytes option) \<Rightarrow> bytes \<Rightarrow> bytes option" where
  "store_all [] t m = m"
| "store_all (k # ks) t m = (if blank t then store_all ks t m else store_all ks (cleaned t) (store k (clean t) m))"

definition ref_props :: "bytes list \<Rightarrow> ref_state \<Rightarrow> ref_state" where
  "ref_props ks r = r\<lparr>r_props := store_all ks (r_prop_buf r) (r_props r), r_prop_buf := []\<rparr>"

fun ref_node :: "(bytes \<Rightarrow> bool) \<Rightarrow> (bytes \<Rightarrow> bool) \<Rightarrow> bytes \<Rightarrow> bytes list \<Rightarrow> node \<Rightarrow> ref_state \<Rightarrow> ref_state" where
  "ref_node M P k ks (Text s) r = ref_text s r"
| "ref_node M P k ks (Elem t ns) r =
     (let b = map tolower t;
          r = r\<lparr>r_bump := True\<rparr>;
          r = (if P b then ref_props ks r else r);
          r = (if M b then ref_flush k r else r);
          r = fold (ref_node M P (if M b then b else k) (if P b then b # ks else ks)) ns r;
          r = r\<lparr>r_bump := True\<rparr>;
          r = (if P b then ref_props (b # ks) r else r)
      in if M b then ref_flush b r else r)"

section \<open>Steps\<close>

lemma tolower_eq:
  "xml_str_ok X \<Longrightarrow> nul_free s \<Longrightarrow> s \<noteq> [] \<Longrightarrow> list_all (\<lambda>c. c < 0x80) s \<Longrightarrow> swish_str_tolower X W s = Inr (map tolower s)"
  by (simp add: swish_str_tolower_def is_ascii_eq swish_ascii_str_tolower_def)

lemma append_bumped_eq:
  assumes "xml_buf_ok B" and "b \<longleftrightarrow> b'"
  shows "\<exists>buf'. append_bumped B b s 0 (int (length s)) buf = Inr buf' \<and>
    bufBytes B buf' = add_bumped b' s (bufBytes B buf)"
proof -
  obtain b1 where "(if b \<and> xmlBufferLength B buf \<noteq> 0
        then swish_buffer_append B buf (cobj SWISH_TOKENPOS_BUMPER) 0 1 else Inr buf) = Inr b1"
    "bufBytes B b1 = bufBytes B buf @ (if b \<and> bufBytes B buf \<noteq> [] then [3] else [])"
    using buffer_append_eq [OF assms(1), of 0 1 "cobj SWISH_TOKENPOS_BUMPER" buf]
    by (cases "b \<and> bufBytes B buf \<noteq> []") (auto simp: xml_buf_laws [OF assms(1)] SWISH_TOKENPOS_BUMPER_def cobj_def)
  moreover obtain b2 where "swish_buffer_append B b1 s 0 (int (length s)) = Inr b2"
    "bufBytes B b2 = bufBytes B b1 @ s"
    using buffer_append_eq [OF assms(1), of 0 "length s" s b1] by auto
  ultimately show ?thesis
    using assms(2) by (auto simp: append_bumped_def add_bumped_def appended_def)
qed

lemma add_str_len: "swish_nb_add_str L nb name m len j True av = swish_nb_add_str L nb name m len' j True av"
proof -
  have "nb_add_to L nb a m len j True = nb_add_to L nb a m len' j True" for nb a
    by (simp add: nb_add_to_def)
  then show ?thesis
    unfolding swish_nb_add_str_def Let_def by (intro bnd_cong refl) (auto intro!: bnd_cong split: option.splits)
qed

lemma add_str_cleaned:
  assumes L: "nb_lib_ok L" and s: "nul_free s"
    and res: "swish_nb_add_str L nb name (s @ 0 # r) len j True av = Inr (nb', m)"
  shows "\<exists>r'. m = (if list_all isspace s then s else cleaned s) @ 0 # r'"
proof -
  have X: "xml_str_ok (nb_str L)" using L by (simp add: nb_lib_ok_def)
  let ?c = "ctrl_ws s"
  have c: "nul_free ?c" using s by (rule nul_free_ctrl_ws)
  let ?w = "takeWhile isspace ?c" and ?t = "dropWhile isspace ?c"
  have t: "nul_free ?t" using c by (rule nul_free_dropWhile)
  have skip: "swish_str_skip_ws (?c @ 0 # r) 0 = Inr (int (length ?w))"
    using skip_ws_eq [OF c, of "[]" r] by simp
  have trim: "swish_str_trim_ws (nb_str L) (?c @ 0 # r) (int (length ?w)) =
      Inr (?w @ rstrip ?t @ replicate (length ?t - length (rstrip ?t)) 0 @ 0 # r)"
    using swish_str_trim_ws_eq [OF X t, of ?w r] by (simp flip: append_assoc)
  consider "m = s @ 0 # r" "list_all isspace s"
    | nb1 a where "nb_add_to L nb1 a (s @ 0 # r) len j True = Inr (nb', m)" "\<not> list_all isspace s"
    using res swish_str_all_ws_eq [OF X s, of r]
    by (auto simp: swish_nb_add_str_def Let_def bnd_eq_Inr split: if_splits option.splits)
  then show ?thesis
  proof cases
    case 2
    then have "m = ?w @ rstrip ?t @ replicate (length ?t - length (rstrip ?t)) 0 @ 0 # r"
      by (auto simp: nb_add_to_def Let_def bnd_eq_Inr ctrl_to_ws_eq [OF X s] skip trim)
    then have "m = cleaned s @ 0 # replicate (length ?t - length (rstrip ?t)) 0 @ r"
      by (simp add: cleaned_def strip_def replicate_app_Cons_same)
    with 2 show ?thesis by auto
  qed auto
qed


section \<open>States\<close>

definition has_meta :: "('s, 'p, 'h, 'b, 'c) pd_lib \<Rightarrow> ('s, 'p) swish_Config \<Rightarrow> bytes \<Rightarrow> bool" where
  "has_meta L cf k \<longleftrightarrow> swish_hash_exists (cl_ptr (pl_cf L)) (cf_metanames cf) k"

definition has_prop :: "('s, 'p, 'h, 'b, 'c) pd_lib \<Rightarrow> ('s, 'p) swish_Config \<Rightarrow> bytes \<Rightarrow> bool" where
  "has_prop L cf k \<longleftrightarrow> swish_hash_exists (cl_ptr (pl_cf L)) (cf_properties cf) k"

text \<open>
  A plain configuration: unknown tags are indexed, no tag has an alias, contexts do not
  cascade, and every metaname and property is a live object without an alias, named by a
  simple name.
\<close>

definition plain_config :: "('s, 'p, 'h, 'b, 'c) pd_lib \<Rightarrow> ('s, 'p) swish_Config \<Rightarrow> heap \<Rightarrow> bool" where
  "plain_config L cf hp \<longleftrightarrow>
     cf_lib_ok (pl_cf L) \<and> nb_lib_ok (pl_nb L) \<and>
     fl_undef_metas (cf_flags cf) = UNDEF_METAS_INDEX \<and> \<not> fl_cascade_meta_context (cf_flags cf) \<and>
     (\<forall>k. swish_hash_fetch (cl_tab (pl_cf L)) (cf_tag_aliases cf) k = None) \<and>
     (\<forall>k a. swish_hash_fetch (cl_ptr (pl_cf L)) (cf_metanames cf) k = Some a \<longrightarrow>
        SWISH_DOT \<notin> set k \<and> (\<exists>m. obj_at (h_metas hp) a = Inr m \<and> mn_alias_for m = NullCell)) \<and>
     (\<forall>k a. swish_hash_fetch (cl_ptr (pl_cf L)) (cf_properties cf) k = Some a \<longrightarrow>
        SWISH_DOT \<notin> set k \<and>
        (\<exists>p. obj_at (h_props hp) a = Inr p \<and> pr_alias_for p = NullCell \<and> \<not> pr_verbatim p))"

lemma plain_meta:
  assumes "plain_config L cf hp" and "has_meta L cf k"
  shows "SWISH_DOT \<notin> set k \<and> (\<exists>a m. swish_hash_fetch (cl_ptr (pl_cf L)) (cf_metanames cf) k = Some a \<and>
    obj_at (h_metas hp) a = Inr m \<and> mn_alias_for m = NullCell)"
proof -
  obtain a where "swish_hash_fetch (cl_ptr (pl_cf L)) (cf_metanames cf) k = Some a"
    using assms(2) by (auto simp: has_meta_def swish_hash_exists_def swish_hash_fetch_def)
  then show ?thesis using assms(1) unfolding plain_config_def by blast
qed

lemma plain_prop:
  assumes "plain_config L cf hp" and "has_prop L cf k"
  shows "SWISH_DOT \<notin> set k \<and> (\<exists>a p. swish_hash_fetch (cl_ptr (pl_cf L)) (cf_properties cf) k = Some a \<and>
    obj_at (h_props hp) a = Inr p \<and> pr_alias_for p = NullCell \<and> \<not> pr_verbatim p)"
proof -
  obtain a where "swish_hash_fetch (cl_ptr (pl_cf L)) (cf_properties cf) k = Some a"
    using assms(2) by (auto simp: has_prop_def swish_hash_exists_def swish_hash_fetch_def)
  then show ?thesis using assms(1) unfolding plain_config_def by blast
qed

definition doc_rel ::
  "('s, 'p, 'h, 'b, 'c) pd_lib \<Rightarrow> ('s, 'p) swish_Config \<Rightarrow> heap \<Rightarrow> swish_Analyzer \<Rightarrow> swish_DocInfo \<Rightarrow> ref_state \<Rightarrow>
   ('s, 'p, 'h, 'b, 'c) swish_ParserData \<Rightarrow> bool" where
  "doc_rel L cf hp an di r pd \<longleftrightarrow>
     pd_config pd = cf \<and> pd_heap pd = hp \<and> pd_analyzer pd = an \<and> pd_docinfo pd = di \<and> \<not> an_tokenize an \<and> \<not> pd_is_html pd \<and>
     tl_n (it_tl (pd_token_iterator pd)) = 0 \<and>
     pd_ignore_content pd = 0 \<and> pd_tag pd \<noteq> Freed \<and> pd_bump_word pd = r_bump r \<and>
     bufBytes (pl_buf L) (pd_meta_buf pd) = r_meta_buf r \<and> nul_free (r_meta_buf r) \<and>
     bufBytes (pl_buf L) (pd_prop_buf pd) = r_prop_buf r \<and> nul_free (r_prop_buf r) \<and>
     nb_ok (pl_nb L) (pd_metanames pd) \<and> nb_val (pl_nb L) (pd_metanames pd) = r_metas r \<and>
     nb_ok (pl_nb L) (pd_properties pd) \<and> nb_val (pl_nb L) (pd_properties pd) = r_props r \<and>
     (\<forall>k. has_prop L cf k \<longrightarrow> r_props r k \<noteq> None)"

lemma nul_free_appended: "nul_free s \<Longrightarrow> nul_free t \<Longrightarrow> nul_free (appended s [3] t)"
  by (simp add: appended_def)

lemma nul_free_bumped: "nul_free s \<Longrightarrow> nul_free t \<Longrightarrow> nul_free (add_bumped b t s)"
  by (simp add: add_bumped_def nul_free_appended)

lemma nul_free_cleaned: "nul_free s \<Longrightarrow> nul_free (cleaned s)"
  unfolding cleaned_def nul_free_append
  by (auto simp: nul_free_strip nul_free_ctrl_ws intro: nul_free_sub [OF nul_free_ctrl_ws] dest: set_takeWhileD)

lemma text_step:
  assumes "nb_lib_ok (pl_nb L)" and "doc_rel L cf hp an di r pd" and "nul_free s"
  shows "\<exists>pd'. buffer_characters L s 0 (int (length s)) pd = Inr pd' \<and> doc_rel L cf hp an di (ref_text s r) pd' \<and>
    same_stacks pd pd'"
proof -
  have B: "xml_buf_ok (pl_buf L)" using assms(1) by (simp add: nb_lib_ok_def)
  have bump: "pd_bump_word pd \<longleftrightarrow> r_bump r" using assms(2) by (simp add: doc_rel_def)
  note app = append_bumped_eq [OF B bump, of s]
  obtain m where "append_bumped (pl_buf L) (pd_bump_word pd) s 0 (int (length s)) (pd_meta_buf pd) = Inr m"
    "bufBytes (pl_buf L) m = add_bumped (r_bump r) s (r_meta_buf r)"
    using app [of "pd_meta_buf pd"] assms(2) by (auto simp: doc_rel_def)
  moreover obtain p where "append_bumped (pl_buf L) (pd_bump_word pd) s 0 (int (length s)) (pd_prop_buf pd) = Inr p"
    "bufBytes (pl_buf L) p = add_bumped (r_bump r) s (r_prop_buf r)"
    using app [of "pd_prop_buf pd"] assms(2) by (auto simp: doc_rel_def)
  ultimately show ?thesis
    using assms(2,3) by (auto simp: buffer_characters_def doc_rel_def ref_text_def nul_free_bumped same_stacks_def)
qed

lemma flush_step:
  assumes "plain_config L cf hp" and "doc_rel L cf hp an di r pd" and "has_meta L cf k"
  shows "\<exists>pd'. flush_buffer L k ctx pd = Inr pd' \<and> doc_rel L cf hp an di (ref_flush k r) pd' \<and> same_stacks pd pd'"
proof -
  have nbl: "nb_lib_ok (pl_nb L)" and B: "xml_buf_ok (pl_buf L)"
    using assms(1) by (simp_all add: plain_config_def nb_lib_ok_def)
  obtain a and m :: swish_MetaName where a: "swish_hash_fetch (cl_ptr (pl_cf L)) (cf_metanames cf) k = Some a"
    "obj_at (h_metas hp) a = Inr m" "mn_alias_for m = NullCell"
    using plain_meta [OF assms(1,3)] by blast
  have j: "nul_free SWISH_TOKENPOS_BUMPER" by (simp add: SWISH_TOKENPOS_BUMPER_def)
  note rel = assms(2)[unfolded doc_rel_def]
  have nf: "nul_free (r_meta_buf r)" using rel by blast
  have nb: "nb_ok (pl_nb L) (pd_metanames pd)" using rel by blast
  have "\<exists>nb' x. swish_nb_add_buf (pl_nb L) (pd_metanames pd) k (pd_meta_buf pd) SWISH_TOKENPOS_BUMPER False True =
      Inr (nb', x) \<and> nb_ok (pl_nb L) nb' \<and> nb_val (pl_nb L) nb' = r_metas (ref_flush k r)"
    using nb_add_str_rep(1,3) [OF nbl nb nf j, where name = k and cleanwsp = False and autovivify = True and r = "[]"]
      rel by (auto simp: swish_nb_add_buf_def xmlBufferContent_def xml_buf_laws [OF B] ref_flush_def blank_def
        store_def SWISH_TOKENPOS_BUMPER_def split: option.splits)
  then obtain nb' x where "swish_nb_add_buf (pl_nb L) (pd_metanames pd) k (pd_meta_buf pd) SWISH_TOKENPOS_BUMPER
      False True = Inr (nb', x)" "nb_ok (pl_nb L) nb'" "nb_val (pl_nb L) nb' = r_metas (ref_flush k r)" by blast
  then show ?thesis
    using assms(1) a rel
    by (auto simp: flush_buffer_def stored_as_def plain_config_def Let_def doc_rel_def same_stacks_def
        xml_buf_laws [OF B] ref_flush_def)
qed

section \<open>Properties\<close>

lemma dom_store_all: "m k \<noteq> None \<Longrightarrow> store_all ks t m k \<noteq> None"
  by (induction ks t m rule: store_all.induct) (auto simp: store_def)

definition prop_names :: "swish_Tag list \<Rightarrow> bytes list" where
  "prop_names ts = filter (\<lambda>k. k \<noteq> SWISH_DOM_STR) (map tg_baked ts)"

lemma store_one:
  assumes "nb_lib_ok N" and "nb_ok N nb" and "nul_free u" and "nb_val N nb k \<noteq> None"
  shows "\<exists>nb' u' rest'. swish_nb_add_str N nb k (u @ 0 # rest) len SWISH_TOKENPOS_BUMPER True False =
      Inr (nb', u' @ 0 # rest') \<and> nb_ok N nb' \<and> u' = (if blank u then u else cleaned u) \<and>
    nb_val N nb' = (if blank u then nb_val N nb else store k (clean u) (nb_val N nb))"
proof -
  have j: "nul_free SWISH_TOKENPOS_BUMPER" by (simp add: SWISH_TOKENPOS_BUMPER_def)
  obtain nb' m where r: "swish_nb_add_str N nb k (u @ 0 # rest) len SWISH_TOKENPOS_BUMPER True False = Inr (nb', m)"
    "nb_ok N nb'" "nb_val N nb' = (if blank u then nb_val N nb else store k (clean u) (nb_val N nb))"
    using nb_add_str_rep(1,3) [OF assms(1-3) j, where name = k and cleanwsp = True and autovivify = False and r = rest]
      assms(2,4)
    by (cases "blank u") (auto simp: blank_def store_def SWISH_TOKENPOS_BUMPER_def add_str_len [where len = len and len' = "int (length u)"])
  then show ?thesis using add_str_cleaned [OF assms(1,3) r(1)] by (auto simp: blank_def)
qed

lemma store_stack:
  assumes "xml_str_ok (pl_str L)" and "nb_lib_ok (pl_nb L)" and "nb_ok (pl_nb L) nb" and "nul_free u"
    and "list_all (\<lambda>k. nb_val (pl_nb L) nb k \<noteq> None) (prop_names ts)"
  shows "\<exists>nb' m'. fold_res (add_stacked_prop L len True) ts (nb, u @ 0 # rest) = Inr (nb', m') \<and>
    nb_ok (pl_nb L) nb' \<and> nb_val (pl_nb L) nb' = store_all (prop_names ts) u (nb_val (pl_nb L) nb)"
  using assms(3-)
proof (induction ts arbitrary: nb u rest)
  case (Cons t ts)
  show ?case
  proof (cases "tg_baked t = SWISH_DOM_STR")
    case True
    then show ?thesis
      using Cons.IH [OF Cons.prems(1,2)] Cons.prems(3)
      by (simp add: add_stacked_prop_def xml_str_laws [OF assms(1)] prop_names_def)
  next
    case False
    obtain nb1 u1 rest1 where 1: "swish_nb_add_str (pl_nb L) nb (tg_baked t) (u @ 0 # rest) len SWISH_TOKENPOS_BUMPER
        True False = Inr (nb1, u1 @ 0 # rest1)" "nb_ok (pl_nb L) nb1" "u1 = (if blank u then u else cleaned u)"
      "nb_val (pl_nb L) nb1 = (if blank u then nb_val (pl_nb L) nb else store (tg_baked t) (clean u) (nb_val (pl_nb L) nb))"
      using store_one [OF assms(2) Cons.prems(1,2), of "tg_baked t" rest len] Cons.prems(3) False
      by (auto simp: prop_names_def)
    have "nul_free u1" using 1(3) Cons.prems(2) by (simp add: nul_free_cleaned)
    moreover have "list_all (\<lambda>k. nb_val (pl_nb L) nb1 k \<noteq> None) (prop_names ts)"
      using Cons.prems(3) 1(4) by (auto simp: prop_names_def store_def list_all_iff)
    ultimately obtain nb2 m2 where "fold_res (add_stacked_prop L len True) ts (nb1, u1 @ 0 # rest1) = Inr (nb2, m2)"
      "nb_ok (pl_nb L) nb2" "nb_val (pl_nb L) nb2 = store_all (prop_names ts) u1 (nb_val (pl_nb L) nb1)"
      using Cons.IH [OF 1(2)] by blast
    moreover have "store_all (prop_names (t # ts)) u m = store_all (prop_names ts) u1
        (if blank u then m else store (tg_baked t) (clean u) m)" for m
      using False 1(3) by (simp add: prop_names_def)
    moreover have "add_stacked_prop L len True t (nb, u @ 0 # rest) = Inr (nb1, u1 @ 0 # rest1)"
      using 1(1) False by (simp add: add_stacked_prop_def xml_str_laws [OF assms(1)])
    ultimately show ?thesis using 1(4) by simp
  qed
qed (simp add: prop_names_def)

lemma props_step:
  assumes "plain_config L cf hp" and "doc_rel L cf hp an di r pd"
    and "list_all (has_prop L cf) (prop_names (st_tags (pd_propstack pd)))"
    and "\<And>k. b = Some k \<Longrightarrow> has_prop L cf k"
  defines "ks \<equiv> (case b of None \<Rightarrow> [] | Some k \<Rightarrow> [k]) @ prop_names (st_tags (pd_propstack pd))"
  shows "\<exists>pd'. add_stack_to_prop_buf L b pd = Inr pd' \<and> doc_rel L cf hp an di (ref_props ks r) pd' \<and> same_stacks pd pd'"
proof -
  let ?ts = "st_tags (pd_propstack pd)" and ?N = "pl_nb L"
  have X: "xml_str_ok (pl_str L)" and N: "nb_lib_ok ?N" and B: "xml_buf_ok (pl_buf L)"
    using assms(1) by (simp_all add: plain_config_def nb_lib_ok_def cf_lib_ok_def)
  note rel = assms(2)[unfolded doc_rel_def]
  let ?m = "r_prop_buf r @ [0]" and ?len = "int (length (r_prop_buf r))"
  have m: "xmlBufferContent (pl_buf L) (pd_prop_buf pd) = ?m" "xmlBufferLength (pl_buf L) (pd_prop_buf pd) = ?len"
    using rel by (simp_all add: xmlBufferContent_def xml_buf_laws [OF B])
  have nf: "nul_free (r_prop_buf r)" and ok: "nb_ok ?N (pd_properties pd)"
    and val: "nb_val ?N (pd_properties pd) = r_props r" and dom: "\<And>k. has_prop L cf k \<Longrightarrow> r_props r k \<noteq> None"
    using rel by auto
  have all: "list_all (\<lambda>k. f k \<noteq> None) (prop_names ?ts)" if "\<And>k. r_props r k \<noteq> None \<Longrightarrow> f k \<noteq> None" for f :: "bytes \<Rightarrow> bytes option"
    using assms(3) dom that by (simp add: list_all_iff)
  have "\<exists>nb u rest nb' m'. (case b of None \<Rightarrow> Inr (True, pd_properties pd, ?m)
      | Some name \<Rightarrow> (case swish_hash_fetch (cl_ptr (pl_cf L)) (cf_properties cf) name of
          None \<Rightarrow> Inl NullPointer
        | Some a \<Rightarrow> bnd (obj_at (h_props hp) a) (\<lambda>prop.
            bnd (stored_as (pr_alias_for prop) name) (\<lambda>prop_to_store.
            bnd (swish_nb_add_str ?N (pd_properties pd) prop_to_store ?m ?len
                   SWISH_TOKENPOS_BUMPER (\<not> pr_verbatim prop) False) (\<lambda>(nb, m).
              Inr (\<not> pr_verbatim prop, nb, m)))))) = Inr (True, nb, u @ 0 # rest) \<and>
      fold_res (add_stacked_prop L ?len True) ?ts (nb, u @ 0 # rest) = Inr (nb', m') \<and>
      nb_ok ?N nb' \<and> nb_val ?N nb' = store_all ks (r_prop_buf r) (r_props r)"
  proof (cases b)
    case None
    from store_stack [OF X N ok nf all, of ?len "[]"] show ?thesis
      by (auto simp: None val ks_def)
  next
    case (Some k)
    obtain a and p :: swish_Property where p: "swish_hash_fetch (cl_ptr (pl_cf L)) (cf_properties cf) k = Some a"
      "obj_at (h_props hp) a = Inr p" "pr_alias_for p = NullCell" "\<not> pr_verbatim p"
      using plain_prop [OF assms(1) assms(4) [OF Some]] by blast
    obtain nb1 u1 rest1 where 1: "swish_nb_add_str ?N (pd_properties pd) k ?m ?len SWISH_TOKENPOS_BUMPER True False =
        Inr (nb1, u1 @ 0 # rest1)" "nb_ok ?N nb1" "u1 = (if blank (r_prop_buf r) then r_prop_buf r else cleaned (r_prop_buf r))"
      "nb_val ?N nb1 = (if blank (r_prop_buf r) then r_props r else store k (clean (r_prop_buf r)) (r_props r))"
      using store_one [OF N ok nf, of k "[]" ?len] dom [OF assms(4) [OF Some]] by (auto simp: val)
    have "nul_free u1" using nf by (simp add: 1(3) nul_free_cleaned)
    moreover have "list_all (\<lambda>k. nb_val ?N nb1 k \<noteq> None) (prop_names ?ts)"
      by (rule all) (simp add: 1(4) store_def)
    ultimately obtain nb2 m2 where "fold_res (add_stacked_prop L ?len True) ?ts (nb1, u1 @ 0 # rest1) = Inr (nb2, m2)"
      "nb_ok ?N nb2" "nb_val ?N nb2 = store_all (prop_names ?ts) u1 (nb_val ?N nb1)"
      using store_stack [OF X N 1(2)] by blast
    moreover have "store_all ks (r_prop_buf r) (r_props r) = store_all (prop_names ?ts) u1 (nb_val ?N nb1)"
      by (simp add: ks_def Some 1(3,4))
    ultimately show ?thesis
      using 1(1) p by (auto simp: Some stored_as_def)
  qed
  then obtain nb' where "add_stack_to_prop_buf L b pd =
      Inr (pd\<lparr>pd_properties := nb', pd_prop_buf := xmlBufferEmpty (pl_buf L) (pd_prop_buf pd)\<rparr>)"
    "nb_ok ?N nb'" "nb_val ?N nb' = store_all ks (r_prop_buf r) (r_props r)"
    using rel by (auto simp: add_stack_to_prop_buf_def Let_def m)
  then show ?thesis
    using rel dom_store_all by (auto simp: doc_rel_def ref_props_def same_stacks_def xml_buf_laws [OF B])
qed

section \<open>Elements\<close>

definition tag_name :: "bytes \<Rightarrow> bool" where
  "tag_name t \<longleftrightarrow> t \<noteq> [] \<and> list_all (\<lambda>c. c \<noteq> 0 \<and> c < 0x80 \<and> c \<noteq> SWISH_DOT \<and> c \<noteq> SWISH_DOM_CHAR) t"

fun node_ok :: "node \<Rightarrow> bool" where
  "node_ok (Text s) \<longleftrightarrow> nul_free s"
| "node_ok (Elem t ns) \<longleftrightarrow> tag_name t \<and> list_all node_ok ns"

lemma bake_eq:
  assumes "plain_config L cf hp" and "doc_rel L cf hp an di r pd" and "tag_name t"
  shows "bake_tag_with el L t None None pd = Inr (Some (map tolower t), pd\<lparr>pd_bump_word := True\<rparr>)"
proof -
  have X: "xml_str_ok (pl_str L)" using assms(1) by (simp add: plain_config_def cf_lib_ok_def)
  have "nul_free t" "t \<noteq> []" "list_all (\<lambda>c. c < 0x80) t"
    using assms(3) by (auto simp: tag_name_def nul_free_def list_all_iff)
  then have name: "bake_name L t None pd = Inr (map tolower t)" by (simp add: bake_name_def tolower_eq [OF X])
  have no_alias: "tag_alias L pd' k = None" if "pd_config pd' = cf" for pd' :: "('a, 'b, 'c, 'd, 'e) swish_ParserData" and k
    using assms(1) that by (simp add: tag_alias_def plain_config_def)
  have "undefined_meta L (map tolower t) (pd\<lparr>pd_bump_word := True\<rparr>) = Inr (pd\<lparr>pd_bump_word := True\<rparr>)"
    using assms(1,2) by (cases pd) (auto simp: undefined_meta_def plain_config_def doc_rel_def)
  then show ?thesis
    using assms(2) by (simp add: bake_tag_with_def doc_rel_def name bake_alias_def no_alias flatten_eq)
qed

lemma config_tables:
  assumes "doc_rel L cf hp an di r pd"
  shows "is_metaname L pd k = has_meta L cf k" and "is_property L pd k = has_prop L cf k"
  using assms by (simp_all add: doc_rel_def is_metaname_def is_property_def has_meta_def has_prop_def)

lemma dot_in_path: "bs \<noteq> [] \<Longrightarrow> c \<in> set (path c (b # bs))"
  by (cases bs) auto

lemma context_cases:
  assumes "plain_config L cf hp"
  shows "path SWISH_DOT (b # bs) = b \<or> \<not> has_meta L cf (path SWISH_DOT (b # bs)) \<and> \<not> has_prop L cf (path SWISH_DOT (b # bs))"
  using plain_meta [OF assms] plain_prop [OF assms] dot_in_path [of bs SWISH_DOT b] by (cases "bs = []") auto

lemma open_property_step:
  assumes "plain_config L cf hp" and "doc_rel L cf hp an di r pd" and "pd_tag pd = Cell b"
    and "stack_head (pd_domstack pd) = Inr h" and "tg_context h = b \<or> \<not> has_prop L cf (tg_context h)"
    and "list_all (has_prop L cf) (prop_names (st_tags (pd_propstack pd)))"
  shows "\<exists>pd' s. open_property L t pd = Inr (pd'\<lparr>pd_propstack := s\<rparr>) \<and>
    doc_rel L cf hp an di (if has_prop L cf b then ref_props (prop_names (st_tags (pd_propstack pd))) r else r) pd' \<and>
    same_stacks pd pd' \<and>
    (if has_prop L cf b then push_tag_stack (pd_propstack pd) t b SWISH_DOM_CHAR = Inr s else s = pd_propstack pd)"
proof (cases "has_prop L cf b")
  case True
  from props_step [OF assms(1,2,6), of None] obtain pd' where pd': "add_stack_to_prop_buf L None pd = Inr pd'"
    "doc_rel L cf hp an di (ref_props (prop_names (st_tags (pd_propstack pd))) r) pd'" "same_stacks pd pd'" by auto
  moreover have "pushed_name L (tg_context h) pd' = Inr b"
    using assms(3,5) pd'(3) by (auto simp: pushed_name_def config_tables [OF pd'(2)] same_stacks_def)
  ultimately show ?thesis
    using True assms(3,4) config_tables [OF assms(2)]
    by (auto simp: open_property_def cell_is_def push_eq same_stacks_def)
next
  case False
  then have "open_property L t pd = Inr (pd\<lparr>pd_propstack := pd_propstack pd\<rparr>)"
    using assms(3-5) by (auto simp: open_property_def cell_is_def config_tables [OF assms(2)])
  with False show ?thesis using assms(2) by (intro exI [of _ pd] exI [of _ "pd_propstack pd"]) simp
qed

lemma open_metaname_step:
  assumes "plain_config L cf hp" and "doc_rel L cf hp an di r pd" and "pd_tag pd = Cell b"
    and "stack_head (pd_domstack pd) = Inr h" and "tg_context h = b \<or> \<not> has_meta L cf (tg_context h) \<and> \<not> has_prop L cf (tg_context h)"
    and "stack_head (pd_metastack pd) = Inr m" and "has_meta L cf (tg_baked m)"
  shows "\<exists>pd' s. open_metaname L t pd = Inr (pd'\<lparr>pd_metastack := s\<rparr>) \<and>
    doc_rel L cf hp an di (if has_meta L cf b then ref_flush (tg_baked m) r else r) pd' \<and> same_stacks pd pd' \<and>
    (if has_meta L cf b then push_tag_stack (pd_metastack pd) t b SWISH_DOM_CHAR = Inr s else s = pd_metastack pd)"
proof (cases "has_meta L cf b")
  case True
  from flush_step [OF assms(1,2,7)] obtain pd' where pd': "flush_buffer L (tg_baked m) (tg_context m) pd = Inr pd'"
    "doc_rel L cf hp an di (ref_flush (tg_baked m) r) pd'" "same_stacks pd pd'" by blast
  moreover have "pushed_name L (tg_context h) pd' = Inr b"
    using assms(3,5) pd'(3) by (auto simp: pushed_name_def config_tables [OF pd'(2)] same_stacks_def)
  ultimately show ?thesis
    using True assms(3,4,6) config_tables [OF assms(2)]
    by (auto simp: open_metaname_def cell_is_def push_eq same_stacks_def)
next
  case False
  then have "open_metaname L t pd = Inr (pd\<lparr>pd_metastack := pd_metastack pd\<rparr>)"
    using assms(3-5) by (auto simp: open_metaname_def cell_is_def config_tables [OF assms(2)])
  with False show ?thesis using assms(2) by (intro exI [of _ pd] exI [of _ "pd_metastack pd"]) simp
qed

text \<open>\<open>k\<close> is the innermost metaname, \<open>ks\<close> are the open properties.\<close>

definition stacks_rel ::
  "('s, 'p, 'h, 'b, 'c) pd_lib \<Rightarrow> ('s, 'p) swish_Config \<Rightarrow> bytes \<Rightarrow> bytes list \<Rightarrow>
   swish_TagStack \<Rightarrow> swish_TagStack \<Rightarrow> bool" where
  "stacks_rel L cf k ks ms ps \<longleftrightarrow>
     stack_ok SWISH_DOM_CHAR ms \<and> stack_ok SWISH_DOM_CHAR ps \<and>
     (\<exists>m ts. st_tags ms = m # ts \<and> tg_baked m = k \<and> has_meta L cf k \<and> has_meta L cf (map tolower (tg_raw m))) \<and>
     (\<exists>p ts. st_tags ps = p # ts \<and> (has_prop L cf (map tolower (tg_raw p)) \<or> tg_raw p = SWISH_DOM_STR)) \<and>
     ks = prop_names (st_tags ps) \<and> list_all (has_prop L cf) ks"

lemma doc_rel_stacks [simp]:
  "doc_rel L cf hp an di r (pd\<lparr>pd_metastack := s\<rparr>) = doc_rel L cf hp an di r pd"
  "doc_rel L cf hp an di r (pd\<lparr>pd_propstack := s\<rparr>) = doc_rel L cf hp an di r pd"
  "doc_rel L cf hp an di r (pd\<lparr>pd_domstack := s\<rparr>) = doc_rel L cf hp an di r pd"
  by (simp_all add: doc_rel_def)

lemma doc_rel_tag: "doc_rel L cf hp an di r pd \<Longrightarrow> c \<noteq> Freed \<Longrightarrow> doc_rel L cf hp an di r (pd\<lparr>pd_tag := c\<rparr>)"
  by (simp add: doc_rel_def)

definition ref_open ::
  "(bytes \<Rightarrow> bool) \<Rightarrow> (bytes \<Rightarrow> bool) \<Rightarrow> bytes \<Rightarrow> bytes list \<Rightarrow> bytes \<Rightarrow> ref_state \<Rightarrow> ref_state" where
  "ref_open M P k ks b r =
     (let r = r\<lparr>r_bump := True\<rparr>; r = (if P b then ref_props ks r else r) in if M b then ref_flush k r else r)"

definition ref_close ::
  "(bytes \<Rightarrow> bool) \<Rightarrow> (bytes \<Rightarrow> bool) \<Rightarrow> bytes list \<Rightarrow> bytes \<Rightarrow> ref_state \<Rightarrow> ref_state" where
  "ref_close M P ks b r =
     (let r = r\<lparr>r_bump := True\<rparr>; r = (if P b then ref_props (b # ks) r else r) in if M b then ref_flush b r else r)"

lemma free_tag_step: "doc_rel L cf hp an di r pd \<Longrightarrow> free_tag pd = Inr (pd\<lparr>pd_tag := NullCell\<rparr>)"
  by (cases "pd_tag pd") (auto simp: free_tag_def free_cell_def doc_rel_def)

lemma open_step:
  assumes P: "plain_config L cf hp" and R: "doc_rel L cf hp an di r pd" and S: "stacks_rel L cf k ks (pd_metastack pd) (pd_propstack pd)"
    and t: "tag_name t" and b: "b = map tolower t"
  shows "\<exists>pd'. open_tag_with el L t None None pd = Inr pd' \<and>
    doc_rel L cf hp an di (ref_open (has_meta L cf) (has_prop L cf) k ks b r) pd' \<and>
    push_tag_stack (pd_domstack pd) t b SWISH_DOT = Inr (pd_domstack pd') \<and>
    (if has_prop L cf b then push_tag_stack (pd_propstack pd) t b SWISH_DOM_CHAR = Inr (pd_propstack pd')
     else pd_propstack pd' = pd_propstack pd) \<and>
    (if has_meta L cf b then push_tag_stack (pd_metastack pd) t b SWISH_DOM_CHAR = Inr (pd_metastack pd')
     else pd_metastack pd' = pd_metastack pd)"
proof -
  define r1 where "r1 = r\<lparr>r_bump := True\<rparr>"
  obtain d where d: "push_tag_stack (pd_domstack pd) t b SWISH_DOT = Inr d" by (simp add: push_eq)
  obtain h where h: "stack_head d = Inr h" "tg_context h = path SWISH_DOT (b # map tg_baked (st_tags (pd_domstack pd)))"
    using d by (auto simp: push_eq stack_head_def)
  obtain m where m: "stack_head (pd_metastack pd) = Inr m" "tg_baked m = k" "has_meta L cf k"
    using S by (auto simp: stacks_rel_def stack_head_def)
  have ks: "ks = prop_names (st_tags (pd_propstack pd))" "list_all (has_prop L cf) ks"
    using S unfolding stacks_rel_def by blast+
  let ?pd = "pd\<lparr>pd_bump_word := True, pd_tag := Cell b, pd_domstack := d\<rparr>"
  have R1: "doc_rel L cf hp an di r1 ?pd" using R by (simp add: doc_rel_def r1_def)
  have ctx: "tg_context h = b \<or> \<not> has_meta L cf (tg_context h) \<and> \<not> has_prop L cf (tg_context h)"
    unfolding h(2) by (rule context_cases [OF P])
  obtain pd2 s2 where 2: "open_property L t ?pd = Inr (pd2\<lparr>pd_propstack := s2\<rparr>)"
    "doc_rel L cf hp an di (if has_prop L cf b then ref_props ks r1 else r1) pd2" "same_stacks ?pd pd2"
    "if has_prop L cf b then push_tag_stack (pd_propstack pd) t b SWISH_DOM_CHAR = Inr s2 else s2 = pd_propstack pd"
    using open_property_step [OF P R1, of b h t] h(1) ctx ks by (cases "has_prop L cf b") auto
  let ?pd2 = "pd2\<lparr>pd_propstack := s2\<rparr>"
  obtain pd3 s3 where 3: "open_metaname L t ?pd2 = Inr (pd3\<lparr>pd_metastack := s3\<rparr>)"
    "doc_rel L cf hp an di (ref_open (has_meta L cf) (has_prop L cf) k ks b r) pd3" "same_stacks ?pd2 pd3"
    "if has_meta L cf b then push_tag_stack (pd_metastack pd) t b SWISH_DOM_CHAR = Inr s3 else s3 = pd_metastack pd"
  proof -
    let ?r2 = "if has_prop L cf b then ref_props ks r1 else r1"
    have same: "pd_metastack ?pd2 = pd_metastack pd" "pd_domstack ?pd2 = d" "pd_tag ?pd2 = Cell b"
      using 2(3) by (auto simp: same_stacks_def)
    have R2: "doc_rel L cf hp an di ?r2 ?pd2" using 2(2) by simp
    have "ref_open (has_meta L cf) (has_prop L cf) k ks b r = (if has_meta L cf b then ref_flush k ?r2 else ?r2)"
      by (simp add: ref_open_def Let_def r1_def)
    with open_metaname_step [OF P R2, of b h m t] same h(1) ctx m that show thesis
      by (cases "has_meta L cf b") auto
  qed
  have "open_tag_with el L t None None pd = Inr (pd3\<lparr>pd_metastack := s3\<rparr>)"
    using bake_eq [OF P doc_rel_tag [OF R, of NullCell] t, of el] d 2(1) 3(1)
    by (simp add: open_tag_with_def free_tag_step [OF R] b)
  then show ?thesis
    using 3(2,3,4) 2(3,4) d by (intro exI [of _ "pd3\<lparr>pd_metastack := s3\<rparr>"]) (auto simp: same_stacks_def)
qed

lemma push_pop:
  assumes "push_tag_stack s raw baked c = Inr s'" and "stack_ok c s"
  shows "\<exists>t. st_tags s' = t # st_tags s \<and> tg_raw t = raw \<and> tg_baked t = baked \<and> pop_tag_stack s' = (Some t, s)"
  using assms by (cases s) (auto simp: push_eq pop_tag_stack_def stack_ok_def)

lemma pop_pushed:
  assumes "xml_str_ok X" and "push_tag_stack s raw baked c = Inr s'" and "stack_ok c s"
  shows "\<exists>t. pop_tag_stack_on_match X s' raw = Inr (Some t, s) \<and> tg_baked t = baked"
  using push_pop [OF assms(2,3)] by (auto simp: pop_tag_stack_on_match_def xml_str_laws [OF assms(1)])

lemma pop_other:
  assumes "xml_str_ok X" and "st_tags s = t # ts" and "tg_raw t \<noteq> raw"
  shows "pop_tag_stack_on_match X s raw = Inr (None, s)"
  using assms by (simp add: pop_tag_stack_on_match_def xml_str_laws [OF assms(1)])

lemma close_property_step:
  assumes P: "plain_config L cf hp" and R: "doc_rel L cf hp an di r pd" and S: "stacks_rel L cf k ks ms ps"
    and t: "tag_name t" and b: "b = map tolower t"
    and pushed: "if has_prop L cf b then push_tag_stack ps t b SWISH_DOM_CHAR = Inr (pd_propstack pd) else pd_propstack pd = ps"
  shows "\<exists>pd'. close_property L t pd = Inr pd' \<and> pd_propstack pd' = ps \<and>
    doc_rel L cf hp an di (if has_prop L cf b then ref_props (b # ks) r else r) pd' \<and> pd_tag pd' = pd_tag pd \<and>
    pd_metastack pd' = pd_metastack pd \<and> pd_domstack pd' = pd_domstack pd"
proof (cases "has_prop L cf b")
  case True
  have X: "xml_str_ok (pl_str L)" using P by (simp add: plain_config_def cf_lib_ok_def)
  obtain u where u: "pop_tag_stack_on_match (pl_str L) (pd_propstack pd) t = Inr (Some u, ps)" "tg_baked u = b"
    using pop_pushed [OF X, of ps t b] pushed True S by (auto simp: stacks_rel_def)
  have ks: "ks = prop_names (st_tags ps)" "list_all (has_prop L cf) ks"
    using S unfolding stacks_rel_def by blast+
  from props_step [OF P, of an di r "pd\<lparr>pd_propstack := ps\<rparr>" "Some b"] obtain pd' where
    "add_stack_to_prop_buf L (Some b) (pd\<lparr>pd_propstack := ps\<rparr>) = Inr pd'"
    "doc_rel L cf hp an di (ref_props (b # ks) r) pd'" "same_stacks (pd\<lparr>pd_propstack := ps\<rparr>) pd'"
    using R True ks by auto
  with u True show ?thesis by (auto simp: close_property_def same_stacks_def)
next
  case False
  have X: "xml_str_ok (pl_str L)" using P by (simp add: plain_config_def cf_lib_ok_def)
  obtain p ts where "st_tags ps = p # ts" "has_prop L cf (map tolower (tg_raw p)) \<or> tg_raw p = SWISH_DOM_STR"
    using S by (auto simp: stacks_rel_def)
  moreover from this have "tg_raw p \<noteq> t"
    using False t by (auto simp: b tag_name_def SWISH_DOM_STR_def SWISH_DOM_CHAR_def)
  ultimately show ?thesis
    using pop_other [OF X, of ps p ts t] pushed False R by (auto simp: close_property_def)
qed

lemma close_metaname_step:
  assumes P: "plain_config L cf hp" and R: "doc_rel L cf hp an di r pd" and S: "stacks_rel L cf k ks ms ps"
    and b: "b = map tolower t"
    and pushed: "if has_meta L cf b then push_tag_stack ms t b SWISH_DOM_CHAR = Inr (pd_metastack pd) else pd_metastack pd = ms"
  shows "\<exists>pd'. close_metaname L t pd = Inr pd' \<and> pd_metastack pd' = ms \<and>
    doc_rel L cf hp an di (if has_meta L cf b then ref_flush b r else r) pd' \<and> pd_tag pd' = pd_tag pd \<and>
    pd_propstack pd' = pd_propstack pd \<and> pd_domstack pd' = pd_domstack pd"
proof (cases "has_meta L cf b")
  case True
  have X: "xml_str_ok (pl_str L)" using P by (simp add: plain_config_def cf_lib_ok_def)
  obtain u where u: "pop_tag_stack_on_match (pl_str L) (pd_metastack pd) t = Inr (Some u, ms)" "tg_baked u = b"
    using pop_pushed [OF X, of ms t b] pushed True S by (auto simp: stacks_rel_def)
  from flush_step [OF P, of an di r "pd\<lparr>pd_metastack := ms\<rparr>" b "tg_context u"] obtain pd' where
    "flush_buffer L b (tg_context u) (pd\<lparr>pd_metastack := ms\<rparr>) = Inr pd'"
    "doc_rel L cf hp an di (ref_flush b r) pd'" "same_stacks (pd\<lparr>pd_metastack := ms\<rparr>) pd'"
    using R True by auto
  with u True show ?thesis by (auto simp: close_metaname_def same_stacks_def)
next
  case False
  have X: "xml_str_ok (pl_str L)" using P by (simp add: plain_config_def cf_lib_ok_def)
  obtain m ts where "st_tags ms = m # ts" "has_meta L cf (map tolower (tg_raw m))"
    using S by (auto simp: stacks_rel_def)
  moreover from this have "tg_raw m \<noteq> t" using False by (auto simp: b)
  ultimately have "pop_tag_stack_on_match (pl_str L) (pd_metastack pd) t = Inr (None, ms)"
    using pop_other [OF X, of ms m ts t] pushed False by simp
  moreover have "pd_metastack pd = ms" using pushed False by simp
  ultimately show ?thesis
    using False R by (cases pd) (auto simp: close_metaname_def)
qed

lemma close_step:
  assumes P: "plain_config L cf hp" and R: "doc_rel L cf hp an di r pd" and S: "stacks_rel L cf k ks ms ps"
    and t: "tag_name t" and b: "b = map tolower t"
    and pdom: "push_tag_stack ds t b SWISH_DOT = Inr (pd_domstack pd)" "stack_ok SWISH_DOT ds"
    and pprop: "if has_prop L cf b then push_tag_stack ps t b SWISH_DOM_CHAR = Inr (pd_propstack pd) else pd_propstack pd = ps"
    and pmeta: "if has_meta L cf b then push_tag_stack ms t b SWISH_DOM_CHAR = Inr (pd_metastack pd) else pd_metastack pd = ms"
  shows "\<exists>pd'. close_tag L t None pd = Inr pd' \<and>
    doc_rel L cf hp an di (ref_close (has_meta L cf) (has_prop L cf) ks b r) pd' \<and>
    pd_metastack pd' = ms \<and> pd_propstack pd' = ps \<and> pd_domstack pd' = ds"
proof -
  define r1 where "r1 = r\<lparr>r_bump := True\<rparr>"
  let ?pd = "pd\<lparr>pd_bump_word := True, pd_tag := Cell b\<rparr>"
  have R1: "doc_rel L cf hp an di r1 ?pd" using R by (simp add: doc_rel_def r1_def)
  obtain pd2 where 2: "close_property L t ?pd = Inr pd2" "pd_propstack pd2 = ps"
    "doc_rel L cf hp an di (if has_prop L cf b then ref_props (b # ks) r1 else r1) pd2"
    "pd_metastack pd2 = pd_metastack pd" "pd_domstack pd2 = pd_domstack pd"
    using close_property_step [OF P R1 S t b] pprop by (cases "has_prop L cf b") auto
  obtain pd3 where 3: "close_metaname L t pd2 = Inr pd3" "pd_metastack pd3 = ms" "pd_propstack pd3 = ps"
    "doc_rel L cf hp an di (ref_close (has_meta L cf) (has_prop L cf) ks b r) pd3" "pd_domstack pd3 = pd_domstack pd"
  proof -
    let ?r2 = "if has_prop L cf b then ref_props (b # ks) r1 else r1"
    have "ref_close (has_meta L cf) (has_prop L cf) ks b r = (if has_meta L cf b then ref_flush b ?r2 else ?r2)"
      by (simp add: ref_close_def Let_def r1_def)
    with close_metaname_step [OF P 2(3) S b] pmeta 2(2,4,5) that show thesis
      by (cases "has_meta L cf b") auto
  qed
  have "close_element pd3 = Inr (pd3\<lparr>pd_domstack := ds\<rparr>)"
    using push_pop [OF pdom] by (auto simp: close_element_def 3(5))
  then have "close_tag L t None pd = Inr (pd3\<lparr>pd_domstack := ds\<rparr>)"
    using bake_eq [OF P doc_rel_tag [OF R, of NullCell] t, of no_inner] 2(1) 3(1)
    by (simp add: close_tag_def free_tag_step [OF R] b)
  then show ?thesis using 3(2-4) by auto
qed

section \<open>Documents\<close>

lemma run_events_append:
  "run_events incl L (es @ fs) pd = bnd (run_events incl L es pd) (run_events incl L fs)"
  by (simp add: run_events_def fold_res_append [of _ es fs] fun_eq_iff)

lemma run_events_simps [simp]:
  "run_events incl L [] = Inr"
  "run_events incl L (e # es) pd = bnd (sax_callback incl L e pd) (run_events incl L es)"
  by (simp_all add: run_events_def fun_eq_iff)

lemma tolower_slash [simp]: "tolower c = 0x2F \<longleftrightarrow> c = 0x2F"
proof -
  have "unat (tolower c) = 47 \<longleftrightarrow> unat c = 47" by (simp add: unat_tolower)
  then show ?thesis by (simp add: unat_arith_simps(3))
qed

lemma stacks_rel_open:
  assumes "stacks_rel L cf k ks ms ps" and "tag_name t" and "b = map tolower t"
    and "if has_prop L cf b then push_tag_stack ps t b SWISH_DOM_CHAR = Inr ps' else ps' = ps"
    and "if has_meta L cf b then push_tag_stack ms t b SWISH_DOM_CHAR = Inr ms' else ms' = ms"
  shows "stacks_rel L cf (if has_meta L cf b then b else k) (if has_prop L cf b then b # ks else ks) ms' ps'"
proof -
  have "b \<noteq> SWISH_DOM_STR"
    using assms(2,3) by (auto simp: tag_name_def SWISH_DOM_STR_def SWISH_DOM_CHAR_def)
  with assms show ?thesis
    by (auto simp: stacks_rel_def push_eq push_stack_ok prop_names_def split: if_splits
        intro: push_stack_ok)
qed

lemma start_element: "sax_callback incl L (StartElementNs t None None []) pd = open_tag L t None None pd"
  by (simp add: mystartElementNs_def ns_atts_def check_xinclude_def xmlStrEqual_def Let_def)

lemma ref_node_elem:
  "ref_node M P k ks (Elem t ns) r =
     ref_close M P ks (map tolower t)
       (fold (ref_node M P (if M (map tolower t) then map tolower t else k)
                (if P (map tolower t) then map tolower t # ks else ks)) ns
          (ref_open M P k ks (map tolower t) r))"
  by (simp add: ref_open_def ref_close_def Let_def)

declare ref_node.simps(2) [simp del]

lemma nodes_run:
  assumes "\<And>n r pd. n \<in> set ns \<Longrightarrow> node_ok n \<Longrightarrow> doc_rel L cf hp an di r pd \<Longrightarrow> pd_metastack pd = ms \<Longrightarrow> pd_propstack pd = ps \<Longrightarrow>
      pd_domstack pd = ds \<Longrightarrow> \<exists>pd'. run_events incl L (events n) pd = Inr pd' \<and> doc_rel L cf hp an di (f n r) pd' \<and>
      pd_metastack pd' = ms \<and> pd_propstack pd' = ps \<and> pd_domstack pd' = ds"
    and "list_all node_ok ns" and "doc_rel L cf hp an di r pd"
    and "pd_metastack pd = ms" and "pd_propstack pd = ps" and "pd_domstack pd = ds"
  shows "\<exists>pd'. run_events incl L (concat (map events ns)) pd = Inr pd' \<and> doc_rel L cf hp an di (fold f ns r) pd' \<and>
    pd_metastack pd' = ms \<and> pd_propstack pd' = ps \<and> pd_domstack pd' = ds"
  using assms
proof (induction ns arbitrary: r pd)
  case (Cons n ns)
  obtain pd1 where "run_events incl L (events n) pd = Inr pd1" "doc_rel L cf hp an di (f n r) pd1"
      "pd_metastack pd1 = ms" "pd_propstack pd1 = ps" "pd_domstack pd1 = ds"
    using Cons.prems(1) [of n r pd] Cons.prems(2-) by auto
  moreover from this obtain pd2 where "run_events incl L (concat (map events ns)) pd1 = Inr pd2"
      "doc_rel L cf hp an di (fold f ns (f n r)) pd2" "pd_metastack pd2 = ms" "pd_propstack pd2 = ps" "pd_domstack pd2 = ds"
    using Cons.IH [of "f n r" pd1] Cons.prems(1,2) by auto
  ultimately show ?case by (simp add: run_events_append)
qed simp

lemma node_run:
  assumes P: "plain_config L cf hp"
  shows "node_ok n \<Longrightarrow> doc_rel L cf hp an di r pd \<Longrightarrow> stacks_rel L cf k ks (pd_metastack pd) (pd_propstack pd) \<Longrightarrow>
    stack_ok SWISH_DOT (pd_domstack pd) \<Longrightarrow>
    \<exists>pd'. run_events incl L (events n) pd = Inr pd' \<and>
      doc_rel L cf hp an di (ref_node (has_meta L cf) (has_prop L cf) k ks n r) pd' \<and>
      pd_metastack pd' = pd_metastack pd \<and> pd_propstack pd' = pd_propstack pd \<and> pd_domstack pd' = pd_domstack pd"
proof (induction n arbitrary: r pd k ks)
  case (Text s)
  have "nb_lib_ok (pl_nb L)" using P by (simp add: plain_config_def)
  then obtain pd' where "buffer_characters L s 0 (int (length s)) pd = Inr pd'"
    "doc_rel L cf hp an di (ref_text s r) pd'" "same_stacks pd pd'"
    using text_step [OF _ Text.prems(2)] Text.prems(1) by auto
  then show ?case by (auto simp: same_stacks_def)
next
  case (Elem t ns)
  define b where "b = map tolower t"
  have t: "tag_name t" using Elem.prems(1) by simp
  obtain pd1 where 1: "open_tag L t None None pd = Inr pd1"
    "doc_rel L cf hp an di (ref_open (has_meta L cf) (has_prop L cf) k ks b r) pd1"
    "push_tag_stack (pd_domstack pd) t b SWISH_DOT = Inr (pd_domstack pd1)"
    "if has_prop L cf b then push_tag_stack (pd_propstack pd) t b SWISH_DOM_CHAR = Inr (pd_propstack pd1)
     else pd_propstack pd1 = pd_propstack pd"
    "if has_meta L cf b then push_tag_stack (pd_metastack pd) t b SWISH_DOM_CHAR = Inr (pd_metastack pd1)
     else pd_metastack pd1 = pd_metastack pd"
    using open_step [OF P Elem.prems(2,3) t b_def] by (auto simp: open_tag_def)
  define k' where "k' = (if has_meta L cf b then b else k)"
  define ks' where "ks' = (if has_prop L cf b then b # ks else ks)"
  have S1: "stacks_rel L cf k' ks' (pd_metastack pd1) (pd_propstack pd1)"
    using stacks_rel_open [OF Elem.prems(3) t b_def 1(4,5)] by (simp add: k'_def ks'_def)
  have D1: "stack_ok SWISH_DOT (pd_domstack pd1)"
    using push_stack_ok [OF Elem.prems(4) 1(3)] .
  let ?f = "ref_node (has_meta L cf) (has_prop L cf) k' ks'"
  have "\<exists>pd2. run_events incl L (concat (map events ns)) pd1 = Inr pd2 \<and>
    doc_rel L cf hp an di (fold ?f ns (ref_open (has_meta L cf) (has_prop L cf) k ks b r)) pd2 \<and>
    pd_metastack pd2 = pd_metastack pd1 \<and> pd_propstack pd2 = pd_propstack pd1 \<and> pd_domstack pd2 = pd_domstack pd1"
  proof (rule nodes_run [OF _ _ 1(2)])
    fix n r and pda :: "('a, 'b, 'c, 'd, 'e) swish_ParserData"
    assume "n \<in> set ns" "node_ok n" "doc_rel L cf hp an di r pda" "pd_metastack pda = pd_metastack pd1"
      "pd_propstack pda = pd_propstack pd1" "pd_domstack pda = pd_domstack pd1"
    then show "\<exists>pd'. run_events incl L (events n) pda = Inr pd' \<and> doc_rel L cf hp an di (?f n r) pd' \<and>
        pd_metastack pd' = pd_metastack pd1 \<and> pd_propstack pd' = pd_propstack pd1 \<and> pd_domstack pd' = pd_domstack pd1"
      using Elem.IH [of n r pda k' ks'] S1 D1 by simp
  qed (use Elem.prems(1) in simp_all)
  then obtain pd2 where 2: "run_events incl L (concat (map events ns)) pd1 = Inr pd2"
    "doc_rel L cf hp an di (fold ?f ns (ref_open (has_meta L cf) (has_prop L cf) k ks b r)) pd2"
    "pd_metastack pd2 = pd_metastack pd1" "pd_propstack pd2 = pd_propstack pd1" "pd_domstack pd2 = pd_domstack pd1"
    by blast
  obtain pd3 where 3: "close_tag L t None pd2 = Inr pd3"
    "doc_rel L cf hp an di (ref_node (has_meta L cf) (has_prop L cf) k ks (Elem t ns) r) pd3"
    "pd_metastack pd3 = pd_metastack pd" "pd_propstack pd3 = pd_propstack pd" "pd_domstack pd3 = pd_domstack pd"
  proof -
    have "ref_node (has_meta L cf) (has_prop L cf) k ks (Elem t ns) r =
        ref_close (has_meta L cf) (has_prop L cf) ks b
          (fold ?f ns (ref_open (has_meta L cf) (has_prop L cf) k ks b r))"
      by (simp add: ref_node_elem b_def k'_def ks'_def)
    moreover have "push_tag_stack (pd_domstack pd) t b SWISH_DOT = Inr (pd_domstack pd2)"
      "if has_prop L cf b then push_tag_stack (pd_propstack pd) t b SWISH_DOM_CHAR = Inr (pd_propstack pd2)
       else pd_propstack pd2 = pd_propstack pd"
      "if has_meta L cf b then push_tag_stack (pd_metastack pd) t b SWISH_DOM_CHAR = Inr (pd_metastack pd2)
       else pd_metastack pd2 = pd_metastack pd"
      using 1(3-5) by (simp_all only: 2(3-5))
    ultimately show thesis
      using close_step [OF P 2(2) Elem.prems(3) t b_def, of "pd_domstack pd"] Elem.prems(4) that by auto
  qed
  have "run_events incl L (events (Elem t ns)) pd = Inr pd3"
    using 1(1) 2(1) 3(1) start_element [of incl L t pd] by (simp add: run_events_append)
  with 3 show ?case by blast
qed

definition ref_document ::
  "(bytes \<Rightarrow> bool) \<Rightarrow> (bytes \<Rightarrow> bool) \<Rightarrow> node list \<Rightarrow> ref_state" where
  "ref_document M P ns =
     ref_flush SWISH_DEFAULT_METANAME
       (fold (ref_node M P SWISH_DEFAULT_METANAME []) ns
          \<lparr>r_meta_buf = [], r_prop_buf = [], r_bump = True,
           r_metas = (\<lambda>k. if M k then Some [] else None), r_props = (\<lambda>k. if P k then Some [] else None)\<rparr>)"

definition document_events :: "node list \<Rightarrow> sax_event list" where
  "document_events ns = StartDocument # concat (map events ns) @ [EndDocument]"

lemma table_names:
  assumes "xml_hash_ok H"
  shows "k \<in> set (map fst (xmlHashEntries H t)) \<longleftrightarrow> swish_hash_exists H t k"
proof -
  have "xmlHashLookup H t = map_of (xmlHashEntries H t)" using xml_hash_laws(8) [OF assms] by simp
  then show ?thesis by (simp add: swish_hash_exists_def map_of_eq_None_iff)
qed

lemma nb_refs [simp]:
  "nb_ok L (nb\<lparr>nb_ref_cnt := n\<rparr>) = nb_ok L nb" "nb_val L (nb\<lparr>nb_ref_cnt := n\<rparr>) = nb_val L nb"
  by (simp_all add: nb_ok_def nb_val_def nb_addr_def fun_eq_iff)

lemma init_step:
  assumes "plain_config L cf hp" and "tk_ok (pl_tk L)" and "has_meta L cf SWISH_DEFAULT_METANAME" and "\<not> an_tokenize a"
  shows "\<exists>pd. init_parser_data L cf hp a d = Inr pd \<and>
    doc_rel L cf hp (a\<lparr>an_ref_cnt := an_ref_cnt a + 1\<rparr>) d \<lparr>r_meta_buf = [], r_prop_buf = [], r_bump = True,
           r_metas = (\<lambda>k. if has_meta L cf k then Some [] else None),
           r_props = (\<lambda>k. if has_prop L cf k then Some [] else None)\<rparr> pd \<and>
    stacks_rel L cf SWISH_DEFAULT_METANAME [] (pd_metastack pd) (pd_propstack pd) \<and> pd_domstack pd = empty_stack"
proof -
  have nbl: "nb_lib_ok (pl_nb L)" and H: "xml_hash_ok (cl_ptr (pl_cf L))" and B: "xml_buf_ok (pl_buf L)"
    using assms(1) by (simp_all add: plain_config_def nb_lib_ok_def cf_lib_ok_def)
  obtain tks where tks: "swish_token_list_init (pl_tk L) = Inr tks" "tl_n tks = 0"
    using token_list_init_rep [OF assms(2)] by (auto simp: tokens_rep_def)
  let ?names = "\<lambda>t. map fst (xmlHashEntries (cl_ptr (pl_cf L)) t)"
  obtain props where props: "swish_nb_init (pl_nb L) (?names (cf_properties cf)) = Inr props" "nb_ok (pl_nb L) props"
    "nb_val (pl_nb L) props = (\<lambda>k. if has_prop L cf k then Some [] else None)"
    using init_rep [OF nbl, of "?names (cf_properties cf)"] unfolding table_names [OF H] has_prop_def by blast
  obtain metas where metas: "swish_nb_init (pl_nb L) (?names (cf_metanames cf)) = Inr metas" "nb_ok (pl_nb L) metas"
    "nb_val (pl_nb L) metas = (\<lambda>k. if has_meta L cf k then Some [] else None)"
    using init_rep [OF nbl, of "?names (cf_metanames cf)"] unfolding table_names [OF H] has_meta_def by blast
  have low: "map tolower SWISH_DEFAULT_METANAME = SWISH_DEFAULT_METANAME"
    by code_simp
  show ?thesis
    using assms(3,4) props(2,3) metas(2,3)
    by (auto simp: init_parser_data_def swish_token_iterator_init_def tks(1,2) props(1) metas(1) push_eq stacks_rel_def
      doc_rel_def xml_buf_laws [OF B] prop_names_def low stack_ok_def empty_stack_def)
qed


text \<open>The parser state after the callbacks of a whole document.\<close>

lemma document_run:
  assumes "plain_config L cf hp" and "tk_ok (pl_tk L)" and "has_meta L cf SWISH_DEFAULT_METANAME"
    and "\<not> an_tokenize a" and "list_all node_ok ns" and "init_parser_data L cf hp a d = Inr pd"
  shows "\<exists>pd'. run_events incl L (document_events ns) (pd\<lparr>pd_docinfo := d'\<rparr>) = Inr pd' \<and>
    doc_rel L cf hp (a\<lparr>an_ref_cnt := an_ref_cnt a + 1\<rparr>) d' (ref_document (has_meta L cf) (has_prop L cf) ns) pd' \<and>
    pd_metastack pd' = pd_metastack pd \<and> pd_propstack pd' = pd_propstack pd \<and> pd_domstack pd' = empty_stack"
proof -
  note P = assms(1)
  let ?an = "a\<lparr>an_ref_cnt := an_ref_cnt a + 1\<rparr>"
  let ?r0 = "\<lparr>r_meta_buf = [], r_prop_buf = [], r_bump = True,
           r_metas = (\<lambda>k. if has_meta L cf k then Some [] else None),
           r_props = (\<lambda>k. if has_prop L cf k then Some [] else None)\<rparr>"
  let ?f = "ref_node (has_meta L cf) (has_prop L cf) SWISH_DEFAULT_METANAME []"
  let ?pd = "pd\<lparr>pd_docinfo := d'\<rparr>"
  have 0: "doc_rel L cf hp ?an d' ?r0 ?pd"
    "stacks_rel L cf SWISH_DEFAULT_METANAME [] (pd_metastack pd) (pd_propstack pd)" "pd_domstack pd = empty_stack"
    using init_step [OF assms(1-4), of d] assms(6) by (auto simp: doc_rel_def)
  have "\<exists>pd1. run_events incl L (concat (map events ns)) ?pd = Inr pd1 \<and> doc_rel L cf hp ?an d' (fold ?f ns ?r0) pd1 \<and>
    pd_metastack pd1 = pd_metastack pd \<and> pd_propstack pd1 = pd_propstack pd \<and> pd_domstack pd1 = pd_domstack pd"
  proof (rule nodes_run [OF _ assms(5) 0(1)])
    fix n r and pda :: "('a, 'b, 'c, 'd, 'e) swish_ParserData"
    assume "node_ok n" "doc_rel L cf hp ?an d' r pda" "pd_metastack pda = pd_metastack pd"
      "pd_propstack pda = pd_propstack pd" "pd_domstack pda = pd_domstack pd"
    then show "\<exists>pd'. run_events incl L (events n) pda = Inr pd' \<and> doc_rel L cf hp ?an d' (?f n r) pd' \<and>
        pd_metastack pd' = pd_metastack pd \<and> pd_propstack pd' = pd_propstack pd \<and> pd_domstack pd' = pd_domstack pd"
      using node_run [OF P, of n ?an d' r pda SWISH_DEFAULT_METANAME "[]" incl] 0(2,3) by simp
  qed simp_all
  then obtain pd1 where 1: "run_events incl L (concat (map events ns)) ?pd = Inr pd1" "doc_rel L cf hp ?an d' (fold ?f ns ?r0) pd1"
    "pd_metastack pd1 = pd_metastack pd" "pd_propstack pd1 = pd_propstack pd" "pd_domstack pd1 = pd_domstack pd" by blast
  obtain pd2 where 2: "flush_buffer L SWISH_DEFAULT_METANAME SWISH_DEFAULT_METANAME pd1 = Inr pd2"
    "doc_rel L cf hp ?an d' (ref_document (has_meta L cf) (has_prop L cf) ns) pd2" "same_stacks pd1 pd2"
    using flush_step [OF P 1(2) assms(3)] unfolding ref_document_def by blast
  have "run_events incl L (document_events ns) ?pd = Inr pd2"
    using 1(1) 2(1) by (simp add: document_events_def run_events_append myendDocument_def)
  with 2 1(3-5) 0(3) show ?thesis by (auto simp: same_stacks_def)
qed

text \<open>
  C1: parsing a document is what its tree says it is. For every list of trees whose elements
  have simple ASCII names, in a configuration whose metanames and properties have simple names
  and no aliases and whose unknown tags are indexed, the callbacks of the whole document, from
  a fresh parser state, end without an error or a fault, all stacks are back where they were,
  and each named buffer holds what the reference computes by recursion over the tree:
  a metaname has the texts inside it that are in no inner metaname, a property all texts
  inside it, joined by the token bumper where an element begins or ends.
\<close>

theorem document_indexed_as_its_tree:
  assumes "plain_config L cf hp" and "tk_ok (pl_tk L)" and "has_meta L cf SWISH_DEFAULT_METANAME"
    and "\<not> an_tokenize a" and "list_all node_ok ns"
  shows "\<exists>pd pd'. init_parser_data L cf hp a d = Inr pd \<and>
    run_events incl L (document_events ns) pd = Inr pd' \<and>
    pd_metastack pd' = pd_metastack pd \<and> pd_propstack pd' = pd_propstack pd \<and> pd_domstack pd' = empty_stack \<and>
    nb_val (pl_nb L) (pd_metanames pd') = r_metas (ref_document (has_meta L cf) (has_prop L cf) ns) \<and>
    nb_val (pl_nb L) (pd_properties pd') = r_props (ref_document (has_meta L cf) (has_prop L cf) ns)"
proof -
  obtain pd where 0: "init_parser_data L cf hp a d = Inr pd" using init_step [OF assms(1-4)] by blast
  obtain pd' where "run_events incl L (document_events ns) (pd\<lparr>pd_docinfo := pd_docinfo pd\<rparr>) = Inr pd'"
    "doc_rel L cf hp (a\<lparr>an_ref_cnt := an_ref_cnt a + 1\<rparr>) (pd_docinfo pd) (ref_document (has_meta L cf) (has_prop L cf) ns) pd'"
    "pd_metastack pd' = pd_metastack pd" "pd_propstack pd' = pd_propstack pd" "pd_domstack pd' = empty_stack"
    using document_run [OF assms 0] by blast
  with 0 show ?thesis unfolding doc_rel_def by (intro exI [of _ pd] exI [of _ pd']) simp
qed

section \<open>An example\<close>

text \<open>\<open><x>Hi <y>you</y></x>\<close>, with a metaname \<open>x\<close> and a property \<open>y\<close>.\<close>

definition sample_tree :: node where
  "sample_tree = Elem (lit ''x'') [Text (lit ''Hi ''), Elem (lit ''y'') [Text (lit ''you'')]]"

lemma document_indexed_as_its_tree_witness:
  "\<exists>pd pd'. init_parser_data ref_pd (sample_config [SWISH_DEFAULT_METANAME, lit ''x''] [lit ''y''])
      (sample_heap [SWISH_DEFAULT_METANAME, lit ''x''] [lit ''y'']) sample_analyzer swish_docinfo_init = Inr pd \<and>
    run_events (\<lambda>_ _. Inr) ref_pd (document_events [sample_tree]) pd = Inr pd' \<and>
    nb_val (pl_nb ref_pd) (pd_metanames pd') (lit ''x'') = Some (lit ''Hi '' @ 3 # lit ''you'') \<and>
    nb_val (pl_nb ref_pd) (pd_properties pd') (lit ''y'') = Some (lit ''you'')"
proof -
  let ?cf = "sample_config [SWISH_DEFAULT_METANAME, lit ''x''] [lit ''y'']"
  let ?hp = "sample_heap [SWISH_DEFAULT_METANAME, lit ''x''] [lit ''y'']"
  have "plain_config ref_pd ?cf ?hp"
    by (auto simp: plain_config_def ref_pd_def sample_config_def sample_heap_def cf_lib_ok_def nb_lib_ok_def
        swish_hash_fetch_def obj_at_def rd_def swish_metaname_init_def swish_property_init_def upt_rec
        SWISH_DEFAULT_METANAME_def SWISH_DOT_def split: if_splits)
  moreover have "tk_ok (pl_tk ref_pd)" by (simp add: ref_pd_def)
  moreover have "has_meta ref_pd ?cf SWISH_DEFAULT_METANAME" by code_simp
  moreover have "\<not> an_tokenize sample_analyzer" by code_simp
  moreover have "list_all node_ok [sample_tree]" by code_simp
  moreover have "r_metas (ref_document (has_meta ref_pd ?cf) (has_prop ref_pd ?cf) [sample_tree]) (lit ''x'') =
      Some (lit ''Hi '' @ 3 # lit ''you'')"
    by code_simp
  moreover have "r_props (ref_document (has_meta ref_pd ?cf) (has_prop ref_pd ?cf) [sample_tree]) (lit ''y'') = Some (lit ''you'')"
    by code_simp
  ultimately show ?thesis
    using document_indexed_as_its_tree [of ref_pd ?cf ?hp sample_analyzer "[sample_tree]" swish_docinfo_init "\<lambda>_ _. Inr"]
    by (metis (no_types))
qed

end
