(* ===== verification/Parse_File.thy ===== *)
theory Parse_File
  imports Tree_Parse "HOL-Library.Sublist"
begin

text \<open>
  Parsing a file from its name to its named buffers: the extension, the MIME type and the parser
  they choose, reading the file, the callbacks of its document and the release of the parser
  state (\<open>swish_parse_file\<close> of \<open>src/libswish3/parser.c\<close> with what it calls of \<open>docinfo.c\<close>,
  \<open>fs.c\<close>, \<open>io.c\<close> and \<open>mime_types.c\<close>).
\<close>

section \<open>The extension of a file name\<close>

lemma lastptr_loop_eq:
  "nul_free s \<Longrightarrow> lastptr_loop (u @ s @ 0 # r) (int (length u)) = Inr (int (length u + length s) - 1)"
proof (induction s arbitrary: u)
  case Nil
  then show ?case by (simp add: lastptr_loop.simps rd_def nth_append)
next
  case (Cons c s)
  then show ?case
    using Cons.IH [of "u @ [c]"] by (subst lastptr_loop.simps) (simp add: rd_def nth_append algebra_simps)
qed

lemma rd_middle: "rd (u @ c # r) (int (length u)) = Inr c"
  by (simp add: rd_def nth_append)

lemma findlast_loop_eq:
  assumes "xmlStrchr X v d \<noteq> None"
  shows "list_all (\<lambda>c. xmlStrchr X v c = None) s \<Longrightarrow>
    findlast_loop X (u @ d # s @ r) v (int (length u + length s)) = Inr (int (length u))"
proof (induction s arbitrary: r rule: rev_induct)
  case Nil
  then show ?case using assms rd_middle [of u d r] by (subst findlast_loop.simps) auto
next
  case (snoc c s)
  have "rd (u @ d # (s @ [c]) @ r) (int (length u + length (s @ [c]))) = Inr c"
    using rd_middle [of "u @ d # s" c r] by (simp add: algebra_simps)
  then have "findlast_loop X (u @ d # (s @ [c]) @ r) v (int (length u + length (s @ [c]))) =
      findlast_loop X (u @ d # (s @ [c]) @ r) v (int (length u + length s))"
    using snoc.prems by (subst findlast_loop.simps) simp
  with snoc.IH [of "c # r"] snoc.prems show ?case by simp
qed

text \<open>A name with an extension: what follows the last dot is not empty and has no slash.\<close>

definition has_ext :: "bytes \<Rightarrow> bytes \<Rightarrow> bool" where
  "has_ext f e \<longleftrightarrow> suffix (SWISH_EXT_CH # e) f \<and> nul_free f \<and> e \<noteq> [] \<and>
     list_all (\<lambda>c. c < 0x80 \<and> c \<notin> set SWISH_EXT_SEP) e"

lemma get_file_ext_eq:
  assumes X: "xml_str_ok X" and "has_ext f e"
  shows "swish_fs_get_file_ext X W (cobj f) = Inr (Some (map tolower e))"
proof -
  obtain u where f: "f = u @ SWISH_EXT_CH # e" and nf: "nul_free f" and e: "e \<noteq> []"
    "list_all (\<lambda>c. c < 0x80 \<and> c \<notin> set SWISH_EXT_SEP) e"
    using assms(2) by (auto simp: has_ext_def suffix_def)
  have ne: "nul_free e" using nf f by simp
  have dot: "xmlStrchr X SWISH_EXT_SEP SWISH_EXT_CH \<noteq> None"
    using xml_str_search(1) [OF X, of SWISH_EXT_CH SWISH_EXT_SEP] by (simp add: SWISH_EXT_SEP_def SWISH_EXT_CH_def)
  have "xmlStrchr X SWISH_EXT_SEP c = None" if "c \<in> set e" for c
    using xml_str_search(1) [OF X, of c SWISH_EXT_SEP] that e(2) ne by (auto simp: list_all_iff nul_free_def)
  then have rest: "list_all (\<lambda>c. xmlStrchr X SWISH_EXT_SEP c = None) e" by (simp add: list_all_iff)
  have "f \<noteq> []" using f by simp
  moreover from this nf have "hd f \<noteq> 0" using hd_in_set [of f] unfolding nul_free_def by metis
  ultimately have head: "rd (cobj f) 0 = Inr (hd f)" "hd f \<noteq> 0" by (simp_all add: cobj_def rd_def hd_conv_nth nth_append)
  have "lastptr_loop (cobj f) 0 = Inr (int (length f) - 1)"
    using lastptr_loop_eq [OF nf, of "[]" "[]"] by (simp add: cobj_def)
  then have "lastptr (Some (cobj f)) = Inr (Some (int (length f) - 1))" by (simp add: lastptr_def head)
  then have last: "lastptr (Some (cobj f)) = Inr (Some (int (length u + length e)))" by (simp add: f)
  have at: "rd (cobj f) (int (length u)) = Inr SWISH_EXT_CH"
    by (simp add: f cobj_def rd_def nth_append)
  have "findlast_loop X (cobj f) SWISH_EXT_SEP (int (length u + length e)) = Inr (int (length u))"
    using findlast_loop_eq [OF dot rest, of u "[0]"] by (simp add: f cobj_def)
  then have "findlast X (Some (cobj f)) SWISH_EXT_SEP = Inr (Some (int (length u)))"
    using dot by (auto simp: findlast_def head last at) (simp_all add: SWISH_EXT_SEP_def)
  moreover have "cstr (cobj f) (int (length u) + 1) = Inr e"
    using cstr_at [OF ne, of "u @ [SWISH_EXT_CH]" "[]"] by (simp add: f cobj_def add.commute)
  moreover have "swish_str_tolower X W e = Inr (map tolower e)"
    using e by (intro tolower_eq [OF X ne e(1)]) (simp add: list_all_iff)
  ultimately show ?thesis by (simp add: swish_fs_get_file_ext_def at)
qed

section \<open>A file that is an XML document\<close>

definition xml_letter :: "bytes \<Rightarrow> bool" where
  "xml_letter p \<longleftrightarrow> p \<noteq> [] \<and> (hd p = 0x58 \<or> hd p = 0x78)"

definition file_mime :: "('s, 'p, 'h, 'b, 'c) doc_lib \<Rightarrow> ('s, 'p) swish_Config \<Rightarrow> bytes \<Rightarrow> bytes" where
  "file_mime D cf e = mime_of_ext (pl_cf (dl_pd D)) cf (Some (map tolower e))"

text \<open>
  The file \<open>f\<close> with the extension \<open>e\<close> holds a text of at most 100 million bytes and no NUL, its
  type is parsed by the XML parser, and the parser answers the text with the run \<open>r\<close>.
\<close>

definition holds_xml ::
  "('s, 'p, 'h, 'b, 'c) doc_lib \<Rightarrow> ('s, 'p) swish_Config \<Rightarrow> bytes \<Rightarrow> bytes \<Rightarrow> bytes \<Rightarrow> bytes \<Rightarrow> sax_run \<Rightarrow> bool" where
  "holds_xml D cf f e p content r \<longleftrightarrow>
     has_ext f e \<and> map tolower e \<noteq> lit ''gz'' \<and>
     nul_free content \<and> content \<noteq> [] \<and> int (length content) \<le> SWISH_MAX_FILE_LEN \<and>
     os_file (dl_os D) f = Some content \<and>
     swish_fs_file_exists (dl_os D) f \<and> swish_fs_get_file_size (dl_os D) f = int (length content) \<and>
     swish_mime_get_parser (pl_cf (dl_pd D)) cf (file_mime D cf e) = Inr p \<and> xml_letter p \<and>
     dl_xml D content = Some r \<and> (sr_encoding r \<noteq> None \<or> dl_encoding D \<noteq> None)"

definition run_status :: "sax_run \<Rightarrow> int" where
  "run_status r = (if sr_wellFormed r then 0 else if sr_errNo r \<noteq> 0 then sr_errNo r else -1)"

definition run_encoding :: "('s, 'p, 'h, 'b, 'c) doc_lib \<Rightarrow> sax_run \<Rightarrow> bytes option" where
  "run_encoding D r = (if sr_encoding r \<noteq> None then sr_encoding r else dl_encoding D)"

text \<open>What is known of the file before it is read.\<close>

definition file_info :: "('s, 'p, 'h, 'b, 'c) doc_lib \<Rightarrow> ('s, 'p) swish_Config \<Rightarrow> bytes \<Rightarrow> bytes \<Rightarrow> bytes \<Rightarrow> swish_DocInfo" where
  "file_info D cf f e p = swish_docinfo_init
     \<lparr>di_ref_cnt := 1, di_ext := Some (map tolower e), di_uri := Some f,
      di_mtime := swish_fs_get_file_mtime (dl_os D) f, di_size := swish_fs_get_file_size (dl_os D) f,
      di_mime := Some (file_mime D cf e), di_parser := Some p\<rparr>"

lemma from_filesystem_eq:
  assumes "xml_str_ok (dl_str D)" and "holds_xml D cf f e p content r"
  shows "swish_docinfo_from_filesystem (pl_cf (dl_pd D)) (pl_wide (dl_pd D)) (dl_os D) f (swish_docinfo_init\<lparr>di_ref_cnt := 1\<rparr>) cf =
    Inr (True, file_info D cf f e p)"
proof -
  have "swish_fs_get_file_ext (dl_str D) W (cobj f) = Inr (Some (map tolower e))" for W
    using get_file_ext_eq [OF assms(1)] assms(2) by (simp add: holds_xml_def)
  then show ?thesis
    using assms(2)
    by (simp add: swish_docinfo_from_filesystem_def docinfo_ext_def xml_str_laws(3) [OF assms(1)] holds_xml_def
        file_info_def file_mime_def swish_docinfo_init_def Let_def del: lit_Cons)
qed

lemma slurp_plain:
  assumes X: "xml_str_ok (dl_str D)" and "holds_xml D cf f e p content r"
    and "\<not> di_is_gzipped (pd_docinfo pd)" and "di_size (pd_docinfo pd) = int (length content)"
  shows "slurp D (Some f) None n pd = Inr (Some (cobj content), int (length content), pd)"
proof -
  have c: "nul_free content" "int (length content) \<le> SWISH_MAX_FILE_LEN" "os_file (dl_os D) f = Some content"
    using assms(2) by (simp_all add: holds_xml_def)
  have "no_nulls (dl_str D) (cobj content) (int (length content)) = Inr (cobj content)"
    using c(1) by (simp add: no_nulls_def xml_str_laws(2) [OF X])
  then have "swish_io_slurp_file_len (dl_str D) (dl_os D) f (int (length content)) False = Inr (cobj content)"
    using c by (simp add: swish_io_slurp_file_len_def cobj_def Let_def)
  then show ?thesis using assms(3,4) by (simp add: slurp_def Let_def)
qed

lemma docparser_xml:
  assumes X: "xml_str_ok (dl_str D)" and h: "holds_xml D cf f e p content r"
    and "pd_docinfo pd = file_info D cf f e p"
    and "run_events incl (dl_pd D) (sr_events r) pd = Inr pd'"
  shows "docparser incl D (Some f) None 0 pd =
    Inr (run_status r, set_doc_encoding (the (run_encoding D r)) pd')"
proof -
  have i: "di_size (pd_docinfo pd) = int (length content)" "\<not> di_is_gzipped (pd_docinfo pd)"
    "di_parser (pd_docinfo pd) = Some p" "content \<noteq> []"
    using assms(2,3) by (simp_all add: holds_xml_def file_info_def swish_docinfo_init_def)
  have "rd (cobj p) 0 = Inr (hd p)" "hd p = 0x58 \<or> hd p = 0x78"
    using h by (auto simp: holds_xml_def xml_letter_def cobj_def rd_def hd_conv_nth nth_append)
  then have "run_parser incl D p (cobj content) (int (length content)) pd = xml_parser incl D (cobj content) (int (length content)) pd"
    by (auto simp: run_parser_def)
  moreover have "slice (cobj content) 0 (int (length content)) = Inr content"
    by (simp add: slice_def cobj_def)
  moreover have "document_encoding D r = Inr (the (run_encoding D r))" "dl_xml D content = Some r"
    using h by (auto simp: holds_xml_def document_encoding_def env_encoding_def run_encoding_def split: option.splits)
  ultimately show ?thesis
    using slurp_plain [OF X h i(2,1), of 0] i assms(4)
    by (simp add: docparser_def xml_parser_def run_status_def)
qed

text \<open>
  C2: a file is indexed to the end. For every plain configuration and analyzer that does not
  tokenize, a file with an extension whose type is parsed as XML, whose text the XML parser
  answers with the callbacks of a list of trees, is parsed by \<open>swish_parse_file\<close> without an
  error or fault, however little of the C stack is left. The handler is called with the
  status of the XML parser and a state that has the file's name, size, type and encoding, and
  in its named buffers what the reference computes from the trees; and when the function returns
  the analyzer and the heap of metanames and properties are what they were.
\<close>

theorem parse_file_indexes_xml:
  assumes "plain_config (dl_pd D) cf hp" and "tk_ok (pl_tk (dl_pd D))" and "has_meta (dl_pd D) cf SWISH_DEFAULT_METANAME"
    and "\<not> an_tokenize a" and "an_ref_cnt a \<noteq> 0"
    and "holds_xml D cf f e p content r" and "sr_events r = document_events ns" and "list_all node_ok ns"
  shows "\<exists>pd. swish_parse_file n D cf hp a f = Inr (run_status r, pd, Some a, hp) \<and>
    pd_docinfo pd = (file_info D cf f e p)\<lparr>di_encoding := run_encoding D r\<rparr> \<and>
    nb_val (pl_nb (dl_pd D)) (pd_metanames pd) =
      r_metas (ref_document (has_meta (dl_pd D) cf) (has_prop (dl_pd D) cf) ns) \<and>
    nb_val (pl_nb (dl_pd D)) (pd_properties pd) =
      r_props (ref_document (has_meta (dl_pd D) cf) (has_prop (dl_pd D) cf) ns)"
proof -
  let ?L = "dl_pd D" and ?d = "swish_docinfo_init\<lparr>di_ref_cnt := 1\<rparr>" and ?i = "file_info D cf f e p"
  have X: "xml_str_ok (dl_str D)" using assms(1) by (simp add: plain_config_def cf_lib_ok_def)
  obtain pd where pd: "init_parser_data ?L cf hp a ?d = Inr pd" "pd_docinfo pd = ?d"
    using init_step [OF assms(1-4), of ?d] by (auto simp: doc_rel_def)
  obtain pd' where run: "run_events (process_xinclude n D) ?L (document_events ns) (pd\<lparr>pd_docinfo := ?i\<rparr>) = Inr pd'"
    and rel: "doc_rel ?L cf hp (a\<lparr>an_ref_cnt := an_ref_cnt a + 1\<rparr>) ?i (ref_document (has_meta ?L cf) (has_prop ?L cf) ns) pd'"
    using document_run [OF assms(1-4,8) pd(1), of "process_xinclude n D" ?i] by blast
  let ?pd = "set_doc_encoding (the (run_encoding D r)) pd'"
  have doc: "docparser (process_xinclude n D) D (Some f) None 0 (pd\<lparr>pd_docinfo := ?i\<rparr>) = Inr (run_status r, ?pd)"
    by (rule docparser_xml [OF X assms(6)]) (simp_all add: assms(7) run)
  have free: "free_parser_data ?pd = Inr (Some a, hp)"
    using rel assms(5) unfolding doc_rel_def
    by (cases "pd_tag pd'") (auto simp: free_parser_data_def set_doc_encoding_def free_cell_def
        swish_token_iterator_free_def swish_token_list_free_def Let_def)
  have "swish_parse_file n D cf hp a f = Inr (run_status r, ?pd, Some a, hp)"
    by (simp add: swish_parse_file_def pd from_filesystem_eq [OF X assms(6)] doc free)
  moreover have "run_encoding D r \<noteq> None" using assms(6) by (auto simp: holds_xml_def run_encoding_def)
  ultimately show ?thesis
    using rel by (intro exI [of _ ?pd]) (auto simp: doc_rel_def set_doc_encoding_def)
qed

section \<open>An example\<close>

text \<open>\<open>/a.xml\<close> holds \<open><x>Hi <y>you</y></x>\<close>.\<close>

definition sample_file :: bytes where "sample_file = lit ''/a.xml''"

definition sample_text :: bytes where "sample_text = lit ''<x>Hi <y>you</y></x>''"

definition sample_run :: sax_run where
  "sample_run = \<lparr>sr_events = document_events [sample_tree], sr_encoding = None, sr_wellFormed = True, sr_errNo = 0\<rparr>"

definition sample_library ::
  "((bytes \<times> bytes) list, (bytes \<times> nat) list, (bytes \<times> nat) list, bytes, (bytes \<times> bytes) list) doc_lib" where
  "sample_library = sample_doc [(sample_file, sample_text)] [(sample_text, sr_events sample_run)]"

definition xml_config :: "((bytes \<times> bytes) list, (bytes \<times> nat) list) swish_Config" where
  "xml_config = (sample_config [SWISH_DEFAULT_METANAME, lit ''x''] [lit ''y''])
     \<lparr>cf_mimes := Some [(lit ''xml'', lit ''text/xml'')], cf_parsers := [(lit ''text/xml'', lit ''XML'')]\<rparr>"

lemma parse_file_indexes_xml_witness:
  "\<exists>pd. swish_parse_file 0 sample_library xml_config (sample_heap [SWISH_DEFAULT_METANAME, lit ''x''] [lit ''y''])
      sample_analyzer sample_file =
      Inr (0, pd, Some sample_analyzer, sample_heap [SWISH_DEFAULT_METANAME, lit ''x''] [lit ''y'']) \<and>
    nb_val (pl_nb (dl_pd sample_library)) (pd_metanames pd) (lit ''x'') = Some (lit ''Hi '' @ 3 # lit ''you'')"
proof -
  let ?cf = xml_config
  let ?hp = "sample_heap [SWISH_DEFAULT_METANAME, lit ''x''] [lit ''y'']"
  have L: "dl_pd sample_library = ref_pd" by (simp add: sample_library_def sample_doc_def)
  have "plain_config (dl_pd sample_library) ?cf ?hp"
    unfolding L
    by (auto simp: plain_config_def ref_pd_def xml_config_def sample_config_def sample_heap_def cf_lib_ok_def nb_lib_ok_def
        swish_hash_fetch_def obj_at_def rd_def swish_metaname_init_def swish_property_init_def upt_rec
        SWISH_DEFAULT_METANAME_def SWISH_DOT_def split: if_splits)
  moreover have "tk_ok (pl_tk (dl_pd sample_library))" by (simp add: L ref_pd_def)
  moreover have "has_meta (dl_pd sample_library) ?cf SWISH_DEFAULT_METANAME" by code_simp
  moreover have "\<not> an_tokenize sample_analyzer" "an_ref_cnt sample_analyzer \<noteq> 0" by code_simp+
  moreover have "has_ext sample_file (lit ''xml'')"
    by code_simp
  moreover from this have "holds_xml sample_library ?cf sample_file (lit ''xml'') (lit ''XML'') sample_text sample_run"
    unfolding holds_xml_def by (intro conjI) (code_simp | assumption)+
  moreover have "sr_events sample_run = document_events [sample_tree]" by (simp add: sample_run_def)
  moreover have "list_all node_ok [sample_tree]" by code_simp
  moreover have "r_metas (ref_document (has_meta (dl_pd sample_library) ?cf) (has_prop (dl_pd sample_library) ?cf) [sample_tree]) (lit ''x'') =
      Some (lit ''Hi '' @ 3 # lit ''you'')"
    by code_simp
  moreover have "run_status sample_run = 0" by code_simp
  ultimately show ?thesis
    using parse_file_indexes_xml [of sample_library ?cf ?hp sample_analyzer sample_file "lit ''xml''" "lit ''XML''"
        sample_text sample_run "[sample_tree]" 0]
    by (metis (no_types))
qed

end
