(* ===== verification/Parser_Faults.thy ===== *)
theory Parser_Faults
  imports Parser_Samples Tokens_Correct
begin

text \<open>
  Documents and configurations on which the callbacks of \<open>src/libswish3/parser.c\<close> fault, and
  states they do not leave.
\<close>

section \<open>What a step leaves alone\<close>

definition same_mode :: "('s, 'p, 'h, 'b, 'c) swish_ParserData \<Rightarrow> ('s, 'p, 'h, 'b, 'c) swish_ParserData \<Rightarrow> bool" where
  "same_mode pd pd' \<longleftrightarrow> pd_config pd' = pd_config pd \<and> pd_is_html pd' = pd_is_html pd \<and>
     pd_ignore_content pd' = pd_ignore_content pd"

lemma mode_buffer_characters: "buffer_characters L m ch len pd = Inr pd' \<Longrightarrow> same_mode pd pd'"
  by (auto simp: buffer_characters_def bnd_eq_Inr same_mode_def split: if_splits)

lemma mode_tokenize: "tokenize L str len metaname ctx pd = Inr pd' \<Longrightarrow> same_mode pd pd'"
  by (auto simp: tokenize_def Let_def bnd_eq_Inr same_mode_def split: if_splits option.splits)

lemma mode_flush_buffer: "flush_buffer L metaname ctx pd = Inr pd' \<Longrightarrow> same_mode pd pd'"
  by (auto simp: flush_buffer_def Let_def bnd_eq_Inr split: if_splits option.splits dest!: mode_tokenize)
    (simp_all add: same_mode_def)

lemma mode_add_stack: "add_stack_to_prop_buf L baked pd = Inr pd' \<Longrightarrow> same_mode pd pd'"
  by (auto simp: add_stack_to_prop_buf_def Let_def bnd_eq_Inr same_mode_def)

lemma mode_auto_metaname:
  "auto_metaname L name p pd = Inr pd' \<Longrightarrow> pd_is_html pd' = pd_is_html pd \<and> pd_ignore_content pd' = pd_ignore_content pd"
  by (auto simp: auto_metaname_def Let_def bnd_eq_Inr split: if_splits)

lemma mode_opens:
  "open_property L t pd = Inr pd' \<Longrightarrow> same_mode pd pd'"
  "open_metaname L t pd = Inr pd' \<Longrightarrow> same_mode pd pd'"
  "close_property L t pd = Inr pd' \<Longrightarrow> same_mode pd pd'"
  "close_metaname L t pd = Inr pd' \<Longrightarrow> same_mode pd pd'"
  "close_element pd = Inr pd' \<Longrightarrow> same_mode pd pd'"
  by (auto simp: open_property_def open_metaname_def close_property_def close_metaname_def close_element_def
      bnd_eq_Inr same_mode_def split: if_splits option.splits dest!: mode_flush_buffer mode_add_stack)

lemma mode_trans: "same_mode a b \<Longrightarrow> same_mode b c \<Longrightarrow> same_mode a c"
  by (simp add: same_mode_def)

lemma bump_html_tag_mode [simp]: "same_mode pd (bump_html_tag L t pd)"
  by (simp add: bump_html_tag_def Let_def same_mode_def split: option.splits)

lemma bake_no_atts_mode:
  "bake_tag_with el L t None p pd = Inr (baked, pd') \<Longrightarrow> pd_is_html pd \<Longrightarrow> same_mode pd pd'"
  by (auto simp: bake_tag_with_def html_meta_def bnd_eq_Inr)

lemma open_no_atts_mode:
  assumes "open_tag_with el L t None p pd = Inr pd'" and "pd_is_html pd"
  shows "same_mode pd pd'"
proof -
  obtain pd1 baked pd2 s pd3 where "pd1 = pd\<lparr>pd_tag := NullCell\<rparr>" "bake_tag_with el L t None p pd1 = Inr (baked, pd2)"
    "open_property L t (pd2\<lparr>pd_tag := (case baked of None \<Rightarrow> NullCell | Some b \<Rightarrow> Cell b), pd_domstack := s\<rparr>) = Inr pd3"
    "open_metaname L t pd3 = Inr pd'"
    using assms(1) by (auto simp: open_tag_with_def free_tag_def bnd_eq_Inr Let_def)
  then show ?thesis
    using assms(2) by (force simp: same_mode_def dest!: bake_no_atts_mode mode_opens)
qed

lemma close_mode:
  assumes "close_tag L t p pd = Inr pd'" and "pd_is_html pd"
  shows "same_mode pd pd'"
proof -
  obtain pd1 baked pd2 where "pd1 = pd\<lparr>pd_tag := NullCell\<rparr>" "bake_tag_with no_inner L t None p pd1 = Inr (baked, pd2)"
    "(case baked of None \<Rightarrow> Inr (pd2\<lparr>pd_tag := NullCell\<rparr>)
      | Some b \<Rightarrow> bnd (close_property L t (pd2\<lparr>pd_tag := Cell b\<rparr>)) (\<lambda>pd. bnd (close_metaname L t pd) close_element)) = Inr pd'"
    using assms(1) by (auto simp: close_tag_def free_tag_def bnd_eq_Inr)
  then show ?thesis
    using assms(2) by (force simp: same_mode_def bnd_eq_Inr split: option.splits dest!: bake_no_atts_mode mode_opens)
qed

lemma element_mode:
  "element L name content p pd = Inr pd' \<Longrightarrow> pd_is_html pd \<Longrightarrow> same_mode pd pd'"
  by (auto simp: element_def bnd_eq_Inr same_mode_def dest!: open_no_atts_mode mode_buffer_characters close_mode)

section \<open>Attributes that are metanames\<close>

lemma bake_gives_a_name: "bake_tag_with el L t None p pd = Inr (baked, pd') \<Longrightarrow> baked \<noteq> None"
  by (auto simp: bake_tag_with_def html_meta_def bnd_eq_Inr split: if_splits)

lemma close_steps_keep_tag:
  "close_property L t pd = Inr pd' \<Longrightarrow> pd_tag pd' = pd_tag pd"
  "close_metaname L t pd = Inr pd' \<Longrightarrow> pd_tag pd' = pd_tag pd"
  "close_element pd = Inr pd' \<Longrightarrow> pd_tag pd' = pd_tag pd"
  by (auto simp: close_property_def close_metaname_def close_element_def bnd_eq_Inr same_stacks_def
      split: option.splits dest!: same_add_stack same_flush_buffer)

lemma close_tag_leaves_a_tag:
  assumes "close_tag L t p pd = Inr pd'"
  shows "\<exists>b. pd_tag pd' = Cell b"
proof -
  obtain pd1 baked pd2 where "bake_tag_with no_inner L t None p pd1 = Inr (baked, pd2)"
    "(case baked of None \<Rightarrow> Inr (pd2\<lparr>pd_tag := NullCell\<rparr>)
      | Some b \<Rightarrow> bnd (close_property L t (pd2\<lparr>pd_tag := Cell b\<rparr>)) (\<lambda>pd. bnd (close_metaname L t pd) close_element)) = Inr pd'"
    using assms by (auto simp: close_tag_def bnd_eq_Inr)
  with bake_gives_a_name show ?thesis
    by (force simp: bnd_eq_Inr dest!: close_steps_keep_tag)
qed

lemma element_leaves_a_tag: "element L name content p pd = Inr pd' \<Longrightarrow> \<exists>b. pd_tag pd' = Cell b"
  by (auto simp: element_def bnd_eq_Inr dest: close_tag_leaves_a_tag)

lemma freed_tag_faults: "pd_tag pd = Freed \<Longrightarrow> element L name content p pd = Inl UseAfterFree"
  by (simp add: element_def open_tag_with_def free_tag_def free_cell_def)

lemma defined_attr: "is_metaname L pd name \<Longrightarrow> undefined_attr L name val pd = Inr pd"
  by (simp add: undefined_attr_def)

text \<open>
  C9: two attributes that are metanames free the tag twice. When an XML element has an
  attribute whose dotted name is a metaname, and it is indexed without a fault, the pointer to
  the current tag is left to freed memory; a second such attribute of the same element opens
  an element of its own, which frees that pointer again.
\<close>

theorem second_dotted_attribute_frees_twice:
  assumes "xml_attr (element L) L None p a1 v1 (t, pd) = Inr (t1, pd1)"
    and "is_metaname L pd (joined_name (pl_str L) t SWISH_DOT a1)"
    and "is_metaname L pd1 (joined_name (pl_str L) t SWISH_DOT a2)"
  shows "t1 = t \<and> pd_tag pd1 = Freed \<and> xml_attr (element L) L None p a2 v2 (t1, pd1) = Inl UseAfterFree"
proof -
  obtain pd2 where "t1 = t" "element L (joined_name (pl_str L) t SWISH_DOT a1) v1 p (pd\<lparr>pd_bump_word := True\<rparr>) = Inr pd2"
    "free_cell (pd_tag pd2) = Inr (pd_tag pd1)"
    using assms(1,2) by (auto simp: xml_attr_def defined_attr bnd_eq_Inr)
  moreover from this have "pd_tag pd1 = Freed" by (auto simp: free_cell_def dest!: element_leaves_a_tag)
  ultimately show ?thesis
    using assms(3) freed_tag_faults [of "pd1\<lparr>pd_bump_word := True\<rparr>"]
    by (simp add: xml_attr_def defined_attr)
qed

text \<open>\<open><x a="1" b="2">\<close> with the metanames \<open>x.a\<close> and \<open>x.b\<close>.\<close>

lemma second_dotted_attribute_frees_twice_witness:
  "let ms = [SWISH_DEFAULT_METANAME, lit ''x.a'', lit ''x.b''] in
   \<exists>pd t1 pd1. init_parser_data ref_pd (sample_config ms ms) (sample_heap ms ms) sample_analyzer swish_docinfo_init = Inr pd \<and>
     xml_attr (element ref_pd) ref_pd None None (lit ''a'') (lit ''1'') (lit ''x'', pd) = Inr (t1, pd1) \<and>
     xml_attr (element ref_pd) ref_pd None None (lit ''b'') (lit ''2'') (t1, pd1) = Inl UseAfterFree"
proof -
  define ms where "ms = [SWISH_DEFAULT_METANAME, lit ''x.a'', lit ''x.b'']"
  let ?i = "init_parser_data ref_pd (sample_config ms ms) (sample_heap ms ms) sample_analyzer swish_docinfo_init"
  let ?f = "\<lambda>pd. xml_attr (element ref_pd) ref_pd None None (lit ''a'') (lit ''1'') (lit ''x'', pd)"
  have "\<not> isl ?i" "\<not> isl (bnd ?i ?f)"
    "is_metaname ref_pd (projr ?i) (joined_name (pl_str ref_pd) (lit ''x'') SWISH_DOT (lit ''a''))"
    "is_metaname ref_pd (snd (projr (bnd ?i ?f))) (joined_name (pl_str ref_pd) (lit ''x'') SWISH_DOT (lit ''b''))"
    unfolding ms_def by code_simp+
  then obtain pd t1 pd1 where "?i = Inr pd" "?f pd = Inr (t1, pd1)"
    "is_metaname ref_pd pd (joined_name (pl_str ref_pd) (lit ''x'') SWISH_DOT (lit ''a''))"
    "is_metaname ref_pd pd1 (joined_name (pl_str ref_pd) (lit ''x'') SWISH_DOT (lit ''b''))"
    by (cases ?i; cases "bnd ?i ?f") auto
  with second_dotted_attribute_frees_twice [of ref_pd None "lit ''a''" "lit ''1''" "lit ''x''" pd t1 pd1 "lit ''b''" "lit ''2''"]
  show ?thesis by (auto simp: ms_def [symmetric] simp del: lit_Cons)
qed

section \<open>Dotted metanames\<close>

text \<open>
  C10: a dotted metaname needs a property of the same name. When an element is opened whose
  path is a metaname but no property, and whose own name is no metaname, the element's own
  name is pushed on the stack of metanames, and flushing the text under it, as the end of the
  element and the start of any metaname inside it do, dereferences the NULL that the table of
  metanames answers.
\<close>

theorem dotted_metaname_needs_a_property:
  assumes "open_metaname L t pd = Inr pd'" and "pd_tag pd = Cell b" and "stack_head (pd_domstack pd) = Inr h"
    and "is_metaname L pd (tg_context h)" and "\<not> is_property L pd (tg_context h)" and "\<not> is_metaname L pd b"
  shows "\<exists>m. stack_head (pd_metastack pd') = Inr m \<and> tg_raw m = t \<and> tg_baked m = b \<and>
    flush_buffer L (tg_baked m) (tg_context m) pd' = Inl NullPointer"
proof -
  obtain m :: swish_Tag and pd1 baked s where "flush_buffer L (tg_baked m) (tg_context m) pd = Inr pd1"
    "pushed_name L (tg_context h) pd1 = Inr baked"
    "push_tag_stack (pd_metastack pd1) t baked SWISH_DOM_CHAR = Inr s" "pd' = pd1\<lparr>pd_metastack := s\<rparr>"
    using assms(1-4) by (auto simp: open_metaname_def bnd_eq_Inr)
  moreover from this(1) have "pd_config pd1 = pd_config pd" "pd_tag pd1 = pd_tag pd"
    by (auto simp: same_mode_def same_stacks_def dest: mode_flush_buffer same_flush_buffer)
  moreover from this have "is_metaname L pd1 = is_metaname L pd" "is_property L pd1 = is_property L pd"
    by (simp_all add: is_metaname_def is_property_def fun_eq_iff)
  ultimately show ?thesis
    using assms(2,5,6)
    by (auto simp: pushed_name_def push_eq stack_head_def flush_buffer_def is_metaname_def swish_hash_exists_def
      swish_hash_fetch_def Let_def)
qed

text \<open>\<open><a><b>\<close> with the metaname \<open>a.b\<close>: the start of \<open>b\<close>, and what comes next.\<close>

lemma dotted_metaname_needs_a_property_witness:
  "let ms = [SWISH_DEFAULT_METANAME, lit ''a.b''];
       start = bnd (init_parser_data ref_pd (sample_config ms []) (sample_heap ms []) sample_analyzer swish_docinfo_init)
         (sax_callback (\<lambda>_ _. Inr) ref_pd (StartElementNs (lit ''a'') None None [])) in
   \<exists>pd s pd' m. start = Inr pd \<and> push_tag_stack (pd_domstack pd) (lit ''b'') (lit ''b'') SWISH_DOT = Inr s \<and>
     open_metaname ref_pd (lit ''b'') (pd\<lparr>pd_domstack := s, pd_tag := Cell (lit ''b'')\<rparr>) = Inr pd' \<and>
     stack_head (pd_metastack pd') = Inr (m :: swish_Tag) \<and>
     flush_buffer ref_pd (tg_baked m) (tg_context m) pd' = Inl NullPointer"
proof -
  define ms where "ms = [SWISH_DEFAULT_METANAME, lit ''a.b'']"
  let ?s = "bnd (init_parser_data ref_pd (sample_config ms []) (sample_heap ms []) sample_analyzer swish_docinfo_init)
         (sax_callback (\<lambda>_ _. Inr) ref_pd (StartElementNs (lit ''a'') None None []))"
  let ?pd = "\<lambda>pd s. pd\<lparr>pd_domstack := s, pd_tag := Cell (lit ''b'')\<rparr>"
  have "case ?s of Inl _ \<Rightarrow> False | Inr pd \<Rightarrow>
      (case push_tag_stack (pd_domstack pd) (lit ''b'') (lit ''b'') SWISH_DOT of Inl _ \<Rightarrow> False | Inr s \<Rightarrow>
      (case stack_head s of Inl _ \<Rightarrow> False | Inr h \<Rightarrow>
      (case open_metaname ref_pd (lit ''b'') (?pd pd s) of Inl _ \<Rightarrow> False | Inr pd' \<Rightarrow>
        is_metaname ref_pd (?pd pd s) (tg_context h) \<and> \<not> is_property ref_pd (?pd pd s) (tg_context h) \<and>
        \<not> is_metaname ref_pd (?pd pd s) (lit ''b''))))"
    unfolding ms_def by code_simp
  then obtain pd s pd' and h :: swish_Tag where "?s = Inr pd"
    "push_tag_stack (pd_domstack pd) (lit ''b'') (lit ''b'') SWISH_DOT = Inr s"
    "stack_head s = Inr h" "open_metaname ref_pd (lit ''b'') (?pd pd s) = Inr pd'"
    "is_metaname ref_pd (?pd pd s) (tg_context h)" "\<not> is_property ref_pd (?pd pd s) (tg_context h)"
    "\<not> is_metaname ref_pd (?pd pd s) (lit ''b'')"
    by (auto split: sum.splits simp del: lit_Cons sax_callback.simps)
  with dotted_metaname_needs_a_property [of ref_pd "lit ''b''" "pd\<lparr>pd_domstack := s, pd_tag := Cell (lit ''b'')\<rparr>" pd' "lit ''b''" h]
  show ?thesis by (auto simp: ms_def [symmetric] simp del: lit_Cons)
qed

section \<open>Ignored HTML meta tags\<close>

text \<open>
  C11: an HTML meta tag that is ignored silences the rest of the document. When unknown metanames
  are ignored, a meta tag with an unknown name and a content leaves \<open>ignore_content\<close> one higher
  than before; text is then dropped.
\<close>

theorem ignored_html_meta_silences_the_rest:
  assumes "html_meta (element L) L (Some atts) (lit ''meta'') p pd = Inr (r, pd')"
    and "xml_str_ok (pl_str L)" and "meta_atts (pl_str L) atts 0 None None = Inr (Some name, Some content)"
    and "pd_is_html pd" and "fl_undef_metas (cf_flags (pd_config pd)) = UNDEF_METAS_IGNORE"
    and "\<not> is_metaname L pd name" and "tag_alias L pd name = None"
  shows "pd_ignore_content pd' = pd_ignore_content pd + 1 \<and>
    (0 \<le> pd_ignore_content pd \<longrightarrow> buffer_characters L m ch len pd' = Inr pd')"
proof -
  let ?pd = "pd\<lparr>pd_ignore_content := pd_ignore_content pd + 1\<rparr>"
  have "undefined_meta L name pd = Inr ?pd" using assms(5-7) by (simp add: undefined_meta_def)
  then obtain pd1 where "element L name content p (?pd\<lparr>pd_bump_word := True\<rparr>) = Inr pd1"
    "pd_ignore_content pd' = pd_ignore_content pd1"
    using assms(1,3) xml_str_laws [OF assms(2)] by (auto simp: html_meta_def bnd_eq_Inr Let_def xmlStrEqual_def simp del: lit_Cons)
  with element_mode [OF this(1)] assms(4) show ?thesis
    by (simp add: same_mode_def buffer_characters_def)
qed

text \<open>\<open><meta name="k" content="v">\<close>, with \<open>k\<close> unknown.\<close>

lemma ignored_html_meta_silences_the_rest_witness:
  "let ms = [SWISH_DEFAULT_METANAME]; c = sample_config ms [];
       cf = c\<lparr>cf_flags := (cf_flags c)\<lparr>fl_undef_metas := UNDEF_METAS_IGNORE\<rparr>\<rparr>;
       atts = [Some (lit ''name''), Some (lit ''k''), Some (lit ''content''), Some (lit ''v''), None] in
   \<exists>pd r pd'. init_parser_data ref_pd cf (sample_heap ms []) sample_analyzer swish_docinfo_init = Inr pd \<and>
     html_meta (element ref_pd) ref_pd (Some atts) (lit ''meta'') None (pd\<lparr>pd_is_html := True\<rparr>) = Inr (r, pd') \<and>
     pd_ignore_content pd' = 1 \<and> buffer_characters ref_pd (cobj (lit ''text'')) 0 4 pd' = Inr pd'"
proof -
  define ms where "ms = [SWISH_DEFAULT_METANAME]"
  define c where "c = sample_config ms []"
  define cf where "cf = c\<lparr>cf_flags := (cf_flags c)\<lparr>fl_undef_metas := UNDEF_METAS_IGNORE\<rparr>\<rparr>"
  define atts where "atts = [Some (lit ''name''), Some (lit ''k''), Some (lit ''content''), Some (lit ''v''), None]"
  let ?i = "init_parser_data ref_pd cf (sample_heap ms []) sample_analyzer swish_docinfo_init"
  let ?html = "\<lambda>pd. pd\<lparr>pd_is_html := True\<rparr>"
  have "case ?i of Inl _ \<Rightarrow> False | Inr pd \<Rightarrow>
      (case html_meta (element ref_pd) ref_pd (Some atts) (lit ''meta'') None (?html pd) of Inl _ \<Rightarrow> False | Inr (r, pd') \<Rightarrow>
        fl_undef_metas (cf_flags (pd_config (?html pd))) = UNDEF_METAS_IGNORE \<and>
        \<not> is_metaname ref_pd (?html pd) (lit ''k'') \<and> tag_alias ref_pd (?html pd) (lit ''k'') = None \<and>
        pd_ignore_content (?html pd) = 0)"
    unfolding ms_def c_def cf_def atts_def by code_simp
  then obtain pd r pd' where "?i = Inr pd" "html_meta (element ref_pd) ref_pd (Some atts) (lit ''meta'') None (?html pd) = Inr (r, pd')"
    "fl_undef_metas (cf_flags (pd_config (?html pd))) = UNDEF_METAS_IGNORE"
    "\<not> is_metaname ref_pd (?html pd) (lit ''k'')" "tag_alias ref_pd (?html pd) (lit ''k'') = None"
    "pd_ignore_content (?html pd) = 0"
    by (auto split: sum.splits prod.splits simp del: lit_Cons)
  moreover have "meta_atts (pl_str ref_pd) atts 0 None None = Inr (Some (lit ''k''), Some (lit ''v''))"
    unfolding atts_def by code_simp
  moreover have "xml_str_ok (pl_str ref_pd)" by (simp add: ref_pd_def)
  ultimately show ?thesis
    using ignored_html_meta_silences_the_rest [of ref_pd atts None "?html pd" r pd' "lit ''k''" "lit ''v''" "cobj (lit ''text'')" 0 4]
    by (auto simp: Let_def ms_def [symmetric] c_def [symmetric] cf_def [symmetric] atts_def [symmetric] simp del: lit_Cons)
qed

section \<open>Inclusion\<close>

lemma docinfo_init_parser: "pd_docinfo pd = d \<Longrightarrow> pd\<lparr>pd_docinfo := d\<rparr> = pd"
  by simp

lemma init_keeps:
  "init_parser_data L cf hp a d = Inr pd \<Longrightarrow> pd_config pd = cf \<and> pd_docinfo pd = d"
  by (auto simp: init_parser_data_def bnd_eq_Inr)

text \<open>\<open>f\<close> is a file that is parsed as XML and whose root element is an inclusion of \<open>f\<close>.\<close>

definition root_includes :: "sax_event list \<Rightarrow> bytes \<Rightarrow> bool" where
  "root_includes es f =
     (case es of
        StartDocument # StartElementNs name _ uri atts # _ \<Rightarrow>
          name = lit ''include'' \<and> uri = Some XINCLUDE_NS \<and> atts = [(lit ''href'', f)]
      | _ \<Rightarrow> False)"

definition xml_of :: "('s, 'p, 'h, 'b, 'c) doc_lib \<Rightarrow> bytes \<Rightarrow> swish_DocInfo \<Rightarrow> sax_event list res" where
  "xml_of D f di =
     bnd (swish_io_slurp_file_len (dl_str D) (dl_os D) f (di_size di) False) (\<lambda>m.
     bnd (slice m 0 (di_size di)) (\<lambda>s. case dl_xml D s of None \<Rightarrow> Inl Aborted | Some r \<Rightarrow> Inr (sr_events r)))"

definition includes_itself ::
  "('s, 'p, 'h, 'b, 'c) doc_lib \<Rightarrow> ('s, 'p) swish_Config \<Rightarrow> bytes \<Rightarrow> bool" where
  "includes_itself D cf f =
     (case swish_docinfo_from_filesystem (pl_cf (dl_pd D)) (pl_wide (dl_pd D)) (dl_os D) f
             (swish_docinfo_init\<lparr>di_ref_cnt := 1\<rparr>) cf of
        Inr (True, di) \<Rightarrow>
          di_size di \<noteq> 0 \<and> \<not> di_is_gzipped di \<and> di_parser di = Some (lit ''XML'') \<and>
          \<not> isl (xml_of D f di) \<and> root_includes (projr (xml_of D f di)) f
      | _ \<Rightarrow> False)"

lemma not_isl_Inr: "\<not> isl x \<Longrightarrow> x = Inr (projr x)"
  by (cases x) simp_all

lemma root_includesE:
  assumes "root_includes es f"
  obtains prefix es' where
    "es = StartDocument # StartElementNs (lit ''include'') prefix (Some XINCLUDE_NS) [(lit ''href'', f)] # es'"
  using assms unfolding root_includes_def by (auto split: list.splits sax_event.splits prod.splits simp del: lit_Cons)

lemma includes_itselfE:
  assumes "includes_itself D cf f"
  obtains di m s r prefix es where
    "swish_docinfo_from_filesystem (pl_cf (dl_pd D)) (pl_wide (dl_pd D)) (dl_os D) f
       (swish_docinfo_init\<lparr>di_ref_cnt := 1\<rparr>) cf = Inr (True, di)"
    "di_size di \<noteq> 0" "\<not> di_is_gzipped di" "di_parser di = Some (lit ''XML'')"
    "swish_io_slurp_file_len (dl_str D) (dl_os D) f (di_size di) False = Inr m" "slice m 0 (di_size di) = Inr s"
    "dl_xml D s = Some r"
    "sr_events r = StartDocument # StartElementNs (lit ''include'') prefix (Some XINCLUDE_NS) [(lit ''href'', f)] # es"
proof -
  obtain di es where "swish_docinfo_from_filesystem (pl_cf (dl_pd D)) (pl_wide (dl_pd D)) (dl_os D) f
       (swish_docinfo_init\<lparr>di_ref_cnt := 1\<rparr>) cf = Inr (True, di)"
    "di_size di \<noteq> 0" "\<not> di_is_gzipped di" "di_parser di = Some (lit ''XML'')" "xml_of D f di = Inr es" "root_includes es f"
    using assms unfolding includes_itself_def by (auto split: sum.split_asm prod.split_asm bool.split_asm dest: not_isl_Inr simp del: lit_Cons)
  then show thesis
    using that by (auto simp: xml_of_def bnd_eq_Inr simp del: lit_Cons split: option.splits elim!: root_includesE)
qed

text \<open>Handling such a root element comes down to the inclusion.\<close>

lemma include_element:
  assumes "xml_str_ok (pl_str L)" and "fl_follow_xinclude (cf_flags (pd_config pd))" and "f \<noteq> []"
  shows "sax_callback incl L (StartElementNs (lit ''include'') prefix (Some XINCLUDE_NS) [(lit ''href'', f)]) pd =
    bnd (incl f False pd) (open_tag L (lit ''include'') (Some [Some (lit ''href''), Some f, None]) prefix)"
proof -
  have "xinclude_atts (pl_str L) [Some (lit ''href''), Some f, None] 0 (None, False) = Inr (Some f, False)"
    by (simp add: xinclude_atts.simps rd_def xml_str_laws [OF assms(1)])
  then show ?thesis
    using assms(2,3) by (simp add: mystartElementNs_def ns_atts_def check_xinclude_def xml_str_laws [OF assms(1)] Let_def del: lit_Cons)
qed

lemma docparser_of_itself:
  assumes "xml_str_ok (dl_str D)" and "fl_follow_xinclude (cf_flags (pd_config pd))" and "f \<noteq> []"
    and "di_size (pd_docinfo pd) \<noteq> 0" "\<not> di_is_gzipped (pd_docinfo pd)" "di_parser (pd_docinfo pd) = Some (lit ''XML'')"
    and "swish_io_slurp_file_len (dl_str D) (dl_os D) f (di_size (pd_docinfo pd)) False = Inr m"
    and "slice m 0 (di_size (pd_docinfo pd)) = Inr s" "dl_xml D s = Some r"
    and "sr_events r = StartDocument # StartElementNs (lit ''include'') prefix (Some XINCLUDE_NS) [(lit ''href'', f)] # es"
    and "docparser incl D (Some f) None 0 pd = Inr res"
  shows "\<exists>pd'. incl f False pd = Inr pd'"
  using assms(2-) include_element [OF assms(1-3), of incl prefix]
  by (auto simp: docparser_def slurp_def run_parser_def xml_parser_def run_events_def bnd_eq_Inr rd_def
      xml_str_laws [OF assms(1)] Let_def cobj_def simp del: sax_callback.simps(5))

lemma itself_loops:
  assumes "xml_str_ok (dl_str D)" and "includes_itself D cf f" and "f = SWISH_PATH_SEP # f'"
    and "fl_follow_xinclude (cf_flags cf)"
  shows "pd_config pd = cf \<Longrightarrow> process_xinclude n D f False pd \<noteq> Inr pd'"
proof (induction n arbitrary: pd pd')
  case (Suc n)
  show ?case
  proof
    assume "process_xinclude (Suc n) D f False pd = Inr pd'"
    then obtain xuri pd1 child child' pd2 and h :: swish_Tag where 1: "xinclude_uri D f (di_uri (pd_docinfo pd)) = Inr xuri"
      "flush_buffer (dl_pd D) (tg_baked h) (tg_context h) pd = Inr pd1"
      "init_parser_data (dl_pd D) (pd_config pd1) (pd_heap pd1) (pd_analyzer pd1) (swish_docinfo_init\<lparr>di_ref_cnt := 1\<rparr>) = Inr child"
      "include_child (process_xinclude n D) D xuri False child pd1 = Inr (child', pd2)"
      by (auto simp: Let_def bnd_eq_Inr)
    have xuri: "xuri = f" using 1(1) assms(3) by (simp add: xinclude_uri_def cobj_def rd_def SWISH_PATH_SEP_def)
    have child: "pd_config child = cf" "pd_docinfo child = swish_docinfo_init\<lparr>di_ref_cnt := 1\<rparr>"
      using init_keeps [OF 1(3)] mode_flush_buffer [OF 1(2)] Suc.prems by (simp_all add: same_mode_def)
    obtain di m s r prefix es where di: "swish_docinfo_from_filesystem (pl_cf (dl_pd D)) (pl_wide (dl_pd D)) (dl_os D) f
       (swish_docinfo_init\<lparr>di_ref_cnt := 1\<rparr>) cf = Inr (True, di)"
      "di_size di \<noteq> 0" "\<not> di_is_gzipped di" "di_parser di = Some (lit ''XML'')"
      "swish_io_slurp_file_len (dl_str D) (dl_os D) f (di_size di) False = Inr m" "slice m 0 (di_size di) = Inr s"
      "dl_xml D s = Some r"
      "sr_events r = StartDocument # StartElementNs (lit ''include'') prefix (Some XINCLUDE_NS) [(lit ''href'', f)] # es"
      using assms(2) by (rule includes_itselfE)
    obtain res where "docparser (process_xinclude n D) D (Some f) None 0 (child\<lparr>pd_docinfo := di\<rparr>) = Inr res"
      using 1(4) by (auto simp: include_child_def Let_def bnd_eq_Inr child di(1) xuri)
    then have "\<exists>pd'. process_xinclude n D f False (child\<lparr>pd_docinfo := di\<rparr>) = Inr pd'"
      using docparser_of_itself [of D "child\<lparr>pd_docinfo := di\<rparr>" f m s r prefix es "process_xinclude n D" res]
        di child(1) assms(1,3,4) by simp
    then show False using Suc.IH child(1) by auto
  qed
qed simp

lemma itself_starts:
  assumes "swish_docinfo_from_filesystem (pl_cf (dl_pd D)) (pl_wide (dl_pd D)) (dl_os D) f
       (swish_docinfo_init\<lparr>di_ref_cnt := 1\<rparr>) cf = Inr (True, di)"
    and "swish_parse_file n D cf hp a f = Inr r"
  shows "\<exists>pd. init_parser_data (dl_pd D) cf hp a (swish_docinfo_init\<lparr>di_ref_cnt := 1\<rparr>) = Inr pd \<and>
    (\<exists>res. docparser (process_xinclude n D) D (Some f) None 0 (pd\<lparr>pd_docinfo := di\<rparr>) = Inr res)"
proof -
  obtain pd where pd: "init_parser_data (dl_pd D) cf hp a (swish_docinfo_init\<lparr>di_ref_cnt := 1\<rparr>) = Inr pd"
    using assms(2) by (auto simp: swish_parse_file_def Let_def bnd_eq_Inr)
  with init_keeps [OF pd] assms show ?thesis
    by (cases r) (auto simp: swish_parse_file_def Let_def bnd_eq_Inr)
qed

text \<open>
  C8: nothing ends an inclusion that goes round. A file that is parsed as XML and whose root
  element is an XInclude of the file itself is never parsed to the end, however many documents
  deep the C stack lets the parser go: there is no check for a document that is being parsed
  already.
\<close>

theorem self_inclusion_never_ends:
  assumes "xml_str_ok (dl_str D)" and "includes_itself D cf f" and "f = SWISH_PATH_SEP # f'"
    and "fl_follow_xinclude (cf_flags cf)"
  shows "\<forall>n hp a. \<not> (\<exists>r. swish_parse_file n D cf hp a f = Inr r)"
proof (intro allI notI)
  fix n hp a
  assume "\<exists>r. swish_parse_file n D cf hp a f = Inr r"
  moreover obtain di m s r prefix es where di: "swish_docinfo_from_filesystem (pl_cf (dl_pd D)) (pl_wide (dl_pd D)) (dl_os D) f
       (swish_docinfo_init\<lparr>di_ref_cnt := 1\<rparr>) cf = Inr (True, di)"
      "di_size di \<noteq> 0" "\<not> di_is_gzipped di" "di_parser di = Some (lit ''XML'')"
      "swish_io_slurp_file_len (dl_str D) (dl_os D) f (di_size di) False = Inr m" "slice m 0 (di_size di) = Inr s"
      "dl_xml D s = Some r"
      "sr_events r = StartDocument # StartElementNs (lit ''include'') prefix (Some XINCLUDE_NS) [(lit ''href'', f)] # es"
      using assms(2) by (rule includes_itselfE)
  ultimately obtain pd where pd: "init_parser_data (dl_pd D) cf hp a (swish_docinfo_init\<lparr>di_ref_cnt := 1\<rparr>) = Inr pd"
    and doc: "\<exists>res. docparser (process_xinclude n D) D (Some f) None 0 (pd\<lparr>pd_docinfo := di\<rparr>) = Inr res"
    using itself_starts [OF di(1)] by blast
  note k = init_keeps [OF pd]
  obtain res where "docparser (process_xinclude n D) D (Some f) None 0 (pd\<lparr>pd_docinfo := di\<rparr>) = Inr res"
    using doc by blast
  then have "\<exists>pd'. process_xinclude n D f False (pd\<lparr>pd_docinfo := di\<rparr>) = Inr pd'"
    using docparser_of_itself [of D "pd\<lparr>pd_docinfo := di\<rparr>" f m s r prefix es "process_xinclude n D" res]
      di k assms(1,3,4) by simp
  then show False using itself_loops [OF assms] k by auto
qed

text \<open>\<open>/a.xml\<close> holds \<open><xi:include href="/a.xml"/>\<close>; its bytes do not matter to the model of libxml2.\<close>

definition itself_file :: bytes where "itself_file = lit ''/a.xml''"

definition itself_doc ::
  "((bytes \<times> bytes) list, (bytes \<times> nat) list, (bytes \<times> nat) list, bytes, (bytes \<times> bytes) list) doc_lib" where
  "itself_doc = sample_doc [(itself_file, lit ''<'')]
     [(lit ''<'', [StartDocument, StartElementNs (lit ''include'') None (Some XINCLUDE_NS) [(lit ''href'', itself_file)],
        EndElementNs (lit ''include'') None, EndDocument])]"

definition itself_config :: "((bytes \<times> bytes) list, (bytes \<times> nat) list) swish_Config" where
  "itself_config = (sample_config [SWISH_DEFAULT_METANAME] [])
     \<lparr>cf_mimes := Some [(lit ''xml'', lit ''text/xml'')], cf_parsers := [(lit ''text/xml'', lit ''XML''), (lit ''default'', lit ''XML'')]\<rparr>"

lemma self_inclusion_never_ends_witness:
  "\<forall>n hp a. \<not> (\<exists>r. swish_parse_file n itself_doc itself_config hp a itself_file = Inr r)"
proof (rule self_inclusion_never_ends)
  show "xml_str_ok (dl_str itself_doc)" by (simp add: itself_doc_def sample_doc_def ref_pd_def)
  show "includes_itself itself_doc itself_config itself_file" by code_simp
  show "itself_file = SWISH_PATH_SEP # lit ''a.xml''" by code_simp
  show "fl_follow_xinclude (cf_flags itself_config)" by code_simp
qed

end
