(* ===== verification/Library.thy ===== *)
theory Library
  imports Config Strings
begin

text \<open>
  The object of the library (\<open>src/libswish3/swish.c\<close>, and \<open>swish_parser_init\<close> and
  \<open>swish_analyzer_free\<close>), the environment it sets up and the debugging level it reads from it.
\<close>

record swish_Parser =
  ps_verbosity :: int
  ps_ref_cnt :: int

record ('s, 'p) swish_3 =
  s3_ref_cnt :: int
  s3_config :: "('s, 'p) swish_Config"
  s3_analyzer :: swish_Analyzer
  s3_parser :: swish_Parser

text \<open>The process and the variables of the library all files share.\<close>

record globals =
  g_process :: process
  g_debug :: int
  g_warnings :: int
  g_parser_warnings :: int

definition set_env :: "string \<Rightarrow> string \<Rightarrow> globals \<Rightarrow> globals" where
  "set_env name value g = g\<lparr>g_process := swish_setenv (lit name) (lit value) False (g_process g)\<rparr>"

text \<open>\<open>swish_string_to_int (getenv (name))\<close>\<close>

definition env_int :: "string \<Rightarrow> globals \<Rightarrow> int res" where
  "env_int name g =
     (case env (g_process g) (lit name) of None \<Rightarrow> Inl NullPointer | Some v \<Rightarrow> swish_string_to_int v)"

definition get_env_vars :: "globals \<Rightarrow> globals res" where
  "get_env_vars g =
     (let g = set_env ''SWISH_PARSER_WARNINGS'' ''1'' g in
      bnd (env_int ''SWISH_PARSER_WARNINGS'' g) (\<lambda>n.
        Inr (g\<lparr>g_parser_warnings := (if g_debug g \<noteq> 0 then g_debug g else n)\<rparr>)))"

definition swish_parser_init :: "globals \<Rightarrow> (swish_Parser \<times> globals) res" where
  "swish_parser_init g = bnd (get_env_vars g) (\<lambda>g. Inr (\<lparr>ps_verbosity = 0, ps_ref_cnt = 0\<rparr>, g))"

section \<open>The object\<close>

text \<open>The stash is the caller's pointer. The table of the locale is that of \<open>swish_config_set_default\<close>.\<close>

definition swish_3_init ::
  "('s, 'p) cf_lib \<Rightarrow> bytes \<Rightarrow> heap \<Rightarrow> globals \<Rightarrow> (('s, 'p) swish_3 \<times> heap \<times> globals) res" where
  "swish_3_init L locale hp g =
     bnd (swish_config_init L) (\<lambda>config.
     bnd (swish_config_set_default L locale (config\<lparr>cf_ref_cnt := cf_ref_cnt config + 1\<rparr>) hp) (\<lambda>(config, hp).
     let analyzer = swish_analyzer_init config in
     bnd (swish_parser_init g) (\<lambda>(parser, g).
       Inr (\<lparr>s3_ref_cnt = 0, s3_config = config, s3_analyzer = analyzer\<lparr>an_ref_cnt := an_ref_cnt analyzer + 1\<rparr>,
             s3_parser = parser\<lparr>ps_ref_cnt := ps_ref_cnt parser + 1\<rparr>\<rparr>, hp, g))))"

text \<open>
  What the object leaves behind for those that share its parts: each part whose count does not
  drop below 1. The analyzer and the parser own nothing else.
\<close>

definition swish_3_free ::
  "('s, 'p) cf_lib \<Rightarrow> ('s, 'p) swish_3 \<Rightarrow> heap \<Rightarrow>
   (swish_Parser option \<times> swish_Analyzer option \<times> ('s, 'p) swish_Config option \<times> heap) res" where
  "swish_3_free L s3 hp =
     (let parser = (s3_parser s3)\<lparr>ps_ref_cnt := ps_ref_cnt (s3_parser s3) - 1\<rparr>;
          analyzer = (s3_analyzer s3)\<lparr>an_ref_cnt := an_ref_cnt (s3_analyzer s3) - 1\<rparr>;
          config = (s3_config s3)\<lparr>cf_ref_cnt := cf_ref_cnt (s3_config s3) - 1\<rparr> in
      bnd (if cf_ref_cnt config < 1
           then bnd (swish_config_free L config hp) (\<lambda>hp. Inr (None, hp))
           else Inr (Some config, hp)) (\<lambda>(config, hp).
        Inr (if ps_ref_cnt parser < 1 then None else Some parser,
             if an_ref_cnt analyzer < 1 then None else Some analyzer, config, hp)))"

section \<open>Setting up\<close>

definition SWISH_DEBUG_DOCINFO :: int where "SWISH_DEBUG_DOCINFO = 1"
definition SWISH_DEBUG_TOKENIZER :: int where "SWISH_DEBUG_TOKENIZER = 2"
definition SWISH_DEBUG_TOKENLIST :: int where "SWISH_DEBUG_TOKENLIST = 4"
definition SWISH_DEBUG_PARSER :: int where "SWISH_DEBUG_PARSER = 8"
definition SWISH_DEBUG_CONFIG :: int where "SWISH_DEBUG_CONFIG = 16"
definition SWISH_DEBUG_MEMORY :: int where "SWISH_DEBUG_MEMORY = 32"
definition SWISH_DEBUG_NAMEDBUFFER :: int where "SWISH_DEBUG_NAMEDBUFFER = 64"
definition SWISH_DEBUG_IO :: int where "SWISH_DEBUG_IO = 128"

text \<open>The variables, in the order they are read, with what each adds to the level.\<close>

definition debug_vars :: "(string \<times> int) list" where
  "debug_vars = [(''SWISH_DEBUG_MEMORY'', SWISH_DEBUG_MEMORY), (''SWISH_DEBUG_CONFIG'', SWISH_DEBUG_CONFIG),
     (''SWISH_DEBUG_DOCINFO'', SWISH_DEBUG_DOCINFO), (''SWISH_DEBUG_TOKENLIST'', SWISH_DEBUG_TOKENLIST),
     (''SWISH_DEBUG_TOKENIZER'', SWISH_DEBUG_TOKENIZER), (''SWISH_DEBUG_PARSER'', SWISH_DEBUG_PARSER),
     (''SWISH_DEBUG_NAMEDBUFFER'', SWISH_DEBUG_NAMEDBUFFER), (''SWISH_DEBUG_IO'', SWISH_DEBUG_IO)]"

definition add_debug_var :: "string \<times> int \<Rightarrow> globals \<Rightarrow> globals res" where
  "add_debug_var v g =
     bnd (env_int (fst v) g) (\<lambda>n. Inr (if n \<noteq> 0 then g\<lparr>g_debug := g_debug g + snd v\<rparr> else g))"

text \<open>The special value -1 is meant to turn on everything: all levels are added to it.\<close>

definition all_debug :: "globals \<Rightarrow> globals" where
  "all_debug g = (if g_debug g = -1 then g\<lparr>g_debug := g_debug g + sum_list (map snd debug_vars)\<rparr> else g)"

definition read_debug :: "globals \<Rightarrow> globals res" where
  "read_debug g =
     (if g_debug g \<noteq> 0 then Inr g
      else
        bnd (env_int ''SWISH_DEBUG'' g) (\<lambda>n.
        bnd (fold_res add_debug_var debug_vars (g\<lparr>g_debug := g_debug g + n\<rparr>)) (\<lambda>g. Inr (all_debug g))))"

definition swish_setup :: "xml_str \<Rightarrow> globals \<Rightarrow> globals res" where
  "swish_setup X g =
     (let g = fold (\<lambda>(name, value). set_env name value)
        [(''SWISH3'', ''1''), (''SWISH_DEBUG'', ''0''), (''SWISH_DEBUG_MEMORY'', ''0''), (''SWISH_DEBUG_CONFIG'', ''0''),
         (''SWISH_DEBUG_DOCINFO'', ''0''), (''SWISH_DEBUG_IO'', ''0''), (''SWISH_DEBUG_TOKENLIST'', ''0''),
         (''SWISH_DEBUG_TOKENIZER'', ''0''), (''SWISH_DEBUG_PARSER'', ''0''), (''SWISH_DEBUG_NAMEDBUFFER'', ''0''),
         (''SWISH_WARNINGS'', ''1'')] g in
      bnd (read_debug g) (\<lambda>g.
      bnd (env_int ''SWISH_WARNINGS'' g) (\<lambda>n.
        Inr (g\<lparr>g_warnings := n, g_process := swish_verify_utf8_locale X (g_process g)\<rparr>))))"

end
