(* ===== verification/Feed.thy ===== *)
theory Feed
  imports Document Library
begin

text \<open>
  Documents one after the other (\<open>swish_parse_fh\<close> and \<open>swish_parse_directory\<close> of
  \<open>src/libswish3/parser.c\<close>): from a stream in which each document has its headers in front, and
  from the files below a directory. \<open>fd_docs\<close> are the states the handler is called with.
\<close>

record ('s, 'p, 'h, 'b, 'c) feed =
  fd_config :: "('s, 'p) swish_Config"
  fd_heap :: heap
  fd_analyzer :: swish_Analyzer
  fd_docs :: "('s, 'p, 'h, 'b, 'c) swish_ParserData list"

text \<open>The handler has been called, and the state of the document is freed.\<close>

definition document_done ::
  "('s, 'p, 'h, 'b, 'c) swish_ParserData \<Rightarrow> swish_Analyzer option \<times> heap \<Rightarrow> ('s, 'p, 'h, 'b, 'c) feed \<Rightarrow>
   ('s, 'p, 'h, 'b, 'c) feed res" where
  "document_done pd left st =
     (case fst left of
        None \<Rightarrow> Inl UseAfterFree
      | Some a \<Rightarrow> Inr (st\<lparr>fd_config := pd_config pd, fd_analyzer := a, fd_heap := snd left, fd_docs := fd_docs st @ [pd]\<rparr>))"

section \<open>Streams\<close>

text \<open>\<open>end\<close> is the newline, moved back over the white space before it.\<close>

function trim_end :: "mem \<Rightarrow> int \<Rightarrow> int \<Rightarrow> int res" where
  "trim_end m line e =
     (if e > line then bnd (rd m (e - 1)) (\<lambda>c. if isspace c then trim_end m line (e - 1) else Inr e)
      else Inr e)"
  by pat_completeness auto
termination by (relation "measure (\<lambda>(m, line, e). nat (e - line))") auto

declare trim_end.simps [simp del]

definition last_newline :: "bytes \<Rightarrow> int option" where
  "last_newline s =
     (if 10 \<in> set s then Some (int (length s) - 1 - int (length (takeWhile (\<lambda>c. c \<noteq> 10) (rev s)))) else None)"

definition header_line :: "mem \<Rightarrow> bytes res" where
  "header_line ln =
     bnd (swish_str_skip_ws ln 0) (\<lambda>line.
     bnd (cstr ln line) (\<lambda>s.
     bnd (case last_newline s of
            None \<Rightarrow> Inr ln
          | Some p \<Rightarrow> bnd (trim_end ln line (line + p)) (\<lambda>e. wr ln e 0)) (\<lambda>ln.
       cstr ln line)))"

definition MIN_HEADERS :: nat where "MIN_HEADERS = 2"

text \<open>A length no memory can be had for is that of a negative \<open>Content-Length\<close>.\<close>

definition stream_body ::
  "nat \<Rightarrow> ('s, 'p, 'h, 'b, 'c) doc_lib \<Rightarrow> bytes \<Rightarrow> bytes \<Rightarrow> ('s, 'p, 'h, 'b, 'c) feed \<Rightarrow>
   (bytes \<times> ('s, 'p, 'h, 'b, 'c) feed) res" where
  "stream_body n D headers fh st =
     (let L = dl_pd D in
      bnd (init_parser_data L (fd_config st) (fd_heap st) (fd_analyzer st) swish_docinfo_init) (\<lambda>pd.
      bnd (buf_to_head (dl_alloc D (SWISH_MAXSTRLEN + 1)) (cobj headers)) (\<lambda>head.
      bnd (head_to_docinfo (dl_str D) head) (\<lambda>docinfo.
      bnd (swish_docinfo_check (pl_cf L) (pl_wide L) docinfo (fd_config st)) (\<lambda>docinfo.
      if di_size docinfo < 0 then Inl (Croak ''out of memory'')
      else
        bnd (swish_io_slurp_fh (dl_str D) fh (nat (di_size docinfo)) False) (\<lambda>(read_buffer, fh).
        bnd (docparser (process_xinclude n D) D None (Some read_buffer) (di_size docinfo) (pd\<lparr>pd_docinfo := docinfo\<rparr>))
          (\<lambda>(xmlErr, pd).
        bnd (free_parser_data pd) (\<lambda>left. bnd (document_done pd left st) (\<lambda>st. Inr (fh, st))))))))))"

lemma stream_body_shrinks: "stream_body n D headers fh st = Inr (fh', st') \<Longrightarrow> length fh' \<le> length fh"
  by (auto simp: stream_body_def Let_def bnd_eq_Inr swish_io_slurp_fh_def split: if_splits)

lemma fgets_shrinks: "fgets SWISH_MAXSTRLEN fh = Some (m, fh') \<Longrightarrow> length fh' < length fh"
  by (auto simp: fgets_def Let_def SWISH_MAXSTRLEN_def fgets_bytes_shrinks split: if_splits)

text \<open>\<open>headers\<close> is the contents of the buffer the header lines are gathered in; the number of
  lines and of documents is counted in an \<open>int\<close> and an \<open>unsigned int\<close>.\<close>

function parse_stream ::
  "nat \<Rightarrow> ('s, 'p, 'h, 'b, 'c) doc_lib \<Rightarrow> bytes \<Rightarrow> nat \<Rightarrow> u32 \<Rightarrow> bytes \<Rightarrow> ('s, 'p, 'h, 'b, 'c) feed \<Rightarrow>
   (u32 \<times> ('s, 'p, 'h, 'b, 'c) feed) res" where
  "parse_stream n D headers nheaders file_cnt fh st =
     (case fgets SWISH_MAXSTRLEN fh of
        None \<Rightarrow>
          if headers \<noteq> [] then Inl (Croak ''Some unparsed header lines remaining'') else Inr (file_cnt, st)
      | Some (ln, fh) \<Rightarrow>
          bnd (header_line ln) (\<lambda>line.
            if MIN_HEADERS \<le> nheaders \<and> xmlStrlen (dl_str D) (Some line) = 0
            then bnd (stream_body n D headers fh st) (\<lambda>(fh, st). parse_stream n D [] 0 (file_cnt + 1) fh st)
            else if xmlStrlen (dl_str D) (Some line) = 0
            then Inl (Croak ''Not enough header lines reading from filehandle'')
            else parse_stream n D (headers @ line @ [10]) (nheaders + 1) file_cnt fh st))"
  by pat_completeness auto
termination
  by (relation "measure (\<lambda>(n, D, hs, k, c, fh, st). length fh)")
    (auto dest!: fgets_shrinks stream_body_shrinks)

declare parse_stream.simps [simp del]

definition swish_parse_fh ::
  "nat \<Rightarrow> ('s, 'p, 'h, 'b, 'c) doc_lib \<Rightarrow> bytes \<Rightarrow> ('s, 'p, 'h, 'b, 'c) feed \<Rightarrow>
   (u32 \<times> ('s, 'p, 'h, 'b, 'c) feed) res" where
  "swish_parse_fh n D fh st = parse_stream n D [] 0 0 fh st"

section \<open>Directories\<close>

definition full_path :: "xml_str \<Rightarrow> bytes \<Rightarrow> bytes \<Rightarrow> bytes" where
  "full_path X dir name =
     (let dir_len = (if xmlStrlen X (Some dir) = 1 \<and> dir ! 0 = SWISH_PATH_SEP then 0 else nat (xmlStrlen X (Some dir)))
      in take dir_len dir @ SWISH_PATH_SEP # name)"

text \<open>The handler is called for every file that is there.\<close>

definition parse_one ::
  "nat \<Rightarrow> ('s, 'p, 'h, 'b, 'c) doc_lib \<Rightarrow> bytes \<Rightarrow> u32 \<times> ('s, 'p, 'h, 'b, 'c) feed \<Rightarrow>
   (u32 \<times> ('s, 'p, 'h, 'b, 'c) feed) res" where
  "parse_one n D file st =
     bnd (swish_parse_file n D (fd_config (snd st)) (fd_heap (snd st)) (fd_analyzer (snd st)) file)
       (\<lambda>(res, pd, left).
     bnd (document_done pd left (snd st)) (\<lambda>fd. Inr (if res = 0 then fst st + 1 else fst st, fd)))"

text \<open>
  \<open>ls\<close> is what \<open>opendir\<close> and \<open>readdir\<close> answer for a directory, and \<open>sub\<close> the call for one
  found inside it. A symbolic link to a file is not parsed, whether links are followed or not.
\<close>

definition dir_entry ::
  "(bytes \<Rightarrow> u32 \<times> ('s, 'p, 'h, 'b, 'c) feed \<Rightarrow> (u32 \<times> ('s, 'p, 'h, 'b, 'c) feed) res) \<Rightarrow> nat \<Rightarrow>
   ('s, 'p, 'h, 'b, 'c) doc_lib \<Rightarrow> bytes \<Rightarrow> bool \<Rightarrow> bytes \<Rightarrow> u32 \<times> ('s, 'p, 'h, 'b, 'c) feed \<Rightarrow>
   (u32 \<times> ('s, 'p, 'h, 'b, 'c) feed) res" where
  "dir_entry sub n D dir follow_symlinks name st =
     (if name \<noteq> [] \<and> hd name = 0x2E then Inr st
      else
        (let S = dl_os D; file = full_path (dl_str D) dir name in
         if \<not> follow_symlinks \<and> swish_fs_is_link S file then Inr st
         else if swish_fs_is_dir S file
         then bnd (sub file (0, snd st)) (\<lambda>(k, fd). Inr (fst st + k, fd))
         else if swish_fs_is_link S file \<and> follow_symlinks then Inr st
         else if swish_fs_is_file S file then parse_one n D file st
         else Inl (Croak ''Unknown file in directory'')))"

text \<open>\<open>d\<close> is how many directories deep the C stack lets the function go.\<close>

fun parse_directory ::
  "(bytes \<Rightarrow> bytes list option) \<Rightarrow> nat \<Rightarrow> nat \<Rightarrow> ('s, 'p, 'h, 'b, 'c) doc_lib \<Rightarrow> bool \<Rightarrow> bytes \<Rightarrow>
   u32 \<times> ('s, 'p, 'h, 'b, 'c) feed \<Rightarrow> (u32 \<times> ('s, 'p, 'h, 'b, 'c) feed) res" where
  "parse_directory ls 0 n D follow_symlinks dir st = Inl OutOfBounds"
| "parse_directory ls (Suc d) n D follow_symlinks dir st =
     (case ls dir of
        None \<Rightarrow> Inr st
      | Some names \<Rightarrow>
          fold_res (dir_entry (parse_directory ls d n D follow_symlinks) n D dir follow_symlinks) names st)"

definition swish_parse_directory ::
  "(bytes \<Rightarrow> bytes list option) \<Rightarrow> nat \<Rightarrow> nat \<Rightarrow> ('s, 'p, 'h, 'b, 'c) doc_lib \<Rightarrow> bytes \<Rightarrow> bool \<Rightarrow>
   ('s, 'p, 'h, 'b, 'c) feed \<Rightarrow> (u32 \<times> ('s, 'p, 'h, 'b, 'c) feed) res" where
  "swish_parse_directory ls d n D dir follow_symlinks st =
     parse_directory ls d n D follow_symlinks dir (0, st)"

end
