(* ===== verification/Header.thy ===== *)
theory Header
  imports Config DocInfo
begin

text \<open>
  Reading a configuration or an index header (\<open>src/libswish3/header.c\<close>). libxml2's text reader
  is a parameter: the nodes it stops at, in order, with the names, value and attributes it
  answers for each, and what its last call returns. A document is found under a file name, or
  given as a string.
\<close>

datatype node_type = NODE_ELEMENT | NODE_TEXT | NODE_COMMENT | NODE_END_ELEMENT | NODE_OTHER

record xml_att =
  at_prefix :: "bytes option"
  at_name :: bytes
  at_value :: bytes

record xml_node =
  nd_type :: node_type
  nd_name :: "bytes option"
  nd_local :: "bytes option"
  nd_value :: "bytes option"
  nd_atts :: "xml_att list"

text \<open>\<open>rr_ok\<close> tells what \<open>xmlTextReaderRead\<close> returns after the last node: 0, or -1 for an error.\<close>

record xml_reader =
  rr_cur :: "xml_node option"
  rr_nodes :: "xml_node list"
  rr_ok :: bool

definition reader_end :: "xml_reader \<Rightarrow> int" where
  "reader_end r = (if rr_ok r then 0 else -1)"

lemma reader_end_not_1 [simp]: "reader_end r \<noteq> 1"
  by (simp add: reader_end_def)

definition reader_read :: "xml_reader \<Rightarrow> int \<times> xml_reader" where
  "reader_read r =
     (case rr_nodes r of
        [] \<Rightarrow> (reader_end r, r)
      | n # ns \<Rightarrow> (1, r\<lparr>rr_cur := Some n, rr_nodes := ns\<rparr>))"

text \<open>
  \<open>hl_garbage\<close> is what the byte of \<open>is_valid\<close> holds when a \<open>headmaker\<close> is allocated: nothing
  sets it before it is read.
\<close>

record ('s, 'p) head_lib =
  hl_cf :: "('s, 'p) cf_lib"
  hl_wide :: wide
  hl_os :: os
  hl_file :: "bytes \<Rightarrow> (xml_node list \<times> bool) option"
  hl_memory :: "bytes \<Rightarrow> (xml_node list \<times> bool) option"
  hl_build_uri :: "bytes \<Rightarrow> bytes \<Rightarrow> bytes option"
  hl_garbage :: bool

abbreviation hl_str :: "('s, 'p) head_lib \<Rightarrow> xml_str" where
  "hl_str L \<equiv> cl_str (hl_cf L)"

abbreviation hl_ptr :: "('s, 'p) head_lib \<Rightarrow> ('p, nat) xml_hash" where
  "hl_ptr L \<equiv> cl_ptr (hl_cf L)"

abbreviation hl_tab :: "('s, 'p) head_lib \<Rightarrow> ('s, bytes) xml_hash" where
  "hl_tab L \<equiv> cl_tab (hl_cf L)"

record ('s, 'p) headmaker =
  hm_isprops :: bool
  hm_ismetas :: bool
  hm_isindex :: bool
  hm_isparser :: bool
  hm_isalias :: bool
  hm_ismime :: bool
  hm_parent_name :: "bytes option"
  hm_conf_file :: "bytes option"
  hm_config :: "('s, 'p) swish_Config"
  hm_is_valid :: bool
  hm_prop_id :: int
  hm_meta_id :: int

definition SWISH_META_THIS_MUST_COME_LAST_ID :: int where "SWISH_META_THIS_MUST_COME_LAST_ID = 2"
definition SWISH_PROP_THIS_MUST_COME_LAST_ID :: int where "SWISH_PROP_THIS_MUST_COME_LAST_ID = 11"

definition reset_headmaker :: "('s, 'p) headmaker \<Rightarrow> ('s, 'p) headmaker" where
  "reset_headmaker h = h\<lparr>hm_isprops := False, hm_ismetas := False, hm_isindex := False, hm_isparser := False,
     hm_isalias := False, hm_ismime := False, hm_parent_name := None\<rparr>"

definition init_headmaker :: "('s, 'p) head_lib \<Rightarrow> ('s, 'p) headmaker res" where
  "init_headmaker L =
     bnd (swish_config_init (hl_cf L)) (\<lambda>config.
     bnd (swish_hash_init (hl_tab L) 8) (\<lambda>mimes.
       Inr \<lparr>hm_isprops = False, hm_ismetas = False, hm_isindex = False, hm_isparser = False,
            hm_isalias = False, hm_ismime = False, hm_parent_name = None, hm_conf_file = None,
            hm_config = config\<lparr>cf_mimes := Some mimes\<rparr>, hm_is_valid = hl_garbage L,
            hm_prop_id = SWISH_PROP_THIS_MUST_COME_LAST_ID, hm_meta_id = SWISH_META_THIS_MUST_COME_LAST_ID\<rparr>))"

definition lower :: "('s, 'p) head_lib \<Rightarrow> bytes \<Rightarrow> bytes res" where
  "lower L s = swish_str_tolower (hl_str L) (hl_wide L) s"

section \<open>Attributes\<close>

text \<open>The attributes read: a first namespace declaration is skipped, a later one ends the loop.\<close>

definition is_xmlns :: "('s, 'p) head_lib \<Rightarrow> xml_att \<Rightarrow> bool" where
  "is_xmlns L a \<longleftrightarrow> xmlStrEqual (hl_str L) (at_prefix a) (Some (lit ''xmlns''))"

definition config_atts :: "('s, 'p) head_lib \<Rightarrow> xml_att list \<Rightarrow> xml_att list" where
  "config_atts L atts =
     (case atts of
        [] \<Rightarrow> []
      | a # as \<Rightarrow>
          if is_xmlns L a
          then (case as of [] \<Rightarrow> [] | b # bs \<Rightarrow> b # takeWhile (\<lambda>c. \<not> is_xmlns L c) bs)
          else a # takeWhile (\<lambda>c. \<not> is_xmlns L c) as)"

text \<open>\<open>addr\<close> is the object's address, for the table of ids.\<close>

definition read_metaname_attr ::
  "('s, 'p) head_lib \<Rightarrow> nat \<Rightarrow> xml_att \<Rightarrow> swish_MetaName \<times> 'p swish_ConfigFlags \<Rightarrow>
   (swish_MetaName \<times> 'p swish_ConfigFlags) res" where
  "read_metaname_attr L addr att st =
     (let (meta, flags) = st; attr_val = at_value att;
          is_attr = (\<lambda>s. xmlStrEqual (hl_str L) (Some (at_name att)) (Some (lit s))) in
      if is_attr ''bias'' then bnd (swish_string_to_int attr_val) (\<lambda>n. Inr (meta\<lparr>mn_bias := n\<rparr>, flags))
      else if is_attr ''id'' then
        (if swish_hash_exists (hl_ptr L) (fl_meta_ids flags) attr_val
         then Inl (Croak ''duplicate id on MetaName'')
         else
           bnd (swish_string_to_int attr_val) (\<lambda>n.
           bnd (put_in (hl_ptr L) (fl_meta_ids flags) attr_val addr) (\<lambda>ids.
             Inr (meta\<lparr>mn_id := n\<rparr>, flags\<lparr>fl_meta_ids := ids\<rparr>))))
      else if is_attr ''alias_for''
      then bnd (lower L attr_val) (\<lambda>s. Inr (meta\<lparr>mn_alias_for := Cell s\<rparr>, flags))
      else Inl (Croak ''Unknown MetaName attribute''))"

definition isdigit :: "u8 \<Rightarrow> bool" where
  "isdigit c \<longleftrightarrow> 0x30 \<le> c \<and> c \<le> 0x39"

definition read_property_type :: "('s, 'p) head_lib \<Rightarrow> bytes \<Rightarrow> int res" where
  "read_property_type L attr_val =
     (let is_val = (\<lambda>s. xmlStrEqual (hl_str L) (Some attr_val) (Some (lit s))) in
      if is_val ''int'' then Inr SWISH_PROP_INT
      else if is_val ''date'' then Inr SWISH_PROP_DATE
      else if is_val ''string'' \<or> is_val ''text'' then Inr SWISH_PROP_STRING
      else bnd (rd (cobj attr_val) 0) (\<lambda>c.
        if isdigit c then swish_string_to_int attr_val else Inl (Croak ''Invalid value for PropertyName'')))"

text \<open>An int stored in an \<open>unsigned int\<close>.\<close>

definition unsigned_int :: "int \<Rightarrow> nat" where
  "unsigned_int n = nat (n mod 2 ^ 32)"

definition read_property_attr ::
  "('s, 'p) head_lib \<Rightarrow> nat \<Rightarrow> xml_att \<Rightarrow> swish_Property \<times> 'p swish_ConfigFlags \<Rightarrow>
   (swish_Property \<times> 'p swish_ConfigFlags) res" where
  "read_property_attr L addr att st =
     (let (prop, flags) = st; attr_val = at_value att;
          is_attr = (\<lambda>s. xmlStrEqual (hl_str L) (Some (at_name att)) (Some (lit s)));
          bool' = swish_string_to_boolean (Some (cobj attr_val)) in
      if is_attr ''ignore_case'' then bnd bool' (\<lambda>b. Inr (prop\<lparr>pr_ignore_case := b\<rparr>, flags))
      else if is_attr ''max''
      then bnd (swish_string_to_int attr_val) (\<lambda>n. Inr (prop\<lparr>pr_max := unsigned_int n\<rparr>, flags))
      else if is_attr ''verbatim'' then bnd bool' (\<lambda>b. Inr (prop\<lparr>pr_verbatim := b\<rparr>, flags))
      else if is_attr ''sort'' then bnd bool' (\<lambda>b. Inr (prop\<lparr>pr_sort := b\<rparr>, flags))
      else if is_attr ''presort'' then bnd bool' (\<lambda>b. Inr (prop\<lparr>pr_presort := b\<rparr>, flags))
      else if is_attr ''sort_length''
      then bnd (swish_string_to_int attr_val) (\<lambda>n. Inr (prop\<lparr>pr_sort_length := unsigned_int n\<rparr>, flags))
      else if is_attr ''id'' then
        (if swish_hash_exists (hl_ptr L) (fl_prop_ids flags) attr_val
         then Inl (Croak ''duplicate id'')
         else
           bnd (swish_string_to_int attr_val) (\<lambda>n.
           bnd (put_in (hl_ptr L) (fl_prop_ids flags) attr_val addr) (\<lambda>ids.
             Inr (prop\<lparr>pr_id := n\<rparr>, flags\<lparr>fl_prop_ids := ids\<rparr>))))
      else if is_attr ''type'' then bnd (read_property_type L attr_val) (\<lambda>n. Inr (prop\<lparr>pr_type := n\<rparr>, flags))
      else if is_attr ''alias_for''
      then bnd (lower L attr_val) (\<lambda>s. Inr (prop\<lparr>pr_alias_for := Cell s\<rparr>, flags))
      else Inl (Croak ''unknown Property attribute''))"

section \<open>Names\<close>

type_synonym ('s, 'p) hm_state = "('s, 'p) headmaker \<times> heap"

definition alias_words :: "bytes \<Rightarrow> bytes list res" where
  "alias_words str =
     bnd (swish_stringlist_build (Some (cobj str))) (\<lambda>o'.
       case o' of
         None \<Rightarrow> Inl NullPointer
       | Some (strlist, _) \<Rightarrow>
           fold_res (\<lambda>i ws. bnd (bnd (rd (sl_word strlist) (int i)) slot_word) (\<lambda>w. Inr (ws @ [w])))
             [0..<sl_n strlist] [])"

text \<open>
  An alias is looked up as it is written first, then in lower case; one that is known in lower
  case only has its target replaced.
\<close>

definition read_metaname_alias ::
  "('s, 'p) head_lib \<Rightarrow> swish_MetaName \<Rightarrow> bytes \<Rightarrow> ('s, 'p) hm_state \<Rightarrow> ('s, 'p) hm_state res" where
  "read_metaname_alias L meta word st =
     (let (h, hp) = st; config = hm_config h in
      if swish_hash_exists (hl_ptr L) (cf_metanames config) word
      then Inl (Croak ''Cannot alias MetaName'')
      else
        bnd (lower L word) (\<lambda>newname.
          case swish_hash_fetch (hl_ptr L) (cf_metanames config) newname of
            Some a \<Rightarrow>
              bnd (obj_at (h_metas hp) a) (\<lambda>newmeta.
                Inr (h, hp\<lparr>h_metas := (h_metas hp)[a := Some (newmeta\<lparr>mn_alias_for := Cell (mn_name meta)\<rparr>)]\<rparr>))
          | None \<Rightarrow>
              (let newmeta = (swish_metaname_init newname)\<lparr>mn_ref_cnt := 1, mn_id := hm_meta_id h,
                     mn_bias := mn_bias meta, mn_alias_for := Cell (mn_name meta)\<rparr> in
               bnd (put_in (hl_ptr L) (cf_metanames config) newname (length (h_metas hp))) (\<lambda>metanames.
                 Inr (h\<lparr>hm_config := config\<lparr>cf_metanames := metanames\<rparr>, hm_meta_id := hm_meta_id h + 1\<rparr>,
                      hp\<lparr>h_metas := h_metas hp @ [Some newmeta]\<rparr>)))))"

definition read_metaname_aliases ::
  "('s, 'p) head_lib \<Rightarrow> bytes \<Rightarrow> swish_MetaName \<Rightarrow> ('s, 'p) hm_state \<Rightarrow> ('s, 'p) hm_state res" where
  "read_metaname_aliases L str meta st =
     bnd (alias_words str) (\<lambda>ws. fold_res (read_metaname_alias L meta) ws st)"

definition read_property_alias ::
  "('s, 'p) head_lib \<Rightarrow> swish_Property \<Rightarrow> bytes \<Rightarrow> ('s, 'p) hm_state \<Rightarrow> ('s, 'p) hm_state res" where
  "read_property_alias L prop word st =
     (let (h, hp) = st; config = hm_config h in
      if swish_hash_exists (hl_ptr L) (cf_properties config) word
      then Inl (Croak ''Cannot alias Property'')
      else
        bnd (lower L word) (\<lambda>newname.
          let newprop = (swish_property_init newname)\<lparr>pr_ref_cnt := 1, pr_alias_for := Cell (pr_name prop),
                pr_id := hm_prop_id h, pr_ignore_case := pr_ignore_case prop, pr_type := pr_type prop,
                pr_verbatim := pr_verbatim prop, pr_max := pr_max prop, pr_sort := pr_sort prop\<rparr> in
          bnd (put_in (hl_ptr L) (cf_properties config) newname (length (h_props hp))) (\<lambda>properties.
            Inr (h\<lparr>hm_config := config\<lparr>cf_properties := properties\<rparr>, hm_prop_id := hm_prop_id h + 1\<rparr>,
                 hp\<lparr>h_props := h_props hp @ [Some newprop]\<rparr>))))"

definition read_property_aliases ::
  "('s, 'p) head_lib \<Rightarrow> bytes \<Rightarrow> swish_Property \<Rightarrow> ('s, 'p) hm_state \<Rightarrow> ('s, 'p) hm_state res" where
  "read_property_aliases L str prop st =
     bnd (alias_words str) (\<lambda>ws. fold_res (read_property_alias L prop) ws st)"

text \<open>
  The name of a node is NULL for none of the nodes that reach these functions. The object of a
  text node lives only as long as the call. A metaname without an id gets the next one, and
  the largest id of the flags is the one after it; one that is known already stays what it
  was, though the table of ids has the new object.
\<close>

definition name_of :: "xml_node \<Rightarrow> bytes res" where
  "name_of n = (case nd_name n of None \<Rightarrow> Inl NullPointer | Some s \<Rightarrow> Inr s)"

definition text_of :: "xml_node \<Rightarrow> bytes option" where
  "text_of n = (if nd_type n = NODE_TEXT then nd_value n else None)"

definition next_meta_id ::
  "swish_MetaName \<Rightarrow> ('s, 'p) headmaker \<Rightarrow> swish_MetaName \<times> ('s, 'p) headmaker" where
  "next_meta_id meta h =
     (if mn_id meta = -1
      then (let config = hm_config h in
            (meta\<lparr>mn_id := hm_meta_id h\<rparr>,
             h\<lparr>hm_meta_id := hm_meta_id h + 1,
               hm_config := config\<lparr>cf_flags := (cf_flags config)\<lparr>fl_max_meta_id := hm_meta_id h + 1\<rparr>\<rparr>\<rparr>))
      else (meta, h))"

definition read_metaname ::
  "('s, 'p) head_lib \<Rightarrow> xml_node \<Rightarrow> ('s, 'p) hm_state \<Rightarrow> ('s, 'p) hm_state res" where
  "read_metaname L n st =
     (let (h, hp) = st in
      bnd (name_of n) (\<lambda>nodename.
      bnd (lower L nodename) (\<lambda>name.
        case text_of n of
          Some text \<Rightarrow>
            (case hm_parent_name h of
               None \<Rightarrow> Inl (Croak ''Illegal text in MetaNames section'')
             | Some parent \<Rightarrow>
                 bnd (lower L parent) (\<lambda>pname.
                   read_metaname_aliases L text ((swish_metaname_init pname)\<lparr>mn_ref_cnt := 1\<rparr>) st))
        | None \<Rightarrow>
            (let config = hm_config h; addr = length (h_metas hp) in
             bnd (fold_res (read_metaname_attr L addr) (config_atts L (nd_atts n))
                    ((swish_metaname_init name)\<lparr>mn_ref_cnt := 1\<rparr>, cf_flags config)) (\<lambda>(meta, flags).
             let (meta, h) = next_meta_id meta (h\<lparr>hm_config := config\<lparr>cf_flags := flags\<rparr>\<rparr>);
                 config = hm_config h; hp = hp\<lparr>h_metas := h_metas hp @ [Some meta]\<rparr> in
             bnd (if \<not> swish_hash_exists (hl_ptr L) (cf_metanames config) (mn_name meta)
                  then bnd (put_in (hl_ptr L) (cf_metanames config) (mn_name meta) addr)
                         (\<lambda>metanames. Inr (config\<lparr>cf_metanames := metanames\<rparr>))
                  else Inr config) (\<lambda>config.
               Inr (h\<lparr>hm_config := config, hm_parent_name := Some nodename\<rparr>, hp)))))))"

definition next_prop_id ::
  "swish_Property \<Rightarrow> ('s, 'p) headmaker \<Rightarrow> swish_Property \<times> ('s, 'p) headmaker" where
  "next_prop_id prop h =
     (if pr_id prop = -1
      then (let config = hm_config h in
            (prop\<lparr>pr_id := hm_prop_id h\<rparr>,
             h\<lparr>hm_prop_id := hm_prop_id h + 1,
               hm_config := config\<lparr>cf_flags := (cf_flags config)\<lparr>fl_max_prop_id := hm_prop_id h + 1\<rparr>\<rparr>\<rparr>))
      else (prop, h))"

definition read_property ::
  "('s, 'p) head_lib \<Rightarrow> xml_node \<Rightarrow> ('s, 'p) hm_state \<Rightarrow> ('s, 'p) hm_state res" where
  "read_property L n st =
     (let (h, hp) = st in
      bnd (name_of n) (\<lambda>nodename.
      bnd (lower L nodename) (\<lambda>name.
        case text_of n of
          Some text \<Rightarrow>
            (case hm_parent_name h of
               None \<Rightarrow> Inl (Croak ''Illegal text in PropertyNames section'')
             | Some parent \<Rightarrow>
                 bnd (lower L parent) (\<lambda>pname.
                   read_property_aliases L text ((swish_property_init pname)\<lparr>pr_ref_cnt := 1\<rparr>) st))
        | None \<Rightarrow>
            (let config = hm_config h; addr = length (h_props hp) in
             bnd (fold_res (read_property_attr L addr) (config_atts L (nd_atts n))
                    ((swish_property_init name)\<lparr>pr_ref_cnt := 1\<rparr>, cf_flags config)) (\<lambda>(prop, flags).
             let (prop, h) = next_prop_id prop (h\<lparr>hm_config := config\<lparr>cf_flags := flags\<rparr>\<rparr>);
                 config = hm_config h; hp = hp\<lparr>h_props := h_props hp @ [Some prop]\<rparr> in
             if swish_hash_exists (hl_ptr L) (cf_properties config) (pr_name prop)
             then Inl (Croak ''Property is already defined'')
             else
               bnd (put_in (hl_ptr L) (cf_properties config) (pr_name prop) addr) (\<lambda>properties.
                 Inr (h\<lparr>hm_config := config\<lparr>cf_properties := properties\<rparr>, hm_parent_name := Some nodename\<rparr>, hp)))))))"

section \<open>Keys and values\<close>

text \<open>The text after the element the reader stands on.\<close>

definition next_text :: "xml_reader \<Rightarrow> (bytes \<times> xml_reader) res" where
  "next_text r =
     (let (ret, r) = reader_read r in
      if ret \<noteq> 1 then Inl (Croak ''Error reading value for top-level XML element'')
      else case rr_cur r of
             None \<Rightarrow> Inl NullPointer
           | Some n \<Rightarrow>
               (case text_of n of
                  None \<Rightarrow> Inl (Croak ''Top-level XML element missing value'')
                | Some value \<Rightarrow> Inr (value, r)))"

definition set_key :: "('h, 'v) xml_hash \<Rightarrow> bytes \<Rightarrow> 'v \<Rightarrow> 'h \<Rightarrow> 'h res" where
  "set_key H key value hash =
     (if swish_hash_exists H hash key
      then bnd (swish_hash_replace H hash key value) (\<lambda>(h, _). Inr h)
      else put_in H hash key value)"

definition read_key_value_pair ::
  "('s, 'p) head_lib \<Rightarrow> xml_reader \<Rightarrow> bytes \<Rightarrow> 's \<Rightarrow> (xml_reader \<times> 's) res" where
  "read_key_value_pair L r name hash =
     bnd (next_text r) (\<lambda>(value, r). bnd (set_key (hl_tab L) name value hash) (\<lambda>hash. Inr (r, hash)))"

definition read_key_values_pair ::
  "('s, 'p) head_lib \<Rightarrow> xml_reader \<Rightarrow> bytes \<Rightarrow> 's \<Rightarrow> (xml_reader \<times> 's) res" where
  "read_key_values_pair L r name hash =
     bnd (next_text r) (\<lambda>(value, r).
     bnd (lower L value) (\<lambda>str.
     bnd (alias_words str) (\<lambda>ws.
     bnd (fold_res (\<lambda>w. set_key (hl_tab L) w name) ws hash) (\<lambda>hash. Inr (r, hash)))))"

text \<open>A list read before is added to; the new one is released with its words.\<close>

definition read_key_value_stringlist ::
  "('s, 'p) head_lib \<Rightarrow> xml_reader \<Rightarrow> bytes \<Rightarrow> 'p \<times> heap \<Rightarrow> (xml_reader \<times> 'p \<times> heap) res" where
  "read_key_value_stringlist L r name st =
     (let (hash, hp) = st in
      bnd (next_text r) (\<lambda>(value, r).
      bnd (lower L value) (\<lambda>str.
      bnd (swish_stringlist_build (Some (cobj str))) (\<lambda>o'.
        case o' of
          None \<Rightarrow> Inl NullPointer
        | Some (strlist, _) \<Rightarrow>
            (case swish_hash_fetch (hl_ptr L) hash name of
               Some a \<Rightarrow>
                 bnd (obj_at (h_lists hp) a) (\<lambda>old.
                 bnd (swish_stringlist_merge strlist old) (\<lambda>l.
                   Inr (r, hash, hp\<lparr>h_lists := (h_lists hp)[a := Some l]\<rparr>)))
             | None \<Rightarrow>
                 bnd (put_in (hl_ptr L) hash name (length (h_lists hp))) (\<lambda>hash.
                   Inr (r, hash, hp\<lparr>h_lists := h_lists hp @ [Some strlist]\<rparr>)))))))"

text \<open>The flags the entries of \<open>misc\<close> set; \<open>FollowXInclude\<close> is not among them.\<close>

definition handle_special_misc_flags ::
  "('s, 'p) head_lib \<Rightarrow> ('s, 'p) headmaker \<Rightarrow> ('s, 'p) headmaker res" where
  "handle_special_misc_flags L h =
     (let config = hm_config h; flags = cf_flags config; C = hl_cf L in
      bnd (misc_flag C config ''Tokenize'' (fl_tokenize flags)) (\<lambda>tokenize.
      bnd (misc_flag C config ''CascadeMetaContext'' (fl_cascade_meta_context flags)) (\<lambda>cascade.
      bnd (misc_flag C config ''IgnoreXMLNameSpaces'' (fl_ignore_xmlns flags)) (\<lambda>xmlns.
      bnd (misc_undef_metas C config (fl_undef_metas flags)) (\<lambda>metas.
      bnd (misc_undef_attrs C config (fl_undef_attrs flags)) (\<lambda>attrs.
        Inr (h\<lparr>hm_config := config\<lparr>cf_flags := flags\<lparr>fl_tokenize := tokenize, fl_cascade_meta_context := cascade,
               fl_ignore_xmlns := xmlns, fl_undef_metas := metas, fl_undef_attrs := attrs\<rparr>\<rparr>\<rparr>)))))))"

section \<open>Nodes\<close>

text \<open>A section of the file: the flag of the \<open>headmaker\<close> its element sets.\<close>

definition start_section ::
  "('s, 'p) head_lib \<Rightarrow> bytes \<Rightarrow> ('s, 'p) headmaker \<Rightarrow> ('s, 'p) headmaker option" where
  "start_section L name h =
     (let is_name = (\<lambda>s. xmlStrEqual (hl_str L) (Some name) (Some (lit s))); h = reset_headmaker h in
      if is_name ''PropertyNames'' then Some (h\<lparr>hm_isprops := True\<rparr>)
      else if is_name ''MetaNames'' then Some (h\<lparr>hm_ismetas := True\<rparr>)
      else if is_name ''Index'' then Some (h\<lparr>hm_isindex := True\<rparr>)
      else if is_name ''Parsers'' then Some (h\<lparr>hm_isparser := True\<rparr>)
      else if is_name ''MIME'' then Some (h\<lparr>hm_ismime := True\<rparr>)
      else if is_name ''TagAlias'' then Some (h\<lparr>hm_isalias := True\<rparr>)
      else None)"

type_synonym ('s, 'p) rd_state = "xml_reader \<times> ('s, 'p) headmaker \<times> heap"

text \<open>\<open>merge\<close> is \<open>swish_header_merge\<close>, which reads another file.\<close>

type_synonym ('s, 'p) merger =
  "bytes \<Rightarrow> ('s, 'p) swish_Config \<times> heap \<Rightarrow> (('s, 'p) swish_Config \<times> heap) res"

definition include_file :: "('s, 'p) head_lib \<Rightarrow> bytes \<Rightarrow> bytes option \<Rightarrow> bytes res" where
  "include_file L value conf_file =
     bnd (rd (cobj value) 0) (\<lambda>c.
       if c = SWISH_PATH_SEP then Inr value
       else
         bnd (case conf_file of None \<Rightarrow> Inl NullPointer | Some f \<Rightarrow> swish_fs_get_path (hl_str L) (cobj f)) (\<lambda>path.
           case path of
             None \<Rightarrow> Inl (Croak ''Unable to resolve config file path'')
           | Some p \<Rightarrow>
               (case hl_build_uri L value p of
                  None \<Rightarrow> Inl (Croak ''Unable to build URI'')
                | Some xuri \<Rightarrow> Inr xuri)))"

definition read_include ::
  "('s, 'p) merger \<Rightarrow> ('s, 'p) head_lib \<Rightarrow> ('s, 'p) rd_state \<Rightarrow> ('s, 'p) rd_state res" where
  "read_include merge L st =
     (let (r, h, hp) = st; (ret, r) = reader_read r in
      if ret \<noteq> 1 then Inl (Croak ''Invalid value for IncludeConfigFile'')
      else case rr_cur r of
             None \<Rightarrow> Inl NullPointer
           | Some n \<Rightarrow>
               (case text_of n of
                  None \<Rightarrow> Inl (Croak ''Invalid value for IncludeConfigFile'')
                | Some value \<Rightarrow>
                    bnd (include_file L value (hm_conf_file h)) (\<lambda>conf_file.
                    bnd (merge conf_file (hm_config h, hp)) (\<lambda>(config, hp).
                      Inr (r, h\<lparr>hm_config := config\<rparr>, hp)))))"

text \<open>A node inside a section, or at the top level of the file.\<close>

definition read_entry ::
  "('s, 'p) head_lib \<Rightarrow> xml_node \<Rightarrow> bytes \<Rightarrow> ('s, 'p) rd_state \<Rightarrow> ('s, 'p) rd_state res" where
  "read_entry L n name st =
     (let (r, h, hp) = st; config = hm_config h in
      if hm_isprops h then bnd (read_property L n (h, hp)) (\<lambda>st. Inr (r, st))
      else if hm_ismetas h then bnd (read_metaname L n (h, hp)) (\<lambda>st. Inr (r, st))
      else if hm_isindex h
      then bnd (read_key_value_pair L r name (cf_index config)) (\<lambda>(r, t).
             Inr (r, h\<lparr>hm_config := config\<lparr>cf_index := t\<rparr>\<rparr>, hp))
      else if hm_isparser h
      then bnd (read_key_values_pair L r name (cf_parsers config)) (\<lambda>(r, t).
             Inr (r, h\<lparr>hm_config := config\<lparr>cf_parsers := t\<rparr>\<rparr>, hp))
      else if hm_ismime h
      then (case cf_mimes config of
              None \<Rightarrow> Inl (Croak ''xmlHashAddEntry failed'')
            | Some mimes \<Rightarrow>
                bnd (read_key_value_pair L r name mimes) (\<lambda>(r, t).
                  Inr (r, h\<lparr>hm_config := config\<lparr>cf_mimes := Some t\<rparr>\<rparr>, hp)))
      else if hm_isalias h
      then bnd (read_key_values_pair L r name (cf_tag_aliases config)) (\<lambda>(r, t).
             Inr (r, h\<lparr>hm_config := config\<lparr>cf_tag_aliases := t\<rparr>\<rparr>, hp))
      else if xmlStrEqual (hl_str L) (Some SWISH_CLASS_ATTRIBUTES) (Some name)
      then bnd (read_key_value_stringlist L r name (cf_stringlists config, hp)) (\<lambda>(r, t, hp).
             Inr (r, h\<lparr>hm_config := config\<lparr>cf_stringlists := t\<rparr>\<rparr>, hp))
      else if nd_type n = NODE_ELEMENT
      then bnd (read_key_value_pair L r name (cf_misc config)) (\<lambda>(r, t).
           bnd (handle_special_misc_flags L (h\<lparr>hm_config := config\<lparr>cf_misc := t\<rparr>\<rparr>)) (\<lambda>h. Inr (r, h, hp)))
      else Inr st)"

definition node_local_name :: "xml_node \<Rightarrow> bytes" where
  "node_local_name n = (case nd_local n of None \<Rightarrow> lit ''--'' | Some s \<Rightarrow> s)"

definition blank_value :: "('s, 'p) head_lib \<Rightarrow> xml_node \<Rightarrow> bool res" where
  "blank_value L n = (case nd_value n of None \<Rightarrow> Inr True | Some v \<Rightarrow> swish_str_all_ws (hl_str L) (cobj v))"

definition process_node ::
  "('s, 'p) merger \<Rightarrow> ('s, 'p) head_lib \<Rightarrow> xml_node \<Rightarrow> ('s, 'p) rd_state \<Rightarrow> ('s, 'p) rd_state res" where
  "process_node merge L n st =
     (let (r, h, hp) = st; name = node_local_name n;
          is_name = (\<lambda>s. xmlStrEqual (hl_str L) (Some name) (Some (lit s))) in
      if nd_type n = NODE_COMMENT then Inr st
      else if is_name ''swish'' then Inr (r, h\<lparr>hm_is_valid := True\<rparr>, hp)
      else if \<not> hm_is_valid h then Inl (Croak ''invalid header file'')
      else
        bnd (blank_value L n) (\<lambda>ws.
          if ws \<and> is_name ''#text'' then Inr st
          else if nd_type n = NODE_END_ELEMENT
          then Inr (r, (if start_section L name h = None then h else reset_headmaker h), hp)
          else if is_name ''IncludeConfigFile'' then read_include merge L st
          else case start_section L name h of
                 Some h \<Rightarrow> Inr (r, h, hp)
               | None \<Rightarrow> read_entry L n name st))"

section \<open>Files\<close>

text \<open>The nodes one by one. A node that is read with its successor uses that up too.\<close>

lemma next_text_shrinks: "next_text r = Inr (v, r') \<Longrightarrow> length (rr_nodes r') < length (rr_nodes r)"
  by (auto simp: next_text_def reader_read_def bnd_eq_Inr split: list.splits option.splits)

lemma read_entry_shrinks:
  "read_entry L n name st = Inr st' \<Longrightarrow> length (rr_nodes (fst st')) \<le> length (rr_nodes (fst st))"
  by (cases st)
    (auto simp: read_entry_def Let_def bnd_eq_Inr read_key_value_pair_def read_key_values_pair_def
      read_key_value_stringlist_def split: if_splits option.splits dest!: next_text_shrinks)

lemma process_node_shrinks:
  "process_node merge L n st = Inr st' \<Longrightarrow> length (rr_nodes (fst st')) \<le> length (rr_nodes (fst st))"
  by (cases st)
    (auto simp: process_node_def Let_def bnd_eq_Inr read_include_def reader_read_def
      split: if_splits option.splits list.splits dest!: read_entry_shrinks)

function read_nodes ::
  "('s, 'p) merger \<Rightarrow> ('s, 'p) head_lib \<Rightarrow> ('s, 'p) rd_state \<Rightarrow> (int \<times> ('s, 'p) hm_state) res" where
  "read_nodes merge L st =
     (let (r, h, hp) = st in
      case rr_nodes r of
        [] \<Rightarrow> Inr (reader_end r, h, hp)
      | n # ns \<Rightarrow> bnd (process_node merge L n (r\<lparr>rr_cur := Some n, rr_nodes := ns\<rparr>, h, hp)) (read_nodes merge L))"
  by pat_completeness auto
termination
  by (relation "measure (\<lambda>(merge, L, r, h, hp). length (rr_nodes r))") (auto dest!: process_node_shrinks)

declare read_nodes.simps [simp del]

text \<open>What is not the name of a file is taken as the text of the header itself.\<close>

definition header_nodes :: "('s, 'p) head_lib \<Rightarrow> bytes \<Rightarrow> (bytes \<times> xml_reader) res" where
  "header_nodes L filename =
     (let (conf_file, doc) =
        (if \<not> swish_fs_file_exists (hl_os L) filename then (lit ''in-memory'', hl_memory L filename)
         else (filename, hl_file L filename)) in
      case doc of
        None \<Rightarrow> Inl (Croak ''Unable to open'')
      | Some (ns, ok) \<Rightarrow> Inr (conf_file, \<lparr>rr_cur = None, rr_nodes = ns, rr_ok = ok\<rparr>))"

definition read_header ::
  "('s, 'p) merger \<Rightarrow> ('s, 'p) head_lib \<Rightarrow> bytes \<Rightarrow> ('s, 'p) hm_state \<Rightarrow> ('s, 'p) hm_state res" where
  "read_header merge L filename st =
     (let (h, hp) = st in
      bnd (header_nodes L filename) (\<lambda>(conf_file, r).
      bnd (read_nodes merge L (r, h\<lparr>hm_conf_file := Some conf_file\<rparr>, hp)) (\<lambda>(ret, h, hp).
        if ret \<noteq> 0 then Inl (Croak ''failed to parse'') else Inr (h\<lparr>hm_conf_file := None\<rparr>, hp))))"

definition test_meta_alias_for ::
  "('s, 'p) cf_lib \<Rightarrow> ('s, 'p) swish_Config \<Rightarrow> heap \<Rightarrow> bytes \<times> nat \<Rightarrow> unit \<Rightarrow> unit res" where
  "test_meta_alias_for L c hp e u =
     bnd (obj_at (h_metas hp) (snd e)) (\<lambda>meta.
       case mn_alias_for meta of
         NullCell \<Rightarrow> Inr ()
       | Freed \<Rightarrow> Inl UseAfterFree
       | Cell s \<Rightarrow>
           if swish_hash_exists (cl_ptr L) (cf_metanames c) s then Inr ()
           else Inl (Croak ''no such MetaName defined''))"

definition test_prop_alias_for ::
  "('s, 'p) cf_lib \<Rightarrow> ('s, 'p) swish_Config \<Rightarrow> heap \<Rightarrow> bytes \<times> nat \<Rightarrow> unit \<Rightarrow> unit res" where
  "test_prop_alias_for L c hp e u =
     bnd (obj_at (h_props hp) (snd e)) (\<lambda>prop.
       case pr_alias_for prop of
         NullCell \<Rightarrow> Inr ()
       | Freed \<Rightarrow> Inl UseAfterFree
       | Cell s \<Rightarrow>
           if swish_hash_exists (cl_ptr L) (cf_properties c) s then Inr ()
           else bnd (swish_property_get_id L hp s (cf_properties c)) (\<lambda>i.
             if i \<noteq> 0 then Inr () else Inl (Croak ''no such Property defined'')))"

definition swish_config_test_alias_fors ::
  "('s, 'p) cf_lib \<Rightarrow> ('s, 'p) swish_Config \<Rightarrow> heap \<Rightarrow> unit res" where
  "swish_config_test_alias_fors L c hp =
     bnd (fold_res (test_meta_alias_for L c hp) (xmlHashEntries (cl_ptr L) (cf_metanames c)) ()) (\<lambda>_.
       fold_res (test_prop_alias_for L c hp) (xmlHashEntries (cl_ptr L) (cf_properties c)) ())"

text \<open>
  A file may include another, and nothing stops it from including itself: \<open>n\<close> is how many files
  deep the C stack lets the reader go.
\<close>

fun swish_header_merge :: "nat \<Rightarrow> ('s, 'p) head_lib \<Rightarrow> ('s, 'p) merger" where
  "swish_header_merge 0 L filename st = Inl OutOfBounds"
| "swish_header_merge (Suc n) L filename st =
     (let (c, hp) = st in
      bnd (init_headmaker L) (\<lambda>h.
      bnd (read_header (swish_header_merge n L) L filename (h, hp)) (\<lambda>(h, hp).
      bnd (swish_config_merge (hl_cf L) c (hm_config h) hp) (\<lambda>(c, config2, hp).
      bnd (swish_config_free (hl_cf L) config2 hp) (\<lambda>hp.
      bnd (swish_config_test_alias_fors (hl_cf L) c hp) (\<lambda>_. Inr (c, hp)))))))"

definition swish_header_validate :: "nat \<Rightarrow> ('s, 'p) head_lib \<Rightarrow> bytes \<Rightarrow> heap \<Rightarrow> heap res" where
  "swish_header_validate n L filename hp =
     bnd (init_headmaker L) (\<lambda>h.
     bnd (read_header (swish_header_merge n L) L filename (h, hp)) (\<lambda>(h, hp).
     bnd (swish_config_test_alias_fors (hl_cf L) (hm_config h) hp) (\<lambda>_.
       swish_config_free (hl_cf L) (hm_config h) hp)))"

definition swish_header_read ::
  "nat \<Rightarrow> ('s, 'p) head_lib \<Rightarrow> bytes \<Rightarrow> heap \<Rightarrow> (('s, 'p) swish_Config \<times> heap) res" where
  "swish_header_read n L filename hp =
     bnd (init_headmaker L) (\<lambda>h.
     bnd (read_header (swish_header_merge n L) L filename (h, hp)) (\<lambda>(h, hp). Inr (hm_config h, hp)))"

text \<open>Adding a configuration file (\<open>config.c\<close>) is merging it as a header.\<close>

definition swish_config_parse :: "nat \<Rightarrow> ('s, 'p) head_lib \<Rightarrow> bytes \<Rightarrow> ('s, 'p) swish_Config \<times> heap \<Rightarrow>
   (('s, 'p) swish_Config \<times> heap) res" where
  "swish_config_parse n L conf st = swish_header_merge n L conf st"

definition swish_config_add :: "nat \<Rightarrow> ('s, 'p) head_lib \<Rightarrow> bytes \<Rightarrow> ('s, 'p) swish_Config \<times> heap \<Rightarrow>
   (('s, 'p) swish_Config \<times> heap) res" where
  "swish_config_add n L conf st = swish_config_parse n L conf st"

end
