(* ===== verification/HeaderWrite.thy ===== *)
theory HeaderWrite
  imports Header
begin

text \<open>
  Writing an index header (the second half of \<open>src/libswish3/header.c\<close>). What is written is the
  list of the calls of libxml2's text writer, in order; a call that fails, when the disk is
  full for instance, ends the process and is left out.
\<close>

datatype xml_item =
    StartItem bytes
  | AttItem bytes bytes
  | EndItem
  | ElemItem bytes bytes
  | CommentItem bytes

type_synonym xml_writer = "xml_item list"

definition write_open_tag :: "bytes \<Rightarrow> xml_writer \<Rightarrow> xml_writer" where
  "write_open_tag tag w = w @ [StartItem tag]"

definition write_close_tag :: "xml_writer \<Rightarrow> xml_writer" where
  "write_close_tag w = w @ [EndItem]"

definition write_attribute :: "string \<Rightarrow> bytes \<Rightarrow> xml_writer \<Rightarrow> xml_writer" where
  "write_attribute name val w = w @ [AttItem (lit name) val]"

definition write_element_with_content :: "bytes \<Rightarrow> bytes \<Rightarrow> xml_writer \<Rightarrow> xml_writer" where
  "write_element_with_content tag content w = w @ [ElemItem tag content]"

text \<open>\<open>%d\<close> of an \<open>unsigned int\<close> and of a \<open>boolean\<close>.\<close>

definition unsigned_as_d :: "nat \<Rightarrow> bytes" where
  "unsigned_as_d n = swish_int_to_string (signed_take_bit 31 (int n))"

definition boolean_as_d :: "bool \<Rightarrow> bytes" where
  "boolean_as_d b = swish_int_to_string (if b then 1 else 0)"

definition write_metaname :: "heap \<Rightarrow> bytes \<times> nat \<Rightarrow> xml_writer \<Rightarrow> xml_writer res" where
  "write_metaname hp e w =
     bnd (obj_at (h_metas hp) (snd e)) (\<lambda>meta.
       let w = write_attribute ''id'' (swish_int_to_string (mn_id meta)) (write_open_tag (fst e) w) in
       case mn_alias_for meta of
         Freed \<Rightarrow> Inl UseAfterFree
       | Cell s \<Rightarrow> Inr (write_close_tag (write_attribute ''alias_for'' s w))
       | NullCell \<Rightarrow> Inr (write_close_tag (write_attribute ''bias'' (swish_int_to_string (mn_bias meta)) w)))"

definition write_metanames :: "('p, nat) xml_hash \<Rightarrow> heap \<Rightarrow> 'p \<Rightarrow> xml_writer \<Rightarrow> xml_writer res" where
  "write_metanames H hp metanames w = fold_res (write_metaname hp) (xmlHashEntries H metanames) w"

definition write_property_atts :: "swish_Property \<Rightarrow> xml_writer \<Rightarrow> xml_writer" where
  "write_property_atts prop w =
     (let w = write_attribute ''ignore_case'' (boolean_as_d (pr_ignore_case prop)) w;
          w = write_attribute ''verbatim'' (boolean_as_d (pr_verbatim prop)) w;
          w = write_attribute ''type'' (swish_int_to_string (pr_type prop)) w;
          w = write_attribute ''max'' (unsigned_as_d (pr_max prop)) w;
          w = write_attribute ''sort'' (boolean_as_d (pr_sort prop)) w;
          w = write_attribute ''sort_length'' (unsigned_as_d (pr_sort_length prop)) w
      in write_attribute ''presort'' (boolean_as_d (pr_presort prop)) w)"

definition write_property :: "heap \<Rightarrow> bytes \<times> nat \<Rightarrow> xml_writer \<Rightarrow> xml_writer res" where
  "write_property hp e w =
     bnd (obj_at (h_props hp) (snd e)) (\<lambda>prop.
       let w = write_attribute ''id'' (swish_int_to_string (pr_id prop)) (write_open_tag (fst e) w) in
       case pr_alias_for prop of
         Freed \<Rightarrow> Inl UseAfterFree
       | Cell s \<Rightarrow> Inr (write_close_tag (write_attribute ''alias_for'' s w))
       | NullCell \<Rightarrow> Inr (write_close_tag (write_property_atts prop w)))"

definition write_properties :: "('p, nat) xml_hash \<Rightarrow> heap \<Rightarrow> 'p \<Rightarrow> xml_writer \<Rightarrow> xml_writer res" where
  "write_properties H hp properties w = fold_res (write_property hp) (xmlHashEntries H properties) w"

definition write_hash_entry :: "bytes \<times> bytes \<Rightarrow> xml_writer \<Rightarrow> xml_writer" where
  "write_hash_entry e w = write_element_with_content (fst e) (snd e) w"

definition write_reverse_hash_entry :: "bytes \<times> bytes \<Rightarrow> xml_writer \<Rightarrow> xml_writer" where
  "write_reverse_hash_entry e w = write_element_with_content (snd e) (fst e) w"

definition write_parser :: "bytes \<times> bytes \<Rightarrow> xml_writer \<Rightarrow> xml_writer" where
  "write_parser e w = write_element_with_content (snd e) (fst e) w"

definition write_parsers :: "('s, bytes) xml_hash \<Rightarrow> 's \<Rightarrow> xml_writer \<Rightarrow> xml_writer" where
  "write_parsers H parsers w = fold write_parser (xmlHashEntries H parsers) w"

text \<open>Only what differs from the built-in types.\<close>

definition write_mime :: "('s, bytes) xml_hash \<Rightarrow> xml_str \<Rightarrow> 's \<Rightarrow> bytes \<times> bytes \<Rightarrow> xml_writer \<Rightarrow> xml_writer" where
  "write_mime H X defaults e w =
     (if \<not> swish_hash_exists H defaults (fst e) \<or>
         \<not> xmlStrEqual X (swish_hash_fetch H defaults (fst e)) (Some (snd e))
      then write_element_with_content (fst e) (snd e) w
      else w)"

text \<open>\<open>xmlHashScan\<close> of NULL visits nothing.\<close>

definition write_mimes :: "('s, bytes) xml_hash \<Rightarrow> xml_str \<Rightarrow> 's option \<Rightarrow> xml_writer \<Rightarrow> xml_writer res" where
  "write_mimes H X mimes w =
     bnd (swish_mime_defaults H) (\<lambda>defaults.
       Inr (case mimes of None \<Rightarrow> w | Some m \<Rightarrow> fold (write_mime H X defaults) (xmlHashEntries H m) w))"

definition write_index :: "('s, bytes) xml_hash \<Rightarrow> 's \<Rightarrow> xml_writer \<Rightarrow> xml_writer" where
  "write_index H index w = fold write_hash_entry (xmlHashEntries H index) w"

definition write_tag_aliases :: "('s, bytes) xml_hash \<Rightarrow> 's \<Rightarrow> xml_writer \<Rightarrow> xml_writer" where
  "write_tag_aliases H tag_aliases w = fold write_reverse_hash_entry (xmlHashEntries H tag_aliases) w"

definition write_misc :: "('s, bytes) xml_hash \<Rightarrow> 's \<Rightarrow> xml_writer \<Rightarrow> xml_writer" where
  "write_misc H misc w = fold write_hash_entry (xmlHashEntries H misc) w"

definition SWISH_VERSION :: bytes where "SWISH_VERSION = lit ''3.0.0''"

text \<open>\<open>lib_version\<close> is the answer of \<open>swish_lib_version\<close>, set when the library is built.\<close>

definition write_version ::
  "('s, bytes) xml_hash \<Rightarrow> 's \<Rightarrow> string \<Rightarrow> bytes \<Rightarrow> xml_writer \<Rightarrow> xml_writer" where
  "write_version H misc key version w =
     (if \<not> swish_hash_exists H misc (lit key) then write_element_with_content (lit key) version w else w)"

definition write_section ::
  "string \<Rightarrow> (xml_writer \<Rightarrow> xml_writer res) \<Rightarrow> xml_writer \<Rightarrow> xml_writer res" where
  "write_section name body w = bnd (body (write_open_tag (lit name) w)) (\<lambda>w. Inr (write_close_tag w))"

definition swish_header_write ::
  "('s, 'p) cf_lib \<Rightarrow> bytes \<Rightarrow> ('s, 'p) swish_Config \<Rightarrow> heap \<Rightarrow> xml_writer res" where
  "swish_header_write L lib_version config hp =
     (let H = cl_tab L;
          w = write_open_tag (lit ''swish'') [] @ [CommentItem (lit ''written by libswish3 - DO NOT EDIT'')];
          w = write_version H (cf_misc config) ''swish_version'' SWISH_VERSION w;
          w = write_version H (cf_misc config) ''swish_lib_version'' lib_version w in
      bnd (write_section ''MetaNames'' (write_metanames (cl_ptr L) hp (cf_metanames config)) w) (\<lambda>w.
      bnd (write_section ''PropertyNames'' (write_properties (cl_ptr L) hp (cf_properties config)) w) (\<lambda>w.
      bnd (write_section ''Parsers'' (\<lambda>w. Inr (write_parsers H (cf_parsers config) w)) w) (\<lambda>w.
      bnd (write_section ''MIME'' (write_mimes H (cl_str L) (cf_mimes config)) w) (\<lambda>w.
      bnd (write_section ''Index'' (\<lambda>w. Inr (write_index H (cf_index config) w)) w) (\<lambda>w.
      bnd (write_section ''TagAlias'' (\<lambda>w. Inr (write_tag_aliases H (cf_tag_aliases config) w)) w) (\<lambda>w.
        Inr (write_close_tag (write_misc H (cf_misc config) w)))))))))"

end
