(* ===== verification/Programs.thy ===== *)
theory Programs
  imports Feed HeaderWrite Tokenizer_Correct
begin

text \<open>
  The programs beside the library (\<open>src/swish_header.c\<close>, \<open>swish_lint.c\<close>, \<open>swish_tokenize.c\<close>,
  \<open>swish_utf8.c\<close>). \<open>getopt_long\<close> is not modelled: a program takes its options as a list, in the
  order they are given, and the arguments after them. What it prints is left out where it is
  only a copy of what it has computed. \<open>Usage\<close> is the exit after the help text.
\<close>

datatype 'a outcome = Usage | Finished 'a

section \<open>\<open>swish_header\<close>\<close>

text \<open>A file is tested by reading it, or merged.\<close>

definition header_file ::
  "nat \<Rightarrow> ('s, 'p) head_lib \<Rightarrow> bool \<Rightarrow> bytes \<Rightarrow> ('s, 'p) swish_Config \<times> heap \<Rightarrow> (('s, 'p) swish_Config \<times> heap) res" where
  "header_file n L test_mode file st =
     (if test_mode then
        bnd (swish_header_read n L file (snd st)) (\<lambda>(test_config, hp).
        bnd (swish_config_free (hl_cf L) test_config hp) (\<lambda>hp. Inr (fst st, hp)))
      else swish_header_merge n L file st)"

text \<open>What is written to \<open>swish_header.xml\<close>, if anything, and the heap.\<close>

definition swish_header_main ::
  "nat \<Rightarrow> ('s, 'p) head_lib \<Rightarrow> bytes \<Rightarrow> bytes \<Rightarrow> bool \<Rightarrow> bytes list \<Rightarrow> heap \<Rightarrow> (xml_writer option \<times> heap) outcome res" where
  "swish_header_main n L locale lib_version test_mode files hp =
     (if files = [] then Inr Usage
      else
        bnd (swish_config_init (hl_cf L)) (\<lambda>config.
        bnd (swish_config_set_default (hl_cf L) locale config hp) (\<lambda>st.
        bnd (fold_res (header_file n L test_mode) files st) (\<lambda>(config, hp).
        bnd (if test_mode then Inr None
             else bnd (swish_header_write (hl_cf L) lib_version config hp) (\<lambda>w. Inr (Some w))) (\<lambda>written.
        bnd (swish_config_free (hl_cf L) config hp) (\<lambda>hp. Inr (Finished (written, hp))))))))"

section \<open>\<open>swish_lint\<close>\<close>

datatype lint_option = Opt_config bytes | Opt_debug bytes | Opt_verbose | Opt_filelist bytes |
  Opt_tokenize bytes | Opt_xmlns bytes | Opt_xinclude bytes | Opt_cascade bytes | Opt_help

record ('s, 'p) lint =
  li_s3 :: "('s, 'p) swish_3"
  li_heap :: heap
  li_globals :: globals
  li_filelist :: "bytes option"

definition set_flags ::
  "('p swish_ConfigFlags \<Rightarrow> 'p swish_ConfigFlags) \<Rightarrow> ('s, 'p) lint \<Rightarrow> ('s, 'p) lint" where
  "set_flags f l =
     (let s3 = li_s3 l; config = s3_config s3 in
      l\<lparr>li_s3 := s3\<lparr>s3_config := config\<lparr>cf_flags := f (cf_flags config)\<rparr>\<rparr>\<rparr>)"

text \<open>None is the help text.\<close>

definition lint_opt ::
  "nat \<Rightarrow> ('s, 'p) head_lib \<Rightarrow> lint_option \<Rightarrow> ('s, 'p) lint option \<Rightarrow> ('s, 'p) lint option res" where
  "lint_opt n L opt l =
     (case l of
        None \<Rightarrow> Inr None
      | Some l \<Rightarrow>
          (let s3 = li_s3 l; bool_of = (\<lambda>a. swish_string_to_boolean (Some (cobj a))) in
           case opt of
             Opt_config conf \<Rightarrow>
               bnd (swish_config_add n L conf (s3_config s3, li_heap l)) (\<lambda>(config, hp).
                 Inr (Some (l\<lparr>li_s3 := s3\<lparr>s3_config := config\<rparr>, li_heap := hp\<rparr>)))
           | Opt_debug a \<Rightarrow>
               bnd (rd (cobj a) 0) (\<lambda>c.
                 if \<not> (0x30 \<le> c \<and> c \<le> 0x39) then Inl (Croak ''-d option requires a positive integer as argument'')
                 else bnd (swish_string_to_int a) (\<lambda>d. Inr (Some (l\<lparr>li_globals := (li_globals l)\<lparr>g_debug := d\<rparr>\<rparr>))))
           | Opt_verbose \<Rightarrow> Inr (Some (l\<lparr>li_s3 := s3\<lparr>s3_parser := (s3_parser s3)\<lparr>ps_verbosity := 1\<rparr>\<rparr>\<rparr>))
           | Opt_filelist f \<Rightarrow> Inr (Some (l\<lparr>li_filelist := Some f\<rparr>))
           | Opt_tokenize a \<Rightarrow>
               bnd (bool_of a) (\<lambda>b. Inr (Some (l\<lparr>li_s3 := s3\<lparr>s3_analyzer := (s3_analyzer s3)\<lparr>an_tokenize := b\<rparr>\<rparr>\<rparr>)))
           | Opt_xmlns a \<Rightarrow> bnd (bool_of a) (\<lambda>b. Inr (Some (set_flags (\<lambda>f. f\<lparr>fl_ignore_xmlns := b\<rparr>) l)))
           | Opt_xinclude a \<Rightarrow> bnd (bool_of a) (\<lambda>b. Inr (Some (set_flags (\<lambda>f. f\<lparr>fl_follow_xinclude := b\<rparr>) l)))
           | Opt_cascade a \<Rightarrow> bnd (bool_of a) (\<lambda>b. Inr (Some (set_flags (\<lambda>f. f\<lparr>fl_cascade_meta_context := b\<rparr>) l)))
           | Opt_help \<Rightarrow> Inr None))"

text \<open>One file: it counts when the parser answers 0.\<close>

definition lint_parse_file ::
  "nat \<Rightarrow> ('s, 'p, 'h, 'b, 'c) doc_lib \<Rightarrow> bytes \<Rightarrow> int \<times> ('s, 'p, 'h, 'b, 'c) feed \<Rightarrow>
   (int \<times> ('s, 'p, 'h, 'b, 'c) feed) res" where
  "lint_parse_file n D file st =
     bnd (swish_parse_file n D (fd_config (snd st)) (fd_heap (snd st)) (fd_analyzer (snd st)) file)
       (\<lambda>(res, pd, left).
     bnd (document_done pd left (snd st)) (\<lambda>fd. Inr (if res = 0 then fst st + 1 else fst st, fd)))"

text \<open>An argument is a file, a directory, or a dash for the standard input, whose number of
  documents replaces the number of files so far; any other that begins with a dash is ignored.
  The standard input is read to its end, and what is left of it is part of the state.\<close>

definition lint_arg ::
  "(bytes \<Rightarrow> bytes list option) \<Rightarrow> nat \<Rightarrow> nat \<Rightarrow> ('s, 'p, 'h, 'b, 'c) doc_lib \<Rightarrow> bytes \<Rightarrow>
   bytes \<times> int \<times> ('s, 'p, 'h, 'b, 'c) feed \<Rightarrow> (bytes \<times> int \<times> ('s, 'p, 'h, 'b, 'c) feed) res" where
  "lint_arg ls d n D arg st =
     (let (stdin, files, fd) = st in
      bnd (rd (cobj arg) 0) (\<lambda>c.
        if c \<noteq> 0x2D then
          (if swish_fs_is_file (dl_os D) arg
           then bnd (lint_parse_file n D arg (files, fd)) (\<lambda>st. Inr (stdin, st))
           else if swish_fs_is_dir (dl_os D) arg then
             bnd (swish_parse_directory ls d n D arg True fd) (\<lambda>(k, fd). Inr (stdin, files + uint k, fd))
           else Inl (Croak ''neither a file nor a directory''))
        else
          bnd (rd (cobj arg) 1) (\<lambda>c.
            if c = 0 then bnd (swish_parse_fh n D stdin fd) (\<lambda>(k, fd). Inr ([], uint k, fd))
            else Inr (stdin, files, fd))))"

text \<open>Every line of the list of files that is neither empty nor a comment is a file.\<close>

function lint_lines ::
  "nat \<Rightarrow> ('s, 'p, 'h, 'b, 'c) doc_lib \<Rightarrow> bytes \<Rightarrow> int \<times> ('s, 'p, 'h, 'b, 'c) feed \<Rightarrow>
   (int \<times> ('s, 'p, 'h, 'b, 'c) feed) res" where
  "lint_lines n D filehandle st =
     (case fgets SWISH_MAXSTRLEN filehandle of
        None \<Rightarrow> Inr st
      | Some (line_in_file, filehandle) \<Rightarrow>
          bnd (swish_str_skip_ws line_in_file 0) (\<lambda>line.
          bnd (swish_io_is_skippable_line (dl_str D) (drop (nat line) line_in_file)) (\<lambda>skip.
            if skip then lint_lines n D filehandle st
            else
              bnd (header_line line_in_file) (\<lambda>line.
              bnd (lint_parse_file n D line st) (lint_lines n D filehandle)))))"
  by pat_completeness auto
termination
  by (relation "measure (\<lambda>(n, D, fh, st). length fh)") (auto dest!: fgets_shrinks)

declare lint_lines.simps [simp del]

definition lint_filelist ::
  "nat \<Rightarrow> ('s, 'p, 'h, 'b, 'c) doc_lib \<Rightarrow> bytes option \<Rightarrow> int \<times> ('s, 'p, 'h, 'b, 'c) feed \<Rightarrow>
   (int \<times> ('s, 'p, 'h, 'b, 'c) feed) res" where
  "lint_filelist n D filelist st =
     (case filelist of
        None \<Rightarrow> Inr st
      | Some f \<Rightarrow>
          bnd (swish_io_count_operable_file_lines (dl_str D) (dl_os D) f) (\<lambda>num_lines.
            case os_file (dl_os D) f of
              None \<Rightarrow> Inl (Croak ''failed to open filelist'')
            | Some filehandle \<Rightarrow> lint_lines n D filehandle st))"

text \<open>The handler adds the words of a document to a number of its own.\<close>

definition total_words :: "('s, 'p, 'h, 'b, 'c) feed \<Rightarrow> int" where
  "total_words fd = sum_list (map (\<lambda>pd. int (di_nwords (pd_docinfo pd))) (fd_docs fd))"

text \<open>The number of files and of words, and the documents.\<close>

definition swish_lint_main ::
  "(bytes \<Rightarrow> bytes list option) \<Rightarrow> nat \<Rightarrow> nat \<Rightarrow> ('s, 'p) head_lib \<Rightarrow> ('s, 'p, 'h, 'b, 'c) doc_lib \<Rightarrow> bytes \<Rightarrow> globals \<Rightarrow>
   heap \<Rightarrow> lint_option list \<Rightarrow> bytes list \<Rightarrow> bytes \<Rightarrow> (int \<times> int \<times> ('s, 'p, 'h, 'b, 'c) swish_ParserData list) outcome res" where
  "swish_lint_main ls d n L D locale g hp opts args stdin =
     bnd (swish_setup (dl_str D) g) (\<lambda>g.
     bnd (swish_3_init (hl_cf L) locale hp g) (\<lambda>(s3, hp, g).
     bnd (fold_res (lint_opt n L) opts
            (Some \<lparr>li_s3 = s3, li_heap = hp, li_globals = g, li_filelist = None\<rparr>)) (\<lambda>l.
       case l of
         None \<Rightarrow> Inr Usage
       | Some l \<Rightarrow>
           (let s3 = li_s3 l in
            if args = [] \<and> li_filelist l = None
            then bnd (swish_3_free (hl_cf L) s3 (li_heap l)) (\<lambda>_. Inr Usage)
            else
              bnd (fold_res (lint_arg ls d n D) args
                     (stdin, 0, \<lparr>fd_config = s3_config s3, fd_heap = li_heap l, fd_analyzer = s3_analyzer s3, fd_docs = []\<rparr>)) (\<lambda>(_, st).
              bnd (lint_filelist n D (li_filelist l) st) (\<lambda>(files, fd).
              bnd (swish_3_free (hl_cf L) (s3\<lparr>s3_config := fd_config fd, s3_analyzer := fd_analyzer fd\<rparr>) (fd_heap fd)) (\<lambda>_.
                Inr (Finished (files, total_words fd, fd_docs fd)))))))))"

section \<open>\<open>swish_tokenize\<close>\<close>

text \<open>Every argument is tokenized for the default metaname; a file given with \<open>--file\<close> is
  tokenized last. A metaname that is not configured is an address without an object.\<close>

definition tokenize_arg ::
  "('b, 'c) tk_lib \<Rightarrow> swish_Analyzer \<Rightarrow> nat \<Rightarrow> bytes \<Rightarrow> int list \<times> ('b, 'c) swish_TokenIterator \<times> heap \<Rightarrow>
   (int list \<times> ('b, 'c) swish_TokenIterator \<times> heap) res" where
  "tokenize_arg T a meta arg st =
     (let (counts, iterator, hp) = st in
      bnd (swish_tokenize T a iterator arg meta SWISH_DEFAULT_METANAME hp) (\<lambda>(ntokens, iterator, hp).
        Inr (counts @ [ntokens], iterator, hp)))"

definition tokenize_file ::
  "xml_str \<Rightarrow> wide \<Rightarrow> os \<Rightarrow> (nat \<Rightarrow> mem) \<Rightarrow> bytes option \<Rightarrow> bytes option res" where
  "tokenize_file X W S alloc file =
     (case file of
        None \<Rightarrow> Inr None
      | Some f \<Rightarrow>
          bnd (swish_fs_looks_like_gz X W (cobj f)) (\<lambda>gz.
          bnd (swish_io_slurp_file X S alloc f 0 gz False) (\<lambda>m. bnd (cstr m 0) (\<lambda>s. Inr (Some s)))))"

definition swish_tokenize_main ::
  "('s, 'p) cf_lib \<Rightarrow> ('b, 'c) tk_lib \<Rightarrow> wide \<Rightarrow> os \<Rightarrow> (nat \<Rightarrow> mem) \<Rightarrow> bytes \<Rightarrow> globals \<Rightarrow> heap \<Rightarrow> bytes option \<Rightarrow> bytes list \<Rightarrow>
   int list res" where
  "swish_tokenize_main L T W S alloc locale g hp file args =
     bnd (swish_setup (cl_str L) g) (\<lambda>g.
     bnd (swish_3_init L locale hp g) (\<lambda>(s3, hp, g).
     bnd (swish_token_iterator_init T (s3_analyzer s3)) (\<lambda>(iterator, a).
     bnd (tokenize_file (cl_str L) W S alloc file) (\<lambda>text.
       let meta = (case swish_hash_fetch (cl_ptr L) (cf_metanames (s3_config s3)) SWISH_DEFAULT_METANAME of
                     None \<Rightarrow> length (h_metas hp) | Some m \<Rightarrow> m) in
       bnd (fold_res (tokenize_arg T a meta) (args @ (case text of None \<Rightarrow> [] | Some s \<Rightarrow> [s])) ([], iterator, hp))
         (\<lambda>(counts, iterator, hp).
       bnd (swish_token_iterator_free iterator a hp) (\<lambda>(a, hp).
         case a of
           None \<Rightarrow> Inl UseAfterFree
         | Some a \<Rightarrow> bnd (swish_3_free L (s3\<lparr>s3_analyzer := a\<rparr>) hp) (\<lambda>_. Inr counts)))))))"

section \<open>\<open>swish_utf8\<close>\<close>

text \<open>The bytes of a character, put into a block of five with a NUL, and its code point.\<close>

definition char_report :: "xml_str \<Rightarrow> mem \<Rightarrow> int \<Rightarrow> (bytes \<times> u32) res" where
  "char_report X m ptr =
     bnd (swish_utf8_codepoint X (drop (nat ptr) m)) (\<lambda>cp.
     bnd (cstr m ptr) (\<lambda>s.
     bnd (swish_utf8_chr_len X s) (\<lambda>sl.
     bnd (slice m ptr sl) (\<lambda>chr.
       if 5 < length chr + 1 then Inl OutOfBounds
       else
         bnd (swish_str_escape_utf8 X (cobj chr)) (\<lambda>escaped.
         bnd (swish_str_unescape_utf8 X escaped) (\<lambda>unescaped. Inr (chr, cp)))))))"

text \<open>\<open>swish_utf8_next_chr\<close> is called once more after the last character.\<close>

function seq_loop :: "xml_str \<Rightarrow> mem \<Rightarrow> int \<Rightarrow> int \<Rightarrow> (bytes \<times> u32) list \<Rightarrow> (bytes \<times> u32) list res" where
  "seq_loop X ptr byte_pos prev_pos seen =
     bnd (rd ptr prev_pos) (\<lambda>c.
       if c = 0 then Inr seen
       else
         bnd (if byte_pos - prev_pos = 0 then Inr seen
              else
                bnd (slice ptr prev_pos (byte_pos - prev_pos)) (\<lambda>chr.
                  if 5 < length chr + 1 then Inl OutOfBounds
                  else bnd (swish_utf8_codepoint X (cobj chr)) (\<lambda>cp. Inr (seen @ [(chr, cp)])))) (\<lambda>seen.
         bnd (swish_utf8_next_chr ptr byte_pos) (\<lambda>next_pos.
           seq_loop X ptr next_pos byte_pos seen)))"
  by pat_completeness auto
termination
  by (relation "measures [\<lambda>(X, ptr, b, p, s). nat (int (length ptr) - p), \<lambda>(X, ptr, b, p, s). nat (int (length ptr) + 4 - b)]")
    (auto simp: rd_Inr_iff swish_utf8_next_chr_def u8_inc_def slice_def bnd_eq_Inr split: if_splits)

declare seq_loop.simps [simp del]

text \<open>The walk back through the string stands after a \<open>return\<close>.\<close>

definition seq_by_seq :: "xml_str \<Rightarrow> mem \<Rightarrow> (bytes \<times> u32) list res" where
  "seq_by_seq X ptr = seq_loop X ptr 0 0 []"

text \<open>The characters from \<open>ptr\<close> on; the first one is reported even when the string is empty.\<close>

function report_rest :: "xml_str \<Rightarrow> mem \<Rightarrow> int \<Rightarrow> (bytes \<times> u32) list \<Rightarrow> (bytes \<times> u32) list res" where
  "report_rest X m ptr seen =
     bnd (cstr m ptr) (\<lambda>s.
       if xmlStrlen X (Some s) = 0 then Inr seen
       else
         bnd (char_report X m ptr) (\<lambda>r.
           if fst r = [] then Inl Aborted
           else report_rest X m (ptr + int (length (fst r))) (seen @ [r])))"
  by pat_completeness auto
termination
proof (relation "measure (\<lambda>(X, m, ptr, seen). nat (int (length m) - ptr))")
  fix X m ptr seen s r
  assume "cstr m ptr = Inr s" "fst r \<noteq> []"
  then have "0 \<le> ptr" "drop (nat ptr) m \<noteq> []" by (auto simp: cstr_def split: if_splits)
  with \<open>fst r \<noteq> []\<close> show "((X, m, ptr + int (length (fst r)), seen @ [r]), X, m, ptr, seen) \<in>
      measure (\<lambda>(X, m, ptr, seen). nat (int (length m) - ptr))"
    by auto
qed simp

declare report_rest.simps [simp del]

record utf8_report =
  ur_lowered :: bytes
  ur_escaped :: mem
  ur_escaped_lc :: mem
  ur_unescaped :: mem
  ur_seqs :: "(bytes \<times> u32) list"
  ur_lower_seqs :: "(bytes \<times> u32) list"
  ur_chars :: "(bytes \<times> u32) list"

definition iterate :: "xml_str \<Rightarrow> wide \<Rightarrow> bytes \<Rightarrow> utf8_report res" where
  "iterate X W utf8 =
     bnd (swish_utf8_str_tolower W utf8) (\<lambda>lowered.
     bnd (swish_str_escape_utf8 X (cobj utf8)) (\<lambda>escaped.
     bnd (swish_str_escape_utf8 X (cobj lowered)) (\<lambda>escaped_lc.
     bnd (swish_str_unescape_utf8 X escaped) (\<lambda>unescaped.
     bnd (seq_by_seq X (cobj utf8)) (\<lambda>seqs.
     bnd (seq_by_seq X (cobj lowered)) (\<lambda>lower_seqs.
     bnd (char_report X (cobj utf8) 0) (\<lambda>r.
     bnd (report_rest X (cobj utf8) (int (length (fst r))) [r]) (\<lambda>reports.
       Inr \<lparr>ur_lowered = lowered, ur_escaped = escaped, ur_escaped_lc = escaped_lc, ur_unescaped = unescaped,
            ur_seqs = seqs, ur_lower_seqs = lower_seqs, ur_chars = reports\<rparr>))))))))"

section \<open>What the programs get wrong\<close>

text \<open>
  \<open>swish_utf8\<close> steps once more after the last character, past the NUL: a string that ends at the
  end of its object is read out of bounds, whatever it holds.
\<close>

lemma seq_loop_ascii:
  assumes X: "xml_str_ok X" and "nul_free s" and "list_all (\<lambda>c. c < 0x80) s"
  shows "p < length s \<Longrightarrow> seq_loop X (cobj s) (int p + 1) (int p) seen = Inl OutOfBounds"
proof (induction "length s - p" arbitrary: p seen)
  case (Suc n)
  define c where "c = s ! p"
  have c: "c < 0x80" "c \<noteq> 0" using assms(2,3) Suc.prems nth_mem [of p s] unfolding c_def list_all_length nul_free_def by (blast, metis)
  have cp: "swish_utf8_codepoint X (cobj [c]) = Inr (ucast c)"
    using codepoint_ascii [OF X, of c "[0]"] c(1) by (simp add: cobj_def)
  have at: "rd (cobj s) (int p) = Inr c" using Suc.prems by (simp add: c_def cobj_def rd_def nth_append)
  have one: "slice (cobj s) (int p) 1 = Inr [c]"
    using Suc.prems Cons_nth_drop_Suc [of p s, symmetric] by (simp add: slice_def cobj_def c_def)
  show ?case
  proof (cases "Suc p < length s")
    case True
    have "isutf (cobj s ! Suc (Suc p))"
      using assms(3) True by (cases "Suc (Suc p) < length s") (auto simp: cobj_def nth_append list_all_length isutf_ascii isutf_0)
    then have "u8_inc (cobj s) (int p + 1) = Inr (int (Suc p) + 1)"
      using True rd_in [of "Suc (Suc p)" "cobj s"] by (simp add: u8_inc_def cobj_def add.commute)
    then show ?thesis
      using Suc.hyps(1) [of "Suc p" "seen @ [([c], ucast c)]"] Suc.hyps(2) True c at one cp
      by (subst seq_loop.simps) (simp add: swish_utf8_next_chr_def add.commute)
  next
    case False
    then have "u8_inc (cobj s) (int p + 1) = Inl OutOfBounds"
      using Suc.prems by (simp add: u8_inc_def rd_def cobj_def)
    then show ?thesis
      using c at one cp by (subst seq_loop.simps) (simp add: swish_utf8_next_chr_def add.commute)
  qed
qed simp

lemma seq_by_seq_reads_past_the_nul:
  assumes "xml_str_ok X" and "nul_free s" and "list_all (\<lambda>c. c < 0x80) s" and "s \<noteq> []"
  shows "seq_by_seq X (cobj s) = Inl OutOfBounds"
proof -
  obtain c t where s: "s = c # t" "c \<noteq> 0" using assms(2,4) by (cases s) auto
  have "isutf (cobj s ! 1)"
    using assms(3) s by (cases t) (auto simp: cobj_def isutf_ascii isutf_0)
  then have "u8_inc (cobj s) 0 = Inr 1" using rd_in [of 1 "cobj s"] s by (simp add: u8_inc_def cobj_def)
  then show ?thesis
    using s seq_loop_ascii [OF assms(1-3), of 0 "[]"] rd_in [of 0 "cobj s"]
    unfolding seq_by_seq_def by (subst seq_loop.simps) (simp add: swish_utf8_next_chr_def cobj_def)
qed

end
