(* ===== verification/Memory.thy ===== *)
theory Memory
  imports Libxml
begin

text \<open>
  The allocation wrappers (\<open>src/libswish3/mem.c\<close>): every block that is allocated or copied is
  counted, and every block that is freed counted off, NULL aside. \<open>malloc\<close> says which requests
  the C library can meet. The rest of the development takes them all to be met and leaves the
  count out.
\<close>

type_synonym memcount = int

definition swish_mem_init :: memcount where "swish_mem_init = 0"

definition swish_memcount_get :: "memcount \<Rightarrow> int" where "swish_memcount_get c = c"

definition swish_memcount_dec :: "memcount \<Rightarrow> memcount" where "swish_memcount_dec c = c - 1"

definition swish_xrealloc :: "(nat \<Rightarrow> bool) \<Rightarrow> nat \<Rightarrow> memcount \<Rightarrow> memcount res" where
  "swish_xrealloc malloc size' c = (if malloc size' then Inr c else Inl (Croak ''Out of memory''))"

definition swish_xmalloc :: "(nat \<Rightarrow> bool) \<Rightarrow> nat \<Rightarrow> memcount \<Rightarrow> memcount res" where
  "swish_xmalloc malloc size' c = (if malloc size' then Inr (c + 1) else Inl (Croak ''Out of memory''))"

text \<open>\<open>xmlStrdup\<close> of NULL is NULL, and so is a copy there is no room for.\<close>

definition swish_xstrdup :: "(nat \<Rightarrow> bool) \<Rightarrow> bytes option \<Rightarrow> memcount \<Rightarrow> (bytes \<times> memcount) res" where
  "swish_xstrdup malloc ptr c =
     (case ptr of
        None \<Rightarrow> Inl (Croak ''strdup returned NULL'')
      | Some s \<Rightarrow> if malloc (length s + 1) then Inr (s, c + 1) else Inl (Croak ''strdup returned NULL''))"

text \<open>A copy that failed is counted too, and its NULL returned.\<close>

definition swish_xstrndup ::
  "xml_str \<Rightarrow> (nat \<Rightarrow> bool) \<Rightarrow> bytes option \<Rightarrow> int \<Rightarrow> memcount \<Rightarrow> bytes option \<times> memcount" where
  "swish_xstrndup X malloc ptr len c =
     (case ptr of
        None \<Rightarrow> (None, c + 1)
      | Some s \<Rightarrow> (if 0 \<le> len \<and> malloc (nat len + 1) then Some (xmlStrndup X s len) else None, c + 1))"

definition swish_xfree :: "'a option \<Rightarrow> memcount \<Rightarrow> memcount" where
  "swish_xfree ptr c = (case ptr of None \<Rightarrow> c | Some _ \<Rightarrow> c - 1)"

datatype leak = Balanced | Leaked int | FreedTooMuch int

definition swish_mem_debug :: "memcount \<Rightarrow> leak" where
  "swish_mem_debug c = (if c > 0 then Leaked c else if c < 0 then FreedTooMuch c else Balanced)"

text \<open>
  A copy of NULL that is freed again leaves the count one too high: what the program reports as a
  leak is not one.
\<close>

lemma xstrndup_of_null_counts:
  "swish_mem_debug (swish_xfree (fst (swish_xstrndup X malloc None n swish_mem_init))
     (snd (swish_xstrndup X malloc None n swish_mem_init))) = Leaked 1"
  by (simp add: swish_mem_debug_def swish_xfree_def swish_xstrndup_def swish_mem_init_def)

lemma balanced_run:
  "fold_res (\<lambda>s c. bnd (swish_xstrdup malloc (Some s) c) (\<lambda>(_, c). Inr c)) ss c = Inr c' \<Longrightarrow>
   fold (\<lambda>s. swish_xfree (Some s)) ss c' = c"
proof (induction ss arbitrary: c)
  case (Cons s ss)
  have run: "fold (\<lambda>s. swish_xfree (Some s)) ss d = d - int (length ss)" for d
    by (induction ss arbitrary: d) (simp_all add: swish_xfree_def)
  from Cons have "fold (\<lambda>s. swish_xfree (Some s)) ss c' = c + 1"
    by (auto simp: swish_xstrdup_def split: if_splits)
  then have "c' - int (length ss) = c + 1" by (simp only: run)
  then show ?case unfolding fold_simps run by (simp add: swish_xfree_def)
qed simp

end
