(* ===== verification/Times.thy ===== *)
theory Times
  imports Strings_Correct Complex_Main
begin

text \<open>
  Times as text (\<open>src/libswish3/times.c\<close>). The clocks are the operating system's; \<open>fmt\<close> is what
  \<open>%1.5f\<close> makes of a number, and \<open>strftime\<close> the text of a date, which the block of 30 bytes holds
  or which \<open>strftime\<close> leaves out.
\<close>

text \<open>\<open>sprintf\<close> into a block of \<open>n\<close> bytes.\<close>

definition sprintf_block :: "nat \<Rightarrow> bytes \<Rightarrow> bytes res" where
  "sprintf_block n text = (if n < length text + 1 then Inl OutOfBounds else Inr text)"

definition hms :: "nat \<Rightarrow> bytes" where
  "hms delta =
     (let ss = delta mod 60;
          delta = delta div 60;
          hh = delta div 60;
          mm = delta mod 60 in
      dec_pad 2 hh @ 0x3A # dec_pad 2 mm @ 0x3A # dec_pad 2 ss)"

definition swish_time_print :: "real \<Rightarrow> bytes res" where
  "swish_time_print time =
     (let time = (if time < 0 then 0 else time) in sprintf_block 9 (hms (nat \<lfloor>time + 1 / 2\<rfloor>)))"

definition swish_time_print_fine :: "(real \<Rightarrow> bytes) \<Rightarrow> real \<Rightarrow> bytes res" where
  "swish_time_print_fine fmt time =
     (let time = (if time \<ge> 10 then 999999 / 100000 else time) in sprintf_block 8 (fmt time))"

definition swish_time_elapsed :: "(int \<times> int) option \<Rightarrow> real" where
  "swish_time_elapsed gettimeofday =
     (case gettimeofday of None \<Rightarrow> 0 | Some (sec, usec) \<Rightarrow> of_int sec + of_int usec / 1000000)"

section \<open>What fits\<close>

lemma dec_two: "10 \<le> n \<Longrightarrow> n < 100 \<Longrightarrow> length (dec n) = 2"
proof -
  assume "10 \<le> n" "n < 100"
  then have "n div 10 < 10" "\<not> n < 10" by auto
  then show ?thesis by (simp add: dec.simps [of n] dec.simps [of "n div 10"])
qed

lemma length_dec_pad_2: "n < 100 \<Longrightarrow> length (dec_pad 2 n) = 2"
  using dec_two [of n] by (cases "n < 10") (simp_all add: dec_pad_def dec.simps [of n])

lemma length_dec_3: "100 \<le> n \<Longrightarrow> 3 \<le> length (dec n)"
proof -
  assume "100 \<le> n"
  then have "10 \<le> n div 10" "dec n = dec (n div 10) @ [byte (0x30 + n mod 10)]" by (simp_all add: dec.simps [of n])
  moreover have "dec (n div 10) = dec (n div 10 div 10) @ [byte (0x30 + n div 10 mod 10)]"
    using calculation(1) by (simp add: dec.simps [of "n div 10"])
  ultimately show ?thesis using dec_nonempty [of "n div 10 div 10"] by (cases "dec (n div 10 div 10)") auto
qed

lemma length_hms: "length (hms d) = length (dec_pad 2 (d div 60 div 60)) + 6"
proof -
  have "d mod 60 < 100" "d div 60 mod 60 < 100" by (simp_all add: less_trans [OF mod_less_divisor])
  then show ?thesis by (simp add: hms_def Let_def length_dec_pad_2)
qed

lemma hours: "d div 60 div 60 = d div (3600 :: nat)"
  using div_mult2_eq [of d 60 60] by simp

lemma length_hms_fits:
  "d < 360000 \<Longrightarrow> length (hms d) = 8"
  "360000 \<le> d \<Longrightarrow> 9 \<le> length (hms d)"
proof -
  assume "d < 360000"
  then have "d div 60 div 60 < 100" unfolding hours by (intro less_mult_imp_div_less) simp
  then show "length (hms d) = 8" by (simp add: length_hms length_dec_pad_2)
next
  assume "360000 \<le> d"
  then have "100 \<le> d div 60 div 60" unfolding hours using div_le_mono [of 360000 d 3600] by simp
  then have "3 \<le> length (dec (d div 60 div 60))" by (rule length_dec_3)
  then show "9 \<le> length (hms d)" by (simp add: length_hms dec_pad_def)
qed

text \<open>
  The block holds every time below a hundred hours, and a longer one is written past its end.
\<close>

lemma time_print_fits_a_hundred_hours:
  assumes "0 \<le> t"
  shows "t < 359999 + 1 / 2 \<Longrightarrow> \<exists>text. swish_time_print t = Inr text \<and> length text = 8"
    and "359999 + 1 / 2 \<le> t \<Longrightarrow> swish_time_print t = Inl OutOfBounds"
proof -
  define d where "d = nat \<lfloor>t + 1 / 2\<rfloor>"
  have eq: "swish_time_print t = sprintf_block 9 (hms d)" using assms by (simp add: swish_time_print_def d_def)
  show "\<exists>text. swish_time_print t = Inr text \<and> length text = 8" if "t < 359999 + 1 / 2"
  proof -
    have "\<lfloor>t + 1 / 2\<rfloor> < 360000" using that by linarith
    then have "d < 360000" using assms unfolding d_def by linarith
    then show ?thesis by (simp add: eq sprintf_block_def length_hms_fits(1))
  qed
  show "swish_time_print t = Inl OutOfBounds" if "359999 + 1 / 2 \<le> t"
  proof -
    have "360000 \<le> \<lfloor>t + 1 / 2\<rfloor>" using that by linarith
    then have "360000 \<le> d" unfolding d_def by linarith
    then show ?thesis using length_hms_fits(2) [of d] by (simp add: eq sprintf_block_def)
  qed
qed

end
