(* ===== verification/Header_Nodes.thy ===== *)
theory Header_Nodes
  imports HeaderWrite Config_Correct
begin

text \<open>
  From what was written to what is read. \<open>nodes_of\<close> is the sequence of nodes libxml2's text
  reader stops at in a file made of the items of \<open>swish_header_write\<close>: an element without
  content is written \<open><x/>\<close>, which has no end node. The writer indents, so that nodes of
  white space stand between the elements; \<open>read_back\<close> lets them stand anywhere but in front
  of a text. The lemmas follow the reader over such nodes.
\<close>

section \<open>The nodes of a written file\<close>

definition elem_node :: "bytes \<Rightarrow> (bytes \<times> bytes) list \<Rightarrow> xml_node" where
  "elem_node t as = \<lparr>nd_type = NODE_ELEMENT, nd_name = Some t, nd_local = Some t, nd_value = None,
     nd_atts = map (\<lambda>(n, v). \<lparr>at_prefix = None, at_name = n, at_value = v\<rparr>) as\<rparr>"

definition end_node :: "bytes \<Rightarrow> xml_node" where
  "end_node t = \<lparr>nd_type = NODE_END_ELEMENT, nd_name = Some t, nd_local = Some t, nd_value = None, nd_atts = []\<rparr>"

definition text_node :: "bytes \<Rightarrow> xml_node" where
  "text_node s = \<lparr>nd_type = NODE_TEXT, nd_name = Some (lit ''#text''), nd_local = Some (lit ''#text''),
     nd_value = Some s, nd_atts = []\<rparr>"

definition comment_node :: "bytes \<Rightarrow> xml_node" where
  "comment_node s = \<lparr>nd_type = NODE_COMMENT, nd_name = Some (lit ''#comment''),
     nd_local = Some (lit ''#comment''), nd_value = Some s, nd_atts = []\<rparr>"

definition entry_nodes :: "bytes \<Rightarrow> bytes \<Rightarrow> xml_node list" where
  "entry_nodes t c = elem_node t [] # (if list_all isspace c then [] else [text_node c]) @ [end_node t]"

text \<open>The element that is still open to attributes, and the elements around it.\<close>

type_synonym open_element = "(bytes \<times> (bytes \<times> bytes) list) option"

definition opened :: "bytes list \<Rightarrow> open_element \<Rightarrow> xml_node list \<times> bytes list" where
  "opened st p = (case p of None \<Rightarrow> ([], st) | Some (t, as) \<Rightarrow> ([elem_node t as], t # st))"

fun nodes_of :: "bytes list \<Rightarrow> open_element \<Rightarrow> xml_item list \<Rightarrow> xml_node list" where
  "nodes_of st p [] = fst (opened st p)"
| "nodes_of st p (AttItem a v # w) =
     (case p of None \<Rightarrow> nodes_of st None w | Some (t, as) \<Rightarrow> nodes_of st (Some (t, as @ [(a, v)])) w)"
| "nodes_of st p (EndItem # w) =
     (case p of
        Some (t, as) \<Rightarrow> elem_node t as # nodes_of st None w
      | None \<Rightarrow> (case st of [] \<Rightarrow> nodes_of [] None w | t # st \<Rightarrow> end_node t # nodes_of st None w))"
| "nodes_of st p (StartItem t # w) = fst (opened st p) @ nodes_of (snd (opened st p)) (Some (t, [])) w"
| "nodes_of st p (ElemItem t c # w) = fst (opened st p) @ entry_nodes t c @ nodes_of (snd (opened st p)) None w"
| "nodes_of st p (CommentItem c # w) = fst (opened st p) @ comment_node c # nodes_of (snd (opened st p)) None w"

definition blank_node :: "xml_node \<Rightarrow> bool" where
  "blank_node n \<longleftrightarrow> nd_type n = NODE_OTHER \<and> nd_local n = Some (lit ''#text'') \<and>
     (case nd_value n of None \<Rightarrow> False | Some v \<Rightarrow> nul_free v \<and> list_all isspace v)"

definition no_blank_text :: "xml_node list \<Rightarrow> bool" where
  "no_blank_text ns \<longleftrightarrow> successively (\<lambda>a b. \<not> (blank_node a \<and> nd_type b = NODE_TEXT)) ns"

definition read_back :: "xml_writer \<Rightarrow> xml_node list \<Rightarrow> bool" where
  "read_back w ns \<longleftrightarrow> filter (\<lambda>n. \<not> blank_node n) ns = nodes_of [] None w \<and>
     (ns \<noteq> [] \<longrightarrow> \<not> blank_node (hd ns)) \<and> no_blank_text ns"

section \<open>White space is skipped\<close>

text \<open>An entry is read from its node alone, or with the text after it.\<close>

definition reads_like ::
  "(('s, 'p) rd_state \<Rightarrow> ('s, 'p) rd_state res) \<Rightarrow> ('s, 'p) rd_state \<Rightarrow> ('s, 'p) rd_state \<Rightarrow> bool" where
  "reads_like f st st' \<longleftrightarrow>
     (fst st' = fst st \<and> (\<forall>r. f (r, snd st) = Inr (r, snd st'))) \<or>
     (\<exists>v. next_text (fst st) = Inr (v, fst st') \<and>
        (\<forall>r r'. next_text r = Inr (v, r') \<longrightarrow> f (r, snd st) = Inr (r', snd st')))"

lemma reads_like_alone:
  assumes "f st = Inr st'" and "\<And>r. f (r, snd st) = bnd g (\<lambda>x. Inr (r, x))"
  shows "reads_like f st st'"
  using assms by (cases st; cases st'; cases g) (auto simp: reads_like_def)

lemma reads_like_text:
  assumes "f st = Inr st'"
    and "\<And>r. f (r, snd st) = bnd (next_text r) (\<lambda>(v, r'). bnd (g v) (\<lambda>x. Inr (r', x)))"
  shows "reads_like f st st'"
proof -
  obtain r h where st: "st = (r, h)" by (cases st)
  then obtain v r' where v: "next_text r = Inr (v, r')" and g: "bnd (g v) (\<lambda>x. Inr (r', x)) = Inr st'"
    using assms by (auto simp: bnd_eq_Inr)
  then show ?thesis using assms(2) st by (auto simp: reads_like_def bnd_eq_Inr)
qed

lemma read_entry_reads_like:
  assumes "read_entry L n k st = Inr st'"
  shows "reads_like (read_entry L n k) st st'"
proof -
  obtain r h hp where st: "st = (r, h, hp)" by (cases st)
  let ?c = "hm_config h" and ?f = "read_entry L n k"
  let ?set = "\<lambda>c. (h\<lparr>hm_config := c\<rparr>, hp)"
  note defs = read_entry_def Let_def bnd_assoc read_key_value_pair_def read_key_values_pair_def
    read_key_value_stringlist_def case_prod_unfold
  note alone = reads_like_alone [where f = ?f, OF assms]
  note with_text = reads_like_text [where f = ?f, OF assms]
  note no_section = st Let_def read_entry_def bnd_assoc
  consider (props) "hm_isprops h" | (metas) "\<not> hm_isprops h" "hm_ismetas h"
    | (index) "\<not> hm_isprops h" "\<not> hm_ismetas h" "hm_isindex h"
    | (parser) "\<not> hm_isprops h" "\<not> hm_ismetas h" "\<not> hm_isindex h" "hm_isparser h"
    | (mime) "\<not> hm_isprops h" "\<not> hm_ismetas h" "\<not> hm_isindex h" "\<not> hm_isparser h" "hm_ismime h"
    | (aliases) "\<not> hm_isprops h" "\<not> hm_ismetas h" "\<not> hm_isindex h" "\<not> hm_isparser h" "\<not> hm_ismime h" "hm_isalias h"
    | (top) "\<not> hm_isprops h" "\<not> hm_ismetas h" "\<not> hm_isindex h" "\<not> hm_isparser h" "\<not> hm_ismime h" "\<not> hm_isalias h"
    by blast
  then show ?thesis
  proof cases
    case props
    show ?thesis by (rule alone [where g = "read_property L n (h, hp)"]) (simp add: props defs st)
  next
    case metas
    show ?thesis by (rule alone [where g = "read_metaname L n (h, hp)"]) (simp add: metas defs st)
  next
    case index
    show ?thesis
      by (rule with_text [where g = "\<lambda>v. bnd (set_key (hl_tab L) k v (cf_index ?c)) (\<lambda>t. Inr (?set (?c\<lparr>cf_index := t\<rparr>)))"])
        (simp add: index defs st)
  next
    case parser
    show ?thesis
      by (rule with_text [where g = "\<lambda>v. bnd (lower L v) (\<lambda>s. bnd (alias_words s) (\<lambda>ws.
            bnd (fold_res (\<lambda>w. set_key (hl_tab L) w k) ws (cf_parsers ?c)) (\<lambda>t. Inr (?set (?c\<lparr>cf_parsers := t\<rparr>)))))"])
        (simp add: parser defs st)
  next
    case mime
    then obtain m where m: "cf_mimes ?c = Some m" using assms st by (cases "cf_mimes ?c") (auto simp: read_entry_def Let_def)
    show ?thesis
      by (rule with_text [where g = "\<lambda>v. bnd (set_key (hl_tab L) k v m) (\<lambda>t. Inr (?set (?c\<lparr>cf_mimes := Some t\<rparr>)))"])
        (simp add: mime defs st m)
  next
    case aliases
    show ?thesis
      by (rule with_text [where g = "\<lambda>v. bnd (lower L v) (\<lambda>s. bnd (alias_words s) (\<lambda>ws.
            bnd (fold_res (\<lambda>w. set_key (hl_tab L) w k) ws (cf_tag_aliases ?c)) (\<lambda>t. Inr (?set (?c\<lparr>cf_tag_aliases := t\<rparr>)))))"])
        (simp add: aliases defs st)
  next
    case top
    consider (list) "xmlStrEqual (hl_str L) (Some SWISH_CLASS_ATTRIBUTES) (Some k)"
      | (misc) "\<not> xmlStrEqual (hl_str L) (Some SWISH_CLASS_ATTRIBUTES) (Some k)" "nd_type n = NODE_ELEMENT"
      | (none) "\<not> xmlStrEqual (hl_str L) (Some SWISH_CLASS_ATTRIBUTES) (Some k)" "nd_type n \<noteq> NODE_ELEMENT"
      by blast
    then show ?thesis
    proof cases
      case list
      show ?thesis
        by (rule with_text [where g = "\<lambda>v. bnd (lower L v) (\<lambda>s. bnd (swish_stringlist_build (Some (cobj s))) (\<lambda>b.
            case b of
              None \<Rightarrow> Inl NullPointer
            | Some (l, m) \<Rightarrow>
                (case swish_hash_fetch (hl_ptr L) (cf_stringlists ?c) k of
                   Some a \<Rightarrow>
                     bnd (obj_at (h_lists hp) a) (\<lambda>old. bnd (swish_stringlist_merge l old) (\<lambda>l.
                       Inr (h\<lparr>hm_config := ?c\<lparr>cf_stringlists := cf_stringlists ?c\<rparr>\<rparr>, hp\<lparr>h_lists := (h_lists hp)[a := Some l]\<rparr>)))
                 | None \<Rightarrow>
                     bnd (put_in (hl_ptr L) (cf_stringlists ?c) k (length (h_lists hp))) (\<lambda>t.
                       Inr (h\<lparr>hm_config := ?c\<lparr>cf_stringlists := t\<rparr>\<rparr>, hp\<lparr>h_lists := h_lists hp @ [Some l]\<rparr>)))))"])
          (auto simp: top list defs st bnd_def split: sum.splits option.splits)
    next
      case misc
      show ?thesis
        by (rule with_text [where g = "\<lambda>v. bnd (set_key (hl_tab L) k v (cf_misc ?c)) (\<lambda>t.
            bnd (handle_special_misc_flags L (h\<lparr>hm_config := ?c\<lparr>cf_misc := t\<rparr>\<rparr>)) (\<lambda>h. Inr (h, hp)))"])
          (simp add: top misc defs st)
    next
      case none
      show ?thesis by (rule alone [where g = "Inr (h, hp)"]) (simp add: top none defs st)
    qed
  qed
qed

lemma read_include_reads_like:
  assumes "read_include merge L st = Inr st'"
  shows "reads_like (read_include merge L) st st'"
proof -
  obtain r h hp where st: "st = (r, h, hp)" by (cases st)
  obtain v r' config hp' where v: "next_text r = Inr (v, r')" and st': "st' = (r', h\<lparr>hm_config := config\<rparr>, hp')"
    and m: "bnd (include_file L v (hm_conf_file h)) (\<lambda>f. merge f (hm_config h, hp)) = Inr (config, hp')"
    using assms by (auto simp: st read_include_def Let_def bnd_eq_Inr next_text_def reader_read_def
        split: if_splits option.splits list.splits)
  have "read_include merge L (q, h, hp) = Inr (q', h\<lparr>hm_config := config\<rparr>, hp')" if "next_text q = Inr (v, q')" for q q'
    using that m by (auto simp: read_include_def Let_def bnd_eq_Inr next_text_def reader_read_def
        split: if_splits option.splits list.splits)
  with v show ?thesis by (auto simp: reads_like_def st st')
qed

lemma process_node_reads_like:
  assumes "process_node merge L n st = Inr st'"
  shows "reads_like (process_node merge L n) st st'"
proof -
  obtain r h hp where st: "st = (r, h, hp)" by (cases st)
  let ?k = "node_local_name n" and ?f = "process_node merge L n"
  let ?is = "\<lambda>s. xmlStrEqual (hl_str L) (Some ?k) (Some (lit s))"
  note alone = reads_like_alone [where f = ?f, OF assms]
  note defs = st process_node_def Let_def
  show ?thesis
  proof (cases "nd_type n = NODE_COMMENT \<or> ?is ''swish'' \<or> \<not> hm_is_valid h")
    case True
    show ?thesis
      by (rule alone [where g = "if nd_type n = NODE_COMMENT then Inr (h, hp)
            else if ?is ''swish'' then Inr (h\<lparr>hm_is_valid := True\<rparr>, hp) else Inl (Croak ''invalid header file'')"])
        (use True in \<open>auto simp: defs simp del: lit_Cons\<close>)
  next
    case False
    then obtain ws where ws: "blank_value L n = Inr ws"
      using assms by (auto simp: defs bnd_eq_Inr simp del: lit_Cons split: if_splits)
    consider (skip) "ws" "?is ''#text''" | (close) "\<not> (ws \<and> ?is ''#text'')" "nd_type n = NODE_END_ELEMENT"
      | (incl) "\<not> (ws \<and> ?is ''#text'')" "nd_type n \<noteq> NODE_END_ELEMENT" "?is ''IncludeConfigFile''"
      | (sect) h' where "\<not> (ws \<and> ?is ''#text'')" "nd_type n \<noteq> NODE_END_ELEMENT" "\<not> ?is ''IncludeConfigFile''"
          "start_section L ?k h = Some h'"
      | (entry) "\<not> (ws \<and> ?is ''#text'')" "nd_type n \<noteq> NODE_END_ELEMENT" "\<not> ?is ''IncludeConfigFile''"
          "start_section L ?k h = None"
      by fastforce
    then show ?thesis
    proof cases
      case skip
      show ?thesis
        by (rule alone [where g = "Inr (h, hp)"]) (use False skip ws in \<open>simp add: defs del: lit_Cons\<close>)
    next
      case close
      show ?thesis
        by (rule alone [where g = "Inr (if start_section L ?k h = None then h else reset_headmaker h, hp)"])
          (use False close ws in \<open>auto simp: defs simp del: lit_Cons\<close>)
    next
      case incl
      then have *: "process_node merge L n (q, h, hp) = read_include merge L (q, h, hp)" for q
        using False ws by (auto simp: defs simp del: lit_Cons)
      show ?thesis
        using read_include_reads_like [of merge L st st'] assms by (simp add: st * reads_like_def)
    next
      case sect
      show ?thesis
        by (rule alone [where g = "Inr (h', hp)"]) (use False sect ws in \<open>auto simp: defs simp del: lit_Cons\<close>)
    next
      case entry
      then have *: "process_node merge L n (q, h, hp) = read_entry L n ?k (q, h, hp)" for q
        using False ws by (auto simp: defs simp del: lit_Cons)
      show ?thesis
        using read_entry_reads_like [of L n ?k st st'] assms by (simp add: st * reads_like_def)
    qed
  qed
qed

text \<open>Once the root element has been seen, the file stays valid.\<close>

lemma fold_res_keeps:
  assumes "fold_res f xs s = Inr t" and "\<And>x s t. f x s = Inr t \<Longrightarrow> g t = g s"
  shows "g t = g s"
  using fold_res_invariant [where P = "\<lambda>t. g t = g s", OF assms(1)] assms(2) by metis

lemma read_metaname_alias_keeps:
  "read_metaname_alias L m w st = Inr st' \<Longrightarrow> hm_is_valid (fst st') = hm_is_valid (fst st)"
  by (cases st) (auto simp: read_metaname_alias_def Let_def bnd_eq_Inr split: if_splits option.splits)

lemma read_property_alias_keeps:
  "read_property_alias L p w st = Inr st' \<Longrightarrow> hm_is_valid (fst st') = hm_is_valid (fst st)"
  by (cases st) (auto simp: read_property_alias_def Let_def bnd_eq_Inr split: if_splits option.splits)

lemma read_metaname_keeps:
  assumes "read_metaname L n st = Inr st'"
  shows "hm_is_valid (fst st') = hm_is_valid (fst st)"
proof -
  obtain h hp where st: "st = (h, hp)" by (cases st)
  obtain k name where k: "name_of n = Inr k" "lower L k = Inr name"
    using assms by (auto simp: st read_metaname_def bnd_eq_Inr)
  show ?thesis
  proof (cases "text_of n")
    case None
    with assms k obtain m fl where "hm_is_valid (fst st') =
        hm_is_valid (snd (next_meta_id m (h\<lparr>hm_config := (hm_config h)\<lparr>cf_flags := fl\<rparr>\<rparr>)))"
      by (auto simp: st read_metaname_def Let_def bnd_eq_Inr case_prod_unfold split: if_splits)
    then show ?thesis by (simp add: st next_meta_id_def Let_def split: if_splits)
  next
    case (Some t)
    then obtain p where p: "hm_parent_name h = Some p"
      using assms k by (cases "hm_parent_name h") (simp_all add: st read_metaname_def)
    obtain q ws where "fold_res (read_metaname_alias L q) ws st = Inr st'"
      using assms k Some p by (auto simp: st read_metaname_def read_metaname_aliases_def bnd_eq_Inr)
    then show ?thesis
      by (rule fold_res_keeps [where g = "\<lambda>st. hm_is_valid (fst st)"]) (rule read_metaname_alias_keeps)
  qed
qed

lemma read_property_keeps:
  assumes "read_property L n st = Inr st'"
  shows "hm_is_valid (fst st') = hm_is_valid (fst st)"
proof -
  obtain h hp where st: "st = (h, hp)" by (cases st)
  obtain k name where k: "name_of n = Inr k" "lower L k = Inr name"
    using assms by (auto simp: st read_property_def bnd_eq_Inr)
  show ?thesis
  proof (cases "text_of n")
    case None
    with assms k obtain m fl where "hm_is_valid (fst st') =
        hm_is_valid (snd (next_prop_id m (h\<lparr>hm_config := (hm_config h)\<lparr>cf_flags := fl\<rparr>\<rparr>)))"
      by (auto simp: st read_property_def Let_def bnd_eq_Inr case_prod_unfold split: if_splits)
    then show ?thesis by (simp add: st next_prop_id_def Let_def split: if_splits)
  next
    case (Some t)
    then obtain p where p: "hm_parent_name h = Some p"
      using assms k by (cases "hm_parent_name h") (simp_all add: st read_property_def)
    obtain q ws where "fold_res (read_property_alias L q) ws st = Inr st'"
      using assms k Some p by (auto simp: st read_property_def read_property_aliases_def bnd_eq_Inr)
    then show ?thesis
      by (rule fold_res_keeps [where g = "\<lambda>st. hm_is_valid (fst st)"]) (rule read_property_alias_keeps)
  qed
qed

lemma handle_special_keeps:
  "handle_special_misc_flags L h = Inr h' \<Longrightarrow> hm_is_valid h' = hm_is_valid h"
  by (auto simp: handle_special_misc_flags_def Let_def bnd_eq_Inr)

lemma read_entry_keeps:
  "read_entry L n k st = Inr st' \<Longrightarrow> hm_is_valid (fst (snd st')) = hm_is_valid (fst (snd st))"
  by (cases st)
    (auto simp: read_entry_def Let_def bnd_eq_Inr split: if_splits option.splits
      dest!: read_metaname_keeps read_property_keeps handle_special_keeps)

lemma start_section_keeps:
  "start_section L k h = Some h' \<Longrightarrow> hm_is_valid h' = hm_is_valid h"
  by (auto simp: start_section_def Let_def reset_headmaker_def split: if_splits)

lemma read_include_keeps:
  "read_include merge L st = Inr st' \<Longrightarrow> hm_is_valid (fst (snd st')) = hm_is_valid (fst (snd st))"
  by (cases st)
    (auto simp: read_include_def Let_def bnd_eq_Inr reader_read_def split: if_splits option.splits list.splits)

lemma process_node_keeps:
  "process_node merge L n st = Inr st' \<Longrightarrow> hm_is_valid (fst (snd st)) \<Longrightarrow> hm_is_valid (fst (snd st'))"
  by (cases st)
    (auto simp: process_node_def Let_def bnd_eq_Inr reset_headmaker_def simp del: lit_Cons
      split: if_splits option.splits dest!: read_entry_keeps read_include_keeps start_section_keeps)

lemma blank_then_no_text:
  "no_blank_text (m # ns) \<Longrightarrow> blank_node m \<Longrightarrow>
   (case filter (\<lambda>n. \<not> blank_node n) ns of [] \<Rightarrow> True | k # ks \<Rightarrow> nd_type k \<noteq> NODE_TEXT)"
  by (induction ns arbitrary: m) (auto simp: no_blank_text_def)

lemma next_text_unfold:
  "next_text r = Inr (v, r') \<longleftrightarrow>
    (\<exists>n ns. rr_nodes r = n # ns \<and> text_of n = Some v \<and> r' = r\<lparr>rr_cur := Some n, rr_nodes := ns\<rparr>)"
  by (auto simp: next_text_def reader_read_def split: list.splits option.splits)

lemma read_nodes_blanks:
  assumes L: "xml_str_ok (hl_str L)"
  shows "no_blank_text ns \<Longrightarrow> hm_is_valid h \<Longrightarrow>
    read_nodes merge L (\<lparr>rr_cur = c, rr_nodes = filter (\<lambda>n. \<not> blank_node n) ns, rr_ok = ok\<rparr>, h, hp) = Inr x \<Longrightarrow>
    read_nodes merge L (\<lparr>rr_cur = c', rr_nodes = ns, rr_ok = ok\<rparr>, h, hp) = Inr x"
proof (induction ns arbitrary: c c' h hp rule: length_induct)
  case (1 ns)
  let ?F = "filter (\<lambda>n. \<not> blank_node n)" and ?R = "\<lambda>c ns. \<lparr>rr_cur = c, rr_nodes = ns, rr_ok = ok\<rparr>"
  show ?case
  proof (cases ns)
    case Nil
    with "1.prems"(3) show ?thesis by (subst (asm) read_nodes.simps, subst read_nodes.simps) (simp add: reader_end_def)
  next
    case (Cons n ms)
    then have tl_ok: "no_blank_text ms" using "1.prems"(1) by (cases ms) (auto simp: no_blank_text_def)
    have step: "read_nodes merge L (?R c (n # ms), h, hp) =
        bnd (process_node merge L n (?R (Some n) ms, h, hp)) (read_nodes merge L)" for c
      by (subst read_nodes.simps) simp
    show ?thesis
    proof (cases "blank_node n")
      case True
      then have "process_node merge L n (?R (Some n) ms, h, hp) = Inr (?R (Some n) ms, h, hp)"
        using "1.prems"(2)
        by (auto simp: blank_node_def process_node_def Let_def node_local_name_def blank_value_def cobj_def
            swish_str_all_ws_eq [OF L, of _ "[]"] xml_str_laws(3) [OF L] lit_inj simp del: lit_Cons split: option.splits)
      with True 1 Cons tl_ok show ?thesis by (simp add: step)
    next
      case False
      then have eq: "read_nodes merge L (?R c (?F ns), h, hp) =
          bnd (process_node merge L n (?R (Some n) (?F ms), h, hp)) (read_nodes merge L)"
        by (subst read_nodes.simps) (simp add: Cons)
      obtain r1 h1 hp1 where p: "process_node merge L n (?R (Some n) (?F ms), h, hp) = Inr (r1, h1, hp1)"
        and rest: "read_nodes merge L (r1, h1, hp1) = Inr x"
        using "1.prems"(3) [unfolded eq] by (auto simp: bnd_eq_Inr)
      have v: "hm_is_valid h1" using process_node_keeps [OF p] "1.prems"(2) by simp
      from process_node_reads_like [OF p] consider
        (own) "r1 = ?R (Some n) (?F ms)" "\<And>r. process_node merge L n (r, h, hp) = Inr (r, h1, hp1)"
        | (text_too) t where "next_text (?R (Some n) (?F ms)) = Inr (t, r1)"
          "\<And>r r'. next_text r = Inr (t, r') \<Longrightarrow> process_node merge L n (r, h, hp) = Inr (r', h1, hp1)"
        by (auto simp: reads_like_def)
      then show ?thesis
      proof cases
        case own
        with rest v tl_ok Cons "1.IH" show ?thesis by (auto simp: step)
      next
        case text_too
        then obtain k ks where k: "?F ms = k # ks" "text_of k = Some t" "r1 = ?R (Some k) ks"
          by (auto simp: next_text_unfold)
        obtain m ms' where ms: "ms = m # ms'" using k(1) by (cases ms) auto
        have m: "\<not> blank_node m"
        proof
          assume "blank_node m"
          then show False
            using blank_then_no_text [of m ms'] tl_ok k by (auto simp: ms text_of_def split: if_splits)
        qed
        then have km: "m = k" "?F ms' = ks" using k(1) by (auto simp: ms)
        then have "process_node merge L n (?R (Some n) ms, h, hp) = Inr (?R (Some k) ms', h1, hp1)"
          by (intro text_too(2)) (simp add: next_text_unfold ms k(2))
        moreover have "no_blank_text ms'" using tl_ok ms by (cases ms') (auto simp: no_blank_text_def)
        ultimately show ?thesis using rest v Cons "1.IH" km k(3) by (auto simp: ms step [unfolded ms km(1)])
      qed
    qed
  qed
qed
end
