(* ===== verification/Header_Steps.thy ===== *)
theory Header_Steps
  imports Header_Nodes NamedBuffer_Correct
begin

text \<open>
  How the reader of index headers takes up the nodes of a written file: one lemma for each
  kind of entry, and one for the list of a section's entries.
\<close>

section \<open>Names and values that can be written\<close>

definition is_upper :: "u8 \<Rightarrow> bool" where
  "is_upper c \<longleftrightarrow> 0x41 \<le> c \<and> c \<le> 0x5A"

definition name_char :: "u8 \<Rightarrow> bool" where
  "name_char c \<longleftrightarrow> is_upper c \<or> (0x61 \<le> c \<and> c \<le> 0x7A) \<or> isdigit c \<or> c \<in> {0x2D, 0x2E, 0x5F}"

definition xml_name :: "bytes \<Rightarrow> bool" where
  "xml_name s \<longleftrightarrow> s \<noteq> [] \<and> list_all name_char s \<and> \<not> isdigit (hd s) \<and> hd s \<noteq> 0x2D \<and> hd s \<noteq> 0x2E"

definition lower_name :: "bytes \<Rightarrow> bool" where
  "lower_name s \<longleftrightarrow> xml_name s \<and> (\<forall>c \<in> set s. \<not> is_upper c)"

text \<open>The names the reader gives a meaning of their own.\<close>

definition sections :: "string list" where
  "sections = [''PropertyNames'', ''MetaNames'', ''Index'', ''Parsers'', ''MIME'', ''TagAlias'']"

definition key_ok :: "bytes \<Rightarrow> bool" where
  "key_ok s \<longleftrightarrow> xml_name s \<and> s \<notin> lit ` set (''swish'' # ''IncludeConfigFile'' # sections)"

definition text_ok :: "bytes \<Rightarrow> bool" where
  "text_ok v \<longleftrightarrow> \<not> list_all isspace v \<and> (\<forall>c \<in> set v. 32 \<le> c \<or> c = 9 \<or> c = 10)"

text \<open>What is read as a single word, and in lower case.\<close>

definition word_value :: "bytes \<Rightarrow> bool" where
  "word_value w \<longleftrightarrow> w \<noteq> [] \<and> length w \<le> SWISH_MAX_WORD_LEN \<and> hd w \<noteq> 0x22 \<and> hd w \<noteq> 0x27 \<and>
     (\<forall>c \<in> set w. 0x21 \<le> c \<and> c \<le> 0x7E \<and> \<not> is_upper c)"

lemma name_char_facts: "name_char c \<Longrightarrow> c \<noteq> 0 \<and> c < 0x80 \<and> c \<noteq> 0x23"
  by (auto simp: name_char_def is_upper_def isdigit_def word_le_nat_alt word_less_nat_alt)

lemma xml_name_facts:
  assumes "xml_name s"
  shows "s \<noteq> []" and "nul_free s" and "list_all (\<lambda>c. c < 0x80) s" and "s \<noteq> lit ''#text''"
  using assms name_char_facts name_char_facts [where c = "0x23"] by (auto simp: xml_name_def nul_free_def list_all_iff)

lemma tolower_not_upper: "\<not> is_upper c \<Longrightarrow> tolower c = c"
  by (auto simp: tolower_def is_upper_def)

lemma lower_fixed:
  assumes "xml_str_ok (hl_str L)" and "s \<noteq> []" and "nul_free s" and "list_all (\<lambda>c. c < 0x80) s"
    and "\<forall>c \<in> set s. \<not> is_upper c"
  shows "lower L s = Inr s"
proof -
  have "map tolower s = s" using assms(5) by (simp add: map_idI tolower_not_upper)
  with assms show ?thesis
    by (simp add: lower_def swish_str_tolower_def is_ascii_eq swish_ascii_str_tolower_def)
qed

lemma lower_lower_name: "xml_str_ok (hl_str L) \<Longrightarrow> lower_name s \<Longrightarrow> lower L s = Inr s"
  using xml_name_facts [of s] by (simp add: lower_fixed lower_name_def)

lemma word_value_facts:
  assumes "word_value w"
  shows "w \<noteq> []" and "nul_free w" and "list_all (\<lambda>c. c < 0x80) w" and "plain w" and "0x0A \<notin> set w"
proof -
  have 1: "c \<noteq> 0 \<and> c < 0x80 \<and> \<not> isspace c \<and> c \<noteq> 0x0A" if "0x21 \<le> c" "c \<le> 0x7E" for c :: u8
    using that by (auto simp: isspace_def word_le_nat_alt word_less_nat_alt)
  show "w \<noteq> []" "nul_free w" "list_all (\<lambda>c. c < 0x80) w" "plain w" "0x0A \<notin> set w"
    using assms 1 by (auto simp: word_value_def nul_free_def list_all_iff plain_def)
qed

lemma lower_word: "xml_str_ok (hl_str L) \<Longrightarrow> word_value w \<Longrightarrow> lower L w = Inr w"
  using word_value_facts [of w] by (auto simp: lower_fixed word_value_def)

lemma alias_words_single:
  assumes "word_value w"
  shows "alias_words w = Inr [w]"
proof -
  note w = word_value_facts [OF assms]
  have len: "length w \<le> SWISH_MAX_WORD_LEN" "hd w \<noteq> 0x22" "hd w \<noteq> 0x27"
    using assms by (simp_all add: word_value_def)
  obtain sl1 where sl1: "swish_stringlist_add_string swish_stringlist_init w = Inr (sl1, 1)" "sl_rep sl1 [w]"
    using add_string_rep [OF sl_rep_init, of w] by auto
  have g1: "getword (w @ [0]) 0 = Inr (w, int (length w))"
    using getword_plain [OF w(4,1) len(2,3), of 0 "[]" "[]"] len(1) by simp
  have g2: "getword (w @ [0]) (int (length w)) = Inr ([], int (length w))"
    by (simp add: getword_def skip_ws_end)
  have "build_loop (w @ [0]) 0 swish_stringlist_init = Inr sl1"
    using w(1) by (subst build_loop.simps, simp add: g1 sl1) (subst build_loop.simps, simp add: g2)
  moreover obtain sl2 where "terminate sl1 = Inr sl2" "sl_rep sl2 [w]" using terminate_rep [OF sl1(2)] by blast
  moreover from this have "sl_n sl2 = 1" "rd (sl_word sl2) 0 = Inr (Word w)"
    using rd_word [of sl2 "[w]" 0] by (auto simp: sl_rep_def)
  moreover have "cstr (w @ [0]) 0 = Inr w" "cut_line (w @ [0]) w = Inr (w @ [0])"
    using cstr_cobj [OF w(2)] w(5) by (simp_all add: cobj_def cut_line_def)
  ultimately show ?thesis by (simp add: alias_words_def swish_stringlist_build_def cobj_def)
qed

section \<open>Steps\<close>

definition steps ::
  "('s, 'p) merger \<Rightarrow> ('s, 'p) head_lib \<Rightarrow> xml_node list \<Rightarrow> ('s, 'p) hm_state \<Rightarrow> ('s, 'p) hm_state \<Rightarrow> bool" where
  "steps merge L ns s s' \<longleftrightarrow>
     (\<forall>c ms ok. \<exists>c'. read_nodes merge L (\<lparr>rr_cur = c, rr_nodes = ns @ ms, rr_ok = ok\<rparr>, s) =
        read_nodes merge L (\<lparr>rr_cur = c', rr_nodes = ms, rr_ok = ok\<rparr>, s'))"

lemma steps_refl [simp]: "steps merge L [] s s"
  by (auto simp: steps_def)

lemma steps_append:
  "steps merge L ns s s' \<Longrightarrow> steps merge L ms s' s'' \<Longrightarrow> steps merge L (ns @ ms) s s''"
  unfolding steps_def by (metis append_assoc)

lemma read_nodes_Cons:
  "read_nodes merge L (\<lparr>rr_cur = c, rr_nodes = n # ns, rr_ok = ok\<rparr>, s) =
    bnd (process_node merge L n (\<lparr>rr_cur = Some n, rr_nodes = ns, rr_ok = ok\<rparr>, s)) (read_nodes merge L)"
  by (cases s, subst read_nodes.simps) simp

lemma steps_one:
  assumes "\<And>r. process_node merge L n (r, s) = Inr (r, s')"
  shows "steps merge L [n] s s'"
  using assms by (cases s) (auto simp: steps_def read_nodes_Cons)

lemma steps_with_text:
  assumes "\<And>r r'. next_text r = Inr (v, r') \<Longrightarrow> process_node merge L n (r, s) = Inr (r', s')"
  shows "steps merge L [n, text_node v] s s'"
proof -
  have *: "next_text \<lparr>rr_cur = c, rr_nodes = text_node v # ms, rr_ok = ok\<rparr> =
      Inr (v, \<lparr>rr_cur = Some (text_node v), rr_nodes = ms, rr_ok = ok\<rparr>)" for c ms ok
    by (simp add: next_text_unfold text_of_def text_node_def)
  show ?thesis
    using assms [OF *] by (cases s) (auto simp: steps_def read_nodes_Cons)
qed

lemma steps_end:
  assumes "steps merge L ns s s'" and "ok"
  shows "read_nodes merge L (\<lparr>rr_cur = c, rr_nodes = ns, rr_ok = ok\<rparr>, s) = Inr (0, s')"
proof -
  obtain c' where "read_nodes merge L (\<lparr>rr_cur = c, rr_nodes = ns @ [], rr_ok = ok\<rparr>, s) =
      read_nodes merge L (\<lparr>rr_cur = c', rr_nodes = [], rr_ok = ok\<rparr>, s')"
    using assms(1) unfolding steps_def by blast
  then show ?thesis using assms(2) by (cases s') (simp add: read_nodes.simps [of _ _ "(_, _, _)"] reader_end_def)
qed

section \<open>One node\<close>

lemma key_ok_facts:
  assumes "xml_str_ok (hl_str L)" and "key_ok k"
  shows "start_section L k h = None"
    and "\<not> xmlStrEqual (hl_str L) (Some k) (Some (lit ''swish''))"
    and "\<not> xmlStrEqual (hl_str L) (Some k) (Some (lit ''IncludeConfigFile''))"
    and "\<not> xmlStrEqual (hl_str L) (Some k) (Some (lit ''#text''))"
  using assms xml_name_facts(4) [of k]
  by (simp_all add: key_ok_def sections_def start_section_def Let_def xml_str_laws(3) del: lit_Cons)

lemma process_element:
  assumes "xml_str_ok (hl_str L)" and "key_ok k" and "hm_is_valid h"
  shows "process_node merge L (elem_node k as) (r, h, hp) = read_entry L (elem_node k as) k (r, h, hp)"
  using key_ok_facts [OF assms(1,2)] assms(3)
  by (simp add: process_node_def Let_def elem_node_def node_local_name_def blank_value_def del: lit_Cons)

lemma steps_end_node:
  assumes "xml_str_ok (hl_str L)" and "key_ok k" and "hm_is_valid h"
  shows "steps merge L [end_node k] (h, hp) (h, hp)"
  using key_ok_facts [OF assms(1,2)] assms(3)
  by (intro steps_one)
    (simp add: process_node_def Let_def end_node_def node_local_name_def blank_value_def del: lit_Cons)

text \<open>A section that is not empty leaves the flags reset.\<close>

definition section_nodes :: "string \<Rightarrow> xml_node list \<Rightarrow> xml_node list" where
  "section_nodes s ns = (if ns = [] then [elem_node (lit s) []] else elem_node (lit s) [] # ns @ [end_node (lit s)])"

lemma section_facts:
  assumes "xml_str_ok (hl_str L)" and "s \<in> set sections"
  shows "start_section L (lit s) h \<noteq> None"
    and "\<not> xmlStrEqual (hl_str L) (Some (lit s)) (Some (lit ''swish''))"
    and "\<not> xmlStrEqual (hl_str L) (Some (lit s)) (Some (lit ''IncludeConfigFile''))"
    and "\<not> xmlStrEqual (hl_str L) (Some (lit s)) (Some (lit ''#text''))"
  using assms
  by (auto simp: sections_def start_section_def Let_def xml_str_laws(3) lit_inj simp del: lit_Cons)

lemma reset_idem [simp]: "reset_headmaker (reset_headmaker h) = reset_headmaker h"
  by (simp add: reset_headmaker_def)

lemma steps_section:
  assumes "xml_str_ok (hl_str L)" and "s \<in> set sections" and "hm_is_valid h"
    and "start_section L (lit s) h = Some h1"
    and "steps merge L ns (h1, hp) (h2, hp2)" and "hm_is_valid h2"
  shows "\<exists>h'. steps merge L (section_nodes s ns) (h, hp) (h', hp2) \<and> hm_config h' = hm_config h2 \<and>
    hm_is_valid h' \<and> (ns \<noteq> [] \<longrightarrow> reset_headmaker h' = h')"
proof -
  note facts = section_facts [OF assms(1,2)]
  have 1: "steps merge L [elem_node (lit s) []] (h, hp) (h1, hp)"
    using facts assms(3,4)
    by (intro steps_one)
      (simp add: process_node_def Let_def elem_node_def node_local_name_def blank_value_def del: lit_Cons)
  obtain h3 where "start_section L (lit s) h2 = Some h3" using facts(1) [of h2] by auto
  then have 2: "steps merge L [end_node (lit s)] (h2, hp2) (reset_headmaker h2, hp2)"
    using facts assms(6)
    by (intro steps_one)
      (simp add: process_node_def Let_def end_node_def node_local_name_def blank_value_def del: lit_Cons)
  show ?thesis
  proof (cases "ns = []")
    case True
    then show ?thesis
      using steps_append [OF 1 assms(5)] assms(6) by (intro exI [of _ h2]) (simp add: section_nodes_def)
  next
    case False
    then have "steps merge L (section_nodes s ns) (h, hp) (reset_headmaker h2, hp2)"
      using steps_append [OF steps_append [OF 1 assms(5)] 2] by (simp add: section_nodes_def)
    then show ?thesis
      using False assms(6) by (intro exI [of _ "reset_headmaker h2"]) (simp add: reset_headmaker_def)
  qed
qed

section \<open>Keys and values\<close>

lemma set_key_ok:
  assumes "xml_hash_ok H"
  shows "\<exists>h'. set_key H k v h = Inr h' \<and> swish_hash_fetch H h' = (swish_hash_fetch H h)(k \<mapsto> v)"
  using table.replace [OF assms, of h k v] put_in_new [OF assms, of h k v]
  by (auto simp: set_key_def swish_hash_exists_def simp flip: swish_hash_fetch_def)

text \<open>
  The entries of a section, each an element with its text; \<open>state\<close> is the \<open>headmaker\<close> in terms
  of the table it fills, and \<open>kv\<close> what an entry means.
\<close>

lemma steps_entries:
  fixes H :: "('h, bytes) xml_hash" and es :: "(bytes \<times> bytes) list"
  assumes "xml_str_ok (hl_str L)"
    and "\<And>t. hm_is_valid (state t)"
    and "\<And>e. e \<in> set es \<Longrightarrow> key_ok (fst e) \<and> text_ok (snd e)"
    and "\<And>e t. e \<in> set es \<Longrightarrow> P t \<Longrightarrow>
      \<exists>t'. (\<forall>r r'. next_text r = Inr (snd e, r') \<longrightarrow>
          read_entry L (elem_node (fst e) []) (fst e) (r, state t, hp) = Inr (r', state t', hp)) \<and>
        swish_hash_fetch H t' = (swish_hash_fetch H t)(fst (kv e) \<mapsto> snd (kv e)) \<and> P t'"
    and "P t"
  shows "\<exists>t'. steps merge L (concat (map (\<lambda>e. entry_nodes (fst e) (snd e)) es)) (state t, hp) (state t', hp) \<and>
    swish_hash_fetch H t' = swish_hash_fetch H t ++ map_of (rev (map kv es))"
  using assms(3-5)
proof (induction es arbitrary: t)
  case (Cons e es)
  have e: "key_ok (fst e)" "text_ok (snd e)" using Cons.prems(1) by auto
  have nodes: "entry_nodes (fst e) (snd e) = [elem_node (fst e) [], text_node (snd e)] @ [end_node (fst e)]"
    using e(2) by (simp add: entry_nodes_def text_ok_def)
  obtain t1 where t1: "\<And>r r'. next_text r = Inr (snd e, r') \<Longrightarrow>
      read_entry L (elem_node (fst e) []) (fst e) (r, state t, hp) = Inr (r', state t1, hp)"
    "swish_hash_fetch H t1 = (swish_hash_fetch H t)(fst (kv e) \<mapsto> snd (kv e))" "P t1"
    using Cons.prems(2) [OF list.set_intros(1) Cons.prems(3)] by blast
  have "steps merge L [elem_node (fst e) [], text_node (snd e)] (state t, hp) (state t1, hp)"
    by (rule steps_with_text) (simp add: process_element [OF assms(1) e(1) assms(2)] t1(1))
  then have 1: "steps merge L (entry_nodes (fst e) (snd e)) (state t, hp) (state t1, hp)"
    unfolding nodes by (rule steps_append) (rule steps_end_node [OF assms(1) e(1) assms(2)])
  obtain t2 where t2: "steps merge L (concat (map (\<lambda>e. entry_nodes (fst e) (snd e)) es)) (state t1, hp) (state t2, hp)"
    "swish_hash_fetch H t2 = swish_hash_fetch H t1 ++ map_of (rev (map kv es))"
    using Cons.IH [OF Cons.prems(1) [OF list.set_intros(2)] Cons.prems(2) [OF list.set_intros(2)] t1(3)] by blast
  have "swish_hash_fetch H t2 = swish_hash_fetch H t ++ map_of (rev (map kv (e # es)))"
    unfolding t2(2) t1(2) by (auto simp: fun_eq_iff map_add_def split: option.splits)
  moreover have "steps merge L (concat (map (\<lambda>e. entry_nodes (fst e) (snd e)) (e # es))) (state t, hp) (state t2, hp)"
    using steps_append [OF 1 t2(1)] by simp
  ultimately show ?case by blast
qed (simp, use steps_refl in blast)

text \<open>The two ways an entry is stored: the element as the key, or the words of the text.\<close>

definition stores ::
  "('s, 'p) head_lib \<Rightarrow> (xml_reader \<Rightarrow> 's \<Rightarrow> (xml_reader \<times> 's) res) \<Rightarrow> bytes \<Rightarrow> bytes \<times> bytes \<Rightarrow> 's \<Rightarrow> 's \<Rightarrow> bool" where
  "stores L f v e t t' \<longleftrightarrow>
     (\<forall>r r'. next_text r = Inr (v, r') \<longrightarrow> f r t = Inr (r', t')) \<and>
     swish_hash_fetch (hl_tab L) t' = (swish_hash_fetch (hl_tab L) t)(fst e \<mapsto> snd e)"

lemma stores_pair:
  assumes "cf_lib_ok (hl_cf L)"
  shows "\<exists>t'. stores L (\<lambda>r. read_key_value_pair L r k) v (k, v) t t'"
proof -
  obtain t' where "set_key (hl_tab L) k v t = Inr t'"
    "swish_hash_fetch (hl_tab L) t' = (swish_hash_fetch (hl_tab L) t)(k \<mapsto> v)"
    using set_key_ok [of "hl_tab L" k v t] assms by (auto simp: cf_lib_ok_def)
  then show ?thesis by (auto simp: stores_def read_key_value_pair_def)
qed

lemma stores_word:
  assumes "cf_lib_ok (hl_cf L)" and "word_value w"
  shows "\<exists>t'. stores L (\<lambda>r. read_key_values_pair L r k) w (w, k) t t'"
proof -
  obtain t' where "set_key (hl_tab L) w k t = Inr t'"
    "swish_hash_fetch (hl_tab L) t' = (swish_hash_fetch (hl_tab L) t)(w \<mapsto> k)"
    using set_key_ok [of "hl_tab L" w k t] assms(1) by (auto simp: cf_lib_ok_def)
  then show ?thesis
    using assms lower_word [of L w] alias_words_single [of w]
    by (auto simp: stores_def read_key_values_pair_def cf_lib_ok_def)
qed

lemma word_value_text: "word_value w \<Longrightarrow> text_ok w"
  using word_value_facts(1,4) [of w]
  by (cases w) (auto simp: text_ok_def word_value_def plain_def word_le_nat_alt)

lemma steps_stored:
  assumes "xml_str_ok (hl_str L)" and "\<And>t. hm_is_valid (state t)"
    and "\<And>e. e \<in> set es \<Longrightarrow> key_ok (fst e) \<and> text_ok (snd e)"
    and "\<And>e t. e \<in> set es \<Longrightarrow> \<exists>t'. stores L (f e) (snd e) (kv e) t t'"
    and "\<And>e t r. read_entry L (elem_node (fst e) []) (fst e) (r, state t, hp) =
      bnd (f e r t) (\<lambda>(r, t). Inr (r, state t, hp))"
  shows "\<exists>t'. steps merge L (concat (map (\<lambda>e. entry_nodes (fst e) (snd e)) es)) (state t, hp) (state t', hp) \<and>
    swish_hash_fetch (hl_tab L) t' = swish_hash_fetch (hl_tab L) t ++ map_of (rev (map kv es))"
proof (rule steps_entries [where P = "\<lambda>_. True"])
  show "\<exists>t'. (\<forall>r r'. next_text r = Inr (snd e, r') \<longrightarrow>
          read_entry L (elem_node (fst e) []) (fst e) (r, state t, hp) = Inr (r', state t', hp)) \<and>
        swish_hash_fetch (hl_tab L) t' = (swish_hash_fetch (hl_tab L) t)(fst (kv e) \<mapsto> snd (kv e)) \<and> True"
    if e: "e \<in> set es" for e t
  proof -
    obtain t' where t': "stores L (f e) (snd e) (kv e) t t'" using assms(4) [OF e] by blast
    show ?thesis by (rule exI [of _ t']) (use t' in \<open>simp add: assms(5) stores_def\<close>)
  qed
qed (use assms(1-3) in auto)

lemma steps_index:
  assumes "cf_lib_ok (hl_cf L)" and "hm_is_valid h"
    and es: "\<And>e. e \<in> set es \<Longrightarrow> key_ok (fst e) \<and> text_ok (snd e)"
    and flags: "\<not> hm_isprops h" "\<not> hm_ismetas h" "hm_isindex h"
  defines "state \<equiv> \<lambda>t. h\<lparr>hm_config := (hm_config h)\<lparr>cf_index := t\<rparr>\<rparr>"
  shows "\<exists>t'. steps merge L (concat (map (\<lambda>e. entry_nodes (fst e) (snd e)) es)) (state t, hp) (state t', hp) \<and>
    swish_hash_fetch (hl_tab L) t' = swish_hash_fetch (hl_tab L) t ++ map_of (rev (map id es))"
proof (rule steps_stored)
  show "\<exists>t'. stores L (\<lambda>r. read_key_value_pair L r (fst e)) (snd e) (id e) t t'" if "e \<in> set es" for e t
    using stores_pair [OF assms(1)] by (cases e) auto
qed (use assms(1,2) es flags in \<open>auto simp: state_def cf_lib_ok_def read_entry_def\<close>)

lemma steps_mimes:
  assumes "cf_lib_ok (hl_cf L)" and "hm_is_valid h"
    and es: "\<And>e. e \<in> set es \<Longrightarrow> key_ok (fst e) \<and> text_ok (snd e)"
    and flags: "\<not> hm_isprops h" "\<not> hm_ismetas h" "\<not> hm_isindex h" "\<not> hm_isparser h" "hm_ismime h"
  defines "state \<equiv> \<lambda>t. h\<lparr>hm_config := (hm_config h)\<lparr>cf_mimes := Some t\<rparr>\<rparr>"
  shows "\<exists>t'. steps merge L (concat (map (\<lambda>e. entry_nodes (fst e) (snd e)) es)) (state t, hp) (state t', hp) \<and>
    swish_hash_fetch (hl_tab L) t' = swish_hash_fetch (hl_tab L) t ++ map_of (rev (map id es))"
proof (rule steps_stored)
  show "\<exists>t'. stores L (\<lambda>r. read_key_value_pair L r (fst e)) (snd e) (id e) t t'" if "e \<in> set es" for e t
    using stores_pair [OF assms(1)] by (cases e) auto
qed (use assms(1,2) es flags in \<open>auto simp: state_def cf_lib_ok_def read_entry_def\<close>)

lemma steps_parsers:
  assumes "cf_lib_ok (hl_cf L)" and "hm_is_valid h"
    and es: "\<And>e. e \<in> set es \<Longrightarrow> key_ok (fst e) \<and> word_value (snd e)"
    and flags: "\<not> hm_isprops h" "\<not> hm_ismetas h" "\<not> hm_isindex h" "hm_isparser h"
  defines "state \<equiv> \<lambda>t. h\<lparr>hm_config := (hm_config h)\<lparr>cf_parsers := t\<rparr>\<rparr>"
  shows "\<exists>t'. steps merge L (concat (map (\<lambda>e. entry_nodes (fst e) (snd e)) es)) (state t, hp) (state t', hp) \<and>
    swish_hash_fetch (hl_tab L) t' = swish_hash_fetch (hl_tab L) t ++ map_of (rev (map prod.swap es))"
proof (rule steps_stored)
  show "\<exists>t'. stores L (\<lambda>r. read_key_values_pair L r (fst e)) (snd e) (prod.swap e) t t'" if "e \<in> set es" for e t
    using stores_word [OF assms(1), of "snd e"] es [OF that] by (cases e) auto
qed (use assms(1,2) es flags word_value_text in \<open>auto simp: state_def cf_lib_ok_def read_entry_def\<close>)

lemma steps_aliases:
  assumes "cf_lib_ok (hl_cf L)" and "hm_is_valid h"
    and es: "\<And>e. e \<in> set es \<Longrightarrow> key_ok (fst e) \<and> word_value (snd e)"
    and flags: "\<not> hm_isprops h" "\<not> hm_ismetas h" "\<not> hm_isindex h" "\<not> hm_isparser h" "\<not> hm_ismime h" "hm_isalias h"
  defines "state \<equiv> \<lambda>t. h\<lparr>hm_config := (hm_config h)\<lparr>cf_tag_aliases := t\<rparr>\<rparr>"
  shows "\<exists>t'. steps merge L (concat (map (\<lambda>e. entry_nodes (fst e) (snd e)) es)) (state t, hp) (state t', hp) \<and>
    swish_hash_fetch (hl_tab L) t' = swish_hash_fetch (hl_tab L) t ++ map_of (rev (map prod.swap es))"
proof (rule steps_stored)
  show "\<exists>t'. stores L (\<lambda>r. read_key_values_pair L r (fst e)) (snd e) (prod.swap e) t t'" if "e \<in> set es" for e t
    using stores_word [OF assms(1), of "snd e"] es [OF that] by (cases e) auto
qed (use assms(1,2) es flags word_value_text in \<open>auto simp: state_def cf_lib_ok_def read_entry_def\<close>)

section \<open>Settings at the top level\<close>

text \<open>The flags the settings read so far have set.\<close>

definition misc_flags :: "('s, 'p) cf_lib \<Rightarrow> ('s, 'p) swish_Config \<Rightarrow> 'p swish_ConfigFlags" where
  "misc_flags C c =
     (let f = cf_flags c in
      f\<lparr>fl_tokenize := projr (misc_flag C c ''Tokenize'' (fl_tokenize f)),
        fl_cascade_meta_context := projr (misc_flag C c ''CascadeMetaContext'' (fl_cascade_meta_context f)),
        fl_ignore_xmlns := projr (misc_flag C c ''IgnoreXMLNameSpaces'' (fl_ignore_xmlns f)),
        fl_undef_metas := projr (misc_undef_metas C c (fl_undef_metas f)),
        fl_undef_attrs := projr (misc_undef_attrs C c (fl_undef_attrs f))\<rparr>)"

lemma handle_special_ok:
  assumes "xml_str_ok (hl_str L)" and "known_undef (hl_cf L) (hm_config h)"
  shows "handle_special_misc_flags L h =
    Inr (h\<lparr>hm_config := (hm_config h)\<lparr>cf_flags := misc_flags (hl_cf L) (hm_config h)\<rparr>\<rparr>)"
proof -
  let ?c = "hm_config h" and ?C = "hl_cf L"
  let ?f = "cf_flags ?c"
  obtain t c x where "misc_flag ?C ?c ''Tokenize'' (fl_tokenize ?f) = Inr t"
    "misc_flag ?C ?c ''CascadeMetaContext'' (fl_cascade_meta_context ?f) = Inr c"
    "misc_flag ?C ?c ''IgnoreXMLNameSpaces'' (fl_ignore_xmlns ?f) = Inr x"
    using misc_flag_total by metis
  moreover obtain m a where "misc_undef_metas ?C ?c (fl_undef_metas ?f) = Inr m"
    "misc_undef_attrs ?C ?c (fl_undef_attrs ?f) = Inr a"
    using misc_undef_total [OF assms] by metis
  ultimately show ?thesis by (simp add: handle_special_misc_flags_def misc_flags_def Let_def)
qed

lemma misc_flags_again:
  fixes c :: "('s, 'p) swish_Config"
  assumes "xml_str_ok (cl_str C)" and "swish_hash_fetch (cl_tab C) t' = (swish_hash_fetch (cl_tab C) t)(k \<mapsto> v)"
    and "known_undef C (c\<lparr>cf_misc := t'\<rparr>)"
  shows "misc_flags C (c\<lparr>cf_flags := misc_flags C (c\<lparr>cf_misc := t\<rparr>), cf_misc := t'\<rparr>) = misc_flags C (c\<lparr>cf_misc := t'\<rparr>)"
proof -
  let ?c' = "c\<lparr>cf_misc := t'\<rparr>" and ?c = "c\<lparr>cf_misc := t\<rparr>"
  have old: "misc_flag C (c\<lparr>cf_flags := g, cf_misc := t'\<rparr>) s x = misc_flag C ?c' s x"
    "misc_undef_metas C (c\<lparr>cf_flags := g, cf_misc := t'\<rparr>) y = misc_undef_metas C ?c' y"
    "misc_undef_attrs C (c\<lparr>cf_flags := g, cf_misc := t'\<rparr>) z = misc_undef_attrs C ?c' z" for g s x y z
    by (simp_all add: misc_flag_def misc_undef_metas_def misc_undef_attrs_def del: lit_Cons)
  have "projr (misc_flag C ?c' s (projr (misc_flag C ?c s x))) = projr (misc_flag C ?c' s x)" for s x
    using assms(2) by (auto simp: misc_flag_def split: option.splits)
  moreover have "projr (misc_undef_metas C ?c' (projr (misc_undef_metas C ?c x))) = projr (misc_undef_metas C ?c' x)" for x
    using assms(2) by (auto simp: misc_undef_metas_def simp del: lit_Cons split: option.splits)
  moreover have "projr (misc_undef_attrs C ?c' (projr (misc_undef_attrs C ?c x))) = projr (misc_undef_attrs C ?c' x)" for x
    using assms(2) by (auto simp: misc_undef_attrs_def simp del: lit_Cons split: option.splits)
  ultimately show ?thesis
    using old by (simp add: misc_flags_def Let_def)
qed

definition undef_value_ok :: "bytes \<times> bytes \<Rightarrow> bool" where
  "undef_value_ok e \<longleftrightarrow>
     (fst e = lit ''UndefinedMetaTags'' \<longrightarrow> snd e \<in> lit ` {''error'', ''ignore'', ''index'', ''auto'', ''autoall''}) \<and>
     (fst e = lit ''UndefinedXMLAttributes'' \<longrightarrow>
        snd e \<in> lit ` {''error'', ''ignore'', ''index'', ''auto'', ''autoall'', ''disable''})"

lemma known_undef_upd:
  assumes "known_undef C c" and "undef_value_ok (k, v)"
    and "swish_hash_fetch (cl_tab C) t' = (swish_hash_fetch (cl_tab C) (cf_misc c))(k \<mapsto> v)"
  shows "known_undef C (c\<lparr>cf_misc := t'\<rparr>)"
  using assms by (auto simp: known_undef_def undef_value_ok_def simp del: lit_Cons)

lemma steps_misc:
  fixes h :: "('s, 'p) headmaker"
  assumes "cf_lib_ok (hl_cf L)" and "hm_is_valid h" and "reset_headmaker h = h"
    and es: "\<And>e. e \<in> set es \<Longrightarrow> key_ok (fst e) \<and> text_ok (snd e) \<and> undef_value_ok e \<and> fst e \<noteq> SWISH_CLASS_ATTRIBUTES"
    and t: "known_undef (hl_cf L) ((hm_config h)\<lparr>cf_misc := t\<rparr>)"
  defines "state \<equiv> \<lambda>t. h\<lparr>hm_config := (hm_config h)\<lparr>cf_misc := t,
    cf_flags := misc_flags (hl_cf L) ((hm_config h)\<lparr>cf_misc := t\<rparr>)\<rparr>\<rparr>"
  shows "\<exists>t'. steps merge L (concat (map (\<lambda>e. entry_nodes (fst e) (snd e)) es)) (state t, hp) (state t', hp) \<and>
    swish_hash_fetch (hl_tab L) t' = swish_hash_fetch (hl_tab L) t ++ map_of (rev (map id es))"
proof (rule steps_entries [where P = "\<lambda>t. known_undef (hl_cf L) ((hm_config h)\<lparr>cf_misc := t\<rparr>)"])
  let ?C = "hl_cf L" and ?c = "hm_config h"
  have X: "xml_str_ok (hl_str L)" using assms(1) by (simp add: cf_lib_ok_def)
  have top: "\<not> hm_isprops h" "\<not> hm_ismetas h" "\<not> hm_isindex h" "\<not> hm_isparser h" "\<not> hm_ismime h" "\<not> hm_isalias h"
    by (subst assms(3) [symmetric], simp add: reset_headmaker_def)+
  show "\<exists>t'. (\<forall>r r'. next_text r = Inr (snd e, r') \<longrightarrow>
          read_entry L (elem_node (fst e) []) (fst e) (r, state t, hp) = Inr (r', state t', hp)) \<and>
        swish_hash_fetch (hl_tab L) t' = (swish_hash_fetch (hl_tab L) t)(fst (id e) \<mapsto> snd (id e)) \<and>
        known_undef ?C (?c\<lparr>cf_misc := t'\<rparr>)"
    if e: "e \<in> set es" and t: "known_undef ?C (?c\<lparr>cf_misc := t\<rparr>)" for e t
  proof -
    obtain t' where t': "stores L (\<lambda>r. read_key_value_pair L r (fst e)) (snd e) (fst e, snd e) t t'"
      using stores_pair [OF assms(1)] by blast
    then have upd: "swish_hash_fetch (hl_tab L) t' = (swish_hash_fetch (hl_tab L) t)(fst e \<mapsto> snd e)"
      by (simp add: stores_def)
    have known: "known_undef ?C (?c\<lparr>cf_misc := t'\<rparr>)"
      using known_undef_upd [OF t, of "fst e" "snd e" t'] es [OF e] upd by simp
    define s where "s = h\<lparr>hm_config := ?c\<lparr>cf_flags := misc_flags ?C (?c\<lparr>cf_misc := t\<rparr>), cf_misc := t'\<rparr>\<rparr>"
    have "known_undef ?C (hm_config s)" using known by (simp add: s_def known_undef_def)
    then have "handle_special_misc_flags L s = Inr (state t')"
      using handle_special_ok [OF X, of s] misc_flags_again [OF X upd known] by (simp add: s_def state_def)
    then have "read_entry L (elem_node (fst e) []) (fst e) (r, state t, hp) = Inr (r', state t', hp)"
      if "next_text r = Inr (snd e, r')" for r r'
      using that t' es [OF e] top X
      by (simp add: read_entry_def stores_def state_def s_def elem_node_def Let_def xml_str_laws(3)
          eq_commute [of SWISH_CLASS_ATTRIBUTES])
    then show ?thesis using upd known by (intro exI [of _ t']) simp
  qed
qed (use assms(1,2) es t in \<open>auto simp: cf_lib_ok_def state_def\<close>)
end
