(* ===== verification/Header_Objects.thy ===== *)
theory Header_Objects
  imports Header_Steps
begin

text \<open>
  Metanames and properties written to an index header and read again: what of an object
  survives, and how the tables of names and of ids are filled.
\<close>

section \<open>Numbers and flags as text\<close>

lemma unsigned_text:
  assumes "n < 2 ^ 32"
  shows "\<exists>i. swish_string_to_int (unsigned_as_d n) = Inr i \<and> unsigned_int i = n"
proof -
  let ?i = "signed_take_bit 31 (int n)"
  have "int_ok ?i"
    using signed_take_bit_int_less_exp [of 31 "int n"] signed_take_bit_int_greater_eq_minus_exp [of 31 "int n"]
    by (simp add: int_ok_def)
  then have "swish_string_to_int (unsigned_as_d n) = Inr ?i" using int_text by (simp add: unsigned_as_d_def)
  moreover have "?i mod 2 ^ 32 = int n mod 2 ^ 32"
    using take_bit_signed_take_bit [of 32 31 "int n"] unfolding take_bit_eq_mod by simp
  ultimately show ?thesis using assms by (simp add: unsigned_int_def)
qed

lemma boolean_text: "swish_string_to_boolean (Some (cobj (boolean_as_d b))) = Inr b"
proof -
  have "swish_int_to_string 1 = [0x31]" "swish_int_to_string 0 = [0x30]"
    by (simp_all add: swish_int_to_string_def convert_to_string_def BUFSIZE_def dec_int_def dec.simps byte_def)
  then show ?thesis by (auto simp: boolean_as_d_def swish_string_to_boolean_def cobj_def rd_def)
qed

lemma config_atts_elem:
  assumes "xml_str_ok (hl_str L)"
  shows "config_atts L (nd_atts (elem_node k as)) = nd_atts (elem_node k as)"
proof -
  have "\<not> is_xmlns L a" if "at_prefix a = None" for a
    using that by (simp add: is_xmlns_def xml_str_laws(3) [OF assms])
  then show ?thesis
    by (cases as) (auto simp: config_atts_def elem_node_def takeWhile_eq_all_conv)
qed

lemma lower_name_key: "lower_name k \<Longrightarrow> k \<noteq> lit ''swish'' \<Longrightarrow> key_ok k"
  by (auto simp: lower_name_def key_ok_def sections_def is_upper_def)

section \<open>Metanames\<close>

definition meta_ok :: "swish_MetaName \<Rightarrow> bool" where
  "meta_ok m \<longleftrightarrow> lower_name (mn_name m) \<and> mn_name m \<noteq> lit ''swish'' \<and> int_ok (mn_id m) \<and> mn_id m \<noteq> -1 \<and>
     int_ok (mn_bias m) \<and> (case mn_alias_for m of NullCell \<Rightarrow> True | Cell s \<Rightarrow> lower_name s | Freed \<Rightarrow> False)"

definition meta_atts :: "swish_MetaName \<Rightarrow> (bytes \<times> bytes) list" where
  "meta_atts m =
     (lit ''id'', swish_int_to_string (mn_id m)) #
     (case mn_alias_for m of
        Cell s \<Rightarrow> [(lit ''alias_for'', s)]
      | _ \<Rightarrow> [(lit ''bias'', swish_int_to_string (mn_bias m))])"

text \<open>The bias of an alias is not written.\<close>

definition kept_meta :: "swish_MetaName \<Rightarrow> swish_MetaName" where
  "kept_meta m = m\<lparr>mn_ref_cnt := 1, mn_bias := (if mn_alias_for m = NullCell then mn_bias m else 0)\<rparr>"

lemma read_metaname_ok:
  assumes "cf_lib_ok (hl_cf L)" and "meta_ok m"
    and "swish_hash_fetch (hl_ptr L) (cf_metanames (hm_config h)) (mn_name m) = None"
    and "swish_hash_fetch (hl_ptr L) (fl_meta_ids (cf_flags (hm_config h))) (dec_int (mn_id m)) = None"
  shows "\<exists>ms ids. read_metaname L (elem_node (mn_name m) (meta_atts m)) (h, hp) =
      Inr (h\<lparr>hm_config := (hm_config h)\<lparr>cf_metanames := ms,
             cf_flags := (cf_flags (hm_config h))\<lparr>fl_meta_ids := ids\<rparr>\<rparr>, hm_parent_name := Some (mn_name m)\<rparr>,
           hp\<lparr>h_metas := h_metas hp @ [Some (kept_meta m)]\<rparr>) \<and>
    swish_hash_fetch (hl_ptr L) ms =
      (swish_hash_fetch (hl_ptr L) (cf_metanames (hm_config h)))(mn_name m \<mapsto> length (h_metas hp)) \<and>
    swish_hash_fetch (hl_ptr L) ids =
      (swish_hash_fetch (hl_ptr L) (fl_meta_ids (cf_flags (hm_config h))))(dec_int (mn_id m) \<mapsto> length (h_metas hp))"
proof -
  let ?c = "hm_config h" and ?a = "length (h_metas hp)" and ?H = "hl_ptr L"
  have X: "xml_str_ok (hl_str L)" and H: "xml_hash_ok ?H" using assms(1) by (simp_all add: cf_lib_ok_def)
  have name: "lower_name (mn_name m)" using assms(2) by (simp add: meta_ok_def)
  obtain ms where ms: "put_in ?H (cf_metanames ?c) (mn_name m) ?a = Inr ms"
    "swish_hash_fetch ?H ms = (swish_hash_fetch ?H (cf_metanames ?c))(mn_name m \<mapsto> ?a)"
    using put_in_new [OF H assms(3)] by blast
  obtain ids where ids: "put_in ?H (fl_meta_ids (cf_flags ?c)) (dec_int (mn_id m)) ?a = Inr ids"
    "swish_hash_fetch ?H ids = (swish_hash_fetch ?H (fl_meta_ids (cf_flags ?c)))(dec_int (mn_id m) \<mapsto> ?a)"
    using put_in_new [OF H assms(4)] by blast
  have fetch: "swish_hash_exists ?H t k \<longleftrightarrow> swish_hash_fetch ?H t k \<noteq> None" for t k
    by (simp add: swish_hash_exists_def swish_hash_fetch_def)
  have atts: "fold_res (read_metaname_attr L ?a) (config_atts L (nd_atts (elem_node (mn_name m) (meta_atts m))))
      ((swish_metaname_init (mn_name m))\<lparr>mn_ref_cnt := 1\<rparr>, cf_flags ?c) =
    Inr (kept_meta m, (cf_flags ?c)\<lparr>fl_meta_ids := ids\<rparr>)"
  proof (cases "mn_alias_for m")
    case (Cell s)
    then have "lower L s = Inr s" using assms(2) lower_lower_name [OF X] by (simp add: meta_ok_def)
    with Cell assms(2,4) ids show ?thesis
      unfolding config_atts_elem [OF X]
      by (simp add: elem_node_def meta_atts_def read_metaname_attr_def Let_def xml_str_laws(3) [OF X] lit_inj
          meta_ok_def int_text fetch kept_meta_def swish_metaname_init_def del: lit_Cons)
  next
    case NullCell
    with assms(2,4) ids show ?thesis
      unfolding config_atts_elem [OF X]
      by (simp add: elem_node_def meta_atts_def read_metaname_attr_def Let_def xml_str_laws(3) [OF X] lit_inj
          meta_ok_def int_text fetch kept_meta_def swish_metaname_init_def del: lit_Cons)
  qed (use assms(2) in \<open>simp add: meta_ok_def\<close>)
  have "read_metaname L (elem_node (mn_name m) (meta_atts m)) (h, hp) =
      Inr (h\<lparr>hm_config := ?c\<lparr>cf_metanames := ms, cf_flags := (cf_flags ?c)\<lparr>fl_meta_ids := ids\<rparr>\<rparr>,
          hm_parent_name := Some (mn_name m)\<rparr>, hp\<lparr>h_metas := h_metas hp @ [Some (kept_meta m)]\<rparr>)"
    using assms(2,3) atts ms
    by (simp add: read_metaname_def Let_def name_of_def text_of_def elem_node_def lower_lower_name [OF X name]
        next_meta_id_def kept_meta_def meta_ok_def fetch)
  with ms(2) ids(2) show ?thesis by blast
qed

section \<open>Properties\<close>

definition prop_ok :: "swish_Property \<Rightarrow> bool" where
  "prop_ok p \<longleftrightarrow> lower_name (pr_name p) \<and> pr_name p \<noteq> lit ''swish'' \<and> int_ok (pr_id p) \<and> pr_id p \<noteq> -1 \<and>
     int_ok (pr_type p) \<and> 0 \<le> pr_type p \<and> pr_max p < 2 ^ 32 \<and> pr_sort_length p < 2 ^ 32 \<and>
     (case pr_alias_for p of NullCell \<Rightarrow> True | Cell s \<Rightarrow> lower_name s | Freed \<Rightarrow> False)"

definition prop_atts :: "swish_Property \<Rightarrow> (bytes \<times> bytes) list" where
  "prop_atts p =
     (lit ''id'', swish_int_to_string (pr_id p)) #
     (case pr_alias_for p of
        Cell s \<Rightarrow> [(lit ''alias_for'', s)]
      | _ \<Rightarrow>
          [(lit ''ignore_case'', boolean_as_d (pr_ignore_case p)), (lit ''verbatim'', boolean_as_d (pr_verbatim p)),
           (lit ''type'', swish_int_to_string (pr_type p)), (lit ''max'', unsigned_as_d (pr_max p)),
           (lit ''sort'', boolean_as_d (pr_sort p)), (lit ''sort_length'', unsigned_as_d (pr_sort_length p)),
           (lit ''presort'', boolean_as_d (pr_presort p))])"

text \<open>An alias keeps its id and its target; the rest is as in a new property.\<close>

definition kept_prop :: "swish_Property \<Rightarrow> swish_Property" where
  "kept_prop p =
     (if pr_alias_for p = NullCell then p\<lparr>pr_ref_cnt := 1\<rparr>
      else (swish_property_init (pr_name p))\<lparr>pr_ref_cnt := 1, pr_id := pr_id p, pr_alias_for := pr_alias_for p\<rparr>)"

lemma read_type_text:
  assumes "xml_str_ok (hl_str L)" and "int_ok i" and "0 \<le> i"
  shows "read_property_type L (dec_int i) = Inr i"
proof -
  have dec: "dec_int i = dec (nat i)" using assms(3) by (simp add: dec_int_def)
  obtain c s where cs: "dec (nat i) = c # s" using dec_nonempty by (cases "dec (nat i)") auto
  then have c: "is_digit c" using dec_digits [of c "nat i"] by simp
  then have "isdigit c" by (simp add: is_digit_def isdigit_def)
  moreover have "dec_int i \<noteq> lit w" if "w \<in> {''int'', ''date'', ''string'', ''text''}" for w
    using that c by (auto simp: dec cs is_digit_def word_le_nat_alt)
  ultimately show ?thesis
    using int_text(2) [OF assms(2)]
    by (simp add: read_property_type_def Let_def xml_str_laws(3) [OF assms(1)] dec cs cobj_def rd_def del: lit_Cons)
qed

lemma read_property_ok:
  assumes "cf_lib_ok (hl_cf L)" and "prop_ok p"
    and "swish_hash_fetch (hl_ptr L) (cf_properties (hm_config h)) (pr_name p) = None"
    and "swish_hash_fetch (hl_ptr L) (fl_prop_ids (cf_flags (hm_config h))) (dec_int (pr_id p)) = None"
  shows "\<exists>ps ids. read_property L (elem_node (pr_name p) (prop_atts p)) (h, hp) =
      Inr (h\<lparr>hm_config := (hm_config h)\<lparr>cf_flags := (cf_flags (hm_config h))\<lparr>fl_prop_ids := ids\<rparr>,
             cf_properties := ps\<rparr>, hm_parent_name := Some (pr_name p)\<rparr>,
           hp\<lparr>h_props := h_props hp @ [Some (kept_prop p)]\<rparr>) \<and>
    swish_hash_fetch (hl_ptr L) ps =
      (swish_hash_fetch (hl_ptr L) (cf_properties (hm_config h)))(pr_name p \<mapsto> length (h_props hp)) \<and>
    swish_hash_fetch (hl_ptr L) ids =
      (swish_hash_fetch (hl_ptr L) (fl_prop_ids (cf_flags (hm_config h))))(dec_int (pr_id p) \<mapsto> length (h_props hp))"
proof -
  let ?c = "hm_config h" and ?a = "length (h_props hp)" and ?H = "hl_ptr L"
  have X: "xml_str_ok (hl_str L)" and H: "xml_hash_ok ?H" using assms(1) by (simp_all add: cf_lib_ok_def)
  have name: "lower_name (pr_name p)" using assms(2) by (simp add: prop_ok_def)
  obtain ps where ps: "put_in ?H (cf_properties ?c) (pr_name p) ?a = Inr ps"
    "swish_hash_fetch ?H ps = (swish_hash_fetch ?H (cf_properties ?c))(pr_name p \<mapsto> ?a)"
    using put_in_new [OF H assms(3)] by blast
  obtain ids where ids: "put_in ?H (fl_prop_ids (cf_flags ?c)) (dec_int (pr_id p)) ?a = Inr ids"
    "swish_hash_fetch ?H ids = (swish_hash_fetch ?H (fl_prop_ids (cf_flags ?c)))(dec_int (pr_id p) \<mapsto> ?a)"
    using put_in_new [OF H assms(4)] by blast
  have fetch: "swish_hash_exists ?H t k \<longleftrightarrow> swish_hash_fetch ?H t k \<noteq> None" for t k
    by (simp add: swish_hash_exists_def swish_hash_fetch_def)
  have ok: "int_ok (pr_id p)" "int_ok (pr_type p)" "0 \<le> pr_type p" using assms(2) by (simp_all add: prop_ok_def)
  note attr = read_property_attr_def Let_def xml_str_laws(3) [OF X] lit_inj
  let ?read = "\<lambda>atts. fold_res (read_property_attr L ?a) (nd_atts (elem_node (pr_name p) atts))"
  have id': "?read ((lit ''id'', swish_int_to_string (pr_id p)) # as)
      ((swish_property_init (pr_name p))\<lparr>pr_ref_cnt := 1\<rparr>, cf_flags ?c) =
    ?read as ((swish_property_init (pr_name p))\<lparr>pr_ref_cnt := 1, pr_id := pr_id p\<rparr>, (cf_flags ?c)\<lparr>fl_prop_ids := ids\<rparr>)" for as
    using assms(4) ids
    by (simp add: elem_node_def attr int_text [OF ok(1)] fetch swish_property_init_def del: lit_Cons)
  have atts: "fold_res (read_property_attr L ?a) (config_atts L (nd_atts (elem_node (pr_name p) (prop_atts p))))
      ((swish_property_init (pr_name p))\<lparr>pr_ref_cnt := 1\<rparr>, cf_flags ?c) =
    Inr (kept_prop p, (cf_flags ?c)\<lparr>fl_prop_ids := ids\<rparr>)"
    unfolding config_atts_elem [OF X]
  proof (cases "pr_alias_for p")
    case (Cell s)
    then have "lower L s = Inr s" using assms(2) lower_lower_name [OF X] by (simp add: prop_ok_def)
    with Cell show "?read (prop_atts p) ((swish_property_init (pr_name p))\<lparr>pr_ref_cnt := 1\<rparr>, cf_flags ?c) =
        Inr (kept_prop p, (cf_flags ?c)\<lparr>fl_prop_ids := ids\<rparr>)"
      by (simp add: prop_atts_def id' del: lit_Cons) (simp add: elem_node_def attr kept_prop_def del: lit_Cons)
  next
    case NullCell
    obtain i j where "swish_string_to_int (unsigned_as_d (pr_max p)) = Inr i" "unsigned_int i = pr_max p"
      "swish_string_to_int (unsigned_as_d (pr_sort_length p)) = Inr j" "unsigned_int j = pr_sort_length p"
      using unsigned_text assms(2) by (metis prop_ok_def)
    with NullCell show "?read (prop_atts p) ((swish_property_init (pr_name p))\<lparr>pr_ref_cnt := 1\<rparr>, cf_flags ?c) =
        Inr (kept_prop p, (cf_flags ?c)\<lparr>fl_prop_ids := ids\<rparr>)"
      by (simp add: prop_atts_def id' del: lit_Cons)
        (simp add: elem_node_def attr kept_prop_def boolean_text int_text(1) [OF ok(2)] read_type_text [OF X ok(2,3)]
          swish_property_init_def del: lit_Cons)
  qed (use assms(2) in \<open>simp add: prop_ok_def\<close>)
  have "pr_id (kept_prop p) = pr_id p" "pr_name (kept_prop p) = pr_name p"
    by (simp_all add: kept_prop_def swish_property_init_def)
  then have "read_property L (elem_node (pr_name p) (prop_atts p)) (h, hp) =
      Inr (h\<lparr>hm_config := ?c\<lparr>cf_flags := (cf_flags ?c)\<lparr>fl_prop_ids := ids\<rparr>, cf_properties := ps\<rparr>,
          hm_parent_name := Some (pr_name p)\<rparr>, hp\<lparr>h_props := h_props hp @ [Some (kept_prop p)]\<rparr>)"
    using assms(2,3) atts ps
    by (simp add: read_property_def Let_def name_of_def text_of_def elem_node_def lower_lower_name [OF X name]
        next_prop_id_def prop_ok_def fetch)
  with ps(2) ids(2) show ?thesis by blast
qed

section \<open>The lists of a section\<close>

lemma process_object_node:
  assumes "xml_str_ok (hl_str L)" and "lower_name k" and "k \<noteq> lit ''swish''" and "hm_is_valid h"
  shows "process_node merge L (elem_node k as) (r, h, hp) =
    (if hm_isprops h then bnd (read_property L (elem_node k as) (h, hp)) (\<lambda>st. Inr (r, st))
     else if hm_ismetas h then bnd (read_metaname L (elem_node k as) (h, hp)) (\<lambda>st. Inr (r, st))
     else read_entry L (elem_node k as) k (r, h, hp))"
  using process_element [OF assms(1) lower_name_key [OF assms(2,3)] assms(4)] by (simp add: read_entry_def Let_def)

text \<open>Keys for the addresses from \<open>n\<close> on.\<close>

definition placed :: "bytes list \<Rightarrow> nat \<Rightarrow> bytes \<Rightarrow> nat option" where
  "placed ks n = map_of (zip ks [n..<n + length ks])"

lemma placed_Nil [simp]: "placed [] n = Map.empty"
  by (simp add: placed_def)

lemma placed_Cons: "placed (k # ks) n = (placed ks (Suc n))(k \<mapsto> n)"
  by (simp add: placed_def upt_conv_Cons del: upt_Suc)

lemma dom_placed: "dom (placed ks n) = set ks"
  by (simp add: placed_def dom_map_of_zip)

lemma add_placed_Cons: "k \<notin> set ks \<Longrightarrow> m ++ placed (k # ks) n = m(k \<mapsto> n) ++ placed ks (Suc n)"
  using map_add_upd_left [of k "placed ks (Suc n)" m n] by (simp add: placed_Cons dom_placed)

lemma steps_objects:
  fixes H :: "('p, nat) xml_hash"
  assumes step: "\<And>m ts js pn os. ok m \<Longrightarrow> swish_hash_fetch H ts (name m) = None \<Longrightarrow>
      swish_hash_fetch H js (num m) = None \<Longrightarrow>
      \<exists>ts' js'. steps merge L [node m] (st ts js pn os) (st ts' js' (Some (name m)) (os @ [m])) \<and>
        swish_hash_fetch H ts' = (swish_hash_fetch H ts)(name m \<mapsto> n + length os) \<and>
        swish_hash_fetch H js' = (swish_hash_fetch H js)(num m \<mapsto> n + length os)"
    and "list_all ok es" and "distinct (map name es)" and "distinct (map num es)"
    and "\<forall>m \<in> set es. swish_hash_fetch H ts (name m) = None \<and> swish_hash_fetch H js (num m) = None"
  shows "\<exists>ts' js' pn'. steps merge L (map node es) (st ts js pn os) (st ts' js' pn' (os @ es)) \<and>
    swish_hash_fetch H ts' = swish_hash_fetch H ts ++ placed (map name es) (n + length os) \<and>
    swish_hash_fetch H js' = swish_hash_fetch H js ++ placed (map num es) (n + length os)"
  using assms(2-)
proof (induction es arbitrary: ts js pn os)
  case Nil
  show ?case by (rule exI [of _ ts], rule exI [of _ js], rule exI [of _ pn]) simp
next
  case (Cons m es)
  have m: "ok m" "swish_hash_fetch H ts (name m) = None" "swish_hash_fetch H js (num m) = None"
    and d: "list_all ok es" "distinct (map name es)" "distinct (map num es)"
    using Cons.prems by simp_all
  obtain ts1 js1 where 1: "steps merge L [node m] (st ts js pn os) (st ts1 js1 (Some (name m)) (os @ [m]))"
    "swish_hash_fetch H ts1 = (swish_hash_fetch H ts)(name m \<mapsto> n + length os)"
    "swish_hash_fetch H js1 = (swish_hash_fetch H js)(num m \<mapsto> n + length os)"
    using step [OF m, of pn os] by (elim exE conjE) (rule that)
  have fresh: "\<forall>x \<in> set es. swish_hash_fetch H ts1 (name x) = None \<and> swish_hash_fetch H js1 (num x) = None"
  proof
    fix x assume that: "x \<in> set es"
    have "name x \<noteq> name m" "num x \<noteq> num m" using Cons.prems(2,3) that by (simp_all, metis image_eqI)+
    then show "swish_hash_fetch H ts1 (name x) = None \<and> swish_hash_fetch H js1 (num x) = None"
      using Cons.prems(4) that by (simp add: 1)
  qed
  obtain ts2 js2 pn2 where 2: "steps merge L (map node es) (st ts1 js1 (Some (name m)) (os @ [m])) (st ts2 js2 pn2 ((os @ [m]) @ es))"
    "swish_hash_fetch H ts2 = swish_hash_fetch H ts1 ++ placed (map name es) (n + length (os @ [m]))"
    "swish_hash_fetch H js2 = swish_hash_fetch H js1 ++ placed (map num es) (n + length (os @ [m]))"
    using Cons.IH [OF d fresh, of "Some (name m)" "os @ [m]"] by (elim exE conjE) (rule that)
  show ?case
    using steps_append [OF 1(1) 2(1)] Cons.prems(2,3)
    by (intro exI [of _ ts2] exI [of _ js2] exI [of _ pn2]) (simp add: 1 2 add_placed_Cons)
qed

lemma steps_metas:
  fixes h :: "('s, 'p) headmaker"
  assumes "cf_lib_ok (hl_cf L)" and "hm_is_valid h" and flags: "\<not> hm_isprops h" "hm_ismetas h"
    and "list_all meta_ok es" and "distinct (map mn_name es)" and "distinct (map mn_id es)"
    and "swish_hash_fetch (hl_ptr L) (cf_metanames (hm_config h)) = Map.empty"
    and "swish_hash_fetch (hl_ptr L) (fl_meta_ids (cf_flags (hm_config h))) = Map.empty"
  shows "\<exists>ts js pn. steps merge L (map (\<lambda>m. elem_node (mn_name m) (meta_atts m)) es) (h, hp)
      (h\<lparr>hm_config := (hm_config h)\<lparr>cf_metanames := ts, cf_flags := (cf_flags (hm_config h))\<lparr>fl_meta_ids := js\<rparr>\<rparr>, hm_parent_name := pn\<rparr>,
       hp\<lparr>h_metas := h_metas hp @ map (\<lambda>m. Some (kept_meta m)) es\<rparr>) \<and>
    swish_hash_fetch (hl_ptr L) ts = placed (map mn_name es) (length (h_metas hp)) \<and>
    swish_hash_fetch (hl_ptr L) js = placed (map (\<lambda>m. dec_int (mn_id m)) es) (length (h_metas hp))"
proof -
  let ?H = "hl_ptr L"
  define st where "st = (\<lambda>ts js pn os.
    (h\<lparr>hm_config := (hm_config h)\<lparr>cf_metanames := ts, cf_flags := (cf_flags (hm_config h))\<lparr>fl_meta_ids := js\<rparr>\<rparr>, hm_parent_name := pn\<rparr>,
     hp\<lparr>h_metas := h_metas hp @ map (\<lambda>m. Some (kept_meta m)) os\<rparr>))"
  have X: "xml_str_ok (hl_str L)" using assms(1) by (simp add: cf_lib_ok_def)
  have step: "\<exists>ts' js'. steps merge L [elem_node (mn_name m) (meta_atts m)] (st ts js pn os) (st ts' js' (Some (mn_name m)) (os @ [m])) \<and>
      swish_hash_fetch ?H ts' = (swish_hash_fetch ?H ts)(mn_name m \<mapsto> length (h_metas hp) + length os) \<and>
      swish_hash_fetch ?H js' = (swish_hash_fetch ?H js)(dec_int (mn_id m) \<mapsto> length (h_metas hp) + length os)"
    if m: "meta_ok m" "swish_hash_fetch ?H ts (mn_name m) = None" "swish_hash_fetch ?H js (dec_int (mn_id m)) = None"
    for m ts js pn os
  proof -
    obtain ts' js' where r: "read_metaname L (elem_node (mn_name m) (meta_atts m)) (st ts js pn os) =
        Inr (st ts' js' (Some (mn_name m)) (os @ [m]))"
      "swish_hash_fetch ?H ts' = (swish_hash_fetch ?H ts)(mn_name m \<mapsto> length (h_metas hp) + length os)"
      "swish_hash_fetch ?H js' = (swish_hash_fetch ?H js)(dec_int (mn_id m) \<mapsto> length (h_metas hp) + length os)"
      using read_metaname_ok [OF assms(1) m(1), of "fst (st ts js pn os)" "snd (st ts js pn os)"] m(2,3) by (auto simp: st_def)
    have "lower_name (mn_name m)" "mn_name m \<noteq> lit ''swish''" using m(1) by (simp_all add: meta_ok_def)
    then have "steps merge L [elem_node (mn_name m) (meta_atts m)] (st ts js pn os) (st ts' js' (Some (mn_name m)) (os @ [m]))"
      using r(1) assms(2) flags by (intro steps_one) (simp add: st_def process_object_node [OF X])
    then show ?thesis using r(2,3) by blast
  qed
  have ids: "distinct (map (\<lambda>m. dec_int (mn_id m)) es)"
    using assms(7) by (simp add: distinct_map inj_on_def dec_int_inj)
  have st0: "st (cf_metanames (hm_config h)) (fl_meta_ids (cf_flags (hm_config h))) (hm_parent_name h) [] = (h, hp)"
    by (simp add: st_def)
  have fresh: "\<forall>m \<in> set es. swish_hash_fetch ?H (cf_metanames (hm_config h)) (mn_name m) = None \<and>
      swish_hash_fetch ?H (fl_meta_ids (cf_flags (hm_config h))) (dec_int (mn_id m)) = None"
    by (simp add: assms(8,9))
  have "\<exists>ts js pn. steps merge L (map (\<lambda>m. elem_node (mn_name m) (meta_atts m)) es)
        (st (cf_metanames (hm_config h)) (fl_meta_ids (cf_flags (hm_config h))) (hm_parent_name h) []) (st ts js pn ([] @ es)) \<and>
      swish_hash_fetch ?H ts = swish_hash_fetch ?H (cf_metanames (hm_config h)) ++ placed (map mn_name es) (length (h_metas hp) + length ([] :: swish_MetaName list)) \<and>
      swish_hash_fetch ?H js = swish_hash_fetch ?H (fl_meta_ids (cf_flags (hm_config h))) ++
        placed (map (\<lambda>m. dec_int (mn_id m)) es) (length (h_metas hp) + length ([] :: swish_MetaName list))"
    by (rule steps_objects [where ok = meta_ok]) ((rule step; assumption) | rule assms(5,6) ids fresh)+
  then show ?thesis
    unfolding st0 by (simp add: assms(8,9) st_def)
qed

lemma steps_props:
  fixes h :: "('s, 'p) headmaker"
  assumes "cf_lib_ok (hl_cf L)" and "hm_is_valid h" and flags: "hm_isprops h"
    and "list_all prop_ok es" and "distinct (map pr_name es)" and "distinct (map pr_id es)"
    and "swish_hash_fetch (hl_ptr L) (cf_properties (hm_config h)) = Map.empty"
    and "swish_hash_fetch (hl_ptr L) (fl_prop_ids (cf_flags (hm_config h))) = Map.empty"
  shows "\<exists>ts js pn. steps merge L (map (\<lambda>m. elem_node (pr_name m) (prop_atts m)) es) (h, hp)
      (h\<lparr>hm_config := (hm_config h)\<lparr>cf_flags := (cf_flags (hm_config h))\<lparr>fl_prop_ids := js\<rparr>, cf_properties := ts\<rparr>, hm_parent_name := pn\<rparr>,
       hp\<lparr>h_props := h_props hp @ map (\<lambda>m. Some (kept_prop m)) es\<rparr>) \<and>
    swish_hash_fetch (hl_ptr L) ts = placed (map pr_name es) (length (h_props hp)) \<and>
    swish_hash_fetch (hl_ptr L) js = placed (map (\<lambda>m. dec_int (pr_id m)) es) (length (h_props hp))"
proof -
  let ?H = "hl_ptr L"
  define st where "st = (\<lambda>ts js pn os.
    (h\<lparr>hm_config := (hm_config h)\<lparr>cf_flags := (cf_flags (hm_config h))\<lparr>fl_prop_ids := js\<rparr>, cf_properties := ts\<rparr>, hm_parent_name := pn\<rparr>,
     hp\<lparr>h_props := h_props hp @ map (\<lambda>m. Some (kept_prop m)) os\<rparr>))"
  have X: "xml_str_ok (hl_str L)" using assms(1) by (simp add: cf_lib_ok_def)
  have step: "\<exists>ts' js'. steps merge L [elem_node (pr_name m) (prop_atts m)] (st ts js pn os) (st ts' js' (Some (pr_name m)) (os @ [m])) \<and>
      swish_hash_fetch ?H ts' = (swish_hash_fetch ?H ts)(pr_name m \<mapsto> length (h_props hp) + length os) \<and>
      swish_hash_fetch ?H js' = (swish_hash_fetch ?H js)(dec_int (pr_id m) \<mapsto> length (h_props hp) + length os)"
    if m: "prop_ok m" "swish_hash_fetch ?H ts (pr_name m) = None" "swish_hash_fetch ?H js (dec_int (pr_id m)) = None"
    for m ts js pn os
  proof -
    obtain ts' js' where r: "read_property L (elem_node (pr_name m) (prop_atts m)) (st ts js pn os) =
        Inr (st ts' js' (Some (pr_name m)) (os @ [m]))"
      "swish_hash_fetch ?H ts' = (swish_hash_fetch ?H ts)(pr_name m \<mapsto> length (h_props hp) + length os)"
      "swish_hash_fetch ?H js' = (swish_hash_fetch ?H js)(dec_int (pr_id m) \<mapsto> length (h_props hp) + length os)"
      using read_property_ok [OF assms(1) m(1), of "fst (st ts js pn os)" "snd (st ts js pn os)"] m(2,3) by (auto simp: st_def)
    have "lower_name (pr_name m)" "pr_name m \<noteq> lit ''swish''" using m(1) by (simp_all add: prop_ok_def)
    then have "steps merge L [elem_node (pr_name m) (prop_atts m)] (st ts js pn os) (st ts' js' (Some (pr_name m)) (os @ [m]))"
      using r(1) assms(2) flags by (intro steps_one) (simp add: st_def process_object_node [OF X])
    then show ?thesis using r(2,3) by blast
  qed
  have ids: "distinct (map (\<lambda>m. dec_int (pr_id m)) es)"
    using assms(6) by (simp add: distinct_map inj_on_def dec_int_inj)
  have st0: "st (cf_properties (hm_config h)) (fl_prop_ids (cf_flags (hm_config h))) (hm_parent_name h) [] = (h, hp)"
    by (simp add: st_def)
  have fresh: "\<forall>m \<in> set es. swish_hash_fetch ?H (cf_properties (hm_config h)) (pr_name m) = None \<and>
      swish_hash_fetch ?H (fl_prop_ids (cf_flags (hm_config h))) (dec_int (pr_id m)) = None"
    by (simp add: assms(7,8))
  have "\<exists>ts js pn. steps merge L (map (\<lambda>m. elem_node (pr_name m) (prop_atts m)) es)
        (st (cf_properties (hm_config h)) (fl_prop_ids (cf_flags (hm_config h))) (hm_parent_name h) []) (st ts js pn ([] @ es)) \<and>
      swish_hash_fetch ?H ts = swish_hash_fetch ?H (cf_properties (hm_config h)) ++ placed (map pr_name es) (length (h_props hp) + length ([] :: swish_Property list)) \<and>
      swish_hash_fetch ?H js = swish_hash_fetch ?H (fl_prop_ids (cf_flags (hm_config h))) ++
        placed (map (\<lambda>m. dec_int (pr_id m)) es) (length (h_props hp) + length ([] :: swish_Property list))"
    by (rule steps_objects [where ok = prop_ok]) ((rule step; assumption) | rule assms(4,5) ids fresh)+
  then show ?thesis
    unfolding st0 by (simp add: assms(7,8) st_def)
qed
end
