(* ===== verification/Header_Written.thy ===== *)
theory Header_Written
  imports Header_Objects
begin

text \<open>
  What \<open>swish_header_write\<close> writes for a configuration that can be read again, and the nodes
  libxml2's reader makes of it.
\<close>

section \<open>What can be written\<close>

definition objs :: "('p, nat) xml_hash \<Rightarrow> 'p \<Rightarrow> 'o option list \<Rightarrow> 'o list" where
  "objs H t os = map (\<lambda>e. the (os ! snd e)) (xmlHashEntries H t)"

definition objs_ok ::
  "('o \<Rightarrow> bool) \<Rightarrow> ('o \<Rightarrow> bytes) \<Rightarrow> ('p, nat) xml_hash \<Rightarrow> 'p \<Rightarrow> 'o option list \<Rightarrow> bool" where
  "objs_ok P name H t os \<longleftrightarrow>
     list_all (\<lambda>(k, a). a < length os \<and> (case os ! a of None \<Rightarrow> False | Some m \<Rightarrow> name m = k \<and> P m)) (xmlHashEntries H t)"

definition misc_entry_ok :: "bytes \<times> bytes \<Rightarrow> bool" where
  "misc_entry_ok e \<longleftrightarrow> key_ok (fst e) \<and> text_ok (snd e) \<and> undef_value_ok e \<and> fst e \<noteq> SWISH_CLASS_ATTRIBUTES"

definition writable :: "('s, 'p) cf_lib \<Rightarrow> ('s, 'p) swish_Config \<Rightarrow> heap \<Rightarrow> bool" where
  "writable C c hp \<longleftrightarrow>
     (let H = cl_tab C; P = cl_ptr C in
      objs_ok meta_ok mn_name P (cf_metanames c) (h_metas hp) \<and>
      distinct (map mn_id (objs P (cf_metanames c) (h_metas hp))) \<and>
      objs_ok prop_ok pr_name P (cf_properties c) (h_props hp) \<and>
      distinct (map pr_id (objs P (cf_properties c) (h_props hp))) \<and>
      list_all (\<lambda>(k, v). word_value k \<and> key_ok v) (xmlHashEntries H (cf_parsers c)) \<and>
      (case cf_mimes c of None \<Rightarrow> True
       | Some m \<Rightarrow> list_all (\<lambda>(k, v). key_ok k \<and> text_ok v) (xmlHashEntries H m)) \<and>
      list_all (\<lambda>(k, v). key_ok k \<and> text_ok v) (xmlHashEntries H (cf_index c)) \<and>
      list_all (\<lambda>(k, v). word_value k \<and> key_ok v) (xmlHashEntries H (cf_tag_aliases c)) \<and>
      list_all misc_entry_ok (xmlHashEntries H (cf_misc c)) \<and>
      (xmlHashEntries H (cf_misc c) \<noteq> [] \<longrightarrow> xmlHashEntries H (cf_tag_aliases c) \<noteq> []))"

text \<open>The object a table of addresses gives for a name.\<close>

definition lookup_obj :: "('p, nat) xml_hash \<Rightarrow> 'p \<Rightarrow> 'o option list \<Rightarrow> bytes \<Rightarrow> 'o option" where
  "lookup_obj H t os k =
     (case swish_hash_fetch H t k of None \<Rightarrow> None | Some a \<Rightarrow> if a < length os then os ! a else None)"

lemma objs_names:
  assumes "objs_ok P name H t os"
  shows "map name (objs H t os) = map fst (xmlHashEntries H t)" and "list_all P (objs H t os)"
  using assms by (auto simp: objs_ok_def objs_def list_all_iff split: option.splits)

lemma lookup_objs:
  assumes "xml_hash_ok H" and "objs_ok P name H t os"
  shows "lookup_obj H t os k = map_of (map (\<lambda>m. (name m, m)) (objs H t os)) k"
proof -
  have "(case map_of es k of None \<Rightarrow> None | Some a \<Rightarrow> if a < length os then os ! a else None) =
      map_of (map (\<lambda>m. (name m, m)) (map (\<lambda>e. the (os ! snd e)) es)) k"
    if "list_all (\<lambda>(k, a). a < length os \<and> (case os ! a of None \<Rightarrow> False | Some m \<Rightarrow> name m = k \<and> P m)) es" for es
    using that by (induction es) (auto split: option.splits)
  from this [of "xmlHashEntries H t"] show ?thesis
    using assms(2) table.entries [OF assms(1), of t] by (simp add: lookup_obj_def objs_ok_def objs_def)
qed

text \<open>Objects placed one after the other, and found by their names.\<close>

lemma lookup_placed:
  assumes "distinct (map name es)" and "swish_hash_fetch H t = placed (map name es) (length pre)"
  shows "lookup_obj H t (pre @ map (\<lambda>m. Some (g m)) es) k =
    map_option g (map_of (map (\<lambda>m. (name m, m)) es) k)"
  using assms(1) unfolding lookup_obj_def assms(2)
proof (induction es arbitrary: pre)
  case (Cons m es)
  have eq: "pre @ map (\<lambda>m. Some (g m)) (m # es) = (pre @ [Some (g m)]) @ map (\<lambda>m. Some (g m)) es" by simp
  have "distinct (map name es)" using Cons.prems by simp
  from Cons.IH [OF this, of "pre @ [Some (g m)]"] show ?case
    unfolding eq by (cases "k = name m") (simp_all add: placed_Cons)
qed simp

section \<open>Writing\<close>

definition atts_items :: "(bytes \<times> bytes) list \<Rightarrow> xml_item list" where
  "atts_items as = map (\<lambda>(n, v). AttItem n v) as"

definition object_items :: "bytes \<Rightarrow> (bytes \<times> bytes) list \<Rightarrow> xml_item list" where
  "object_items k as = StartItem k # atts_items as @ [EndItem]"

definition section_items :: "string \<Rightarrow> xml_item list \<Rightarrow> xml_item list" where
  "section_items s is = StartItem (lit s) # is @ [EndItem]"

definition entry_items :: "(bytes \<times> bytes) list \<Rightarrow> xml_item list" where
  "entry_items es = map (\<lambda>e. ElemItem (fst e) (snd e)) es"

definition metas_items :: "swish_MetaName list \<Rightarrow> xml_item list" where
  "metas_items ms = concat (map (\<lambda>m. object_items (mn_name m) (meta_atts m)) ms)"

definition props_items :: "swish_Property list \<Rightarrow> xml_item list" where
  "props_items ps = concat (map (\<lambda>p. object_items (pr_name p) (prop_atts p)) ps)"

text \<open>The versions are written unless the settings have them, and the types unless they are the built-in ones.\<close>

definition version_entries :: "('s, bytes) xml_hash \<Rightarrow> bytes \<Rightarrow> 's \<Rightarrow> (bytes \<times> bytes) list" where
  "version_entries H v t =
     filter (\<lambda>e. swish_hash_fetch H t (fst e) = None)
       [(lit ''swish_version'', SWISH_VERSION), (lit ''swish_lib_version'', v)]"

definition mime_entries :: "('s, bytes) xml_hash \<Rightarrow> 's \<Rightarrow> 's option \<Rightarrow> (bytes \<times> bytes) list" where
  "mime_entries H d t =
     (case t of None \<Rightarrow> []
      | Some m \<Rightarrow> filter (\<lambda>e. swish_hash_fetch H d (fst e) \<noteq> Some (snd e)) (xmlHashEntries H m))"

definition header_items :: "('s, 'p) cf_lib \<Rightarrow> bytes \<Rightarrow> 's \<Rightarrow> ('s, 'p) swish_Config \<Rightarrow> heap \<Rightarrow> xml_item list" where
  "header_items C v d c hp =
     (let H = cl_tab C; P = cl_ptr C in
      [StartItem (lit ''swish''), CommentItem (lit ''written by libswish3 - DO NOT EDIT'')] @
      entry_items (version_entries H v (cf_misc c)) @
      section_items ''MetaNames'' (metas_items (objs P (cf_metanames c) (h_metas hp))) @
      section_items ''PropertyNames'' (props_items (objs P (cf_properties c) (h_props hp))) @
      section_items ''Parsers'' (entry_items (map prod.swap (xmlHashEntries H (cf_parsers c)))) @
      section_items ''MIME'' (entry_items (mime_entries H d (cf_mimes c))) @
      section_items ''Index'' (entry_items (xmlHashEntries H (cf_index c))) @
      section_items ''TagAlias'' (entry_items (map prod.swap (xmlHashEntries H (cf_tag_aliases c)))) @
      entry_items (xmlHashEntries H (cf_misc c)) @ [EndItem])"

lemma fold_entry_items:
  "fold write_hash_entry es w = w @ entry_items es"
  "fold write_reverse_hash_entry es w = w @ entry_items (map prod.swap es)"
  "fold write_parser es w = w @ entry_items (map prod.swap es)"
  by (induction es arbitrary: w)
    (simp_all add: entry_items_def write_hash_entry_def write_reverse_hash_entry_def write_parser_def
      write_element_with_content_def)

lemma fold_write_mime:
  assumes "xml_str_ok X"
  shows "fold (write_mime H X d) es w =
    w @ entry_items (filter (\<lambda>e. swish_hash_fetch H d (fst e) \<noteq> Some (snd e)) es)"
proof (induction es arbitrary: w)
  case (Cons e es)
  have "write_mime H X d e w = w @ entry_items (filter (\<lambda>e. swish_hash_fetch H d (fst e) \<noteq> Some (snd e)) [e])"
    by (auto simp: write_mime_def entry_items_def write_element_with_content_def xml_str_laws(3) [OF assms]
        swish_hash_exists_def swish_hash_fetch_def)
  then show ?case using Cons by (simp add: entry_items_def)
qed (simp add: entry_items_def)

lemma write_metanames_items:
  assumes "objs_ok meta_ok mn_name H t (h_metas hp)"
  shows "write_metanames H hp t w = Inr (w @ metas_items (objs H t (h_metas hp)))"
proof -
  have "fold_res (write_metaname hp) es w = Inr (w @ metas_items (map (\<lambda>e. the (h_metas hp ! snd e)) es))"
    if "list_all (\<lambda>(k, a). a < length (h_metas hp) \<and>
        (case h_metas hp ! a of None \<Rightarrow> False | Some m \<Rightarrow> mn_name m = k \<and> meta_ok m)) es" for es
    using that
  proof (induction es arbitrary: w)
    case (Cons e es)
    obtain m where m: "snd e < length (h_metas hp)" "h_metas hp ! snd e = Some m" "mn_name m = fst e" "meta_ok m"
      using Cons.prems by (cases e) (auto split: option.splits)
    have "write_metaname hp e w = Inr (w @ object_items (mn_name m) (meta_atts m))"
      using m by (auto simp: write_metaname_def obj_at_in Let_def object_items_def atts_items_def meta_atts_def meta_ok_def
          write_open_tag_def write_attribute_def write_close_tag_def simp del: lit_Cons split: cell.splits)
    then show ?case using Cons m by (simp add: metas_items_def)
  qed (simp add: metas_items_def)
  with assms show ?thesis by (simp add: write_metanames_def objs_ok_def objs_def)
qed

lemma write_properties_items:
  assumes "objs_ok prop_ok pr_name H t (h_props hp)"
  shows "write_properties H hp t w = Inr (w @ props_items (objs H t (h_props hp)))"
proof -
  have "fold_res (write_property hp) es w = Inr (w @ props_items (map (\<lambda>e. the (h_props hp ! snd e)) es))"
    if "list_all (\<lambda>(k, a). a < length (h_props hp) \<and>
        (case h_props hp ! a of None \<Rightarrow> False | Some m \<Rightarrow> pr_name m = k \<and> prop_ok m)) es" for es
    using that
  proof (induction es arbitrary: w)
    case (Cons e es)
    obtain m where m: "snd e < length (h_props hp)" "h_props hp ! snd e = Some m" "pr_name m = fst e" "prop_ok m"
      using Cons.prems by (cases e) (auto split: option.splits)
    have "write_property hp e w = Inr (w @ object_items (pr_name m) (prop_atts m))"
      using m by (auto simp: write_property_def write_property_atts_def obj_at_in Let_def object_items_def atts_items_def
          prop_atts_def prop_ok_def write_open_tag_def write_attribute_def write_close_tag_def
          simp del: lit_Cons split: cell.splits)
    then show ?case using Cons m by (simp add: props_items_def)
  qed (simp add: props_items_def)
  with assms show ?thesis by (simp add: write_properties_def objs_ok_def objs_def)
qed

lemma header_write_items:
  assumes "cf_lib_ok C" and "writable C c hp"
  shows "\<exists>d. swish_mime_defaults (cl_tab C) = Inr d \<and>
    swish_header_write C v c hp = Inr (header_items C v d c hp)"
proof -
  have X: "xml_str_ok (cl_str C)" and H: "xml_hash_ok (cl_tab C)" using assms(1) by (simp_all add: cf_lib_ok_def)
  obtain d where d: "swish_mime_defaults (cl_tab C) = Inr d" using mime_defaults_rep [OF H] by blast
  have ok: "objs_ok meta_ok mn_name (cl_ptr C) (cf_metanames c) (h_metas hp)"
    "objs_ok prop_ok pr_name (cl_ptr C) (cf_properties c) (h_props hp)"
    using assms(2) by (simp_all add: writable_def Let_def)
  have versions: "write_version (cl_tab C) t ''swish_lib_version'' v (write_version (cl_tab C) t ''swish_version'' SWISH_VERSION w) =
      w @ entry_items (version_entries (cl_tab C) v t)" for t w
    by (simp add: write_version_def version_entries_def entry_items_def write_element_with_content_def
        swish_hash_exists_def swish_hash_fetch_def del: lit_Cons)
  have mimes: "write_mimes (cl_tab C) (cl_str C) t w = Inr (w @ entry_items (mime_entries (cl_tab C) d t))" for t w
    by (cases t) (simp_all add: write_mimes_def d mime_entries_def fold_write_mime [OF X] entry_items_def)
  show ?thesis
    using d by (simp add: swish_header_write_def Let_def versions write_section_def write_metanames_items [OF ok(1)]
        write_properties_items [OF ok(2)] mimes write_parsers_def write_index_def write_tag_aliases_def write_misc_def
        fold_entry_items header_items_def section_items_def write_open_tag_def write_close_tag_def del: lit_Cons)
qed

section \<open>The nodes of what was written\<close>

lemma nodes_of_atts:
  "nodes_of st (Some (t, as)) (atts_items as' @ EndItem # w) = elem_node t (as @ as') # nodes_of st None w"
  by (induction as' arbitrary: as) (auto simp: atts_items_def)

lemma nodes_of_objects:
  "nodes_of st None (concat (map (\<lambda>m. object_items (f m) (g m)) ms) @ w) =
    map (\<lambda>m. elem_node (f m) (g m)) ms @ nodes_of st None w"
  by (induction ms) (simp_all add: object_items_def opened_def nodes_of_atts)

lemma nodes_of_entries:
  "nodes_of st None (entry_items es @ w) = concat (map (\<lambda>e. entry_nodes (fst e) (snd e)) es) @ nodes_of st None w"
  by (induction es) (simp_all add: entry_items_def opened_def)

text \<open>What can be the first thing in an element.\<close>

definition starts_content :: "xml_item list \<Rightarrow> bool" where
  "starts_content xs \<longleftrightarrow> (case xs of [] \<Rightarrow> True | i # _ \<Rightarrow> (case i of StartItem _ \<Rightarrow> True | ElemItem _ _ \<Rightarrow> True | _ \<Rightarrow> False))"

lemma nodes_of_section:
  assumes "\<And>st w. nodes_of st None (xs @ w) = ns @ nodes_of st None w" and "starts_content xs" and "xs = [] \<longleftrightarrow> ns = []"
  shows "nodes_of st None (section_items s xs @ w) = section_nodes s ns @ nodes_of st None w"
proof (cases xs)
  case Nil
  with assms(3) show ?thesis by (simp add: section_items_def section_nodes_def opened_def del: lit_Cons)
next
  case (Cons i xs')
  have "nodes_of st (Some (lit s, [])) (xs @ EndItem # w) = elem_node (lit s) [] # nodes_of (lit s # st) None (xs @ EndItem # w)"
    using assms(2) by (cases i) (simp_all add: Cons starts_content_def opened_def del: lit_Cons)
  with Cons assms(1) [of "lit s # st" "EndItem # w"] assms(3) show ?thesis
    by (simp add: section_items_def section_nodes_def opened_def del: lit_Cons)
qed

lemma nodes_of_entry_section:
  "nodes_of st None (section_items s (entry_items es) @ w) =
    section_nodes s (concat (map (\<lambda>e. entry_nodes (fst e) (snd e)) es)) @ nodes_of st None w"
proof (rule nodes_of_section)
  show "starts_content (entry_items es)" by (cases es) (simp_all add: starts_content_def entry_items_def)
  show "entry_items es = [] \<longleftrightarrow> concat (map (\<lambda>e. entry_nodes (fst e) (snd e)) es) = []"
    by (cases es) (simp_all add: entry_items_def entry_nodes_def)
qed (rule nodes_of_entries)

lemma nodes_of_object_section:
  "nodes_of st None (section_items s (concat (map (\<lambda>m. object_items (f m) (g m)) ms)) @ w) =
    section_nodes s (map (\<lambda>m. elem_node (f m) (g m)) ms) @ nodes_of st None w"
proof (rule nodes_of_section)
  show "starts_content (concat (map (\<lambda>m. object_items (f m) (g m)) ms))"
    by (cases ms) (simp_all add: starts_content_def object_items_def)
  show "concat (map (\<lambda>m. object_items (f m) (g m)) ms) = [] \<longleftrightarrow> map (\<lambda>m. elem_node (f m) (g m)) ms = []"
    by (cases ms) (simp_all add: object_items_def)
qed (rule nodes_of_objects)

lemma nodes_of_header:
  fixes C :: "('s, 'p) cf_lib"
  defines "es \<equiv> \<lambda>es. concat (map (\<lambda>e. entry_nodes (fst e) (snd e)) es)" and "H \<equiv> cl_tab C"
  shows "nodes_of [] None (header_items C v d c hp) =
    [elem_node (lit ''swish'') [], comment_node (lit ''written by libswish3 - DO NOT EDIT'')] @
    es (version_entries H v (cf_misc c)) @
    section_nodes ''MetaNames'' (map (\<lambda>m. elem_node (mn_name m) (meta_atts m)) (objs (cl_ptr C) (cf_metanames c) (h_metas hp))) @
    section_nodes ''PropertyNames'' (map (\<lambda>p. elem_node (pr_name p) (prop_atts p)) (objs (cl_ptr C) (cf_properties c) (h_props hp))) @
    section_nodes ''Parsers'' (es (map prod.swap (xmlHashEntries H (cf_parsers c)))) @
    section_nodes ''MIME'' (es (mime_entries H d (cf_mimes c))) @
    section_nodes ''Index'' (es (xmlHashEntries H (cf_index c))) @
    section_nodes ''TagAlias'' (es (map prod.swap (xmlHashEntries H (cf_tag_aliases c)))) @
    es (xmlHashEntries H (cf_misc c)) @ [end_node (lit ''swish'')]"
  unfolding header_items_def Let_def es_def H_def metas_items_def props_items_def
  by (simp add: opened_def nodes_of_entries nodes_of_entry_section nodes_of_object_section del: lit_Cons)
end
