(* ===== verification/Header_RoundTrip.thy ===== *)
theory Header_RoundTrip
  imports Header_Written
begin

text \<open>
  An index header that is written and read again (\<open>swish_header_write\<close>, then
  \<open>swish_header_read\<close>).
\<close>

section \<open>Reading the sections\<close>

lemma start_section_flags:
  assumes "xml_str_ok (hl_str L)"
  shows "start_section L (lit ''MetaNames'') h = Some ((reset_headmaker h)\<lparr>hm_ismetas := True\<rparr>)"
    and "start_section L (lit ''PropertyNames'') h = Some ((reset_headmaker h)\<lparr>hm_isprops := True\<rparr>)"
    and "start_section L (lit ''Index'') h = Some ((reset_headmaker h)\<lparr>hm_isindex := True\<rparr>)"
    and "start_section L (lit ''Parsers'') h = Some ((reset_headmaker h)\<lparr>hm_isparser := True\<rparr>)"
    and "start_section L (lit ''MIME'') h = Some ((reset_headmaker h)\<lparr>hm_ismime := True\<rparr>)"
    and "start_section L (lit ''TagAlias'') h = Some ((reset_headmaker h)\<lparr>hm_isalias := True\<rparr>)"
  by (simp_all add: start_section_def Let_def xml_str_laws(3) [OF assms] lit_inj del: lit_Cons)

lemma in_sections:
  "''MetaNames'' \<in> set sections" "''PropertyNames'' \<in> set sections" "''Index'' \<in> set sections"
  "''Parsers'' \<in> set sections" "''MIME'' \<in> set sections" "''TagAlias'' \<in> set sections"
  by (simp_all add: sections_def)

lemma reset_fields [simp]:
  "hm_config (reset_headmaker h) = hm_config h" "hm_is_valid (reset_headmaker h) = hm_is_valid h"
  "\<not> hm_isprops (reset_headmaker h)" "\<not> hm_ismetas (reset_headmaker h)" "\<not> hm_isindex (reset_headmaker h)"
  "\<not> hm_isparser (reset_headmaker h)" "\<not> hm_ismime (reset_headmaker h)" "\<not> hm_isalias (reset_headmaker h)"
  by (simp_all add: reset_headmaker_def)

text \<open>\<open>consumed L s ns h hp c hp'\<close>: the section \<open>s\<close> with the nodes \<open>ns\<close> leaves the configuration \<open>c\<close>.\<close>

definition consumed ::
  "('s, 'p) merger \<Rightarrow> ('s, 'p) head_lib \<Rightarrow> xml_node list \<Rightarrow> ('s, 'p) hm_state \<Rightarrow>
   ('s, 'p) swish_Config \<Rightarrow> heap \<Rightarrow> bool \<Rightarrow> ('s, 'p) headmaker \<Rightarrow> bool" where
  "consumed merge L ns st c hp' rst h' \<longleftrightarrow>
     steps merge L ns st (h', hp') \<and> hm_config h' = c \<and> hm_is_valid h' \<and> (rst \<longrightarrow> reset_headmaker h' = h')"

lemma consumed_D:
  assumes "consumed merge L ns st c hp' rst h'"
  shows "steps merge L ns st (h', hp')" and "hm_config h' = c" and "hm_is_valid h'" and "rst \<Longrightarrow> reset_headmaker h' = h'"
  using assms by (simp_all add: consumed_def)

lemma consumed_section:
  assumes "cf_lib_ok (hl_cf L)" and "s \<in> set sections" and "hm_is_valid h"
    and "start_section L (lit s) h = Some h1"
    and "steps merge L ns (h1, hp) (h2, hp2)" and "hm_is_valid h2" and "hm_config h2 = c"
  shows "\<exists>h'. consumed merge L (section_nodes s ns) (h, hp) c hp2 (ns \<noteq> []) h'"
  using steps_section [OF _ assms(2-6)] assms(1,7) by (auto simp: consumed_def cf_lib_ok_def)

lemma consume_metas:
  fixes h :: "('s, 'p) headmaker"
  assumes "cf_lib_ok (hl_cf L)" and "hm_is_valid h"
    and es: "list_all meta_ok es" "distinct (map mn_name es)" "distinct (map mn_id es)"
    and "swish_hash_fetch (hl_ptr L) (cf_metanames (hm_config h)) = Map.empty"
    and "swish_hash_fetch (hl_ptr L) (fl_meta_ids (cf_flags (hm_config h))) = Map.empty"
  shows "\<exists>ts js h'. consumed merge L (section_nodes ''MetaNames'' (map (\<lambda>m. elem_node (mn_name m) (meta_atts m)) es)) (h, hp)
      ((hm_config h)\<lparr>cf_metanames := ts, cf_flags := (cf_flags (hm_config h))\<lparr>fl_meta_ids := js\<rparr>\<rparr>)
      (hp\<lparr>h_metas := h_metas hp @ map (\<lambda>m. Some (kept_meta m)) es\<rparr>) (es \<noteq> []) h' \<and>
    swish_hash_fetch (hl_ptr L) ts = placed (map mn_name es) (length (h_metas hp)) \<and>
    swish_hash_fetch (hl_ptr L) js = placed (map (\<lambda>m. dec_int (mn_id m)) es) (length (h_metas hp))"
proof -
  let ?h = "(reset_headmaker h)\<lparr>hm_ismetas := True\<rparr>"
  have X: "xml_str_ok (hl_str L)" using assms(1) by (simp add: cf_lib_ok_def)
  obtain ts js pn where r: "steps merge L (map (\<lambda>m. elem_node (mn_name m) (meta_atts m)) es) (?h, hp)
      (?h\<lparr>hm_config := (hm_config ?h)\<lparr>cf_metanames := ts, cf_flags := (cf_flags (hm_config ?h))\<lparr>fl_meta_ids := js\<rparr>\<rparr>,
         hm_parent_name := pn\<rparr>, hp\<lparr>h_metas := h_metas hp @ map (\<lambda>m. Some (kept_meta m)) es\<rparr>)"
    "swish_hash_fetch (hl_ptr L) ts = placed (map mn_name es) (length (h_metas hp))"
    "swish_hash_fetch (hl_ptr L) js = placed (map (\<lambda>m. dec_int (mn_id m)) es) (length (h_metas hp))"
    using steps_metas [OF assms(1), of ?h es merge hp] assms(2-7) by auto
  from consumed_section [OF assms(1) _ assms(2) start_section_flags(1) [OF X] r(1) _ refl] assms(2) r(2,3)
  show ?thesis by (fastforce simp: sections_def)
qed

lemma consume_props:
  fixes h :: "('s, 'p) headmaker"
  assumes "cf_lib_ok (hl_cf L)" and "hm_is_valid h"
    and es: "list_all prop_ok es" "distinct (map pr_name es)" "distinct (map pr_id es)"
    and "swish_hash_fetch (hl_ptr L) (cf_properties (hm_config h)) = Map.empty"
    and "swish_hash_fetch (hl_ptr L) (fl_prop_ids (cf_flags (hm_config h))) = Map.empty"
  shows "\<exists>ts js h'. consumed merge L (section_nodes ''PropertyNames'' (map (\<lambda>m. elem_node (pr_name m) (prop_atts m)) es)) (h, hp)
      ((hm_config h)\<lparr>cf_flags := (cf_flags (hm_config h))\<lparr>fl_prop_ids := js\<rparr>, cf_properties := ts\<rparr>)
      (hp\<lparr>h_props := h_props hp @ map (\<lambda>m. Some (kept_prop m)) es\<rparr>) (es \<noteq> []) h' \<and>
    swish_hash_fetch (hl_ptr L) ts = placed (map pr_name es) (length (h_props hp)) \<and>
    swish_hash_fetch (hl_ptr L) js = placed (map (\<lambda>m. dec_int (pr_id m)) es) (length (h_props hp))"
proof -
  let ?h = "(reset_headmaker h)\<lparr>hm_isprops := True\<rparr>"
  have X: "xml_str_ok (hl_str L)" using assms(1) by (simp add: cf_lib_ok_def)
  obtain ts js pn where r: "steps merge L (map (\<lambda>m. elem_node (pr_name m) (prop_atts m)) es) (?h, hp)
      (?h\<lparr>hm_config := (hm_config ?h)\<lparr>cf_flags := (cf_flags (hm_config ?h))\<lparr>fl_prop_ids := js\<rparr>, cf_properties := ts\<rparr>,
         hm_parent_name := pn\<rparr>, hp\<lparr>h_props := h_props hp @ map (\<lambda>m. Some (kept_prop m)) es\<rparr>)"
    "swish_hash_fetch (hl_ptr L) ts = placed (map pr_name es) (length (h_props hp))"
    "swish_hash_fetch (hl_ptr L) js = placed (map (\<lambda>m. dec_int (pr_id m)) es) (length (h_props hp))"
    using steps_props [OF assms(1), of ?h es merge hp] assms(2-7) by auto
  from consumed_section [OF assms(1) _ assms(2) start_section_flags(2) [OF X] r(1) _ refl] assms(2) r(2,3)
  show ?thesis by (fastforce simp: sections_def)
qed

abbreviation nodes_of_entries' :: "(bytes \<times> bytes) list \<Rightarrow> xml_node list" where
  "nodes_of_entries' es \<equiv> concat (map (\<lambda>e. entry_nodes (fst e) (snd e)) es)"

lemma entries_no_nodes: "nodes_of_entries' es = [] \<longleftrightarrow> es = []"
  by (cases es) (simp_all add: entry_nodes_def)

text \<open>The section of a table of strings, from the lemma on its entries.\<close>

lemma consume_entries:
  assumes "cf_lib_ok (hl_cf L)" and "s \<in> set sections" and "hm_is_valid h"
    and "start_section L (lit s) h = Some h1"
    and "\<exists>t'. steps merge L (nodes_of_entries' es) (h1, hp) (state t', hp) \<and> P t'"
    and "\<And>t. hm_is_valid (state t) \<and> hm_config (state t) = c t"
  shows "\<exists>t' h'. consumed merge L (section_nodes s (nodes_of_entries' es)) (h, hp) (c t') hp (es \<noteq> []) h' \<and> P t'"
proof -
  obtain t' where t': "steps merge L (nodes_of_entries' es) (h1, hp) (state t', hp)" "P t'" using assms(5) by blast
  from consumed_section [OF assms(1-4) t'(1)] assms(6) t'(2) show ?thesis
    unfolding entries_no_nodes by blast
qed

lemma consume_index:
  fixes h :: "('s, 'p) headmaker"
  assumes "cf_lib_ok (hl_cf L)" and "hm_is_valid h" and "\<And>e. e \<in> set es \<Longrightarrow> key_ok (fst e) \<and> text_ok (snd e)"
  shows "\<exists>t' h'. consumed merge L (section_nodes ''Index'' (nodes_of_entries' es)) (h, hp) ((hm_config h)\<lparr>cf_index := t'\<rparr>) hp (es \<noteq> []) h' \<and>
    swish_hash_fetch (hl_tab L) t' = swish_hash_fetch (hl_tab L) (cf_index (hm_config h)) ++ map_of (rev (es))"
proof -
  let ?h = "(reset_headmaker h)\<lparr>hm_isindex := True\<rparr>"
  have X: "xml_str_ok (hl_str L)" using assms(1) by (simp add: cf_lib_ok_def)
  have h0: "?h\<lparr>hm_config := hm_config h\<rparr> = ?h"
    by (cases h) (simp add: reset_headmaker_def)
  have "\<exists>t'. steps merge L (nodes_of_entries' es) (?h, hp) (?h\<lparr>hm_config := (hm_config ?h)\<lparr>cf_index := t'\<rparr>\<rparr>, hp) \<and>
      swish_hash_fetch (hl_tab L) t' = swish_hash_fetch (hl_tab L) (cf_index (hm_config h)) ++ map_of (rev (es))"
    using steps_index [OF assms(1), of ?h es merge "(cf_index (hm_config h))" hp] assms(2-) by (simp add: h0)
  then show ?thesis
    by (rule consume_entries [where state = "\<lambda>u. ?h\<lparr>hm_config := (hm_config ?h)\<lparr>cf_index := u\<rparr>\<rparr>"
          and P = "\<lambda>u. swish_hash_fetch (hl_tab L) u = swish_hash_fetch (hl_tab L) (cf_index (hm_config h)) ++ map_of (rev (es))",
          OF assms(1) in_sections(3) assms(2) start_section_flags(3) [OF X]]) (simp add: assms(2))
qed

lemma consume_parsers:
  fixes h :: "('s, 'p) headmaker"
  assumes "cf_lib_ok (hl_cf L)" and "hm_is_valid h" and "\<And>e. e \<in> set es \<Longrightarrow> key_ok (fst e) \<and> word_value (snd e)"
  shows "\<exists>t' h'. consumed merge L (section_nodes ''Parsers'' (nodes_of_entries' es)) (h, hp) ((hm_config h)\<lparr>cf_parsers := t'\<rparr>) hp (es \<noteq> []) h' \<and>
    swish_hash_fetch (hl_tab L) t' = swish_hash_fetch (hl_tab L) (cf_parsers (hm_config h)) ++ map_of (rev (map prod.swap es))"
proof -
  let ?h = "(reset_headmaker h)\<lparr>hm_isparser := True\<rparr>"
  have X: "xml_str_ok (hl_str L)" using assms(1) by (simp add: cf_lib_ok_def)
  have h0: "?h\<lparr>hm_config := hm_config h\<rparr> = ?h"
    by (cases h) (simp add: reset_headmaker_def)
  have "\<exists>t'. steps merge L (nodes_of_entries' es) (?h, hp) (?h\<lparr>hm_config := (hm_config ?h)\<lparr>cf_parsers := t'\<rparr>\<rparr>, hp) \<and>
      swish_hash_fetch (hl_tab L) t' = swish_hash_fetch (hl_tab L) (cf_parsers (hm_config h)) ++ map_of (rev (map prod.swap es))"
    using steps_parsers [OF assms(1), of ?h es merge "(cf_parsers (hm_config h))" hp] assms(2-) by (simp add: h0)
  then show ?thesis
    by (rule consume_entries [where state = "\<lambda>u. ?h\<lparr>hm_config := (hm_config ?h)\<lparr>cf_parsers := u\<rparr>\<rparr>"
          and P = "\<lambda>u. swish_hash_fetch (hl_tab L) u = swish_hash_fetch (hl_tab L) (cf_parsers (hm_config h)) ++ map_of (rev (map prod.swap es))",
          OF assms(1) in_sections(4) assms(2) start_section_flags(4) [OF X]]) (simp add: assms(2))
qed

lemma consume_mimes:
  fixes h :: "('s, 'p) headmaker"
  assumes "cf_lib_ok (hl_cf L)" and "hm_is_valid h" and "\<And>e. e \<in> set es \<Longrightarrow> key_ok (fst e) \<and> text_ok (snd e)" and "cf_mimes (hm_config h) = Some t"
  shows "\<exists>t' h'. consumed merge L (section_nodes ''MIME'' (nodes_of_entries' es)) (h, hp) ((hm_config h)\<lparr>cf_mimes := Some t'\<rparr>) hp (es \<noteq> []) h' \<and>
    swish_hash_fetch (hl_tab L) t' = swish_hash_fetch (hl_tab L) t ++ map_of (rev (es))"
proof -
  let ?h = "(reset_headmaker h)\<lparr>hm_ismime := True\<rparr>"
  have X: "xml_str_ok (hl_str L)" using assms(1) by (simp add: cf_lib_ok_def)
  have h0: "?h\<lparr>hm_config := (hm_config h)\<lparr>cf_mimes := Some t\<rparr>\<rparr> = ?h"
    using assms(4) by (cases h; cases "hm_config h") (simp add: reset_headmaker_def)
  have "\<exists>t'. steps merge L (nodes_of_entries' es) (?h, hp) (?h\<lparr>hm_config := (hm_config ?h)\<lparr>cf_mimes := Some t'\<rparr>\<rparr>, hp) \<and>
      swish_hash_fetch (hl_tab L) t' = swish_hash_fetch (hl_tab L) t ++ map_of (rev (es))"
    using steps_mimes [OF assms(1), of ?h es merge "t" hp] assms(2-) by (simp add: h0)
  then show ?thesis
    by (rule consume_entries [where state = "\<lambda>u. ?h\<lparr>hm_config := (hm_config ?h)\<lparr>cf_mimes := Some u\<rparr>\<rparr>"
          and P = "\<lambda>u. swish_hash_fetch (hl_tab L) u = swish_hash_fetch (hl_tab L) t ++ map_of (rev (es))",
          OF assms(1) in_sections(5) assms(2) start_section_flags(5) [OF X]]) (simp add: assms(2))
qed

lemma consume_aliases:
  fixes h :: "('s, 'p) headmaker"
  assumes "cf_lib_ok (hl_cf L)" and "hm_is_valid h" and "\<And>e. e \<in> set es \<Longrightarrow> key_ok (fst e) \<and> word_value (snd e)"
  shows "\<exists>t' h'. consumed merge L (section_nodes ''TagAlias'' (nodes_of_entries' es)) (h, hp) ((hm_config h)\<lparr>cf_tag_aliases := t'\<rparr>) hp (es \<noteq> []) h' \<and>
    swish_hash_fetch (hl_tab L) t' = swish_hash_fetch (hl_tab L) (cf_tag_aliases (hm_config h)) ++ map_of (rev (map prod.swap es))"
proof -
  let ?h = "(reset_headmaker h)\<lparr>hm_isalias := True\<rparr>"
  have X: "xml_str_ok (hl_str L)" using assms(1) by (simp add: cf_lib_ok_def)
  have h0: "?h\<lparr>hm_config := hm_config h\<rparr> = ?h"
    by (cases h) (simp add: reset_headmaker_def)
  have "\<exists>t'. steps merge L (nodes_of_entries' es) (?h, hp) (?h\<lparr>hm_config := (hm_config ?h)\<lparr>cf_tag_aliases := t'\<rparr>\<rparr>, hp) \<and>
      swish_hash_fetch (hl_tab L) t' = swish_hash_fetch (hl_tab L) (cf_tag_aliases (hm_config h)) ++ map_of (rev (map prod.swap es))"
    using steps_aliases [OF assms(1), of ?h es merge "(cf_tag_aliases (hm_config h))" hp] assms(2-) by (simp add: h0)
  then show ?thesis
    by (rule consume_entries [where state = "\<lambda>u. ?h\<lparr>hm_config := (hm_config ?h)\<lparr>cf_tag_aliases := u\<rparr>\<rparr>"
          and P = "\<lambda>u. swish_hash_fetch (hl_tab L) u = swish_hash_fetch (hl_tab L) (cf_tag_aliases (hm_config h)) ++ map_of (rev (map prod.swap es))",
          OF assms(1) in_sections(6) assms(2) start_section_flags(6) [OF X]]) (simp add: assms(2))
qed

section \<open>Settings, and the empty configuration\<close>

lemma known_undef_none:
  "swish_hash_fetch (cl_tab C) (cf_misc c) = Map.empty \<Longrightarrow> known_undef C c"
  by (simp add: known_undef_def del: lit_Cons)

definition flag_keys :: "string list" where
  "flag_keys = [''Tokenize'', ''CascadeMetaContext'', ''IgnoreXMLNameSpaces'', ''UndefinedMetaTags'', ''UndefinedXMLAttributes'']"

lemma misc_flags_none:
  assumes "\<And>k. k \<in> set flag_keys \<Longrightarrow> swish_hash_fetch (cl_tab C) (cf_misc c) (lit k) = None"
  shows "misc_flags C c = cf_flags c"
  using assms
  by (simp add: misc_flags_def misc_flag_def misc_undef_metas_def misc_undef_attrs_def flag_keys_def del: lit_Cons)

lemma consume_misc:
  fixes h :: "('s, 'p) headmaker"
  assumes "cf_lib_ok (hl_cf L)" and "hm_is_valid h" and "es \<noteq> [] \<longrightarrow> reset_headmaker h = h"
    and es: "list_all misc_entry_ok es" and known: "known_undef (hl_cf L) (hm_config h)"
    and flags: "misc_flags (hl_cf L) (hm_config h) = cf_flags (hm_config h)"
  shows "\<exists>t' h'. consumed merge L (nodes_of_entries' es) (h, hp)
      ((hm_config h)\<lparr>cf_misc := t', cf_flags := misc_flags (hl_cf L) ((hm_config h)\<lparr>cf_misc := t'\<rparr>)\<rparr>)
      hp (reset_headmaker h = h) h' \<and>
    swish_hash_fetch (hl_tab L) t' = swish_hash_fetch (hl_tab L) (cf_misc (hm_config h)) ++ map_of (rev es)"
proof (cases "es = []")
  case True
  with assms(2) flags show ?thesis
    by (intro exI [of _ "cf_misc (hm_config h)"] exI [of _ h]) (simp add: consumed_def)
next
  case False
  let ?C = "hl_cf L" and ?c = "hm_config h"
  let ?st = "\<lambda>t. h\<lparr>hm_config := ?c\<lparr>cf_misc := t, cf_flags := misc_flags ?C (?c\<lparr>cf_misc := t\<rparr>)\<rparr>\<rparr>"
  have r: "reset_headmaker h = h" using assms(3) False by simp
  have es': "key_ok (fst e) \<and> text_ok (snd e) \<and> undef_value_ok e \<and> fst e \<noteq> SWISH_CLASS_ATTRIBUTES" if "e \<in> set es" for e
    using es that by (simp add: misc_entry_ok_def list_all_iff)
  have known': "known_undef ?C (?c\<lparr>cf_misc := cf_misc ?c\<rparr>)" using known by simp
  have st0: "?st (cf_misc ?c) = h" using flags by simp
  have "\<exists>t'. steps merge L (nodes_of_entries' es) (?st (cf_misc ?c), hp) (?st t', hp) \<and>
      swish_hash_fetch (hl_tab L) t' = swish_hash_fetch (hl_tab L) (cf_misc ?c) ++ map_of (rev (map id es))"
    by (rule steps_misc [OF assms(1,2) r es' known'])
  then obtain t' where t': "steps merge L (nodes_of_entries' es) (h, hp) (?st t', hp)"
    "swish_hash_fetch (hl_tab L) t' = swish_hash_fetch (hl_tab L) (cf_misc ?c) ++ map_of (rev es)"
    unfolding st0 by auto
  have "reset_headmaker (?st t') = ?st t'" using r by (cases h) (simp add: reset_headmaker_def)
  with t' assms(2) show ?thesis
    by (intro exI [of _ t'] exI [of _ "?st t'"]) (simp add: consumed_def)
qed

text \<open>A configuration before anything is read.\<close>

definition empty_config :: "('s, 'p) cf_lib \<Rightarrow> ('s, 'p) swish_Config \<Rightarrow> bool" where
  "empty_config C c \<longleftrightarrow>
     (\<forall>t \<in> {cf_misc c, cf_tag_aliases c, cf_parsers c, cf_index c}. swish_hash_fetch (cl_tab C) t = Map.empty) \<and>
     (\<forall>t \<in> {cf_properties c, cf_metanames c, cf_stringlists c, fl_meta_ids (cf_flags c), fl_prop_ids (cf_flags c)}.
        swish_hash_fetch (cl_ptr C) t = Map.empty) \<and>
     (\<exists>m. cf_mimes c = Some m \<and> swish_hash_fetch (cl_tab C) m = Map.empty) \<and>
     fl_max_meta_id (cf_flags c) = -1 \<and> fl_max_prop_id (cf_flags c) = -1 \<and> fl_tokenize (cf_flags c)"

lemma hash_init_ok:
  assumes "xml_hash_ok H"
  shows "\<exists>h. swish_hash_init H n = Inr h \<and> swish_hash_fetch H h = Map.empty"
proof -
  obtain h where "xmlHashCreate H n = Some h" "xmlHashLookup H h = Map.empty"
    using xml_hash_create [OF assms] by blast
  then show ?thesis by (auto simp: swish_hash_init_def swish_hash_fetch_def fun_eq_iff)
qed

lemma init_headmaker_ok:
  assumes "cf_lib_ok (hl_cf L)"
  shows "\<exists>h. init_headmaker L = Inr h \<and> reset_headmaker h = h \<and> empty_config (hl_cf L) (hm_config h)"
proof -
  obtain s where s: "swish_hash_init (hl_tab L) 8 = Inr s" "swish_hash_fetch (hl_tab L) s = Map.empty"
    using hash_init_ok [of "hl_tab L"] assms by (auto simp: cf_lib_ok_def)
  obtain p where p: "swish_hash_init (hl_ptr L) 8 = Inr p" "swish_hash_fetch (hl_ptr L) p = Map.empty"
    using hash_init_ok [of "hl_ptr L"] assms by (auto simp: cf_lib_ok_def)
  show ?thesis
    by (simp add: init_headmaker_def swish_config_init_def swish_config_init_flags_def s p empty_config_def
        reset_headmaker_def)
qed

section \<open>The whole file\<close>

text \<open>What the entries of the file make of a configuration with nothing in it.\<close>

definition filled ::
  "('s, 'p) cf_lib \<Rightarrow> heap \<Rightarrow> (bytes \<times> bytes) list \<Rightarrow> swish_MetaName list \<Rightarrow> swish_Property list \<Rightarrow>
   (bytes \<times> bytes) list \<Rightarrow> (bytes \<times> bytes) list \<Rightarrow> (bytes \<times> bytes) list \<Rightarrow> (bytes \<times> bytes) list \<Rightarrow>
   (bytes \<times> bytes) list \<Rightarrow> ('s, 'p) swish_Config \<Rightarrow> heap \<Rightarrow> bool" where
  "filled C hp vs ms ps pars mis ixs als mcs c hp' \<longleftrightarrow>
     hp' = hp\<lparr>h_metas := h_metas hp @ map (\<lambda>m. Some (kept_meta m)) ms,
              h_props := h_props hp @ map (\<lambda>m. Some (kept_prop m)) ps\<rparr> \<and>
     swish_hash_fetch (cl_ptr C) (cf_metanames c) = placed (map mn_name ms) (length (h_metas hp)) \<and>
     swish_hash_fetch (cl_ptr C) (fl_meta_ids (cf_flags c)) = placed (map (\<lambda>m. dec_int (mn_id m)) ms) (length (h_metas hp)) \<and>
     swish_hash_fetch (cl_ptr C) (cf_properties c) = placed (map pr_name ps) (length (h_props hp)) \<and>
     swish_hash_fetch (cl_ptr C) (fl_prop_ids (cf_flags c)) = placed (map (\<lambda>m. dec_int (pr_id m)) ps) (length (h_props hp)) \<and>
     swish_hash_fetch (cl_tab C) (cf_parsers c) = map_of (rev (map prod.swap pars)) \<and>
     (\<exists>m. cf_mimes c = Some m \<and> swish_hash_fetch (cl_tab C) m = map_of (rev mis)) \<and>
     swish_hash_fetch (cl_tab C) (cf_index c) = map_of (rev ixs) \<and>
     swish_hash_fetch (cl_tab C) (cf_tag_aliases c) = map_of (rev (map prod.swap als)) \<and>
     swish_hash_fetch (cl_tab C) (cf_misc c) = map_of (rev vs) ++ map_of (rev mcs) \<and>
     fl_tokenize (cf_flags c) = projr (misc_flag C c ''Tokenize'' True) \<and>
     fl_max_meta_id (cf_flags c) = -1 \<and> fl_max_prop_id (cf_flags c) = -1"

definition no_flag_keys :: "(bytes \<times> bytes) list \<Rightarrow> bool" where
  "no_flag_keys es \<longleftrightarrow> (\<forall>k \<in> set flag_keys. lit k \<notin> fst ` set es)"

lemma no_flag_keys_facts:
  assumes "no_flag_keys vs" and "swish_hash_fetch (cl_tab C) (cf_misc c) = map_of (rev vs)"
  shows "known_undef C c" and "misc_flags C c = cf_flags c"
proof -
  have "map_of (rev vs) (lit k) = None" if "k \<in> set flag_keys" for k
    using assms(1) that by (auto simp: no_flag_keys_def map_of_eq_None_iff)
  then have none: "swish_hash_fetch (cl_tab C) (cf_misc c) (lit k) = None" if "k \<in> set flag_keys" for k
    using assms(2) that by simp
  then show "misc_flags C c = cf_flags c" by (rule misc_flags_none)
  show "known_undef C c"
    using none [of "''UndefinedMetaTags''"] none [of "''UndefinedXMLAttributes''"]
    by (simp add: known_undef_def flag_keys_def del: lit_Cons)
qed

lemma read_objects:
  fixes h :: "('s, 'p) headmaker"
  assumes "cf_lib_ok (hl_cf L)" and "hm_is_valid h" and "reset_headmaker h = h" and "empty_config (hl_cf L) (hm_config h)"
    and vs: "list_all misc_entry_ok vs" "no_flag_keys vs"
    and ms: "list_all meta_ok ms" "distinct (map mn_name ms)" "distinct (map mn_id ms)"
    and ps: "list_all prop_ok ps" "distinct (map pr_name ps)" "distinct (map pr_id ps)"
  shows "\<exists>t ts js us ks h'. consumed merge L
      (nodes_of_entries' vs @
       section_nodes ''MetaNames'' (map (\<lambda>m. elem_node (mn_name m) (meta_atts m)) ms) @
       section_nodes ''PropertyNames'' (map (\<lambda>m. elem_node (pr_name m) (prop_atts m)) ps)) (h, hp)
      ((hm_config h)\<lparr>cf_misc := t, cf_metanames := ts,
         cf_flags := (cf_flags (hm_config h))\<lparr>fl_meta_ids := js, fl_prop_ids := ks\<rparr>, cf_properties := us\<rparr>)
      (hp\<lparr>h_metas := h_metas hp @ map (\<lambda>m. Some (kept_meta m)) ms,
          h_props := h_props hp @ map (\<lambda>m. Some (kept_prop m)) ps\<rparr>) False h' \<and>
    swish_hash_fetch (hl_tab L) t = map_of (rev vs) \<and>
    swish_hash_fetch (hl_ptr L) ts = placed (map mn_name ms) (length (h_metas hp)) \<and>
    swish_hash_fetch (hl_ptr L) js = placed (map (\<lambda>m. dec_int (mn_id m)) ms) (length (h_metas hp)) \<and>
    swish_hash_fetch (hl_ptr L) us = placed (map pr_name ps) (length (h_props hp)) \<and>
    swish_hash_fetch (hl_ptr L) ks = placed (map (\<lambda>m. dec_int (pr_id m)) ps) (length (h_props hp))"
proof -
  let ?C = "hl_cf L" and ?c = "hm_config h"
  have empty: "swish_hash_fetch (hl_tab L) (cf_misc ?c) = Map.empty"
    "swish_hash_fetch (hl_ptr L) (cf_properties ?c) = Map.empty" "swish_hash_fetch (hl_ptr L) (cf_metanames ?c) = Map.empty"
    "swish_hash_fetch (hl_ptr L) (fl_meta_ids (cf_flags ?c)) = Map.empty"
    "swish_hash_fetch (hl_ptr L) (fl_prop_ids (cf_flags ?c)) = Map.empty"
    using assms(4) by (auto simp: empty_config_def)
  have flags0: "misc_flags ?C ?c = cf_flags ?c" by (rule misc_flags_none) (simp add: empty)
  obtain t1 h1 where 1: "consumed merge L (nodes_of_entries' vs) (h, hp)
        (?c\<lparr>cf_misc := t1, cf_flags := misc_flags ?C (?c\<lparr>cf_misc := t1\<rparr>)\<rparr>) hp True h1"
    "swish_hash_fetch (hl_tab L) t1 = map_of (rev vs)"
    using consume_misc [OF assms(1,2) _ vs(1) known_undef_none [OF empty(1)] flags0, of merge hp] assms(3) empty(1) by auto
  have "misc_flags ?C (?c\<lparr>cf_misc := t1\<rparr>) = cf_flags ?c"
    using no_flag_keys_facts(2) [OF vs(2), of ?C "?c\<lparr>cf_misc := t1\<rparr>"] 1(2) by simp
  with 1(1) have c1: "hm_config h1 = ?c\<lparr>cf_misc := t1\<rparr>" "hm_is_valid h1" "steps merge L (nodes_of_entries' vs) (h, hp) (h1, hp)"
    by (simp_all add: consumed_def)
  let ?c2 = "\<lambda>ts js. ?c\<lparr>cf_misc := t1, cf_metanames := ts, cf_flags := (cf_flags ?c)\<lparr>fl_meta_ids := js\<rparr>\<rparr>"
  obtain ts js h2 where 2: "consumed merge L (section_nodes ''MetaNames'' (map (\<lambda>m. elem_node (mn_name m) (meta_atts m)) ms)) (h1, hp)
      (?c2 ts js) (hp\<lparr>h_metas := h_metas hp @ map (\<lambda>m. Some (kept_meta m)) ms\<rparr>) (ms \<noteq> []) h2"
    "swish_hash_fetch (hl_ptr L) ts = placed (map mn_name ms) (length (h_metas hp))"
    "swish_hash_fetch (hl_ptr L) js = placed (map (\<lambda>m. dec_int (mn_id m)) ms) (length (h_metas hp))"
    using consume_metas [OF assms(1) c1(2) ms, of merge hp] empty(3,4) by (auto simp: c1(1))
  then have c2: "hm_config h2 = ?c2 ts js" "hm_is_valid h2" by (simp_all add: consumed_def)
  obtain us ks h3 where 3: "consumed merge L (section_nodes ''PropertyNames'' (map (\<lambda>m. elem_node (pr_name m) (prop_atts m)) ps))
      (h2, hp\<lparr>h_metas := h_metas hp @ map (\<lambda>m. Some (kept_meta m)) ms\<rparr>)
      ((?c2 ts js)\<lparr>cf_flags := (cf_flags ?c)\<lparr>fl_meta_ids := js, fl_prop_ids := ks\<rparr>, cf_properties := us\<rparr>)
      (hp\<lparr>h_metas := h_metas hp @ map (\<lambda>m. Some (kept_meta m)) ms, h_props := h_props hp @ map (\<lambda>m. Some (kept_prop m)) ps\<rparr>)
      (ps \<noteq> []) h3"
    "swish_hash_fetch (hl_ptr L) us = placed (map pr_name ps) (length (h_props hp))"
    "swish_hash_fetch (hl_ptr L) ks = placed (map (\<lambda>m. dec_int (pr_id m)) ps) (length (h_props hp))"
    using consume_props [OF assms(1) c2(2) ps, of merge "hp\<lparr>h_metas := h_metas hp @ map (\<lambda>m. Some (kept_meta m)) ms\<rparr>"] empty(2,5)
    by (auto simp: c2(1))
  have "steps merge L (nodes_of_entries' vs @ section_nodes ''MetaNames'' (map (\<lambda>m. elem_node (mn_name m) (meta_atts m)) ms) @
       section_nodes ''PropertyNames'' (map (\<lambda>m. elem_node (pr_name m) (prop_atts m)) ps)) (h, hp)
      (h3, hp\<lparr>h_metas := h_metas hp @ map (\<lambda>m. Some (kept_meta m)) ms, h_props := h_props hp @ map (\<lambda>m. Some (kept_prop m)) ps\<rparr>)"
    by (rule steps_append [OF c1(3) steps_append [OF consumed_D(1) [OF 2(1)] consumed_D(1) [OF 3(1)]]])
  with 1(2) 2 3 show ?thesis
    by (intro exI [of _ t1] exI [of _ ts] exI [of _ js] exI [of _ us] exI [of _ ks] exI [of _ h3]) (simp add: consumed_def)
qed

lemma read_tables:
  fixes h :: "('s, 'p) headmaker"
  assumes "cf_lib_ok (hl_cf L)" and "hm_is_valid h"
    and empty: "swish_hash_fetch (hl_tab L) (cf_parsers (hm_config h)) = Map.empty"
      "cf_mimes (hm_config h) = Some m0" "swish_hash_fetch (hl_tab L) m0 = Map.empty"
      "swish_hash_fetch (hl_tab L) (cf_index (hm_config h)) = Map.empty"
      "swish_hash_fetch (hl_tab L) (cf_tag_aliases (hm_config h)) = Map.empty"
    and vs: "no_flag_keys vs" "swish_hash_fetch (hl_tab L) (cf_misc (hm_config h)) = map_of (rev vs)"
    and pars: "\<And>e. e \<in> set pars \<Longrightarrow> key_ok (fst e) \<and> word_value (snd e)"
    and mis: "\<And>e. e \<in> set mis \<Longrightarrow> key_ok (fst e) \<and> text_ok (snd e)"
    and ixs: "\<And>e. e \<in> set ixs \<Longrightarrow> key_ok (fst e) \<and> text_ok (snd e)"
    and als: "\<And>e. e \<in> set als \<Longrightarrow> key_ok (fst e) \<and> word_value (snd e)"
    and mcs: "list_all misc_entry_ok mcs" and mcs_als: "mcs \<noteq> [] \<longrightarrow> als \<noteq> []"
  shows "\<exists>t m i a x h'. consumed merge L
      (section_nodes ''Parsers'' (nodes_of_entries' pars) @ section_nodes ''MIME'' (nodes_of_entries' mis) @
       section_nodes ''Index'' (nodes_of_entries' ixs) @ section_nodes ''TagAlias'' (nodes_of_entries' als) @
       nodes_of_entries' mcs) (h, hp)
      ((hm_config h)\<lparr>cf_parsers := t, cf_mimes := Some m, cf_index := i, cf_tag_aliases := a, cf_misc := x,
         cf_flags := misc_flags (hl_cf L) ((hm_config h)\<lparr>cf_misc := x\<rparr>)\<rparr>) hp False h' \<and>
    swish_hash_fetch (hl_tab L) t = map_of (rev (map prod.swap pars)) \<and>
    swish_hash_fetch (hl_tab L) m = map_of (rev mis) \<and>
    swish_hash_fetch (hl_tab L) i = map_of (rev ixs) \<and>
    swish_hash_fetch (hl_tab L) a = map_of (rev (map prod.swap als)) \<and>
    swish_hash_fetch (hl_tab L) x = map_of (rev vs) ++ map_of (rev mcs)"
proof -
  let ?C = "hl_cf L" and ?c = "hm_config h" and ?n = "nodes_of_entries'" and ?f = "swish_hash_fetch (hl_tab L)"
  obtain t h1 where 1: "consumed merge L (section_nodes ''Parsers'' (?n pars)) (h, hp) (?c\<lparr>cf_parsers := t\<rparr>) hp (pars \<noteq> []) h1"
    "?f t = map_of (rev (map prod.swap pars))"
    using consume_parsers [OF assms(1,2) pars, where es = pars and merge = merge and hp = hp] empty(1) by auto
  note c1 = consumed_D(2) [OF 1(1)]
  obtain m h2 where 2: "consumed merge L (section_nodes ''MIME'' (?n mis)) (h1, hp) (?c\<lparr>cf_parsers := t, cf_mimes := Some m\<rparr>) hp (mis \<noteq> []) h2"
    "?f m = map_of (rev mis)"
    using consume_mimes [OF assms(1) consumed_D(3) [OF 1(1)] mis, where es = mis and t = m0 and merge = merge and hp = hp] empty(2,3) by (auto simp: c1)
  note c2 = consumed_D(2) [OF 2(1)]
  let ?c3 = "\<lambda>i. ?c\<lparr>cf_parsers := t, cf_mimes := Some m, cf_index := i\<rparr>"
  obtain i h3 where 3: "consumed merge L (section_nodes ''Index'' (?n ixs)) (h2, hp) (?c3 i) hp (ixs \<noteq> []) h3"
    "?f i = map_of (rev ixs)"
    using consume_index [OF assms(1) consumed_D(3) [OF 2(1)] ixs, where es = ixs and merge = merge and hp = hp] empty(4) by (auto simp: c2)
  note c3 = consumed_D(2) [OF 3(1)]
  let ?c4 = "\<lambda>a. ?c\<lparr>cf_parsers := t, cf_mimes := Some m, cf_index := i, cf_tag_aliases := a\<rparr>"
  obtain a h4 where 4: "consumed merge L (section_nodes ''TagAlias'' (?n als)) (h3, hp) (?c4 a) hp (als \<noteq> []) h4"
    "?f a = map_of (rev (map prod.swap als))"
    using consume_aliases [OF assms(1) consumed_D(3) [OF 3(1)] als, where es = als and merge = merge and hp = hp] empty(5) by (auto simp: c3)
  note c4 = consumed_D(2) [OF 4(1)]
  have fx: "?f (cf_misc (hm_config h4)) = map_of (rev vs)" using vs(2) by (simp add: c4)
  have r: "mcs \<noteq> [] \<longrightarrow> reset_headmaker h4 = h4" using mcs_als consumed_D(4) [OF 4(1)] by blast
  obtain x h5 where 5: "consumed merge L (?n mcs) (h4, hp)
        ((hm_config h4)\<lparr>cf_misc := x, cf_flags := misc_flags ?C ((hm_config h4)\<lparr>cf_misc := x\<rparr>)\<rparr>)
        hp (reset_headmaker h4 = h4) h5" "?f x = map_of (rev vs) ++ map_of (rev mcs)"
    using consume_misc [OF assms(1) consumed_D(3) [OF 4(1)] r mcs no_flag_keys_facts [OF vs(1) fx], where merge = merge and hp = hp]
    by (auto simp: fx)
  have "misc_flags ?C ((?c4 a)\<lparr>cf_misc := x\<rparr>) = misc_flags ?C (?c\<lparr>cf_misc := x\<rparr>)"
    by (simp add: misc_flags_def misc_flag_def misc_undef_metas_def misc_undef_attrs_def Let_def del: lit_Cons)
  then have c5: "hm_config h5 = (?c4 a)\<lparr>cf_misc := x, cf_flags := misc_flags ?C (?c\<lparr>cf_misc := x\<rparr>)\<rparr>"
    using consumed_D(2) [OF 5(1)] by (simp add: c4)
  have "steps merge L (section_nodes ''Parsers'' (?n pars) @ section_nodes ''MIME'' (?n mis) @
       section_nodes ''Index'' (?n ixs) @ section_nodes ''TagAlias'' (?n als) @ ?n mcs) (h, hp) (h5, hp)"
    by (intro steps_append [OF consumed_D(1) [OF 1(1)]] steps_append [OF consumed_D(1) [OF 2(1)]]
        steps_append [OF consumed_D(1) [OF 3(1)]] steps_append [OF consumed_D(1) [OF 4(1)]] consumed_D(1) [OF 5(1)])
  with c5 consumed_D(3) [OF 5(1)] 1(2) 2(2) 3(2) 4(2) 5(2) show ?thesis
    by (intro exI [of _ t] exI [of _ m] exI [of _ i] exI [of _ a] exI [of _ x] exI [of _ h5]) (simp add: consumed_def)
qed

lemma misc_flags_kept:
  "fl_tokenize (cf_flags c) \<Longrightarrow> cf_misc c' = cf_misc c \<Longrightarrow>
    fl_tokenize (misc_flags C c) = projr (misc_flag C c' ''Tokenize'' True)"
  "fl_meta_ids (misc_flags C c) = fl_meta_ids (cf_flags c)" "fl_prop_ids (misc_flags C c) = fl_prop_ids (cf_flags c)"
  "fl_max_meta_id (misc_flags C c) = fl_max_meta_id (cf_flags c)"
  "fl_max_prop_id (misc_flags C c) = fl_max_prop_id (cf_flags c)"
  by (auto simp: misc_flags_def misc_flag_def Let_def simp del: lit_Cons split: option.split)

lemma read_sections:
  fixes h :: "('s, 'p) headmaker"
  assumes "cf_lib_ok (hl_cf L)" and "hm_is_valid h" and "reset_headmaker h = h" and "empty_config (hl_cf L) (hm_config h)"
    and vs: "list_all misc_entry_ok vs" "no_flag_keys vs"
    and ms: "list_all meta_ok ms" "distinct (map mn_name ms)" "distinct (map mn_id ms)"
    and ps: "list_all prop_ok ps" "distinct (map pr_name ps)" "distinct (map pr_id ps)"
    and pars: "\<And>e. e \<in> set pars \<Longrightarrow> key_ok (fst e) \<and> word_value (snd e)"
    and mis: "\<And>e. e \<in> set mis \<Longrightarrow> key_ok (fst e) \<and> text_ok (snd e)"
    and ixs: "\<And>e. e \<in> set ixs \<Longrightarrow> key_ok (fst e) \<and> text_ok (snd e)"
    and als: "\<And>e. e \<in> set als \<Longrightarrow> key_ok (fst e) \<and> word_value (snd e)"
    and mcs: "list_all misc_entry_ok mcs" "mcs \<noteq> [] \<longrightarrow> als \<noteq> []"
  shows "\<exists>h' hp'. steps merge L
      (nodes_of_entries' vs @
       section_nodes ''MetaNames'' (map (\<lambda>m. elem_node (mn_name m) (meta_atts m)) ms) @
       section_nodes ''PropertyNames'' (map (\<lambda>m. elem_node (pr_name m) (prop_atts m)) ps) @
       section_nodes ''Parsers'' (nodes_of_entries' pars) @ section_nodes ''MIME'' (nodes_of_entries' mis) @
       section_nodes ''Index'' (nodes_of_entries' ixs) @ section_nodes ''TagAlias'' (nodes_of_entries' als) @
       nodes_of_entries' mcs) (h, hp) (h', hp') \<and>
    hm_is_valid h' \<and> filled (hl_cf L) hp vs ms ps pars mis ixs als mcs (hm_config h') hp'"
proof -
  let ?f = "swish_hash_fetch (hl_tab L)" and ?p = "swish_hash_fetch (hl_ptr L)"
  obtain t ts js us ks h1 hp1 where 1: "consumed merge L
      (nodes_of_entries' vs @
       section_nodes ''MetaNames'' (map (\<lambda>m. elem_node (mn_name m) (meta_atts m)) ms) @
       section_nodes ''PropertyNames'' (map (\<lambda>m. elem_node (pr_name m) (prop_atts m)) ps)) (h, hp)
      ((hm_config h)\<lparr>cf_misc := t, cf_metanames := ts,
         cf_flags := (cf_flags (hm_config h))\<lparr>fl_meta_ids := js, fl_prop_ids := ks\<rparr>, cf_properties := us\<rparr>) hp1 False h1"
    "hp1 = hp\<lparr>h_metas := h_metas hp @ map (\<lambda>m. Some (kept_meta m)) ms,
        h_props := h_props hp @ map (\<lambda>m. Some (kept_prop m)) ps\<rparr>"
    "?f t = map_of (rev vs)" "?p ts = placed (map mn_name ms) (length (h_metas hp))"
    "?p js = placed (map (\<lambda>m. dec_int (mn_id m)) ms) (length (h_metas hp))"
    "?p us = placed (map pr_name ps) (length (h_props hp))"
    "?p ks = placed (map (\<lambda>m. dec_int (pr_id m)) ps) (length (h_props hp))"
    using read_objects [OF assms(1-4) vs ms ps, of merge hp] by blast
  note c1 = consumed_D(2) [OF 1(1)]
  obtain m0 where m0: "cf_mimes (hm_config h1) = Some m0" "?f m0 = Map.empty"
    using assms(4) by (auto simp: c1 empty_config_def)
  have empty: "?f (cf_parsers (hm_config h1)) = Map.empty" "?f (cf_index (hm_config h1)) = Map.empty"
    "?f (cf_tag_aliases (hm_config h1)) = Map.empty" "?f (cf_misc (hm_config h1)) = map_of (rev vs)"
    using assms(4) 1(3) by (auto simp: c1 empty_config_def)
  obtain pt m i a x h2 where 2: "consumed merge L
      (section_nodes ''Parsers'' (nodes_of_entries' pars) @ section_nodes ''MIME'' (nodes_of_entries' mis) @
       section_nodes ''Index'' (nodes_of_entries' ixs) @ section_nodes ''TagAlias'' (nodes_of_entries' als) @
       nodes_of_entries' mcs) (h1, hp1)
      ((hm_config h1)\<lparr>cf_parsers := pt, cf_mimes := Some m, cf_index := i, cf_tag_aliases := a, cf_misc := x,
         cf_flags := misc_flags (hl_cf L) ((hm_config h1)\<lparr>cf_misc := x\<rparr>)\<rparr>) hp1 False h2"
    "?f pt = map_of (rev (map prod.swap pars))" "?f m = map_of (rev mis)" "?f i = map_of (rev ixs)"
    "?f a = map_of (rev (map prod.swap als))" "?f x = map_of (rev vs) ++ map_of (rev mcs)"
    using read_tables [OF assms(1) consumed_D(3) [OF 1(1)] empty(1) m0 empty(2,3) vs(2) empty(4),
        where pars = pars and mis = mis and ixs = ixs and als = als and mcs = mcs and merge = merge and hp = hp1]
      pars mis ixs als mcs by blast
  have "filled (hl_cf L) hp vs ms ps pars mis ixs als mcs (hm_config h2) hp1"
    using 1(2-) 2(2-) assms(4)
    by (simp add: filled_def consumed_D(2) [OF 2(1)] c1 misc_flags_kept empty_config_def)
  moreover have "steps merge L
      (nodes_of_entries' vs @
       section_nodes ''MetaNames'' (map (\<lambda>m. elem_node (mn_name m) (meta_atts m)) ms) @
       section_nodes ''PropertyNames'' (map (\<lambda>m. elem_node (pr_name m) (prop_atts m)) ps) @
       section_nodes ''Parsers'' (nodes_of_entries' pars) @ section_nodes ''MIME'' (nodes_of_entries' mis) @
       section_nodes ''Index'' (nodes_of_entries' ixs) @ section_nodes ''TagAlias'' (nodes_of_entries' als) @
       nodes_of_entries' mcs) (h, hp) (h2, hp1)"
    using steps_append [OF consumed_D(1) [OF 1(1)] consumed_D(1) [OF 2(1)]] by (simp only: append_assoc)
  ultimately show ?thesis using consumed_D(3) [OF 2(1)] by blast
qed

text \<open>The root element and the comment in front of the settings, white space included.\<close>

lemma read_header_file:
  assumes "cf_lib_ok (hl_cf L)" and "swish_fs_file_exists (hl_os L) f" and "hl_file L f = Some (ns, True)"
    and blanks: "filter (\<lambda>n. \<not> blank_node n) ns =
      [elem_node (lit ''swish'') [], comment_node s] @ body @ [end_node (lit ''swish'')]"
      "ns \<noteq> [] \<longrightarrow> \<not> blank_node (hd ns)" "no_blank_text ns"
    and body: "\<And>h. hm_is_valid h \<Longrightarrow> reset_headmaker h = h \<Longrightarrow> empty_config (hl_cf L) (hm_config h) \<Longrightarrow>
      \<exists>h' hp'. steps (swish_header_merge n L) L body (h, hp) (h', hp') \<and> hm_is_valid h' \<and> P (hm_config h') hp'"
  shows "\<exists>c hp'. swish_header_read n L f hp = Inr (c, hp') \<and> P c hp'"
proof -
  let ?m = "swish_header_merge n L"
  have X: "xml_str_ok (hl_str L)" using assms(1) by (simp add: cf_lib_ok_def)
  obtain h0 where h0: "init_headmaker L = Inr h0" "reset_headmaker h0 = h0" "empty_config (hl_cf L) (hm_config h0)"
    using init_headmaker_ok [OF assms(1)] by blast
  define h1 where "h1 = h0\<lparr>hm_conf_file := Some f, hm_is_valid := True\<rparr>"
  have "reset_headmaker h1 = h1" using h0(2) by (cases h0) (simp add: h1_def reset_headmaker_def)
  then obtain h2 hp2 where h2: "steps ?m L body (h1, hp) (h2, hp2)" "hm_is_valid h2" "P (hm_config h2) hp2"
    using body [of h1] h0(3) by (auto simp: h1_def)
  have swish: "\<not> start_section L (lit ''swish'') h \<noteq> None" for h :: "('a, 'b) headmaker"
    by (simp add: start_section_def Let_def xml_str_laws(3) [OF X] lit_inj del: lit_Cons)
  have comment: "steps ?m L [comment_node s] (h1, hp) (h1, hp)"
    by (intro steps_one) (simp add: process_node_def Let_def comment_node_def del: lit_Cons)
  have close: "steps ?m L [end_node (lit ''swish'')] (h2, hp2) (h2\<lparr>hm_is_valid := True\<rparr>, hp2)"
    by (intro steps_one)
      (simp add: process_node_def Let_def end_node_def node_local_name_def xml_str_laws(3) [OF X] del: lit_Cons)
  have run: "read_nodes ?m L (\<lparr>rr_cur = c, rr_nodes = ([comment_node s] @ body) @ [end_node (lit ''swish'')], rr_ok = True\<rparr>, h1, hp) =
      Inr (0, h2\<lparr>hm_is_valid := True\<rparr>, hp2)" for c
    by (rule steps_end [OF steps_append [OF steps_append [OF comment h2(1)] close]]) simp
  obtain n' ns' where ns: "ns = n' # ns'" using blanks(1) by (cases ns) auto
  with blanks have n': "n' = elem_node (lit ''swish'') []"
    "filter (\<lambda>n. \<not> blank_node n) ns' = ([comment_node s] @ body) @ [end_node (lit ''swish'')]" by auto
  have "no_blank_text ns'" using blanks(3) ns by (cases ns') (auto simp: no_blank_text_def)
  then have "read_nodes ?m L (\<lparr>rr_cur = c, rr_nodes = ns', rr_ok = True\<rparr>, h1, hp) =
      Inr (0, h2\<lparr>hm_is_valid := True\<rparr>, hp2)" for c
    using read_nodes_blanks [OF X _ _ run [unfolded n'(2) [symmetric]]] by (simp add: h1_def)
  then have "read_nodes ?m L (\<lparr>rr_cur = None, rr_nodes = ns, rr_ok = True\<rparr>, h0\<lparr>hm_conf_file := Some f\<rparr>, hp) =
      Inr (0, h2\<lparr>hm_is_valid := True\<rparr>, hp2)"
    by (simp add: ns n' read_nodes_Cons process_node_def Let_def elem_node_def node_local_name_def h1_def
        xml_str_laws(3) [OF X] del: lit_Cons)
  then show ?thesis
    using assms(2,3) h2(3) by (simp add: swish_header_read_def h0(1) read_header_def header_nodes_def)
qed

section \<open>The round trip\<close>

lemma map_of_rev_distinct: "distinct (map fst xs) \<Longrightarrow> map_of (rev xs) = map_of xs"
proof
  fix k
  assume d: "distinct (map fst xs)"
  then have "distinct (map fst (rev xs))" by (simp flip: rev_map)
  then have "map_of (rev xs) k = Some v \<longleftrightarrow> map_of xs k = Some v" for v
    using d by simp
  then show "map_of (rev xs) k = map_of xs k" by (metis not_None_eq)
qed

lemma map_of_filter_distinct:
  "distinct (map fst xs) \<Longrightarrow> map_of (filter Q xs) k = (case map_of xs k of None \<Rightarrow> None | Some v \<Rightarrow> if Q (k, v) then Some v else None)"
  by (induction xs) (auto split: option.splits simp: map_of_eq_None_iff image_iff)

lemma rev_entries:
  assumes "xml_hash_ok H"
  shows "map_of (rev (xmlHashEntries H t)) = swish_hash_fetch H t"
    and "map_of (rev (map prod.swap (map prod.swap (xmlHashEntries H t)))) = swish_hash_fetch H t"
  using map_of_rev_distinct [OF table.entries_distinct [OF assms, of t]] table.entries [OF assms, of t]
  by (simp_all add: comp_def)

lemma rev_mime_entries:
  assumes "xml_hash_ok H"
  shows "swish_hash_fetch H d ++ map_of (rev (mime_entries H d t)) =
    swish_hash_fetch H d ++ (case t of None \<Rightarrow> Map.empty | Some m \<Rightarrow> swish_hash_fetch H m)"
proof (cases t)
  case (Some m)
  let ?es = "xmlHashEntries H m" and ?Q = "\<lambda>e. swish_hash_fetch H d (fst e) \<noteq> Some (snd e)"
  have d: "distinct (map fst ?es)" by (rule table.entries_distinct [OF assms])
  then have "distinct (map fst (filter ?Q ?es))" by (simp add: distinct_map_filter)
  then have "map_of (rev (mime_entries H d t)) = map_of (filter ?Q ?es)"
    by (simp add: mime_entries_def Some map_of_rev_distinct)
  then show ?thesis
    using table.entries [OF assms, of m]
    by (auto simp: Some fun_eq_iff map_add_def map_of_filter_distinct [OF d] split: option.splits)
qed (simp add: mime_entries_def)

lemma version_entries_ok:
  assumes "text_ok v"
  shows "list_all misc_entry_ok (version_entries H v t)" and "no_flag_keys (version_entries H v t)"
proof -
  have keys: "key_ok (lit ''swish_version'')" "key_ok (lit ''swish_lib_version'')"
    by (simp_all add: key_ok_def xml_name_def name_char_def isdigit_def is_upper_def sections_def)
  have "text_ok SWISH_VERSION" by (simp add: text_ok_def SWISH_VERSION_def isspace_def)
  with assms keys show "list_all misc_entry_ok (version_entries H v t)"
    by (simp add: version_entries_def misc_entry_ok_def undef_value_ok_def SWISH_CLASS_ATTRIBUTES_def lit_inj del: lit_Cons)
  show "no_flag_keys (version_entries H v t)"
    by (auto simp: no_flag_keys_def flag_keys_def version_entries_def lit_inj simp del: lit_Cons)
qed

lemma rev_version_entries:
  "map_of (rev (version_entries H v t)) ++ swish_hash_fetch H t =
    map_of [(lit ''swish_version'', SWISH_VERSION), (lit ''swish_lib_version'', v)] ++ swish_hash_fetch H t"
  by (auto simp: version_entries_def fun_eq_iff map_add_def lit_inj simp del: lit_Cons split: option.splits)

lemma placed_at_nth: "distinct ks \<Longrightarrow> i < length ks \<Longrightarrow> placed ks n (ks ! i) = Some (n + i)"
proof (induction ks arbitrary: n i)
  case (Cons k ks)
  then show ?case by (cases i) (auto simp: placed_Cons)
qed simp

lemma placed_same:
  assumes "distinct (map f ms)" and "distinct (map g ms)" and "m \<in> set ms"
  shows "placed (map f ms) n (f m) = placed (map g ms) n (g m)"
proof -
  obtain i where i: "i < length ms" "m = ms ! i" using assms(3) by (auto simp: in_set_conv_nth)
  with placed_at_nth [OF assms(1), of i n] placed_at_nth [OF assms(2), of i n] show ?thesis by simp
qed

text \<open>What a configuration that was read keeps of the one that was written.\<close>

definition same_header ::
  "('s, 'p) cf_lib \<Rightarrow> bytes \<Rightarrow> ('s, 'p) swish_Config \<Rightarrow> heap \<Rightarrow> ('s, 'p) swish_Config \<Rightarrow> heap \<Rightarrow> bool" where
  "same_header C v c hp c' hp' \<longleftrightarrow>
     (let H = swish_hash_fetch (cl_tab C); P = cl_ptr C in
      lookup_obj P (cf_metanames c') (h_metas hp') = map_option kept_meta \<circ> lookup_obj P (cf_metanames c) (h_metas hp) \<and>
      lookup_obj P (cf_properties c') (h_props hp') = map_option kept_prop \<circ> lookup_obj P (cf_properties c) (h_props hp) \<and>
      (\<forall>k m. lookup_obj P (cf_metanames c) (h_metas hp) k = Some m \<longrightarrow>
         swish_hash_fetch P (fl_meta_ids (cf_flags c')) (swish_int_to_string (mn_id m)) =
         swish_hash_fetch P (cf_metanames c') k) \<and>
      H (cf_parsers c') = H (cf_parsers c) \<and> H (cf_index c') = H (cf_index c) \<and>
      H (cf_tag_aliases c') = H (cf_tag_aliases c) \<and>
      (\<exists>d m. swish_mime_defaults (cl_tab C) = Inr d \<and> cf_mimes c' = Some m \<and>
         H d ++ H m = H d ++ (case cf_mimes c of None \<Rightarrow> Map.empty | Some t \<Rightarrow> H t)) \<and>
      H (cf_misc c') = map_of [(lit ''swish_version'', SWISH_VERSION), (lit ''swish_lib_version'', v)] ++ H (cf_misc c) \<and>
      fl_tokenize (cf_flags c') =
        (case H (cf_misc c) (lit ''Tokenize'') of None \<Rightarrow> True | Some b \<Rightarrow> projr (swish_string_to_boolean (Some (cobj b)))) \<and>
      fl_max_meta_id (cf_flags c') = -1 \<and> fl_max_prop_id (cf_flags c') = -1)"

lemma filled_same_header:
  fixes C :: "('s, 'p) cf_lib"
  assumes "cf_lib_ok C" and "writable C c hp" and d: "swish_mime_defaults (cl_tab C) = Inr d"
    and "filled C hp2 (version_entries (cl_tab C) v (cf_misc c)) (objs (cl_ptr C) (cf_metanames c) (h_metas hp))
      (objs (cl_ptr C) (cf_properties c) (h_props hp)) (map prod.swap (xmlHashEntries (cl_tab C) (cf_parsers c)))
      (mime_entries (cl_tab C) d (cf_mimes c)) (xmlHashEntries (cl_tab C) (cf_index c))
      (map prod.swap (xmlHashEntries (cl_tab C) (cf_tag_aliases c))) (xmlHashEntries (cl_tab C) (cf_misc c)) c' hp'"
  shows "same_header C v c hp c' hp'"
proof -
  let ?H = "swish_hash_fetch (cl_tab C)" and ?P = "cl_ptr C"
  let ?ms = "objs ?P (cf_metanames c) (h_metas hp)" and ?ps = "objs ?P (cf_properties c) (h_props hp)"
  have H: "xml_hash_ok (cl_tab C)" and P: "xml_hash_ok ?P" using assms(1) by (simp_all add: cf_lib_ok_def)
  note filled = assms(4) [unfolded filled_def]
  have ok: "objs_ok meta_ok mn_name ?P (cf_metanames c) (h_metas hp)" "distinct (map mn_id ?ms)"
    "objs_ok prop_ok pr_name ?P (cf_properties c) (h_props hp)"
    using assms(2) by (simp_all add: writable_def Let_def)
  have names: "distinct (map mn_name ?ms)" "distinct (map pr_name ?ps)"
    unfolding objs_names(1) [OF ok(1)] objs_names(1) [OF ok(3)] by (rule table.entries_distinct [OF P])+
  have metas: "lookup_obj ?P (cf_metanames c') (h_metas hp') k = map_option kept_meta (lookup_obj ?P (cf_metanames c) (h_metas hp) k)" for k
    using lookup_placed [OF names(1), of ?P "cf_metanames c'" "h_metas hp2" kept_meta k] filled lookup_objs [OF P ok(1), of k] by simp
  have props: "lookup_obj ?P (cf_properties c') (h_props hp') k = map_option kept_prop (lookup_obj ?P (cf_properties c) (h_props hp) k)" for k
    using lookup_placed [OF names(2), of ?P "cf_properties c'" "h_props hp2" kept_prop k] filled lookup_objs [OF P ok(3), of k] by simp
  have ids: "swish_hash_fetch ?P (fl_meta_ids (cf_flags c')) (swish_int_to_string (mn_id m)) = swish_hash_fetch ?P (cf_metanames c') k"
    if "lookup_obj ?P (cf_metanames c) (h_metas hp) k = Some m" for k m
  proof -
    have m: "m \<in> set ?ms" "k = mn_name m"
      using that map_of_SomeD [of "map (\<lambda>m. (mn_name m, m)) ?ms" k m] by (auto simp: lookup_objs [OF P ok(1)])
    then have "meta_ok m" using objs_names(2) [OF ok(1)] by (simp add: list_all_iff)
    moreover have "distinct (map (\<lambda>m. dec_int (mn_id m)) ?ms)" using ok(2) by (simp add: distinct_map inj_on_def dec_int_inj)
    ultimately show ?thesis
      using placed_same [OF _ names(1) m(1), of "\<lambda>m. dec_int (mn_id m)" "length (h_metas hp2)"] filled m(2)
      by (simp add: meta_ok_def int_text)
  qed
  obtain m where m: "cf_mimes c' = Some m" "?H m = map_of (rev (mime_entries (cl_tab C) d (cf_mimes c)))" using filled by blast
  have misc: "?H (cf_misc c') = map_of [(lit ''swish_version'', SWISH_VERSION), (lit ''swish_lib_version'', v)] ++ ?H (cf_misc c)"
    using filled by (simp only: rev_entries(1) [OF H] rev_version_entries)
  have "?H (cf_misc c') (lit ''Tokenize'') = ?H (cf_misc c) (lit ''Tokenize'')"
    unfolding misc by (auto simp: map_add_def lit_inj simp del: lit_Cons split: option.splits)
  then have tok: "projr (misc_flag C c' ''Tokenize'' True) =
      (case ?H (cf_misc c) (lit ''Tokenize'') of None \<Rightarrow> True | Some b \<Rightarrow> projr (swish_string_to_boolean (Some (cobj b))))"
    by (simp add: misc_flag_def del: lit_Cons split: option.splits)
  show ?thesis
    unfolding same_header_def Let_def
    using metas props ids filled m rev_mime_entries [OF H, of d "cf_mimes c"] d misc tok rev_entries [OF H]
    by (simp add: fun_eq_iff [of _ "_ \<circ> _"] del: lit_Cons)
qed

lemma same_header_metas:
  assumes "same_header C v c hp c' hp'" and "lookup_obj (cl_ptr C) (cf_metanames c) (h_metas hp) k = Some m"
  shows "lookup_obj (cl_ptr C) (cf_metanames c') (h_metas hp') k = Some (kept_meta m)"
    and "swish_hash_fetch (cl_ptr C) (fl_meta_ids (cf_flags c')) (swish_int_to_string (mn_id m)) =
      swish_hash_fetch (cl_ptr C) (cf_metanames c') k"
    and "fl_max_meta_id (cf_flags c') = -1"
  using assms by (simp_all add: same_header_def Let_def del: lit_Cons)

text \<open>The round trip, for the theorems below.\<close>

lemma written_header_is_read:
  assumes "cf_lib_ok (hl_cf L)" and "writable (hl_cf L) c hp" and "text_ok v"
    and "swish_fs_file_exists (hl_os L) f"
    and "\<And>w. swish_header_write (hl_cf L) v c hp = Inr w \<Longrightarrow> \<exists>ns. hl_file L f = Some (ns, True) \<and> read_back w ns"
  shows "\<exists>w c' hp'. swish_header_write (hl_cf L) v c hp = Inr w \<and>
    swish_header_read n L f hp2 = Inr (c', hp') \<and> same_header (hl_cf L) v c hp c' hp'"
proof -
  let ?C = "hl_cf L"
  obtain d where d: "swish_mime_defaults (hl_tab L) = Inr d"
    and w: "swish_header_write ?C v c hp = Inr (header_items ?C v d c hp)"
    using header_write_items [OF assms(1,2)] by blast
  obtain ns where ns: "hl_file L f = Some (ns, True)" "read_back (header_items ?C v d c hp) ns" using assms(5) [OF w] by blast
  have P: "xml_hash_ok (hl_ptr L)" using assms(1) by (simp add: cf_lib_ok_def)
  have ok: "objs_ok meta_ok mn_name (hl_ptr L) (cf_metanames c) (h_metas hp)"
    "distinct (map mn_id (objs (hl_ptr L) (cf_metanames c) (h_metas hp)))"
    "objs_ok prop_ok pr_name (hl_ptr L) (cf_properties c) (h_props hp)"
    "distinct (map pr_id (objs (hl_ptr L) (cf_properties c) (h_props hp)))"
    and misc: "list_all misc_entry_ok (xmlHashEntries (hl_tab L) (cf_misc c))"
    using assms(2) by (simp_all add: writable_def Let_def)
  have names: "distinct (map mn_name (objs (hl_ptr L) (cf_metanames c) (h_metas hp)))"
    "distinct (map pr_name (objs (hl_ptr L) (cf_properties c) (h_props hp)))"
    unfolding objs_names(1) [OF ok(1)] objs_names(1) [OF ok(3)] by (rule table.entries_distinct [OF P])+
  have entries: "\<And>e. e \<in> set (map prod.swap (xmlHashEntries (hl_tab L) (cf_parsers c))) \<Longrightarrow> key_ok (fst e) \<and> word_value (snd e)"
    "\<And>e. e \<in> set (mime_entries (hl_tab L) d (cf_mimes c)) \<Longrightarrow> key_ok (fst e) \<and> text_ok (snd e)"
    "\<And>e. e \<in> set (xmlHashEntries (hl_tab L) (cf_index c)) \<Longrightarrow> key_ok (fst e) \<and> text_ok (snd e)"
    "\<And>e. e \<in> set (map prod.swap (xmlHashEntries (hl_tab L) (cf_tag_aliases c))) \<Longrightarrow> key_ok (fst e) \<and> word_value (snd e)"
    "xmlHashEntries (hl_tab L) (cf_misc c) \<noteq> [] \<longrightarrow> map prod.swap (xmlHashEntries (hl_tab L) (cf_tag_aliases c)) \<noteq> []"
    using assms(2) by (auto simp: writable_def Let_def list_all_iff mime_entries_def split: option.splits)
  note sections = read_sections [OF assms(1) _ _ _ version_entries_ok [OF assms(3)] objs_names(2) [OF ok(1)] names(1) ok(2)
      objs_names(2) [OF ok(3)] names(2) ok(4) entries(1-4) misc entries(5)]
  have "\<exists>c' hp'. swish_header_read n L f hp2 = Inr (c', hp') \<and>
      filled ?C hp2 (version_entries (hl_tab L) v (cf_misc c)) (objs (hl_ptr L) (cf_metanames c) (h_metas hp))
      (objs (hl_ptr L) (cf_properties c) (h_props hp)) (map prod.swap (xmlHashEntries (hl_tab L) (cf_parsers c)))
      (mime_entries (hl_tab L) d (cf_mimes c)) (xmlHashEntries (hl_tab L) (cf_index c))
      (map prod.swap (xmlHashEntries (hl_tab L) (cf_tag_aliases c))) (xmlHashEntries (hl_tab L) (cf_misc c)) c' hp'"
  proof (rule read_header_file [OF assms(1,4) ns(1)])
    show "filter (\<lambda>n. \<not> blank_node n) ns = [elem_node (lit ''swish'') [], comment_node (lit ''written by libswish3 - DO NOT EDIT'')] @
        (nodes_of_entries' (version_entries (hl_tab L) v (cf_misc c)) @
         section_nodes ''MetaNames'' (map (\<lambda>m. elem_node (mn_name m) (meta_atts m)) (objs (hl_ptr L) (cf_metanames c) (h_metas hp))) @
         section_nodes ''PropertyNames'' (map (\<lambda>m. elem_node (pr_name m) (prop_atts m)) (objs (hl_ptr L) (cf_properties c) (h_props hp))) @
         section_nodes ''Parsers'' (nodes_of_entries' (map prod.swap (xmlHashEntries (hl_tab L) (cf_parsers c)))) @
         section_nodes ''MIME'' (nodes_of_entries' (mime_entries (hl_tab L) d (cf_mimes c))) @
         section_nodes ''Index'' (nodes_of_entries' (xmlHashEntries (hl_tab L) (cf_index c))) @
         section_nodes ''TagAlias'' (nodes_of_entries' (map prod.swap (xmlHashEntries (hl_tab L) (cf_tag_aliases c)))) @
         nodes_of_entries' (xmlHashEntries (hl_tab L) (cf_misc c))) @ [end_node (lit ''swish'')]"
      using ns(2) by (simp add: read_back_def nodes_of_header del: lit_Cons)
    show "ns \<noteq> [] \<longrightarrow> \<not> blank_node (hd ns)" "no_blank_text ns" using ns(2) by (simp_all add: read_back_def)
  qed (rule sections)
  then show ?thesis using w filled_same_header [OF assms(1,2) d] by blast
qed

text \<open>
  C4: an index header survives. For a configuration that can be written (names and keys that
  are XML names and mean nothing else to the reader, values that are not blank, different ids,
  a tag alias if there are settings: an empty section would swallow them), \<open>swish_header_write\<close> returns, and when the file holds
  what was written, with white space between the elements, \<open>swish_header_read\<close> returns too,
  whatever the memory of the new \<open>headmaker\<close> held: every metaname and property is found under
  its name with its id, bias, type, flags and lengths, the ids lead to the same metanames, and
  the parsers, MIME types, index entries, tag aliases and settings are the ones written, the
  versions added. What does not survive is the bias of an alias and what a property that is an
  alias had beside its id; the largest ids are those of an empty configuration.
\<close>

theorem header_round_trip:
  assumes "cf_lib_ok (hl_cf L)" and "writable (hl_cf L) c hp" and "text_ok v"
    and "swish_fs_file_exists (hl_os L) f"
    and "\<And>w. swish_header_write (hl_cf L) v c hp = Inr w \<Longrightarrow> \<exists>ns. hl_file L f = Some (ns, True) \<and> read_back w ns"
  shows "\<exists>w c' hp'. swish_header_write (hl_cf L) v c hp = Inr w \<and>
    swish_header_read n L f hp2 = Inr (c', hp') \<and> same_header (hl_cf L) v c hp c' hp'"
  by (rule written_header_is_read [OF assms])

text \<open>
  C5: the largest id is forgotten. Ids that a header gives explicitly, as \<open>swish_header_write\<close>
  always does, do not count for \<open>max_meta_id\<close>. When the header has the metaname with the id 0
  that every default configuration has, the configuration read from it cannot take up a
  single new metaname, whatever its name: \<open>swish_metaname_new\<close> gives it the id 0 again and
  the process ends.
\<close>

theorem metaname_after_header_reuses_id:
  assumes "cf_lib_ok (hl_cf L)" and "writable (hl_cf L) c hp" and "text_ok v"
    and "swish_fs_file_exists (hl_os L) f"
    and "\<And>w. swish_header_write (hl_cf L) v c hp = Inr w \<Longrightarrow> \<exists>ns. hl_file L f = Some (ns, True) \<and> read_back w ns"
    and "lookup_obj (hl_ptr L) (cf_metanames c) (h_metas hp) k = Some m" and "mn_id m = 0"
  shows "\<exists>c' hp' msg. swish_header_read n L f hp2 = Inr (c', hp') \<and>
    swish_metaname_new (hl_cf L) name c' hp' = Inl (Croak msg)"
proof -
  let ?P = "hl_ptr L"
  obtain c' hp' where r: "swish_header_read n L f hp2 = Inr (c', hp')" "same_header (hl_cf L) v c hp c' hp'"
    using written_header_is_read [OF assms(1-5)] by blast
  note kept = same_header_metas [OF r(2) assms(6)]
  have m: "fl_max_meta_id (cf_flags c') = -1" by (rule kept(3))
  from kept(1,2) assms(7)
  have "swish_hash_fetch ?P (fl_meta_ids (cf_flags c')) (swish_int_to_string 0) \<noteq> None"
    by (auto simp: lookup_obj_def split: option.splits)
  moreover have P: "xml_hash_ok ?P" using assms(1) by (simp add: cf_lib_ok_def)
  ultimately obtain msg where
    "swish_hash_add ?P (fl_meta_ids (cf_flags c')) (swish_int_to_string 0) (length (h_metas hp')) = Inl (Croak msg)"
    using table.add_old [OF P] by blast
  then show ?thesis using r(1) m by (simp add: swish_metaname_new_def Let_def put_in_def)
qed

end
