(* ===== verification/Header_Samples.thy ===== *)
theory Header_Samples
  imports Header_RoundTrip Parser_Samples
begin

text \<open>
  A concrete configuration, its heap and a text reader over a list of nodes, on which the
  theorems on index headers are applied.
\<close>

section \<open>A header\<close>

definition header_config :: "((bytes \<times> bytes) list, (bytes \<times> nat) list) swish_Config" where
  "header_config = (sample_config [lit ''swishtitle'', lit ''title''] [lit ''price''])
     \<lparr>cf_parsers := [(lit ''text/html'', lit ''HTML'')], cf_mimes := Some [(lit ''foo'', lit ''text/foo'')],
      cf_index := [(lit ''Name'', lit ''my index'')], cf_tag_aliases := [(lit ''h1'', lit ''swishtitle'')],
      cf_misc := [(lit ''Tokenize'', lit ''no'')]\<rparr>"

definition header_heap :: heap where
  "header_heap =
     \<lparr>h_metas = [Some ((swish_metaname_init (lit ''swishtitle''))\<lparr>mn_ref_cnt := 3, mn_id := 1, mn_bias := -5\<rparr>),
                 Some ((swish_metaname_init (lit ''title''))\<lparr>mn_ref_cnt := 1, mn_id := 2, mn_alias_for := Cell (lit ''swishtitle'')\<rparr>)],
      h_props = [Some ((swish_property_init (lit ''price''))\<lparr>pr_ref_cnt := 1, pr_id := 3, pr_type := SWISH_PROP_INT, pr_max := 10\<rparr>)],
      h_lists = []\<rparr>"

definition header_lib :: "xml_node list \<Rightarrow> ((bytes \<times> bytes) list, (bytes \<times> nat) list) head_lib" where
  "header_lib ns =
     \<lparr>hl_cf = \<lparr>cl_str = ref_str, cl_tab = ref_hash, cl_ptr = ref_hash\<rparr>, hl_wide = ref_wide,
      hl_os = sample_os [(lit ''swish.xml'', [])], hl_file = (\<lambda>f. Some (ns, True)), hl_memory = (\<lambda>s. None),
      hl_build_uri = (\<lambda>uri base. None), hl_garbage = False\<rparr>"

lemma nodes_of_no_other: "\<forall>n \<in> set (nodes_of st p w). nd_type n \<noteq> NODE_OTHER"
proof (induction w arbitrary: st p)
  case (Cons i w)
  then show ?case
    by (cases i; cases p; cases st)
      (auto simp: opened_def entry_nodes_def elem_node_def end_node_def text_node_def comment_node_def)
qed (auto simp: opened_def elem_node_def split: option.splits)

lemma nodes_of_no_blanks: "n \<in> set (nodes_of st p w) \<Longrightarrow> \<not> blank_node n"
  using nodes_of_no_other by (auto simp: blank_node_def)

lemma read_back_nodes: "read_back w (nodes_of [] None w)"
proof -
  have "no_blank_text ns" if "\<forall>n \<in> set ns. \<not> blank_node n" for ns
    using that by (induction ns rule: induct_list012) (auto simp: no_blank_text_def)
  then show ?thesis
    using nodes_of_no_blanks [of _ "[]" None w] by (auto simp: read_back_def filter_id_conv hd_in_set)
qed

lemma header_names_ok:
  "lower_name (lit ''swishtitle'')" "lower_name (lit ''title'')" "lower_name (lit ''price'')"
  "word_value (lit ''text/html'')" "word_value (lit ''h1'')" "key_ok (lit ''HTML'')" "key_ok (lit ''swishtitle'')"
  "key_ok (lit ''foo'')" "text_ok (lit ''text/foo'')" "key_ok (lit ''Name'')" "text_ok (lit ''my index'')"
  "misc_entry_ok (lit ''Tokenize'', lit ''no'')"
  by code_simp+

lemma header_config_writable: "writable (hl_cf (header_lib ns)) header_config header_heap"
  by (simp add: writable_def header_lib_def header_config_def sample_config_def header_heap_def objs_ok_def objs_def
      ref_hash_def meta_ok_def prop_ok_def int_ok_def header_names_ok swish_metaname_init_def swish_property_init_def
      SWISH_PROP_INT_def lit_inj upt_rec del: lit_Cons)

text \<open>The file holds what was written.\<close>

lemma header_lib_ok: "cf_lib_ok (hl_cf (header_lib ns))"
  by (simp add: header_lib_def cf_lib_ok_def)

lemma header_lib_file: "swish_fs_file_exists (hl_os (header_lib ns)) (lit ''swish.xml'')"
  by (simp add: header_lib_def swish_fs_file_exists_def sample_os_def Let_def del: lit_Cons)

lemma written_file:
  assumes "writable (hl_cf (header_lib [])) c hp"
  shows "\<exists>ns. \<forall>w. swish_header_write (hl_cf (header_lib ns)) v c hp = Inr w \<longrightarrow>
    (\<exists>ms. hl_file (header_lib ns) f = Some (ms, True) \<and> read_back w ms)"
proof -
  have C: "hl_cf (header_lib ns) = hl_cf (header_lib [])" for ns by (simp add: header_lib_def)
  obtain w where w: "swish_header_write (hl_cf (header_lib [])) v c hp = Inr w"
    using header_write_items [OF header_lib_ok assms] by blast
  show ?thesis
    by (rule exI [of _ "nodes_of [] None w"])
      (use w read_back_nodes [of w] in \<open>simp add: C [of "nodes_of [] None w"], simp add: header_lib_def\<close>)
qed

lemma header_round_trip_witness:
  "\<exists>ns w c' hp'. swish_header_write (hl_cf (header_lib ns)) (lit ''1'') header_config header_heap = Inr w \<and>
    swish_header_read 1 (header_lib ns) (lit ''swish.xml'') header_heap = Inr (c', hp') \<and>
    same_header (hl_cf (header_lib ns)) (lit ''1'') header_config header_heap c' hp'"
proof -
  obtain ns where ns: "\<And>w. swish_header_write (hl_cf (header_lib ns)) (lit ''1'') header_config header_heap = Inr w \<Longrightarrow>
      \<exists>ms. hl_file (header_lib ns) (lit ''swish.xml'') = Some (ms, True) \<and> read_back w ms"
    using written_file [OF header_config_writable] by blast
  have "text_ok (lit ''1'')" by (simp add: text_ok_def isspace_def)
  then show ?thesis
    using header_round_trip [OF header_lib_ok header_config_writable _ header_lib_file ns, where n = 1 and ?hp2.0 = header_heap] by blast
qed

definition zero_heap :: heap where
  "zero_heap =
     header_heap\<lparr>h_metas := (h_metas header_heap)[0 := Some ((swish_metaname_init (lit ''swishtitle''))\<lparr>mn_id := 0\<rparr>)]\<rparr>"

lemma metaname_after_header_reuses_id_witness:
  "\<exists>ns c' hp' msg. swish_header_read 1 (header_lib ns) (lit ''swish.xml'') header_heap = Inr (c', hp') \<and>
    swish_metaname_new (hl_cf (header_lib ns)) (lit ''author'') c' hp' = Inl (Croak msg)"
proof -
  have ok: "writable (hl_cf (header_lib ns)) header_config zero_heap" for ns
    by (simp add: writable_def header_lib_def header_config_def sample_config_def header_heap_def zero_heap_def objs_ok_def
        objs_def ref_hash_def meta_ok_def prop_ok_def int_ok_def header_names_ok swish_metaname_init_def
        swish_property_init_def SWISH_PROP_INT_def lit_inj upt_rec del: lit_Cons)
  obtain ns where ns: "\<And>w. swish_header_write (hl_cf (header_lib ns)) (lit ''1'') header_config zero_heap = Inr w \<Longrightarrow>
      \<exists>ms. hl_file (header_lib ns) (lit ''swish.xml'') = Some (ms, True) \<and> read_back w ms"
    using written_file [OF ok] by blast
  have "text_ok (lit ''1'')" by (simp add: text_ok_def isspace_def)
  moreover have "lookup_obj (hl_ptr (header_lib ns)) (cf_metanames header_config) (h_metas zero_heap) (lit ''swishtitle'') =
      Some ((swish_metaname_init (lit ''swishtitle''))\<lparr>mn_id := 0\<rparr>)"
    by (simp add: lookup_obj_def header_lib_def header_config_def sample_config_def zero_heap_def header_heap_def
        swish_hash_fetch_def ref_hash_def upt_rec del: lit_Cons)
  ultimately show ?thesis
    using metaname_after_header_reuses_id [OF header_lib_ok ok _ header_lib_file ns, where n = 1 and ?hp2.0 = header_heap] by fastforce
qed

end
