(* ===== verification/Spec2Isabelle.thy ===== *)
theory Spec2Isabelle
  imports Utf8_Correct Strings_Correct StringLists_Correct SortString NamedBuffer_Correct Config_Typed Tokenizer_Correct Parse_File Parser_Faults Programs Memory Times Header_Samples
begin

text \<open>
  A verification development of libswish3, the document parser of Swish3, written in C
  (\<open>src/libswish3/\<close>). The library reads a configuration, parses documents with libxml2, and
  hands every document to its caller as two tables of text (by metaname and by property), a
  list of tokens, and what is known of the document itself.

  \<^bold>\<open>How the C program is modelled.\<close> An object in memory is the list of its bytes (\<open>mem\<close>), a
  pointer into it an offset; \<open>rd\<close> and \<open>wr\<close> are the accesses, and one outside the object is the
  fault \<open>OutOfBounds\<close>. Objects that are shared or released (metanames, properties, string
  lists) live in a \<open>heap\<close> under addresses; an address whose object was released, and a
  string field that was released (\<open>cell\<close>), give \<open>UseAfterFree\<close>. Every function returns
  \<open>'a res\<close>: \<open>Inr\<close> its result with the state it leaves, \<open>Inl\<close> a fault, where \<open>Croak\<close> is the
  program's own end with a message. \<open>bnd\<close> sequences calls. Bytes, code points and the fields that
  wrap are words; C \<open>int\<close>s that cannot wrap are \<open>int\<close>. Loops are functions with a measure, but
  for the one of \<open>Files\<close> that can go on for ever.
  Functions of the library are definitions of the same name. Debugging output, warnings and
  the count of allocations are left out where they are the only effect.

  \<^bold>\<open>What is a parameter.\<close> libxml2 (strings, buffers, hash tables, the SAX parsers as functions
  from bytes to events, the text reader as a function from a file to nodes), zlib, the operating
  system's files, the locale and the environment are not under \<open>src/\<close>: they are the records of
  \<open>Libxml\<close>, \<open>Files\<close>, \<open>Document\<close> and \<open>Header\<close>, with their documented behaviour as the
  hypotheses \<open>xml_str_ok\<close>, \<open>xml_buf_ok\<close>, \<open>xml_hash_ok\<close>, \<open>utf8_locale\<close>, each satisfied by a
  concrete instance on which the witnesses evaluate.

  \<^bold>\<open>The theories and the code.\<close>
  \<^item> \<open>Prelude\<close>: results, memory, C strings and \<open>ctype.h\<close>, with the lemmas all parts share.
  \<^item> \<open>Utf8\<close>, \<open>Utf8_Walk\<close>, \<open>Utf8_Text\<close>, \<open>Utf8_Codec\<close>, \<open>Utf8_Convert\<close>, \<open>Utf8_Valid\<close>, \<open>Utf8_Escape\<close>,
    \<open>Utf8_Correct\<close>: \<open>utf8.c\<close>. The codec, stepping, counting, escapes, search, validation and
    reversal; round trips, the longest prefix that fits a buffer, what ambiguous escapes read
    back as, and two reads past the end.
  \<^item> \<open>Strings\<close>, \<open>Strings_Correct\<close>: \<open>string.c\<close>, conversion, trimming, comparison, numbers,
    dates, booleans, escapes, case; both ends stripped, numbers through text, case folding.
  \<^item> \<open>StringLists\<close>, \<open>StringLists_Correct\<close>, \<open>SortString\<close>: the word lists of \<open>string.c\<close>, the
    reader of configuration lines, sort strings; the locale \<open>growing_array\<close> of appending
    arrays, and the two rebuilding routines that break its contract.
  \<^item> \<open>Hash\<close>: \<open>hash.c\<close>; the locale \<open>swish_table\<close> of finite maps, on which all clients rest.
  \<^item> \<open>NamedBuffer\<close>, \<open>NamedBuffer_Correct\<close>: \<open>namedbuffer.c\<close>, refined to a map of joined texts.
  \<^item> \<open>MetaProp\<close>, \<open>Mime\<close>, \<open>Config\<close>: \<open>metaname.c\<close>, \<open>property.c\<close>, \<open>analyzer.c\<close>,
    \<open>mime_types.c\<close>, \<open>config.c\<close>. \<open>Config_Correct\<close>: the MIME table, precedence in a merge, the
    faults a merge prepares. \<open>Config_Typed\<close>: the typing of the tables, kept by creation.
  \<^item> \<open>Tokens\<close>, \<open>Tokenizer\<close>, \<open>Tokens_Correct\<close>, \<open>Tokenizer_Correct\<close>: \<open>tokenizer.c\<close>. The token list
    refines a list of words with their metaname and context; the ASCII tokenizer equals a
    reference that splits, strips and numbers words; the faults of both tokenizers.
  \<^item> \<open>Files\<close>, \<open>DocInfo\<close>, \<open>Head\<close>: \<open>fs.c\<close>, \<open>io.c\<close>, \<open>docinfo.c\<close>, the document headers of
    \<open>parser.c\<close>.
  \<^item> \<open>TagStack\<close>, \<open>Parser\<close>, \<open>Tags\<close>, \<open>Sax\<close>, \<open>Document\<close>, \<open>Feed\<close>: \<open>parser.c\<close>. Stacks of open
    elements, collected text, opening and closing of elements with HTML meta tags and
    attributes, the SAX callbacks as a step relation, the parsers for XML, HTML and text,
    XInclude, and the entry points for buffers, files, streams and directories.
  \<^item> \<open>Parser_Correct\<close>: the invariant of all reachable parser states. \<open>Tree_Parse\<close>: a recursive
    reference over the tree of a document and its equivalence with the callbacks.
    \<open>Parse_File\<close>: from the name of a file to its indexed text. \<open>Parser_Faults\<close>: what goes
    wrong with dotted names, ignored meta tags and circular inclusion. \<open>Parser_Samples\<close>: the
    instances the witnesses use.
  \<^item> \<open>Library\<close>: \<open>swish.c\<close> and the library object.
  \<^item> \<open>Header\<close>, \<open>HeaderWrite\<close>: \<open>header.c\<close>, reader and writer. \<open>Header_Nodes\<close>, \<open>Header_Steps\<close>,
    \<open>Header_Objects\<close>, \<open>Header_Written\<close>, \<open>Header_RoundTrip\<close>, \<open>Header_Samples\<close>: a written
    configuration is read back, and what it loses.
  \<^item> \<open>Memory\<close>, \<open>Times\<close>: \<open>mem.c\<close> with its count of blocks, \<open>times.c\<close> with the blocks its
    texts are written into. \<open>Programs\<close>: the loops of \<open>swish_header.c\<close>, \<open>swish_lint.c\<close>,
    \<open>swish_tokenize.c\<close> and \<open>swish_utf8.c\<close> over the operations above.

  \<^bold>\<open>How the parts interact.\<close> \<open>swish_parse_file\<close> makes a parser state from the configuration
  (\<open>init_parser_data\<close>: named buffers from the tables of metanames and properties, a token
  iterator from the analyzer), completes the document information from the file system and the
  MIME table, reads the file, and runs libxml2, whose callbacks push and pop the stacks and flush
  the collected text into the named buffers and the tokenizer; the handler of the caller sees the
  state before it is released. Interfaces between them are the locales \<open>swish_table\<close> and
  \<open>growing_array\<close>, interpreted on the code's own definitions.

  \<^bold>\<open>Bounds and fuel.\<close> Three recursions of the program have no bound of their own:
  \<open>process_xinclude n\<close> (documents included in documents), \<open>swish_header_merge n\<close> (header
  files included in header files) and \<open>parse_directory d\<close> (directories). The number is the
  depth the C stack allows, and running out of it is a fault. The theorems on documents hold
  for every \<open>n\<close>: a document without inclusions needs none, and one that includes itself is
  not parsed for any. The loop of \<open>swish_io_slurp_gzfile_len\<close> triples an \<open>unsigned int\<close> that
  wraps around and need not end: \<open>gz_loop\<close> is a partial function, whose \<open>None\<close> becomes the fault
  \<open>NoReturn\<close>. \<open>gz_loop_returns\<close> gives the size up to which it ends with all of the data, and
  \<open>gz_loop_hangs\<close> a size from which it does not.

  \<^bold>\<open>Not modelled.\<close> The debugging printers; the formatted messages of \<open>error.c\<close>; the clocks
  behind \<open>times.c\<close> and \<open>getruntime.c\<close>; the count of blocks outside \<open>Memory\<close>, where all
  allocations are taken to succeed; option parsing and printing of the programs beside the
  library; the Xapian back end in C++ and the Perl bindings, which are clients of other libraries.
  The output errors of the header writer, and a caller's handler that changes the parser
  state, are outside the model.
\<close>

end
